(* ===== verification/Prelude.thy ===== *)
theory Prelude
  imports Main "HOL-Library.Word" "HOL-Library.Monad_Syntax"
begin

text \<open>
  Shared vocabulary of the development: the machine integers of the C sources, the C
  operators on \<^verbatim>\<open>int\<close> that the modelled files use, and the bit-level and list lemmas
  that several components share.

  Two conventions hold in every theory.
  \<^item> Where a source file works on bit patterns (\<^verbatim>\<open>bits.c\<close>, \<^verbatim>\<open>tests.c\<close>,
    \<^verbatim>\<open>recode57_alu.c\<close>, the address split of \<^verbatim>\<open>alpha4.0.c\<close>, the block headers of
    \<^verbatim>\<open>mm.c\<close>) an integer is a word of its width, so that wrap-around is part of the model.
  \<^item> Where a source file uses a signed integer as a plain number (indices, counters), it is
    an \<open>int\<close>; an operation whose signed overflow C leaves undefined is \<open>None\<close>
    outside the range of the type, or comes with a lemma that bounds the value.
\<close>

unbundle bit_operations_syntax

subsection \<open>Machine integers\<close>

type_synonym u8 = "8 word"
type_synonym u32 = "32 word"
type_synonym u64 = "64 word"

text \<open>The C type \<^verbatim>\<open>int\<close> as a bit pattern: two's complement, 32 bits.\<close>
type_synonym c_int = "32 word"

named_theorems c_ops \<comment> \<open>the C operators below, to be unfolded\<close>

text \<open>
  \<^verbatim>\<open>x << n\<close> and \<^verbatim>\<open>x >> n\<close> on a 32-bit \<^verbatim>\<open>int\<close>; the right shift is arithmetic. C leaves
  shifts by a negative amount or by 32 and more undefined: the properties that use
  these operators keep the amount below 32.
\<close>

definition shl :: "c_int \<Rightarrow> c_int \<Rightarrow> c_int" where
  [c_ops]: "shl x n = push_bit (unat n) x"

definition sar :: "c_int \<Rightarrow> c_int \<Rightarrow> c_int" where
  [c_ops]: "sar x n = signed_drop_bit (unat n) x"

text \<open>The logical negation \<^verbatim>\<open>!x\<close>: one for zero, zero for everything else.\<close>

definition lnot :: "c_int \<Rightarrow> c_int" where
  [c_ops]: "lnot x = (if x = 0 then 1 else 0)"

text \<open>The \<^verbatim>\<open>int\<close> value of a comparison or of a logical connective.\<close>

definition c_bool :: "bool \<Rightarrow> c_int" where
  [c_ops]: "c_bool b = (if b then 1 else 0)"

subsection \<open>Signed C integers as mathematical integers\<close>

definition int_min :: int where "int_min = - (2 ^ 31)"
definition int_max :: int where "int_max = 2 ^ 31 - 1"

text \<open>
  \<open>in_int z\<close>: the value is one of the type \<^verbatim>\<open>int\<close>. \<open>to_int32\<close> is the conversion of a
  wider integer to \<^verbatim>\<open>int\<close>, which keeps the low 32 bits.
\<close>

definition in_int :: "int \<Rightarrow> bool" where
  "in_int z \<longleftrightarrow> int_min \<le> z \<and> z \<le> int_max"

definition to_int32 :: "int \<Rightarrow> int" where
  "to_int32 z = (z + 2 ^ 31) mod 2 ^ 32 - 2 ^ 31"

lemma to_int32_id [simp]: "in_int z \<Longrightarrow> to_int32 z = z"
  by (simp add: to_int32_def in_int_def int_min_def int_max_def)

lemma in_int_to_int32: "in_int (to_int32 z)"
proof -
  have "0 \<le> (z + 2 ^ 31) mod 2 ^ 32" "(z + 2 ^ 31) mod 2 ^ 32 < 2 ^ 32"
    by simp_all
  then show ?thesis
    by (simp add: to_int32_def in_int_def int_min_def int_max_def)
qed

text \<open>
  Multiplication and division of \<^verbatim>\<open>int\<close>s. \<open>None\<close> is undefined behaviour: a product out of
  range, a division by zero (on x86 the trap that ends the process) or
  \<^verbatim>\<open>INT_MIN / -1\<close>. C division truncates towards zero.
\<close>

definition c_mul :: "int \<Rightarrow> int \<Rightarrow> int option" where
  "c_mul a b = (if in_int (a * b) then Some (a * b) else None)"

definition c_quot :: "int \<Rightarrow> int \<Rightarrow> int" where
  "c_quot a b =
     (if (a < 0) = (b < 0) then \<bar>a\<bar> div \<bar>b\<bar> else - (\<bar>a\<bar> div \<bar>b\<bar>))"

definition c_div :: "int \<Rightarrow> int \<Rightarrow> int option" where
  "c_div a b = (if b = 0 \<or> \<not> in_int (c_quot a b) then None else Some (c_quot a b))"

lemma c_quot_nonneg [simp]: "0 \<le> a \<Longrightarrow> 0 < b \<Longrightarrow> c_quot a b = a div b"
  by (simp add: c_quot_def)

lemma c_mul_Some: "c_mul a b = Some r \<longleftrightarrow> in_int r \<and> r = a * b"
  by (auto simp: c_mul_def)

subsection \<open>Bits of words\<close>

text \<open>
  Two words with the same bits below their width are equal. Over a closed width the bits
  can be enumerated, which is how the bit-twiddling routines are proved: each bit of each
  side is computed by the simplifier.
\<close>

lemma all_less_8:
  "(\<forall>n<8. P n) \<longleftrightarrow> P 0 \<and> P 1 \<and> P 2 \<and> P 3 \<and> P 4 \<and> P 5 \<and> P 6 \<and> P (7::nat)"
  by (simp add: numeral_eq_Suc All_less_Suc conj_ac)

lemma all_less_32:
  "(\<forall>n<32. P n) \<longleftrightarrow> (\<forall>n<8. P n) \<and> (\<forall>n<8. P (8 + n)) \<and> (\<forall>n<8. P (16 + n)) \<and> (\<forall>n<8. P (24 + (n::nat)))"
  by (simp add: numeral_eq_Suc All_less_Suc conj_ac)

lemma word32_eqI: "(\<forall>n<32. bit a n = bit b n) \<Longrightarrow> a = (b :: 32 word)"
  by (rule bit_word_eqI) simp

lemma word8_eqI: "(\<forall>n<8. bit a n = bit b n) \<Longrightarrow> a = (b :: 8 word)"
  by (rule bit_word_eqI) simp

lemmas word32_by_bits = word32_eqI [unfolded all_less_32 all_less_8, simplified]
lemmas word8_by_bits = word8_eqI [unfolded all_less_8]

text \<open>A word below a power of two has no bits from that position on.\<close>

lemma bit_above_bound:
  fixes w :: "'a::len word"
  assumes "uint w < 2 ^ k" and "k \<le> n"
  shows "\<not> bit w n"
proof -
  have "take_bit k (uint w) = uint w"
    using assms(1) by (simp add: take_bit_int_eq_self)
  then have "bit (uint w) n = bit (take_bit k (uint w)) n" by simp
  then have "\<not> bit (uint w) n" using assms(2) by (simp add: bit_take_bit_iff)
  then show ?thesis by (auto simp: bit_uint_iff dest: bit_imp_le_length)
qed

text \<open>The sign bit and the arithmetic shift by 31.\<close>

lemma sar_31: "signed_drop_bit 31 (x :: 32 word) = (if bit x 31 then - 1 else 0)"
  by (rule bit_word_eqI) (auto simp: bit_simps not_le less_Suc_eq)

lemma bit31_sint: "bit (x :: 32 word) 31 \<longleftrightarrow> sint x < 0"
  using bit_last_iff [of x] by simp

lemma bit31_uint: "bit (x :: 32 word) 31 \<longleftrightarrow> 2 ^ 31 \<le> uint x"
proof -
  have "bit x 31 = bit (uint x) 31" by (simp add: bit_uint_iff)
  also have "\<dots> \<longleftrightarrow> odd (uint x div 2 ^ 31)" by (simp add: bit_iff_odd)
  also have "\<dots> \<longleftrightarrow> 2 ^ 31 \<le> uint x"
  proof -
    have "0 \<le> uint x" "uint x < 2 ^ 32" using uint_lt2p [of x] by simp_all
    then have "uint x div 2 ^ 31 \<in> {0, 1}" "uint x div 2 ^ 31 = 1 \<longleftrightarrow> 2 ^ 31 \<le> uint x" by auto
    then show ?thesis by auto
  qed
  finally show ?thesis .
qed

text \<open>The signed reading of a word from the unsigned one, and subtraction that may wrap.\<close>

lemma sint_uint32: "sint (x :: 32 word) = (if uint x < 2 ^ 31 then uint x else uint x - 2 ^ 32)"
proof -
  have u: "0 \<le> uint x" "uint x < 4294967296" using uint_lt2p [of x] by simp_all
  have "sint x = take_bit 32 (uint x + 2 ^ 31) - 2 ^ 31"
    by (simp add: sint_uint signed_take_bit_eq_take_bit_shift)
  also have "\<dots> = (uint x + 2 ^ 31) mod 2 ^ 32 - 2 ^ 31"
    by (simp add: take_bit_eq_mod)
  finally show ?thesis
    using u mod_pos_pos_trivial [of "uint x - 2147483648" 4294967296]
      mod_add_self2 [of "uint x - 2147483648" 4294967296]
    by (cases "uint x < 2147483648") (simp_all add: algebra_simps)
qed

lemma uint_of_small_int: "0 \<le> z \<Longrightarrow> z < 2 ^ LENGTH('a) \<Longrightarrow> uint (word_of_int z :: 'a::len word) = z"
  by (simp add: uint_word_of_int_eq take_bit_int_eq_self)

lemma uint_add_small:
  assumes "0 \<le> sint x + k" "sint x + k < 2 ^ 32"
  shows "uint (x + word_of_int k :: 32 word) = sint x + k"
proof -
  have "x + word_of_int k = word_of_int (sint x + k)" by simp
  moreover have "uint (word_of_int (sint x + k) :: 32 word) = sint x + k"
    using assms by (intro uint_of_small_int) simp_all
  ultimately show ?thesis by (simp only:)
qed

lemma diff_mod_wrap:
  assumes "0 \<le> a" "a < m" "0 \<le> k" "k < (m::int)"
  shows "(a - k) mod m = (if a < k then a - k + m else a - k)"
proof (cases "a < k")
  case True
  have "(a - k) mod m = (a - k + m) mod m" by simp
  then show ?thesis using assms True by (simp del: mod_add_self2)
qed (use assms in simp)

text \<open>A shift amount that is small as a signed number is small as an unsigned one.\<close>

lemma small_shift:
  fixes n :: c_int
  assumes "0 \<le>s n" and "n \<le>s 31"
  shows "sint n = uint n" and "unat n < 32" and "uint n < 32"
proof -
  have "uint n < 4294967296" using uint_lt2p [of n] by simp
  moreover have "0 \<le> sint n" "sint n \<le> 31" using assms by (simp_all add: word_sle_eq)
  ultimately have *: "sint n = uint n \<and> uint n \<le> 31" using sint_uint32 [of n]
    by (cases "uint n < 2 ^ 31") simp_all
  then show "sint n = uint n" "uint n < 32" by simp_all
  have "int (unat n) < int 32" using * by simp
  then show "unat n < 32" by (simp only: of_nat_less_iff)
qed

lemma xor_zero_iff: "a XOR b = 0 \<longleftrightarrow> a = (b :: 'a::len word)"
  by (auto simp: bit_eq_iff bit_xor_iff)

lemma and_bit_zero: "(x AND push_bit i 1 = 0) \<longleftrightarrow> \<not> bit (x :: 'a::len word) i"
  by (simp add: bit_iff_and_push_bit_not_eq_0)

subsection \<open>Arrays\<close>

text \<open>
  An array is the list of its elements from the pointer on. An access past its end is
  undefined in C and has no value here.
\<close>

primrec at :: "'a list \<Rightarrow> nat \<Rightarrow> 'a option" where
  "at [] i = None"
| "at (x # xs) i = (case i of 0 \<Rightarrow> Some x | Suc j \<Rightarrow> at xs j)"

lemma at_Cons [simp]: "at (x # xs) 0 = Some x" "at (x # xs) (Suc i) = at xs i"
  by simp_all

lemma at_Cons_numeral [simp]: "at (x # xs) (numeral k) = at xs (pred_numeral k)"
  by (simp add: numeral_eq_Suc)

declare at.simps(2) [simp del]

lemma at_None [simp]: "at xs i = None \<longleftrightarrow> length xs \<le> i"
  by (induction xs arbitrary: i) (auto simp: at.simps(2) split: nat.splits)

lemma at_Some [simp]: "i < length xs \<Longrightarrow> at xs i = Some (xs ! i)"
  by (induction xs arbitrary: i) (auto simp: at.simps(2) nth_Cons split: nat.splits)

lemma at_append_le: "i < length xs \<Longrightarrow> at (xs @ ys) i = at xs i"
  by (simp add: nth_append)

text \<open>An array read at a signed index.\<close>

definition elem :: "'a list \<Rightarrow> int \<Rightarrow> 'a option" where
  "elem xs i = (if i < 0 then None else at xs (nat i))"

lemma elem_Some [simp]: "0 \<le> i \<Longrightarrow> nat i < length xs \<Longrightarrow> elem xs i = Some (xs ! nat i)"
  by (simp add: elem_def)

lemma elem_of_nat [simp]: "elem xs (int n) = at xs n"
  by (simp add: elem_def)

subsection \<open>Decimal strings\<close>

text \<open>
  The library functions \<^verbatim>\<open>atol\<close> and \<^verbatim>\<open>atoi\<close>: white space, an optional sign, then the
  digits up to the first character that is not one. A value that does not fit the type has no
  defined result.
\<close>

definition is_space :: "char \<Rightarrow> bool" where
  "is_space c \<longleftrightarrow> c \<in> {CHR '' '', CHR 0x09, CHR 0x0A, CHR 0x0B, CHR 0x0C, CHR 0x0D}"

definition digit_value :: "char \<Rightarrow> int" where
  "digit_value c = of_char c - 48"

definition is_digit :: "char \<Rightarrow> bool" where
  "is_digit c \<longleftrightarrow> 0 \<le> digit_value c \<and> digit_value c \<le> 9"

fun parse_sign :: "string \<Rightarrow> int \<times> string" where
  "parse_sign (c # cs) =
     (if c = CHR ''-'' then (- 1, cs) else if c = CHR ''+'' then (1, cs) else (1, c # cs))"
| "parse_sign [] = (1, [])"

definition parse_digits :: "string \<Rightarrow> int" where
  "parse_digits s = foldl (\<lambda>v c. 10 * v + digit_value c) 0 (takeWhile is_digit s)"

definition atol :: "string \<Rightarrow> int option" where
  "atol s =
     (case parse_sign (dropWhile is_space s) of (sign, ds) \<Rightarrow>
        let v = sign * parse_digits ds
        in if - (2 ^ 63) \<le> v \<and> v < 2 ^ 63 then Some v else None)"

definition atoi :: "string \<Rightarrow> int option" where
  "atoi s = do { v \<leftarrow> atol s; if in_int v then Some v else None }"

end
