(* ===== verification/Decimal.thy ===== *)
theory Decimal
  imports Prelude
begin

text \<open>
  Decimal and hexadecimal texts: the digits of a number, as \<^verbatim>\<open>printf\<close> writes them, and the library function
  \<^verbatim>\<open>strtoll\<close> with base 0, which reads decimal, octal and hexadecimal numbers.
\<close>

subsection \<open>The digits of a number\<close>

fun decimal :: "nat \<Rightarrow> string" where
  "decimal n = (if n < 10 then [char_of (48 + n)] else decimal (n div 10) @ [char_of (48 + n mod 10)])"

declare decimal.simps [simp del]

lemma digito: "n < 10 \<Longrightarrow> digit_value (char_of (48 + n)) = int n \<and> is_digit (char_of (48 + n))"
  using of_nat_of_char [where ?'a = int, of "char_of (48 + n)"] by (simp add: is_digit_def digit_value_def)

lemma decimal_digitos: "list_all is_digit (decimal n)"
  by (induction n rule: decimal.induct) (subst decimal.simps, simp add: digito)

lemma decimal_valor: "foldl (\<lambda>v c. 10 * v + digit_value c) 0 (decimal n) = int n"
proof (induction n rule: decimal.induct)
  case (1 n)
  show ?case
  proof (cases "n < 10")
    case True
    then show ?thesis by (simp add: decimal.simps [of n] digito)
  next
    case False
    then have "foldl (\<lambda>v c. 10 * v + digit_value c) 0 (decimal n) = 10 * int (n div 10) + int (n mod 10)"
      using 1 digito [of "n mod 10"] by (simp add: decimal.simps [of n])
    also have "\<dots> = int n" using div_mult_mod_eq [of n 10] by linarith
    finally show ?thesis .
  qed
qed

lemma decimal_no_vacio: "decimal n \<noteq> []"
  by (simp add: decimal.simps [of n])

lemma digito_no_espacio: "is_digit c \<Longrightarrow> \<not> is_space c \<and> c \<noteq> CHR ''-'' \<and> c \<noteq> CHR ''+''"
  by (auto simp: is_digit_def is_space_def digit_value_def)

lemma decimal_valor_parse: "parse_digits (decimal n) = int n"
  using decimal_digitos [of n] by (simp add: parse_digits_def decimal_valor takeWhile_eq_all_conv [THEN iffD2] list_all_iff)

lemma decimal_cero: "0 < n \<Longrightarrow> hd (decimal n) \<noteq> CHR ''0''"
proof (induction n rule: decimal.induct)
  case (1 n)
  show ?case
  proof (cases "n < 10")
    case True
    then have "digit_value (hd (decimal n)) = int n" by (simp add: decimal.simps [of n] digito)
    then show ?thesis using 1 by (auto simp: digit_value_def)
  next
    case False
    then show ?thesis using 1 by (simp add: decimal.simps [of n] decimal_no_vacio)
  qed
qed

definition texto_int :: "int \<Rightarrow> string" where
  "texto_int z = (if z < 0 then CHR ''-'' # decimal (nat (- z)) else decimal (nat z))"

subsection \<open>\<^verbatim>\<open>strtoll\<close>\<close>

text \<open>
  White space, a sign, \<open>0x\<close> before a hexadecimal digit for base 16, \<open>0\<close> for base 8, else
  base 10; the digits up to the first character that is none; a value out of range is the nearest one
  in it.
\<close>

definition valor_hex :: "char \<Rightarrow> int" where
  "valor_hex c =
     (let v = of_char c :: int
      in if 48 \<le> v \<and> v \<le> 57 then v - 48 else if 65 \<le> v \<and> v \<le> 70 then v - 55
         else if 97 \<le> v \<and> v \<le> 102 then v - 87 else 16)"

definition valor_base :: "int \<Rightarrow> string \<Rightarrow> int" where
  "valor_base b s = foldl (\<lambda>v c. b * v + valor_hex c) 0 (takeWhile (\<lambda>c. valor_hex c < b) s)"

definition strtoll_base :: "string \<Rightarrow> int \<times> string" where
  "strtoll_base t =
     (case t of
        c # x # h # cs \<Rightarrow>
          if c = CHR ''0'' \<and> (x = CHR ''x'' \<or> x = CHR ''X'') \<and> valor_hex h < 16 then (16, h # cs)
          else (if c = CHR ''0'' then 8 else 10, t)
      | c # cs \<Rightarrow> (if c = CHR ''0'' then 8 else 10, t)
      | [] \<Rightarrow> (10, t))"

definition strtoll :: "string \<Rightarrow> int" where
  "strtoll s =
     (case parse_sign (dropWhile is_space s) of (sg, t) \<Rightarrow>
        (case strtoll_base t of (b, ds) \<Rightarrow>
           let v = sg * valor_base b ds
           in if v < - (2 ^ 63) then - (2 ^ 63) else if v > 2 ^ 63 - 1 then 2 ^ 63 - 1 else v))"

lemma valor_hex_digito: "is_digit c \<Longrightarrow> valor_hex c = digit_value c \<and> valor_hex c < 10"
  by (simp add: valor_hex_def is_digit_def digit_value_def)

lemma valor_base_decimal: "valor_base 10 (decimal n) = int n"
proof -
  have v: "valor_hex c = digit_value c \<and> valor_hex c < 10" if "c \<in> set (decimal n)" for c
    using that decimal_digitos [of n] valor_hex_digito unfolding list_all_iff by blast
  then have "takeWhile (\<lambda>c. valor_hex c < 10) (decimal n) = decimal n" unfolding takeWhile_eq_all_conv by blast
  moreover have "foldl (\<lambda>v c. 10 * v + valor_hex c) 0 (decimal n) = foldl (\<lambda>v c. 10 * v + digit_value c) 0 (decimal n)"
    by (rule foldl_cong) (simp_all add: v)
  ultimately show ?thesis by (simp only: valor_base_def decimal_valor)
qed

text \<open>The last \<open>k\<close> hexadecimal digits of a number, in lower case.\<close>

definition cifra_hex :: "nat \<Rightarrow> char" where
  "cifra_hex n = char_of (if n < 10 then 48 + n else 87 + n)"

primrec hexadecimal :: "nat \<Rightarrow> nat \<Rightarrow> string" where
  "hexadecimal 0 n = []"
| "hexadecimal (Suc k) n = hexadecimal k (n div 16) @ [cifra_hex (n mod 16)]"

lemma hexadecimal_numeral:
  "hexadecimal (numeral k) n = hexadecimal (pred_numeral k) (n div 16) @ [cifra_hex (n mod 16)]"
  unfolding numeral_eq_Suc [of k] by (rule hexadecimal.simps)

lemma cifra_hex_valor: "n < 16 \<Longrightarrow> valor_hex (cifra_hex n) = int n"
  using of_nat_of_char [where ?'a = int, of "cifra_hex n"] by (auto simp: valor_hex_def cifra_hex_def)

lemma hexadecimal_cifras: "c \<in> set (hexadecimal k n) \<Longrightarrow> valor_hex c < 16"
  by (induction k arbitrary: n) (auto simp: cifra_hex_valor)

lemma length_hexadecimal [simp]: "length (hexadecimal k n) = k"
  by (induction k arbitrary: n) simp_all

lemma hexadecimal_valor: "foldl (\<lambda>v c. 16 * v + valor_hex c) 0 (hexadecimal k n) = int (n mod 16 ^ k)"
proof (induction k arbitrary: n)
  case (Suc k)
  have "n mod (16 * 16 ^ k) = 16 * (n div 16 mod 16 ^ k) + n mod 16" by (rule mod_mult2_eq)
  then show ?case using Suc by (simp add: cifra_hex_valor)
qed simp

lemma valor_base_hexadecimal: "valor_base 16 (hexadecimal k n) = int (n mod 16 ^ k)"
proof -
  have "takeWhile (\<lambda>c. valor_hex c < 16) (hexadecimal k n) = hexadecimal k n"
    unfolding takeWhile_eq_all_conv using hexadecimal_cifras by blast
  then show ?thesis by (simp only: valor_base_def hexadecimal_valor)
qed

lemma strtoll_hexadecimal: "0 < k \<Longrightarrow> n < 16 ^ k \<Longrightarrow> n < 2 ^ 63 \<Longrightarrow> strtoll (''0x'' @ hexadecimal k n) = int n"
proof -
  assume k: "0 < k" and n: "n < 16 ^ k" "n < 2 ^ 63"
  obtain c cs where h: "hexadecimal k n = c # cs" using k by (cases "hexadecimal k n") (auto simp flip: length_0_conv)
  then have "valor_hex c < 16" using hexadecimal_cifras [of c k n] by simp
  then have b: "strtoll_base (''0x'' @ hexadecimal k n) = (16, hexadecimal k n)" by (simp add: strtoll_base_def h)
  have p: "parse_sign (dropWhile is_space (''0x'' @ hexadecimal k n)) = (1, ''0x'' @ hexadecimal k n)"
    by (simp add: is_space_def)
  show ?thesis unfolding strtoll_def p prod.case b Let_def valor_base_hexadecimal using n by simp
qed

lemma strtoll_base_decimal: "valor_base (fst (strtoll_base (decimal n))) (snd (strtoll_base (decimal n))) = int n"
proof (cases "n = 0")
  case True
  then have "decimal n = ''0''" by (simp add: decimal.simps char_of_eq_iff take_bit_eq_mod)
  then show ?thesis using True by (simp add: strtoll_base_def valor_base_def valor_hex_def)
next
  case False
  then have "hd (decimal n) \<noteq> CHR ''0''" by (simp add: decimal_cero)
  then have "strtoll_base (decimal n) = (10, decimal n)"
    using decimal_no_vacio [of n] by (auto simp: strtoll_base_def split: list.split)
  then show ?thesis by (simp add: valor_base_decimal)
qed

lemma strtoll_texto_int: "strtoll (texto_int z) = max (- (2 ^ 63)) (min z (2 ^ 63 - 1))"
proof -
  let ?n = "nat \<bar>z\<bar>"
  obtain b ds where b: "strtoll_base (decimal ?n) = (b, ds)" "valor_base b ds = \<bar>z\<bar>"
    using strtoll_base_decimal [of ?n] by (cases "strtoll_base (decimal ?n)") simp
  obtain c cs where d: "decimal ?n = c # cs" by (cases "decimal ?n") (simp_all add: decimal_no_vacio)
  then have "is_digit c" using decimal_digitos [of ?n] by simp
  then have "\<not> is_space c" "parse_sign (decimal ?n) = (1, decimal ?n)"
    using digito_no_espacio [of c] d by simp_all
  then have "parse_sign (dropWhile is_space (texto_int z)) = (if z < 0 then - 1 else 1, decimal ?n)"
    using d by (cases "z < 0") (simp_all add: texto_int_def, simp add: is_space_def)
  then show ?thesis using b by (auto simp: strtoll_def Let_def)
qed

end
