(* ===== verification/Bits.thy ===== *)
theory Bits
  imports Prelude
begin

text \<open>
  \<^verbatim>\<open>Labs individuales/lab2/bits.c\<close>: the integer puzzles, written with a restricted set of
  operators. Each definition keeps the locals of the C function; an \<^verbatim>\<open>int\<close> is a 32-bit
  pattern, since the file assumes two's complement, 32 bits and arithmetic right shifts.
  The floating-point puzzles of the same file are in the theory of bit-level floats.
\<close>

definition bitAnd :: "c_int \<Rightarrow> c_int \<Rightarrow> c_int" where
  "bitAnd x y =
     (let result = NOT x OR NOT y
      in NOT result)"

definition bitXor :: "c_int \<Rightarrow> c_int \<Rightarrow> c_int" where
  "bitXor x y =
     (let operation_1 = NOT (x AND y);
          operation_2 = NOT (NOT x AND NOT y)
      in operation_1 AND operation_2)"

definition negate :: "c_int \<Rightarrow> c_int" where
  "negate x =
     (let result = NOT x + 1
      in result)"

definition byteSwap :: "c_int \<Rightarrow> c_int \<Rightarrow> c_int \<Rightarrow> c_int" where
  "byteSwap x n m =
     (let mask_ff = 0xFF;
          bits_n = shl n 3;
          bits_m = shl m 3;
          byte_n = sar x bits_n AND mask_ff;
          byte_m = sar x bits_m AND mask_ff;
          bytes_swapped = shl byte_n bits_m OR shl byte_m bits_n;
          mask1 = NOT (shl mask_ff bits_m OR shl mask_ff bits_n);
          mask1 = x AND mask1
      in mask1 OR bytes_swapped)"

definition allOddBits :: "c_int \<Rightarrow> c_int" where
  "allOddBits x =
     (let mask = 0xAA;
          mask = shl mask 8 OR mask;
          mask = shl mask 16 OR mask
      in lnot ((x AND mask) XOR mask))"

definition bitMask :: "c_int \<Rightarrow> c_int \<Rightarrow> c_int" where
  "bitMask highbit lowbit =
     (let all_ones_mask = NOT 0;
          high_bits = shl (shl all_ones_mask highbit) 1;
          low_bits = shl all_ones_mask lowbit
      in (high_bits XOR low_bits) AND low_bits)"

definition conditional :: "c_int \<Rightarrow> c_int \<Rightarrow> c_int \<Rightarrow> c_int" where
  "conditional x y z =
     (let x = lnot (lnot x);
          x = NOT x + 1
      in (x AND y) OR (NOT x AND z))"

definition isAsciiDigit :: "c_int \<Rightarrow> c_int" where
  "isAsciiDigit x =
     (let lower_limit = 0x2F;
          upper_limit = 0x3A;
          lower_limit = NOT lower_limit + x;
          lower_limit = sar lower_limit 31;
          upper_limit = upper_limit + NOT x;
          upper_limit = sar upper_limit 31
      in lnot (lower_limit OR upper_limit))"

definition isNonZero :: "c_int \<Rightarrow> c_int" where
  "isNonZero x =
     (let not_x = NOT x + 1
      in sar (x OR not_x) 31 AND 1)"

definition logicalNeg :: "c_int \<Rightarrow> c_int" where
  "logicalNeg x =
     (let not_x = NOT x + 1;
          mask = NOT 0
      in (sar (x OR not_x) 31 XOR mask) AND 1)"

subsection \<open>The reference functions of \<^verbatim>\<open>tests.c\<close>\<close>

text \<open>
  The functions the test harness compares each puzzle with. \<^verbatim>\<open>test_byteSwap\<close> mixes
  \<^verbatim>\<open>int\<close> and \<^verbatim>\<open>unsigned\<close>; both are 32-bit patterns. Its two \<^verbatim>\<open>switch\<close> statements
  take out one byte each: byte \<open>k\<close> and the word without it.
\<close>

definition test_bitAnd :: "c_int \<Rightarrow> c_int \<Rightarrow> c_int" where
  "test_bitAnd x y = x AND y"

definition test_bitXor :: "c_int \<Rightarrow> c_int \<Rightarrow> c_int" where
  "test_bitXor x y = x XOR y"

definition test_negate :: "c_int \<Rightarrow> c_int" where
  "test_negate x = - x"

definition take_out_byte :: "c_int \<Rightarrow> c_int \<Rightarrow> u32 \<times> c_int" where
  "take_out_byte x n =
     (if n = 0 then (x AND 0xFF, x AND 0xFFFFFF00)
      else if n = 1 then (sar (x AND 0xFF00) 8, x AND 0xFFFF00FF)
      else if n = 2 then (sar (x AND 0xFF0000) 16, x AND 0xFF00FFFF)
      else (drop_bit 24 (x AND 0xFF000000), x AND 0x00FFFFFF))"

definition test_byteSwap :: "c_int \<Rightarrow> c_int \<Rightarrow> c_int \<Rightarrow> c_int" where
  "test_byteSwap x n m =
     (let (nmask, x) = take_out_byte x n;
          (mmask, x) = take_out_byte x m;
          nmask = shl nmask (8 * m);
          mmask = shl mmask (8 * n)
      in x OR nmask OR mmask)"

text \<open>The loops of \<^verbatim>\<open>test_allOddBits\<close> and \<^verbatim>\<open>test_bitMask\<close>; the counter is a small \<^verbatim>\<open>int\<close>.\<close>

function test_allOddBits_loop :: "c_int \<Rightarrow> nat \<Rightarrow> c_int" where
  "test_allOddBits_loop x i =
     (if i < 32 then
        if x AND push_bit i 1 = 0 then 0 else test_allOddBits_loop x (i + 2)
      else 1)"
  by pat_completeness auto
termination
  by (relation "measure (\<lambda>(x, i). 32 - i)") auto

declare test_allOddBits_loop.simps [simp del]

definition test_allOddBits :: "c_int \<Rightarrow> c_int" where
  "test_allOddBits x = test_allOddBits_loop x 1"

function test_bitMask_loop :: "int \<Rightarrow> int \<Rightarrow> c_int \<Rightarrow> c_int" where
  "test_bitMask_loop highbit i result =
     (if i \<le> highbit then test_bitMask_loop highbit (i + 1) (result OR push_bit (nat i) 1)
      else result)"
  by pat_completeness auto
termination
  by (relation "measure (\<lambda>(highbit, i, result). nat (highbit + 1 - i))") auto

declare test_bitMask_loop.simps [simp del]

definition test_bitMask :: "c_int \<Rightarrow> c_int \<Rightarrow> c_int" where
  "test_bitMask highbit lowbit = test_bitMask_loop (sint highbit) (sint lowbit) 0"

definition test_conditional :: "c_int \<Rightarrow> c_int \<Rightarrow> c_int \<Rightarrow> c_int" where
  "test_conditional x y z = (if x \<noteq> 0 then y else z)"

definition test_isAsciiDigit :: "c_int \<Rightarrow> c_int" where
  "test_isAsciiDigit x = c_bool (0x30 \<le>s x \<and> x \<le>s 0x39)"

definition test_isNonZero :: "c_int \<Rightarrow> c_int" where
  "test_isNonZero x = c_bool (x \<noteq> 0)"

definition test_logicalNeg :: "c_int \<Rightarrow> c_int" where
  "test_logicalNeg x = lnot x"

subsection \<open>Lemmas\<close>

lemma neg_word: "NOT x + 1 = - (x :: 32 word)"
  by (simp add: minus_eq_not_plus_1)

lemma or_neg_sign: "bit (x OR - x) 31 \<longleftrightarrow> x \<noteq> (0 :: 32 word)"
proof (cases "x = 0")
  case False
  then have "uint x \<noteq> 0" by (simp add: uint_0_iff)
  moreover have "uint (- x) = (- uint x) mod 2 ^ 32"
    by (simp add: uint_word_ariths)
  moreover have "0 \<le> uint x" "uint x < 2 ^ 32" using uint_lt2p [of x] by simp_all
  ultimately have "uint (- x) = 2 ^ 32 - uint x"
    by (smt (verit) mod_pos_pos_trivial zmod_zminus1_eq_if)
  then have "2 ^ 31 \<le> uint x \<or> 2 ^ 31 \<le> uint (- x)" by (cases "2 ^ 31 \<le> uint x") auto
  then have "bit x 31 \<or> bit (- x) 31" by (simp add: bit31_uint)
  then show ?thesis using False by (simp add: bit_or_iff)
qed simp

lemma or_neg_sar: "signed_drop_bit 31 (x OR - x) = (if x = (0 :: 32 word) then 0 else - 1)"
  by (simp add: sar_31 or_neg_sign)

text \<open>The loop of \<^verbatim>\<open>test_allOddBits\<close> checks every bit of the counter's parity from it on.\<close>

lemma test_allOddBits_loop_eq:
  "test_allOddBits_loop x i =
     (if \<forall>j. i \<le> j \<and> j < 32 \<and> even j = even i \<longrightarrow> bit x j then 1 else 0)"
proof (induction x i rule: test_allOddBits_loop.induct)
  case (1 x i)
  show ?case
  proof (cases "i < 32 \<and> bit x i")
    case True
    then have "i < 32" by simp
    then have "(i \<le> j \<and> j < 32 \<and> even j = even i) \<longleftrightarrow>
        j = i \<or> (i + 2 \<le> j \<and> j < 32 \<and> even j = even (i + 2))" for j
      by presburger
    then have "(\<forall>j. i \<le> j \<and> j < 32 \<and> even j = even i \<longrightarrow> bit x j) \<longleftrightarrow>
        (\<forall>j. i + 2 \<le> j \<and> j < 32 \<and> even j = even (i + 2) \<longrightarrow> bit x j)"
      using True by metis
    with True 1 show ?thesis
      by (subst test_allOddBits_loop.simps) (simp only: and_bit_zero if_True if_False simp_thms)
  next
    case False
    then show ?thesis
      by (subst test_allOddBits_loop.simps)
        (auto simp only: and_bit_zero if_True if_False simp_thms split: if_splits)
  qed
qed

lemma bit_odd_mask: "\<forall>n<32. bit (0xAAAAAAAA :: 32 word) n = odd n"
  unfolding all_less_32 all_less_8 by simp

lemma and_odd_mask: "(x AND 0xAAAAAAAA = (0xAAAAAAAA :: 32 word)) \<longleftrightarrow> (\<forall>n<32. odd n \<longrightarrow> bit x n)"
  using bit_odd_mask by (auto simp: bit_eq_iff bit_and_iff)

text \<open>The loop of \<^verbatim>\<open>test_bitMask\<close> sets the bits from the counter to \<open>highbit\<close>.\<close>

lemma test_bitMask_loop_bit:
  "0 \<le> i \<Longrightarrow> h < 32 \<Longrightarrow>
     bit (test_bitMask_loop h i r) n \<longleftrightarrow> bit r n \<or> i \<le> int n \<and> int n \<le> h"
proof (induction h i r rule: test_bitMask_loop.induct)
  case (1 h i r)
  then show ?case by (subst test_bitMask_loop.simps) (auto simp: bit_simps)
qed

lemma bitMask_bit: "n < 32 \<Longrightarrow> bit (bitMask h l) n \<longleftrightarrow> unat l \<le> n \<and> n \<le> unat h"
  by (auto simp: bitMask_def c_ops bit_simps)

lemma test_bitMask_bit:
  assumes "0 \<le>s h" "h \<le>s 31" "0 \<le>s l" "l \<le>s 31"
  shows "bit (test_bitMask h l) n \<longleftrightarrow> unat l \<le> n \<and> n \<le> unat h"
proof -
  note h = small_shift [OF assms(1,2)] and l = small_shift [OF assms(3,4)]
  have "bit (test_bitMask h l) n \<longleftrightarrow> int (unat l) \<le> int n \<and> int n \<le> int (unat h)"
    unfolding test_bitMask_def h(1) l(1)
    using test_bitMask_loop_bit [of "int (unat l)" "int (unat h)" 0 n] h(3) by simp
  then show ?thesis by (simp only: of_nat_le_iff)
qed

lemma byte_number_cases:
  assumes "0 \<le>s n" and "n \<le>s 3"
  shows "n = 0 \<or> n = 1 \<or> n = 2 \<or> n = (3 :: c_int)"
proof -
  have "sint n = sint (0 :: c_int) \<or> sint n = sint (1 :: c_int) \<or>
      sint n = sint (2 :: c_int) \<or> sint n = sint (3 :: c_int)"
    using assms by (auto simp: word_sle_eq)
  then show ?thesis by (metis word_eq_iff_signed)
qed

lemma byteSwap_cases:
  assumes "n = 0 \<or> n = 1 \<or> n = 2 \<or> n = 3" and "m = 0 \<or> m = 1 \<or> m = 2 \<or> m = 3"
  shows "byteSwap x n m = test_byteSwap x n m"
  using assms
  by (elim disjE, simp_all add: byteSwap_def test_byteSwap_def take_out_byte_def c_ops)
    (rule word32_by_bits, simp add: bit_simps)+

lemma isAsciiDigit_value: "isAsciiDigit x = c_bool (48 \<le> sint x \<and> sint x \<le> 57)"
proof -
  let ?u = "uint x"
  have u: "0 \<le> ?u" "?u < 2 ^ 32" using uint_lt2p [of x] by simp_all
  have "uint (x - 48) = (?u - 48) mod 2 ^ 32" by (simp add: uint_word_ariths mod_simps)
  then have lo: "uint (x - 48) = (if ?u < 48 then ?u - 48 + 2 ^ 32 else ?u - 48)"
    using u by (simp add: diff_mod_wrap)
  have "uint (57 - x) = (57 - ?u) mod 2 ^ 32" by (simp add: uint_word_ariths mod_simps)
  then have hi: "uint (57 - x) = (if 57 < ?u then 57 - ?u + 2 ^ 32 else 57 - ?u)"
    using u by (simp add: diff_mod_wrap)
  have n: "58 + NOT x = 57 - x" by (simp add: not_eq_complement)
  show ?thesis
    using u by (simp add: isAsciiDigit_def c_ops sar_31 bit31_uint n lo hi sint_uint32)
qed

subsection \<open>Every puzzle computes its reference function\<close>

text \<open>
  The one- and two-operator puzzles without a precondition agree with the functions the
  harness compares them with, on every pattern of 32 bits: conjunction and exclusive or
  without their own operator, negation, choice, and the two tests for zero.
\<close>

theorem bit_puzzles_correct:
  "bitAnd x y = test_bitAnd x y \<and> bitXor x y = test_bitXor x y \<and> negate x = test_negate x \<and>
   conditional x y z = test_conditional x y z \<and> isNonZero x = test_isNonZero x \<and>
   logicalNeg x = test_logicalNeg x"
proof (intro conjI)
  show "bitXor x y = test_bitXor x y"
    by (rule bit_word_eqI) (auto simp: bitXor_def test_bitXor_def bit_simps)
  show "isNonZero x = test_isNonZero x" "logicalNeg x = test_logicalNeg x"
    by (simp_all add: isNonZero_def test_isNonZero_def logicalNeg_def test_logicalNeg_def
        c_ops neg_word or_neg_sar)
qed (simp_all add: bitAnd_def test_bitAnd_def negate_def test_negate_def neg_word
      conditional_def test_conditional_def lnot_def)

text \<open>
  Swapping two bytes with shifts and masks computes the reference that takes the two
  bytes out and puts them back, for the byte numbers 0 to 3 the puzzle allows.
\<close>

theorem byteSwap_correct:
  "\<lbrakk>0 \<le>s n; n \<le>s 3; 0 \<le>s m; m \<le>s 3\<rbrakk> \<Longrightarrow> byteSwap x n m = test_byteSwap x n m"
  by (rule byteSwap_cases) (simp_all add: byte_number_cases)

theorem byteSwap_correct_witness:
  "byteSwap 0x12345678 1 3 = test_byteSwap 0x12345678 1 3 \<and> byteSwap 0x12345678 1 3 = 0x56341278"
  using byteSwap_correct [of 1 3 "0x12345678"]
  by (simp add: byteSwap_def c_ops word_sle_eq)

text \<open>
  The mask test for "all odd bits set" agrees with the loop over bits 1, 3, ..., 31, and
  both decide exactly that every odd-numbered bit is one.
\<close>

theorem allOddBits_correct:
  "allOddBits x = test_allOddBits x \<and> (allOddBits x = 1 \<longleftrightarrow> (\<forall>n\<in>{..<32}. odd n \<longrightarrow> bit x n))"
proof -
  have "(\<forall>n<32. odd n \<longrightarrow> bit x n) \<longleftrightarrow> (\<forall>j. 1 \<le> j \<and> j < 32 \<and> even j = even (1::nat) \<longrightarrow> bit x j)"
    by (auto simp: Suc_le_eq intro: odd_pos)
  then show ?thesis
    by (simp add: allOddBits_def test_allOddBits_def test_allOddBits_loop_eq c_ops and_odd_mask
        xor_zero_iff Ball_def)
qed

text \<open>
  The mask built from two shifts agrees with the loop that sets bits \<open>lowbit\<close> to
  \<open>highbit\<close> one by one, for bit numbers 0 to 31, the empty range included.
\<close>

theorem bitMask_correct:
  assumes "0 \<le>s h" "h \<le>s 31" "0 \<le>s l" "l \<le>s 31"
  shows "bitMask h l = test_bitMask h l"
  by (rule bit_word_eqI) (simp add: bitMask_bit test_bitMask_bit [OF assms])

theorem bitMask_correct_witness:
  "bitMask 5 3 = test_bitMask 5 3 \<and> bitMask 5 3 = 0x38 \<and> bitMask 3 5 = test_bitMask 3 5"
  using bitMask_correct [of 5 3] bitMask_correct [of 3 5]
  by (simp add: bitMask_def c_ops word_sle_eq mask_eq_exp_minus_1)

text \<open>
  The digit test by two sign bits agrees with the signed comparison on every \<^verbatim>\<open>int\<close>,
  also where one of its two differences overflows.
\<close>

theorem isAsciiDigit_correct: "isAsciiDigit x = test_isAsciiDigit x"
  by (simp add: isAsciiDigit_value test_isAsciiDigit_def word_sle_eq)

end
