(* ===== verification/FloatBits.thy ===== *)
theory FloatBits
  imports Complex_Main Bits
begin

text \<open>
  The floating-point puzzles of \<^verbatim>\<open>lab2/bits.c\<close> and the decomposition of a
  single-precision pattern in \<^verbatim>\<open>lab2/fshow.c\<close>. A float is its 32-bit pattern; what it
  denotes is read off the fields exactly as \<^verbatim>\<open>show_float\<close> prints them. That reading is the
  specification the three puzzles are proved (or, for the denormals of
  \<^verbatim>\<open>floatPower2\<close>, refuted) against.
\<close>

unbundle bit_operations_syntax

subsection \<open>The fields of a pattern: \<^verbatim>\<open>fshow.c\<close>\<close>

definition FRAC_SIZE :: nat where "FRAC_SIZE = 23"
definition EXP_SIZE :: nat where "EXP_SIZE = 8"
definition BIAS :: int where "BIAS = 2 ^ (EXP_SIZE - 1) - 1"
definition FRAC_MASK :: u32 where "FRAC_MASK = push_bit FRAC_SIZE 1 - 1"
definition EXP_MASK :: u32 where "EXP_MASK = push_bit EXP_SIZE 1 - 1"

definition get_exp :: "u32 \<Rightarrow> u32" where
  "get_exp uf = drop_bit FRAC_SIZE uf AND EXP_MASK"

definition get_frac :: "u32 \<Rightarrow> u32" where
  "get_frac uf = uf AND FRAC_MASK"

definition get_sign :: "u32 \<Rightarrow> u32" where
  "get_sign uf = drop_bit 31 uf AND 1"

text \<open>
  What \<^verbatim>\<open>show_float\<close> reports: an infinity with its sign, a NaN, or a number with its sign,
  whether it is denormalized, its mantissa in units of \<open>2^-23\<close> and its exponent. The C code
  divides the mantissa by \<open>2^23\<close> in \<^verbatim>\<open>float\<close>, which is exact for these values.
\<close>

datatype float_kind = Infinity bool | NaN | Number (neg: bool) (denorm: bool) (mantissa: int) (uexp: int)

definition show_float :: "u32 \<Rightarrow> float_kind" where
  "show_float uf =
     (let exp = get_exp uf; frac = get_frac uf; sign = (get_sign uf \<noteq> 0)
      in if exp = EXP_MASK then (if frac = 0 then Infinity sign else NaN)
         else
           (let denorm = (exp = 0);
                uexp = (if denorm then 1 - BIAS else uint exp - BIAS);
                mantissa = (if denorm then uint frac else uint frac + 2 ^ FRAC_SIZE)
            in Number sign denorm mantissa uexp))"

text \<open>The real number a pattern denotes; none for an infinity or a NaN.\<close>

fun float_value :: "float_kind \<Rightarrow> real option" where
  "float_value (Number s d m e) =
     Some ((if s then - 1 else 1) * (of_int m / 2 ^ FRAC_SIZE) * (2 powi e))"
| "float_value _ = None"

subsection \<open>The puzzles\<close>

definition floatNegate :: "u32 \<Rightarrow> u32" where
  "floatNegate uf =
     (let mask_bit_significant = shl 1 31;
          mask_frac = uf AND NOT (sar mask_bit_significant 8);
          mask_exp = 0xFF;
          mask_exp = shl mask_exp 23
      in if mask_exp AND uf = mask_exp \<and> mask_frac \<noteq> 0 then uf
         else uf XOR mask_bit_significant)"

definition floatAbsVal :: "u32 \<Rightarrow> u32" where
  "floatAbsVal uf =
     (let mask_bit_significant = shl 1 31;
          mask_frac = uf AND NOT (sar mask_bit_significant 8);
          mask_exp = 0xFF;
          mask_exp = shl mask_exp 23
      in if mask_exp AND uf = mask_exp \<and> mask_frac \<noteq> 0 then uf
         else uf AND NOT mask_bit_significant)"

definition floatPower2 :: "c_int \<Rightarrow> u32" where
  "floatPower2 x =
     (let mask = 0x7F
      in if x <s - 150 then 0
         else if x \<le>s - 127 \<and> - 150 \<le>s x then
           (let displacement = - x - mask in shl 1 (23 - displacement))
         else if x \<le>s 127 \<and> - 126 \<le>s x then
           (let mask = mask + x in shl mask 23)
         else shl 0xFF 23)"

subsection \<open>The reference functions of \<^verbatim>\<open>tests.c\<close> for negation and absolute value\<close>

text \<open>
  \<^verbatim>\<open>u2f\<close> and \<^verbatim>\<open>f2u\<close> reinterpret the bits, so a \<^verbatim>\<open>float\<close> is its pattern here as well. The
  C operators on it follow IEEE 754: \<^verbatim>\<open>-f\<close> inverts the sign bit and nothing else, and
  \<^verbatim>\<open>isnan\<close> holds of the patterns \<^verbatim>\<open>show_float\<close> calls Not-A-Number.
\<close>

definition float_neg :: "u32 \<Rightarrow> u32" where
  "float_neg f = flip_bit 31 f"

definition float_isnan :: "u32 \<Rightarrow> bool" where
  "float_isnan f \<longleftrightarrow> show_float f = NaN"

definition test_floatNegate :: "u32 \<Rightarrow> u32" where
  "test_floatNegate uf =
     (let f = uf; nf = float_neg f in if float_isnan f then uf else nf)"

definition test_floatAbsVal :: "u32 \<Rightarrow> u32" where
  "test_floatAbsVal uf =
     (let f = uf; unf = float_neg f
      in if float_isnan f then uf else if uf <s 0 then unf else uf)"

subsection \<open>Lemmas\<close>

named_theorems fields \<comment> \<open>the field constants, evaluated\<close>

lemma field_constants [fields]:
  "FRAC_SIZE = 23" "EXP_SIZE = 8" "BIAS = 127" "FRAC_MASK = 0x7FFFFF" "EXP_MASK = 0xFF"
  by (simp_all add: FRAC_SIZE_def EXP_SIZE_def BIAS_def FRAC_MASK_def EXP_MASK_def)

lemma frac_mask: "(0x7FFFFF :: u32) = mask 23" and byte_mask: "(0xFF :: u32) = mask 8"
  by (simp_all add: mask_eq_exp_minus_1)

lemma get_frac_take: "get_frac u = take_bit 23 u"
  by (simp add: get_frac_def fields frac_mask take_bit_eq_mask)

lemma get_exp_take: "get_exp u = take_bit 8 (drop_bit 23 u)"
  by (simp add: get_exp_def fields byte_mask take_bit_eq_mask)

lemma sign_mask: "shl 1 31 = (0x80000000 :: u32)"
  by (simp add: shl_def)

lemma frac_nonzero_mask: "uf AND NOT (sar (shl 1 31) 8) = get_frac uf"
  by (simp add: get_frac_def c_ops fields)

lemma and_eq_iff_bits: "(m AND w = m) \<longleftrightarrow> (\<forall>n. bit m n \<longrightarrow> bit (w :: u32) n)"
  using bit_imp_le_length [of m] by (auto simp: bit_eq_iff bit_and_iff)

lemma exp_mask_eq: "(shl 0xFF 23 AND uf = shl 0xFF 23) \<longleftrightarrow> get_exp uf = EXP_MASK"
proof -
  have m: "bit (shl 0xFF 23) n \<longleftrightarrow> 23 \<le> n \<and> n < 31" for n
    unfolding byte_mask by (auto simp: c_ops bit_simps)
  have "get_exp uf = EXP_MASK \<longleftrightarrow> mask 8 AND drop_bit 23 uf = mask 8"
    by (simp add: get_exp_def fields byte_mask and.commute)
  also have "\<dots> \<longleftrightarrow> (\<forall>n<8. bit uf (23 + n))"
    unfolding and_eq_iff_bits by (auto simp: bit_simps)
  also have "\<dots> \<longleftrightarrow> (\<forall>n. 23 \<le> n \<and> n < 31 \<longrightarrow> bit uf n)"
  proof safe
    fix n :: nat assume "\<forall>n<8. bit uf (23 + n)" "23 \<le> n" "n < 31"
    moreover from this have "n - 23 < 8" by simp
    ultimately have "bit uf (23 + (n - 23))" by blast
    with \<open>23 \<le> n\<close> show "bit uf n" by simp
  qed simp
  also have "\<dots> \<longleftrightarrow> shl 0xFF 23 AND uf = shl 0xFF 23"
    by (simp add: and_eq_iff_bits m)
  finally show ?thesis by simp
qed

lemma nan_test: "(shl 0xFF 23 AND uf = shl 0xFF 23 \<and> uf AND NOT (sar (shl 1 31) 8) \<noteq> 0) \<longleftrightarrow> float_isnan uf"
  by (simp add: exp_mask_eq frac_nonzero_mask float_isnan_def show_float_def Let_def)

lemma floatNegate_eq: "floatNegate uf = (if float_isnan uf then uf else flip_bit 31 uf)"
proof -
  have "uf XOR shl 1 31 = flip_bit 31 uf"
    by (simp add: flip_bit_eq_xor c_ops)
  then show ?thesis using nan_test [of uf] by (simp add: floatNegate_def Let_def del: shl_def)
qed

lemma floatAbsVal_eq: "floatAbsVal uf = (if float_isnan uf then uf else unset_bit 31 uf)"
proof -
  have "uf AND NOT (shl 1 31) = unset_bit 31 uf"
    by (simp add: unset_bit_eq_and_not c_ops)
  then show ?thesis using nan_test [of uf] by (simp add: floatAbsVal_def Let_def)
qed

text \<open>The sign bit is no part of the exponent or the fraction.\<close>

lemma get_sign_eq: "get_sign u = (if bit u 31 then 1 else 0)"
  by (simp add: get_sign_def and_one_eq mod_2_eq_odd bit_iff_odd_drop_bit)

lemma fields_flip [simp]:
  "get_exp (flip_bit 31 u) = get_exp u" "get_frac (flip_bit 31 u) = get_frac u"
  "get_sign (flip_bit 31 u) = (if get_sign u = 0 then 1 else 0)"
proof -
  show "get_exp (flip_bit 31 u) = get_exp u"
    unfolding get_exp_take by (rule bit_word_eqI) (auto simp: bit_simps)
  show "get_frac (flip_bit 31 u) = get_frac u"
    unfolding get_frac_take by (rule bit_word_eqI) (auto simp: bit_simps)
qed (simp add: get_sign_eq bit_flip_bit_iff)

lemma fields_unset [simp]:
  "get_exp (unset_bit 31 u) = get_exp u" "get_frac (unset_bit 31 u) = get_frac u"
  "get_sign (unset_bit 31 u) = 0"
proof -
  show "get_exp (unset_bit 31 u) = get_exp u"
    unfolding get_exp_take by (rule bit_word_eqI) (auto simp: bit_simps)
  show "get_frac (unset_bit 31 u) = get_frac u"
    unfolding get_frac_take by (rule bit_word_eqI) (auto simp: bit_simps)
qed (simp add: get_sign_eq bit_unset_bit_iff)

text \<open>The four branches of \<^verbatim>\<open>floatPower2\<close>, by the signed value of the argument.\<close>

lemma floatPower2_small: "sint x < - 150 \<Longrightarrow> floatPower2 x = 0"
  by (simp add: floatPower2_def word_sless_alt)

lemma floatPower2_large: "127 < sint x \<Longrightarrow> floatPower2 x = 0x7F800000"
  by (simp add: floatPower2_def word_sless_alt word_sle_eq c_ops)

lemma floatPower2_denormal:
  assumes "- 150 \<le> sint x" "sint x \<le> - 127"
  shows "floatPower2 x = push_bit (nat (sint x + 150)) 1"
proof -
  have "23 - (- x - 0x7F) = x + word_of_int 150" by simp
  moreover have "uint (x + word_of_int 150) = sint x + 150"
    using assms by (intro uint_add_small) simp_all
  ultimately have "unat (23 - (- x - 0x7F)) = nat (sint x + 150)"
    by (simp only: unat_eq_nat_uint)
  moreover have "\<not> x <s - 150" "x \<le>s - 127 \<and> - 150 \<le>s x"
    using assms by (simp_all add: word_sless_alt word_sle_eq)
  ultimately show ?thesis
    unfolding floatPower2_def Let_def shl_def by (simp only: if_True if_False simp_thms)
qed

lemma floatPower2_normal:
  assumes "- 126 \<le> sint x" "sint x \<le> 127"
  shows "floatPower2 x = push_bit 23 (x + word_of_int 127)"
proof -
  have "\<not> x <s - 150" "\<not> (x \<le>s - 127 \<and> - 150 \<le>s x)" "x \<le>s 127 \<and> - 126 \<le>s x"
    using assms by (simp_all add: word_sless_alt word_sle_eq)
  moreover have "unat (23 :: c_int) = 23" "0x7F + x = x + word_of_int 127" by simp_all
  ultimately show ?thesis
    unfolding floatPower2_def Let_def shl_def by (simp only: if_True if_False simp_thms)
qed

text \<open>What the fields of \<open>2^k\<close> and of a shifted exponent are.\<close>

lemma show_float_exponent:
  assumes "0 < uint w" "uint w < 255"
  shows "show_float (push_bit 23 w) = Number False False (2 ^ 23) (uint w - 127)"
proof -
  have small: "n < 8" if "bit w n" for n
    using bit_above_bound [of w 8 n] assms(2) that by (cases "n < 8") simp_all
  then have "get_exp (push_bit 23 w) = w"
    unfolding get_exp_take by (intro bit_word_eqI) (fastforce simp: bit_simps dest: small)
  moreover have "get_frac (push_bit 23 w) = 0"
    unfolding get_frac_take by (rule bit_word_eqI) (auto simp: bit_simps)
  moreover have "get_sign (push_bit 23 w) = 0"
    using bit_above_bound [of w 8 8] assms(2) by (simp add: get_sign_eq bit_simps)
  moreover have "w \<noteq> 0" "w \<noteq> 0xFF" using assms by auto
  ultimately show ?thesis by (simp add: show_float_def fields Let_def)
qed

lemma show_float_denormal_bit:
  assumes "k < 23"
  shows "show_float (push_bit k 1) = Number False True (2 ^ k) (- 126)"
proof -
  have "get_exp (push_bit k 1) = 0" "get_frac (push_bit k 1) = push_bit k 1"
    unfolding get_exp_take get_frac_take using assms by (auto intro!: bit_word_eqI simp: bit_simps)
  moreover have "get_sign (push_bit k 1) = 0" using assms by (simp add: get_sign_eq bit_simps)
  moreover have "uint (push_bit k 1 :: u32) = 2 ^ k"
  proof -
    have "(2::int) ^ k < 2 ^ 32" using assms by (intro power_strict_increasing) simp_all
    then have "uint (word_of_int (2 ^ k) :: u32) = 2 ^ k" by (intro uint_of_small_int) simp_all
    then show ?thesis by simp
  qed
  ultimately show ?thesis by (simp add: show_float_def fields Let_def)
qed

lemma float_value_neg: "float_value (show_float (flip_bit 31 u)) = map_option uminus (float_value (show_float u))"
  by (auto simp: show_float_def Let_def field_simps)

lemma float_value_abs: "float_value (show_float (unset_bit 31 u)) = map_option abs (float_value (show_float u))"
  by (simp add: show_float_def Let_def abs_mult fields)

lemma float_neg_sign: "\<not> uf <s 0 \<Longrightarrow> unset_bit 31 uf = uf" "uf <s 0 \<Longrightarrow> unset_bit 31 uf = flip_bit 31 (uf :: u32)"
  by (auto intro!: bit_word_eqI simp: bit_simps word_sless_alt bit31_sint [symmetric])

subsection \<open>The puzzles and the values they denote\<close>

text \<open>
  Negation by exclusive or agrees with the reference that negates the float, keeps every
  NaN as it is, and otherwise negates the number the pattern denotes.
\<close>

theorem floatNegate_correct:
  "floatNegate uf = test_floatNegate uf \<and>
   float_value (show_float (floatNegate uf)) = map_option uminus (float_value (show_float uf))"
  by (auto simp: floatNegate_eq test_floatNegate_def float_neg_def float_value_neg float_isnan_def)

text \<open>
  The absolute value agrees with its reference, keeps every NaN as it is, and otherwise
  denotes the absolute value of the number.
\<close>

theorem floatAbsVal_correct:
  "floatAbsVal uf = test_floatAbsVal uf \<and>
   float_value (show_float (floatAbsVal uf)) = map_option abs (float_value (show_float uf))"
  by (auto simp: floatAbsVal_eq test_floatAbsVal_def float_neg_def float_value_abs float_isnan_def
      float_neg_sign)

text \<open>
  \<^verbatim>\<open>floatPower2\<close> returns the pattern of \<open>2^x\<close> for every exponent of a normalized
  number, zero below -150 and plus infinity above 127.
\<close>

theorem floatPower2_correct:
  "(- 126 \<le> sint x \<and> sint x \<le> 127 \<longrightarrow>
      float_value (show_float (floatPower2 x)) = Some (2 powi sint x)) \<and>
   (sint x < - 150 \<longrightarrow> float_value (show_float (floatPower2 x)) = Some 0) \<and>
   (127 < sint x \<longrightarrow> show_float (floatPower2 x) = Infinity False)"
proof (intro conjI impI; (elim conjE)?)
  assume a: "- 126 \<le> sint x" "sint x \<le> 127"
  then have "uint (x + word_of_int 127) = sint x + 127" by (intro uint_add_small) simp_all
  then show "float_value (show_float (floatPower2 x)) = Some (2 powi sint x)"
    using a by (simp add: floatPower2_normal show_float_exponent fields)
qed (simp_all add: floatPower2_small floatPower2_large show_float_def get_exp_def get_frac_def
      get_sign_def fields Let_def)

text \<open>
  In the whole denormalized range, -150 to -127, \<^verbatim>\<open>floatPower2\<close> is off by one
  exponent: it returns the pattern of \<open>2^(x+1)\<close>, so that -127 and -126 give the same float
  and the smallest power of two, \<open>2^-149\<close>, is returned for -150.
\<close>

theorem floatPower2_denormal_off_by_one:
  assumes "- 150 \<le> sint x" "sint x \<le> - 127"
  shows "float_value (show_float (floatPower2 x)) = Some (2 powi (sint x + 1))"
proof (cases "sint x = - 127")
  case True
  then show ?thesis
    using assms show_float_exponent [of 1] by (simp add: floatPower2_denormal fields)
next
  case False
  define k where "k = nat (sint x + 150)"
  with assms False have k: "k < 23" "sint x = int k - 150" by simp_all
  have "(2::real) ^ k / 2 ^ 23 * 2 powi - 126 = 2 powi (int k - 149)"
  proof -
    have "(2::real) powi (int k - 149) = 2 powi (int k + - 23 + - 126)" by simp
    also have "\<dots> = 2 powi int k * 2 powi - 23 * 2 powi - 126"
      by (subst power_int_add, simp)+ (rule refl)
    also have "\<dots> = 2 ^ k / 2 ^ 23 * 2 powi - 126"
      by (simp only: power_int_of_nat) (simp add: power_int_minus)
    finally show ?thesis by simp
  qed
  moreover have "float_value (show_float (floatPower2 x)) = Some (2 ^ k / 2 ^ 23 * 2 powi - 126)"
    using assms show_float_denormal_bit [OF k(1)]
    by (simp add: floatPower2_denormal fields flip: k_def)
  ultimately show ?thesis by (simp add: k(2))
qed

theorem floatPower2_denormal_off_by_one_witness:
  "float_value (show_float (floatPower2 (- 149))) = Some (2 powi (- 148)) \<and>
   floatPower2 (- 149) = 2"
  using floatPower2_denormal_off_by_one [of "- 149"]
  by (simp add: floatPower2_def word_sless_alt word_sle_eq c_ops)

end
