(* ===== verification/FloatPower.thy ===== *)
theory FloatPower
  imports FloatBits
begin

text \<open>
  \<^verbatim>\<open>test_floatPower2\<close> of \<^verbatim>\<open>tests.c\<close>: the reference for \<^verbatim>\<open>floatPower2\<close>, which multiplies powers of two
  with the operator of the type \<^verbatim>\<open>float\<close>, and where the puzzle agrees with it.
\<close>

subsection \<open>Products of powers of two\<close>

text \<open>
  Only powers of two, zero and infinity occur. IEEE 754, rounding to nearest: a product above \<open>2^127\<close>
  is infinite; \<open>2^-149\<close> is the smallest positive float; \<open>2^-150\<close> is half of it and ties to
  zero, whose last bit is even; less than that is zero. A wider format for the intermediate results,
  which the compiler may use on this platform, rounds to the same float at the end.
\<close>

datatype potencia = Cero | Pot int | Infinito | No_num

definition redondear :: "int \<Rightarrow> potencia" where
  "redondear k = (if k > 127 then Infinito else if k < - 149 then Cero else Pot k)"

fun por :: "potencia \<Rightarrow> potencia \<Rightarrow> potencia" where
  "por (Pot a) (Pot b) = redondear (a + b)"
| "por Cero (Pot b) = Cero"
| "por (Pot a) Cero = Cero"
| "por Cero Cero = Cero"
| "por Infinito (Pot b) = Infinito"
| "por (Pot a) Infinito = Infinito"
| "por Infinito Infinito = Infinito"
| "por _ _ = No_num"

text \<open>The patterns of these floats: one bit of the fraction or of the exponent field.\<close>

definition f2u :: "potencia \<Rightarrow> u32" where
  "f2u p =
     (case p of
        Cero \<Rightarrow> 0
      | Pot k \<Rightarrow> if k < - 126 then push_bit (nat (k + 149)) 1 else push_bit 23 (word_of_int (k + 127))
      | Infinito \<Rightarrow> 0x7F800000
      | No_num \<Rightarrow> 0xFFC00000)"

text \<open>The loop: the exponent bit by bit, the square of the factor at each step.\<close>

function test_floatPower2_loop :: "int \<Rightarrow> potencia \<Rightarrow> potencia \<Rightarrow> potencia" where
  "test_floatPower2_loop x result p2 =
     (if x > 0 then
        test_floatPower2_loop (x div 2) (if odd x then por result p2 else result) (por p2 p2)
      else result)"
  by pat_completeness auto
termination
  by (relation "measure (\<lambda>(x, result, p2). nat x)") auto

declare test_floatPower2_loop.simps [simp del]

definition test_floatPower2 :: "c_int \<Rightarrow> u32" where
  "test_floatPower2 x =
     (let result = Pot 0; p2 = Pot 1
      in if x = 0x80000000 then 0
         else if x <s 0 then f2u (test_floatPower2_loop (sint (- x)) result (Pot (- 1)))
         else f2u (test_floatPower2_loop (sint x) result p2))"

subsection \<open>The loop computes the power\<close>

text \<open>Rounding at each step is rounding once, when the exponents have the same sign.\<close>

lemma por_redondear:
  assumes "0 \<le> a \<and> 0 \<le> b \<or> a \<le> 0 \<and> b \<le> (0::int)"
  shows "por (redondear a) (redondear b) = redondear (a + b)"
  using assms by (auto simp: redondear_def)

lemma test_floatPower2_loop_eq:
  assumes "s = 1 \<or> s = - 1" "0 \<le> a" "0 \<le> c" "0 \<le> x"
  shows "test_floatPower2_loop x (redondear (s * a)) (redondear (s * c)) = redondear (s * (a + c * x))"
  using assms
proof (induction x "redondear (s * a)" "redondear (s * c)" arbitrary: a c rule: test_floatPower2_loop.induct)
  case (1 x)
  show ?case
  proof (cases "x > 0")
    case True
    have p: "por (redondear (s * u)) (redondear (s * c)) = redondear (s * (u + c))" if "0 \<le> u" for u
      using that "1.prems"(1,3) by (subst por_redondear) (auto simp: algebra_simps)
    define a' where "a' = (if odd x then a + c else a)"
    have a': "(if odd x then por (redondear (s * a)) (redondear (s * c)) else redondear (s * a)) = redondear (s * a')"
      using p [OF "1.prems"(2)] by (simp add: a'_def)
    have x: "a' + (c + c) * (x div 2) = a + c * x"
    proof (cases "odd x")
      case o: True
      then have "x = 2 * (x div 2) + 1" by simp
      then have "c * x = c * (2 * (x div 2) + 1)" by simp
      then show ?thesis using o by (simp add: a'_def algebra_simps)
    next
      case o: False
      then have "x = 2 * (x div 2)" by simp
      then have "c * x = c * (2 * (x div 2))" by simp
      then show ?thesis using o by (simp add: a'_def algebra_simps)
    qed
    have "test_floatPower2_loop (x div 2) (redondear (s * a')) (redondear (s * (c + c))) = redondear (s * (a' + (c + c) * (x div 2)))"
      by (rule 1(1) [OF True]) (use "1.prems" a' p [OF "1.prems"(3)] in \<open>auto simp: a'_def\<close>)
    then show ?thesis
      using True a' p [OF "1.prems"(3)] x by (simp add: test_floatPower2_loop.simps [of x])
  next
    case False
    then have "x = 0" using "1.prems"(4) by simp
    then show ?thesis by (simp add: test_floatPower2_loop.simps [of 0])
  qed
qed

lemma sint_min: "x = 0x80000000 \<longleftrightarrow> sint x = - (2 ^ 31)" for x :: c_int
proof -
  have "sint (0x80000000 :: c_int) = - (2 ^ 31)" by simp
  then show ?thesis by (metis signed_word_eqI)
qed

lemma sint_range32: "- (2 ^ 31) \<le> sint x" "sint x < 2 ^ 31" for x :: c_int
  using sint_lt [of x] sint_ge [of x] by simp_all

lemma sint_minus32: "x \<noteq> 0x80000000 \<Longrightarrow> sint (- x) = - sint x" for x :: c_int
proof -
  assume "x \<noteq> 0x80000000"
  then have "- (2 ^ 31) < sint x" using sint_min [of x] sint_range32(1) [of x] by linarith
  then have "- (2 ^ 31) \<le> - sint x" "- sint x < 2 ^ 31" using sint_range32(2) [of x] by linarith+
  moreover have "- x = word_of_int (- sint x)" by simp
  ultimately show ?thesis
    using signed_take_bit_int_eq_self [of 31 "- sint x"] sint_sbintrunc' [where 'a = 32, of "- sint x"] by simp
qed

lemma test_floatPower2_eq: "test_floatPower2 x = f2u (redondear (sint x))"
proof (cases "x = 0x80000000")
  case True
  then show ?thesis by (simp add: test_floatPower2_def redondear_def f2u_def)
next
  case False
  have r: "Pot 0 = redondear (s * 0)" "Pot 1 = redondear (1 * 1)" "Pot (- 1) = redondear (- 1 * 1)" for s
    by (simp_all add: redondear_def)
  show ?thesis
  proof (cases "x <s 0")
    case True
    then have "sint x < 0" by (simp add: word_sless_alt)
    then have "test_floatPower2_loop (sint (- x)) (Pot 0) (Pot (- 1)) = redondear (sint x)"
      using test_floatPower2_loop_eq [of "- 1" 0 1 "- sint x"] False
      by (simp add: sint_minus32 r(1) [of "- 1"] r(3) del: mult_minus_left)
    then show ?thesis using True False by (simp add: test_floatPower2_def)
  next
    case neg: False
    then have "0 \<le> sint x" by (simp add: word_sless_alt)
    then have "test_floatPower2_loop (sint x) (Pot 0) (Pot 1) = redondear (sint x)"
      using test_floatPower2_loop_eq [of 1 0 1 "sint x"] by (simp add: r(1) [of 1] r(2))
    then show ?thesis using neg False by (simp add: test_floatPower2_def)
  qed
qed


subsection \<open>Where the puzzle agrees\<close>

lemma f2u_denormal:
  "- 150 \<le> k \<Longrightarrow> k \<le> - 127 \<Longrightarrow> f2u (redondear k) \<noteq> push_bit (nat (k + 150)) 1"
proof (cases "k = - 150")
  case False
  assume k: "- 150 \<le> k" "k \<le> - 127"
  let ?n = "nat (k + 150)"
  have n: "?n \<le> 23" "nat (k + 149) \<noteq> ?n" using k False by simp_all
  have "bit (push_bit ?n 1 :: u32) ?n" "\<not> bit (push_bit (nat (k + 149)) 1 :: u32) ?n"
    using n by (auto simp: bit_simps)
  then have "push_bit (nat (k + 149)) 1 \<noteq> (push_bit ?n 1 :: u32)" by metis
  then show ?thesis using k False by (simp add: f2u_def redondear_def)
qed (simp add: f2u_def redondear_def)

text \<open>
  \<^verbatim>\<open>floatPower2\<close> computes its reference exactly outside the denormalized range: it agrees for
  every argument above -127 and below -150, infinity and zero included, and for none of the 24
  arguments from -150 to -127, where it returns the power of the next exponent.
\<close>

theorem floatPower2_iff:
  "floatPower2 x = test_floatPower2 x \<longleftrightarrow> \<not> (- 150 \<le> sint x \<and> sint x \<le> - 127)"
proof -
  consider "sint x < - 150" | "- 150 \<le> sint x \<and> sint x \<le> - 127" | "- 126 \<le> sint x \<and> sint x \<le> 127" | "127 < sint x"
    by linarith
  then show ?thesis
  proof cases
    case 2
    then show ?thesis using f2u_denormal [of "sint x"]
      by (auto simp: test_floatPower2_eq floatPower2_denormal)
  next
    case 3
    have "word_of_int (sint x + 127) = x + word_of_int 127" by simp
    then show ?thesis using 3
      by (simp only: test_floatPower2_eq floatPower2_normal redondear_def f2u_def) simp
  qed (simp_all add: test_floatPower2_eq floatPower2_small floatPower2_large redondear_def f2u_def)
qed

end
