(* ===== verification/Numval.thy ===== *)
theory Numval
  imports Decimal FloatBits
begin

text \<open>
  The programs \<^verbatim>\<open>ishow.c\<close> and \<^verbatim>\<open>fshow.c\<close> of \<^verbatim>\<open>lab2\<close>: they read numbers from the command line and show
  the bits of an \<^verbatim>\<open>int\<close> or of a \<^verbatim>\<open>float\<close>. The function \<^verbatim>\<open>get_num_val\<close> has a copy in each of them and
  one in \<^verbatim>\<open>btest.c\<close>. The library's \<^verbatim>\<open>strtof\<close> is a parameter: the pattern of the float and the rest
  of the text.
\<close>

text \<open>The scan for the characters of a hexadecimal number or of a float: \<open>(ishex, isfloat)\<close>.\<close>

definition tipo_num :: "string \<Rightarrow> bool \<times> bool" where
  "tipo_num s =
     foldl (\<lambda>(ishex, isfloat) c.
         if c = CHR ''x'' \<or> c = CHR ''X'' then (True, isfloat)
         else if c = CHR ''e'' \<or> c = CHR ''E'' then (ishex, if \<not> ishex then True else isfloat)
         else if c = CHR ''.'' then (ishex, True)
         else (ishex, isfloat))
       (False, False) s"

text \<open>The bits above the 31st decide whether a value fits 32 bits, signed or not.\<close>

definition cabe_32 :: "int \<Rightarrow> bool" where
  "cabe_32 llval = (let upperbits = llval div 2 ^ 31 in upperbits = 0 \<or> upperbits = - 1 \<or> upperbits = 1)"

definition get_num_val :: "string \<Rightarrow> u32 option" where
  "get_num_val sval =
     (if snd (tipo_num sval) then None
      else let llval = strtoll sval in if cabe_32 llval then Some (word_of_int llval) else None)"

definition get_num_val_float :: "(string \<Rightarrow> u32 \<times> string) \<Rightarrow> string \<Rightarrow> u32 option" where
  "get_num_val_float strtof sval =
     (if snd (tipo_num sval) then
        (case strtof sval of (fval, endp) \<Rightarrow> if endp = [] then Some fval else None)
      else let llval = strtoll sval in if cabe_32 llval then Some (word_of_int llval) else None)"

subsection \<open>\<^verbatim>\<open>ishow.c\<close>\<close>

text \<open>What it prints: the pattern, its signed and its unsigned value; both programs exit with 0.\<close>

datatype 'v mostrado = Muestra 'v | No_convierte string | Uso string

definition show_int :: "u32 \<Rightarrow> u32 \<times> int \<times> int" where
  "show_int uf = (uf, sint uf, uint uf)"

text \<open>The three numbers of that line as \<^verbatim>\<open>printf\<close> writes them, with \<^verbatim>\<open>0x%.8x\<close>, \<^verbatim>\<open>%d\<close> and \<^verbatim>\<open>%u\<close>.\<close>

definition hex8 :: "u32 \<Rightarrow> string" where
  "hex8 uf = ''0x'' @ hexadecimal 8 (unat uf)"

definition campos_int :: "u32 \<times> int \<times> int \<Rightarrow> string list" where
  "campos_int v = (case v of (uf, con_signo, sin_signo) \<Rightarrow> [hex8 uf, texto_int con_signo, texto_int sin_signo])"

definition ishow_main :: "string list \<Rightarrow> (u32 \<times> int \<times> int) mostrado list" where
  "ishow_main argv =
     (if length argv < 2 then [Uso (hd argv)]
      else map (\<lambda>sval. case get_num_val sval of Some uf \<Rightarrow> Muestra (show_int uf) | None \<Rightarrow> No_convierte sval) (tl argv))"

subsection \<open>\<^verbatim>\<open>fshow.c\<close>\<close>

text \<open>The usage message of the first argument that is no number ends the program.\<close>

primrec fshow_args :: "(string \<Rightarrow> u32 \<times> string) \<Rightarrow> string \<Rightarrow> string list \<Rightarrow> float_kind mostrado list" where
  "fshow_args strtof prog [] = []"
| "fshow_args strtof prog (sval # svals) =
     (case get_num_val_float strtof sval of
        Some uf \<Rightarrow> Muestra (show_float uf) # fshow_args strtof prog svals
      | None \<Rightarrow> [No_convierte sval, Uso prog])"

definition fshow_main :: "(string \<Rightarrow> u32 \<times> string) \<Rightarrow> string list \<Rightarrow> float_kind mostrado list" where
  "fshow_main strtof argv =
     (if length argv < 2 then [Uso (hd argv)] else fshow_args strtof (hd argv) (tl argv))"

subsection \<open>Lemmas\<close>

lemma cabe_32_iff: "cabe_32 z \<longleftrightarrow> - (2 ^ 31) \<le> z \<and> z < 2 ^ 32"
proof -
  have "z div 2 ^ 31 = k \<longleftrightarrow> k * 2 ^ 31 \<le> z \<and> z < (k + 1) * 2 ^ 31" for k :: int
    using div_mult_mod_eq [of z "2 ^ 31"] pos_mod_bound [of "2 ^ 31" z] pos_mod_sign [of "2 ^ 31" z] by auto
  then show ?thesis unfolding cabe_32_def Let_def by auto
qed

lemma tipo_num_texto_int: "tipo_num (texto_int z) = (False, False)"
proof -
  have d: "foldl (\<lambda>(ishex, isfloat) c.
         if c = CHR ''x'' \<or> c = CHR ''X'' then (True, isfloat)
         else if c = CHR ''e'' \<or> c = CHR ''E'' then (ishex, if \<not> ishex then True else isfloat)
         else if c = CHR ''.'' then (ishex, True)
         else (ishex, isfloat)) (False, False) s = (False, False)" if "list_all is_digit s" for s
    using that by (induction s) (auto simp: is_digit_def digit_value_def)
  show ?thesis using d [OF decimal_digitos] by (simp add: tipo_num_def texto_int_def)
qed

lemma get_num_val_texto_int:
  "get_num_val (texto_int z) = (if - (2 ^ 31) \<le> z \<and> z < 2 ^ 32 then Some (word_of_int z) else None)"
  "get_num_val_float strtof (texto_int z) = get_num_val (texto_int z)"
proof -
  have "cabe_32 (strtoll (texto_int z)) \<longleftrightarrow> - (2 ^ 31) \<le> z \<and> z < 2 ^ 32"
    "- (2 ^ 31) \<le> z \<and> z < 2 ^ 32 \<Longrightarrow> strtoll (texto_int z) = z"
    unfolding cabe_32_iff strtoll_texto_int by auto
  then show "get_num_val (texto_int z) = (if - (2 ^ 31) \<le> z \<and> z < 2 ^ 32 then Some (word_of_int z) else None)"
    by (auto simp: get_num_val_def tipo_num_texto_int Let_def)
qed (simp add: get_num_val_def get_num_val_float_def tipo_num_texto_int)

lemma sint_word_of_int32: "sint (word_of_int z :: u32) = to_int32 z"
  by (simp add: sint_sbintrunc' signed_take_bit_eq_take_bit_shift take_bit_eq_mod to_int32_def)

text \<open>
  \<^verbatim>\<open>ishow\<close> on the decimal text of any integer: a number from \<open>-2^31\<close> to \<open>2^32 - 1\<close> is shown with
  its value modulo \<open>2^32\<close>, read as signed and as unsigned; every other number, those beyond 64 bits
  included, is reported as not convertible.
\<close>

theorem ishow_decimal:
  "ishow_main [prog, texto_int z] =
     (if - (2 ^ 31) \<le> z \<and> z < 2 ^ 32 then [Muestra (word_of_int z, to_int32 z, z mod 2 ^ 32)]
      else [No_convierte (texto_int z)])"
  by (simp add: ishow_main_def get_num_val_texto_int show_int_def sint_word_of_int32 uint_word_of_int)

lemma tipo_num_hex8: "tipo_num (hex8 u) = (True, False)"
proof -
  have d: "foldl (\<lambda>(ishex, isfloat) c.
         if c = CHR ''x'' \<or> c = CHR ''X'' then (True, isfloat)
         else if c = CHR ''e'' \<or> c = CHR ''E'' then (ishex, if \<not> ishex then True else isfloat)
         else if c = CHR ''.'' then (ishex, True)
         else (ishex, isfloat)) (True, False) s = (True, False)" if "\<forall>c \<in> set s. valor_hex c < 16" for s
    using that by (induction s) (auto simp: valor_hex_def)
  show ?thesis using d [of "hexadecimal 8 (unat u)"] hexadecimal_cifras by (simp add: tipo_num_def hex8_def)
qed

lemma uint_32: "- (2 ^ 31) \<le> uint u" "uint u < 2 ^ 32" for u :: u32
proof -
  show "- (2 ^ 31) \<le> uint u" by (rule order_trans [of _ 0]) simp_all
  show "uint u < 2 ^ 32" using uint_range_size [of u] by (simp add: word_size)
qed

lemma get_num_val_hex8: "get_num_val (hex8 u) = Some u" "get_num_val_float strtof (hex8 u) = Some u"
proof -
  have u: "unat u < 2 ^ 32"
    using uint_range_size [of u] by (simp add: word_size unat_eq_nat_uint nat_less_iff del: nat_uint_eq)
  then have "strtoll (hex8 u) = int (unat u)" unfolding hex8_def by (intro strtoll_hexadecimal) simp_all
  moreover have "cabe_32 (int (unat u))" using uint_32 [of u] by (simp add: cabe_32_iff)
  ultimately show "get_num_val (hex8 u) = Some u" "get_num_val_float strtof (hex8 u) = Some u"
    by (simp_all add: get_num_val_def get_num_val_float_def tipo_num_hex8)
qed

lemma get_num_val_leido:
  assumes "s \<in> set (campos_int (show_int u))"
  shows "get_num_val s = Some u" "get_num_val_float strtof s = Some u"
proof -
  have s: "- (2 ^ 31) \<le> sint u" "sint u < 2 ^ 31" using sint_range_size [of u] by (simp_all add: word_size)
  show "get_num_val s = Some u" "get_num_val_float strtof s = Some u"
    using assms s uint_32 [of u] get_num_val_hex8 by (auto simp: get_num_val_texto_int campos_int_def show_int_def)
qed

text \<open>
  C23. \<^verbatim>\<open>ishow\<close> and \<^verbatim>\<open>fshow\<close> read back what \<^verbatim>\<open>ishow\<close> prints: for every 32-bit pattern, each of the three
  numbers on its line, in hexadecimal, signed and unsigned decimal, is read as that pattern again by both
  programs, so \<^verbatim>\<open>ishow\<close> prints the same line and \<^verbatim>\<open>fshow\<close> shows the float of the pattern, whatever
  \<^verbatim>\<open>strtof\<close> does. A decimal number from \<open>-2^31\<close> to \<open>2^32 - 1\<close> is shown with its value modulo \<open>2^32\<close>, every
  other one, those beyond 64 bits included, is reported as not convertible.
\<close>

theorem ishow_relee:
  "(\<forall>s \<in> set (campos_int (show_int u)).
      ishow_main [prog, s] = [Muestra (show_int u)] \<and> fshow_main strtof [prog, s] = [Muestra (show_float u)]) \<and>
    ishow_main [prog, texto_int z] =
      (if - (2 ^ 31) \<le> z \<and> z < 2 ^ 32 then [Muestra (word_of_int z, to_int32 z, z mod 2 ^ 32)]
       else [No_convierte (texto_int z)])"
proof (intro conjI ballI)
  fix s assume s: "s \<in> set (campos_int (show_int u))"
  show "ishow_main [prog, s] = [Muestra (show_int u)]" "fshow_main strtof [prog, s] = [Muestra (show_float u)]"
    by (simp_all add: ishow_main_def fshow_main_def get_num_val_leido [OF s])
qed (rule ishow_decimal)

lemma ishow_relee_witness:
  "fshow_main (\<lambda>s. (0, s)) [''fshow'', ''0x7f800000''] = [Muestra (Infinity False)] \<and>
   ishow_main [''ishow'', ''0x7f800000''] = [Muestra (0x7f800000, 2139095040, 2139095040)]"
proof -
  have "hex8 0x7f800000 = ''0x7f800000''"
    by (simp add: hex8_def hexadecimal_numeral cifra_hex_def char_of_eq_iff take_bit_eq_mod)
  then have "''0x7f800000'' \<in> set (campos_int (show_int 0x7f800000))" by (simp add: campos_int_def show_int_def)
  moreover have "show_float 0x7f800000 = Infinity False" by (simp add: show_float_def get_exp_def get_frac_def get_sign_def EXP_MASK_def FRAC_MASK_def EXP_SIZE_def FRAC_SIZE_def)
  ultimately show ?thesis
    using ishow_relee [of "0x7f800000" "''fshow''" "\<lambda>s. (0, s)" 0] ishow_relee [of "0x7f800000" "''ishow''" "\<lambda>s. (0, s)" 0]
    by (simp add: show_int_def)
qed

end
