(* ===== verification/Btest.thy ===== *)
theory Btest
  imports Bits FloatPower Numval
begin

text \<open>
  The test harness of \<^verbatim>\<open>lab2\<close>: \<^verbatim>\<open>btest.c\<close> and the table of puzzles of \<^verbatim>\<open>decl.c\<close>. The values of the
  calls of \<^verbatim>\<open>rand\<close>, the time that each part of a test takes, the library's \<^verbatim>\<open>strtof\<close> and the options
  as \<^verbatim>\<open>getopt\<close> delivers them are parameters. The alarm clock and the jump buffer are state.
\<close>

subsection \<open>The table of puzzles\<close>

text \<open>A function of the table takes the list of its arguments, which are patterns of 32 bits.\<close>

record test_rec =
  nombre :: string
  solution_funct :: "c_int list \<Rightarrow> c_int"
  test_funct :: "c_int list \<Rightarrow> c_int"
  args :: nat
  op_legales :: string
  op_limit :: int
  rating :: int
  arg_ranges :: "(int \<times> int) list"

definition funct1 :: "(c_int \<Rightarrow> c_int) \<Rightarrow> c_int list \<Rightarrow> c_int" where
  "funct1 f as = f (as ! 0)"

definition funct2 :: "(c_int \<Rightarrow> c_int \<Rightarrow> c_int) \<Rightarrow> c_int list \<Rightarrow> c_int" where
  "funct2 f as = f (as ! 0) (as ! 1)"

definition funct3 :: "(c_int \<Rightarrow> c_int \<Rightarrow> c_int \<Rightarrow> c_int) \<Rightarrow> c_int list \<Rightarrow> c_int" where
  "funct3 f as = f (as ! 0) (as ! 1) (as ! 2)"

definition todo_int :: "int \<times> int" where "todo_int = (int_min, int_max)"

definition test_set :: "test_rec list" where
  "test_set =
   [\<lparr>nombre = ''bitAnd'', solution_funct = funct2 bitAnd, test_funct = funct2 test_bitAnd, args = 2,
      op_legales = ''| ~'', op_limit = 8, rating = 1, arg_ranges = [todo_int, todo_int, todo_int]\<rparr>,
    \<lparr>nombre = ''bitXor'', solution_funct = funct2 bitXor, test_funct = funct2 test_bitXor, args = 2,
      op_legales = ''& ~'', op_limit = 14, rating = 1, arg_ranges = [todo_int, todo_int, todo_int]\<rparr>,
    \<lparr>nombre = ''negate'', solution_funct = funct1 negate, test_funct = funct1 test_negate, args = 1,
      op_legales = ''! ~ & ^ | + << >>'', op_limit = 5, rating = 2, arg_ranges = [todo_int, todo_int, todo_int]\<rparr>,
    \<lparr>nombre = ''byteSwap'', solution_funct = funct3 byteSwap, test_funct = funct3 test_byteSwap, args = 3,
      op_legales = ''! ~ & ^ | + << >>'', op_limit = 25, rating = 2, arg_ranges = [todo_int, (0, 3), (0, 3)]\<rparr>,
    \<lparr>nombre = ''allOddBits'', solution_funct = funct1 allOddBits, test_funct = funct1 test_allOddBits, args = 1,
      op_legales = ''! ~ & ^ | + << >>'', op_limit = 12, rating = 2, arg_ranges = [todo_int, todo_int, todo_int]\<rparr>,
    \<lparr>nombre = ''bitMask'', solution_funct = funct2 bitMask, test_funct = funct2 test_bitMask, args = 2,
      op_legales = ''! ~ & ^ | + << >>'', op_limit = 16, rating = 3, arg_ranges = [(0, 31), (0, 31), todo_int]\<rparr>,
    \<lparr>nombre = ''conditional'', solution_funct = funct3 conditional, test_funct = funct3 test_conditional, args = 3,
      op_legales = ''! ~ & ^ | << >>'', op_limit = 16, rating = 3, arg_ranges = [todo_int, todo_int, todo_int]\<rparr>,
    \<lparr>nombre = ''isAsciiDigit'', solution_funct = funct1 isAsciiDigit, test_funct = funct1 test_isAsciiDigit, args = 1,
      op_legales = ''! ~ & ^ | + << >>'', op_limit = 15, rating = 3, arg_ranges = [todo_int, todo_int, todo_int]\<rparr>,
    \<lparr>nombre = ''isNonZero'', solution_funct = funct1 isNonZero, test_funct = funct1 test_isNonZero, args = 1,
      op_legales = ''~ & ^ | + << >>'', op_limit = 10, rating = 4, arg_ranges = [todo_int, todo_int, todo_int]\<rparr>,
    \<lparr>nombre = ''logicalNeg'', solution_funct = funct1 logicalNeg, test_funct = funct1 test_logicalNeg, args = 1,
      op_legales = ''~ & ^ | + << >>'', op_limit = 12, rating = 4, arg_ranges = [todo_int, todo_int, todo_int]\<rparr>,
    \<lparr>nombre = ''floatNegate'', solution_funct = funct1 floatNegate, test_funct = funct1 test_floatNegate, args = 1,
      op_legales = ''$'', op_limit = 10, rating = 2, arg_ranges = [(1, 1), (1, 1), (1, 1)]\<rparr>,
    \<lparr>nombre = ''floatAbsVal'', solution_funct = funct1 floatAbsVal, test_funct = funct1 test_floatAbsVal, args = 1,
      op_legales = ''$'', op_limit = 10, rating = 2, arg_ranges = [(1, 1), (1, 1), (1, 1)]\<rparr>,
    \<lparr>nombre = ''floatPower2'', solution_funct = funct1 floatPower2, test_funct = funct1 test_floatPower2, args = 1,
      op_legales = ''$'', op_limit = 30, rating = 4, arg_ranges = [(1, 1), (1, 1), (1, 1)]\<rparr>]"

subsection \<open>Options and output\<close>

text \<open>What the process does with the signal of the alarm clock.\<close>

datatype manejador = Por_defecto | Timeout_handler

definition SIGALRM :: nat where "SIGALRM = 14"

text \<open>The global variables that the options set, and the disposition of the signal.\<close>

record opciones_t =
  grade :: bool
  timeout_limit :: int
  test_fname :: "string option"
  has_arg :: "bool list"
  argval :: "u32 list"
  global_rating :: int
  sigalrm :: manejador

definition opciones_iniciales :: opciones_t where
  "opciones_iniciales =
     \<lparr>grade = False, timeout_limit = 10, test_fname = None, has_arg = [False, False, False],
      argval = [0, 0, 0], global_rating = 0, sigalrm = Por_defecto\<rparr>"

datatype salida_t =
    Cabecera
  | Falla string "c_int list" c_int c_int
  | Vencido string int
  | Fila int int int string
  | Total int int
  | Configuracion int string
  | Argumento_malo string
  | Signal_error
  | Uso_btest

text \<open>
  The ways not to go on: undefined behaviour, \<^verbatim>\<open>exit\<close>, with its code and the output so far, and the end by
  the signal when nobody handles it.
\<close>

datatype fin_t = Indefinido | Sale int "salida_t list" | Muere

text \<open>
  \<^verbatim>\<open>Signal\<close>; \<open>ok\<close> tells whether \<^verbatim>\<open>sigaction\<close> succeeds. When it fails the old handler it returns was never stored.
\<close>

definition Signal ::
    "bool \<Rightarrow> nat \<Rightarrow> manejador \<Rightarrow> (nat \<Rightarrow> manejador) \<Rightarrow> manejador option \<times> salida_t list \<times> (nat \<Rightarrow> manejador)" where
  "Signal ok signum handler acciones =
     (if ok then (Some (acciones signum), [], acciones(signum := handler))
      else (None, [Signal_error], acciones))"

subsection \<open>The alarm clock and the jump buffer\<close>

text \<open>
  The state of the process that the signal is about: the microseconds until the alarm goes off, if one is set; the call of \<^verbatim>\<open>test_function\<close> that
  filled \<^verbatim>\<open>envbuf\<close>; the call that is on the stack, if one is; and the number of calls so far, which tells them apart.
\<close>

record proceso_t =
  alarma :: "nat option"
  envbuf :: "nat option"
  marco :: "nat option"
  llamadas :: nat

definition proceso_ini :: proceso_t where
  "proceso_ini = \<lparr>alarma = None, envbuf = None, marco = None, llamadas = 0\<rparr>"

definition entra :: "proceso_t \<Rightarrow> proceso_t" where
  "entra s = s\<lparr>marco := Some (llamadas s), llamadas := Suc (llamadas s)\<rparr>"

definition vuelve :: "proceso_t \<Rightarrow> proceso_t" where
  "vuelve s = s\<lparr>marco := None\<rparr>"

definition sigsetjmp :: "proceso_t \<Rightarrow> proceso_t" where
  "sigsetjmp s = s\<lparr>envbuf := marco s\<rparr>"

text \<open>A jump to a call that is no longer on the stack is undefined, and so is one before \<^verbatim>\<open>sigsetjmp\<close>.\<close>

definition siglongjmp :: "proceso_t \<Rightarrow> fin_t + proceso_t" where
  "siglongjmp s = (if envbuf s \<noteq> None \<and> envbuf s = marco s then Inr s else Inl Indefinido)"

text \<open>\<^verbatim>\<open>alarm\<close> replaces the alarm that is set; 0 seconds cancel it.\<close>

definition alarm :: "int \<Rightarrow> proceso_t \<Rightarrow> proceso_t" where
  "alarm seconds s = s\<lparr>alarma := (if seconds = 0 then None else Some (10 ^ 6 * nat seconds))\<rparr>"

definition timeout_handler :: "proceso_t \<Rightarrow> fin_t + proceso_t" where
  "timeout_handler s = siglongjmp s"

definition entrega :: "manejador \<Rightarrow> proceso_t \<Rightarrow> fin_t + proceso_t" where
  "entrega h s = (case h of Por_defecto \<Rightarrow> Inl Muere | Timeout_handler \<Rightarrow> timeout_handler s)"

text \<open>
  The program computes for \<open>us\<close> microseconds. An alarm that goes off meanwhile is delivered; \<open>True\<close> tells that the handler jumped, so that
  the computation was left.
\<close>

definition transcurre :: "manejador \<Rightarrow> nat \<Rightarrow> proceso_t \<Rightarrow> fin_t + (bool \<times> proceso_t)" where
  "transcurre h us s =
     (case alarma s of
        None \<Rightarrow> Inr (False, s)
      | Some a \<Rightarrow>
          if us < a then Inr (False, s\<lparr>alarma := Some (a - us)\<rparr>)
          else (case entrega h (s\<lparr>alarma := None\<rparr>) of Inl e \<Rightarrow> Inl e | Inr s \<Rightarrow> Inr (True, s)))"

text \<open>
  The time a test takes: to generate its values, up to \<^verbatim>\<open>sigsetjmp\<close>; to test the puzzle, up to the return of \<^verbatim>\<open>test_function\<close>;
  and from there to the next call of it, or to the end of the program.
\<close>

record duracion_t =
  d_valores :: nat
  d_prueba :: nat
  d_despues :: nat

subsection \<open>The test values\<close>

definition TEST_RANGE :: int where "TEST_RANGE = 500000"
definition MAX_TEST_VALS :: int where "MAX_TEST_VALS = 13 * TEST_RANGE"

text \<open>The values of one iteration for a float and the special values.\<close>

definition vals_float :: "int \<Rightarrow> c_int list" where
  "vals_float i =
     (let smallest_norm = 0x00800000; one = 0x3F800000; largest_norm = 0x7F000000; sign = 0x80000000;
          i = word_of_int i
      in [i, sign OR i,
          smallest_norm + i, smallest_norm - i, sign OR (smallest_norm + i), sign OR (smallest_norm - i),
          one + i, one - i, sign OR (one + i), sign OR (one - i),
          largest_norm - i, sign OR (largest_norm - i)])"

definition vals_especiales :: "c_int list" where
  "vals_especiales =
     (let inf = 0x7F800000; nan = 0x7FC00000; sign = 0x80000000 in [inf, sign OR inf, nan, sign OR nan])"

text \<open>
  \<^verbatim>\<open>random_val\<close> for the number \<open>r\<close> that \<^verbatim>\<open>rand\<close> delivers. The \<^verbatim>\<open>double\<close> numbers are taken as rational numbers: the
  weight is the quotient by \<^verbatim>\<open>RAND_MAX\<close>, brought to the common denominator, and the conversion to
  \<^verbatim>\<open>int\<close> rounds towards zero. (The rounding of the products, left out here, can move the result by one.)
\<close>

definition RAND_MAX :: int where "RAND_MAX = 2147483647"

definition random_val :: "int \<Rightarrow> int \<Rightarrow> int \<Rightarrow> int" where
  "random_val r mn mx =
     (let result = mn * (RAND_MAX - r) + mx * r
      in if result < 0 then - (- result div RAND_MAX) else result div RAND_MAX)"

text \<open>The values of one iteration for an \<^verbatim>\<open>int\<close>; \<open>azar\<close> is what \<^verbatim>\<open>rand\<close> delivers in it.\<close>

definition vals_muestra :: "int \<Rightarrow> int \<Rightarrow> (int \<Rightarrow> int) \<Rightarrow> int \<Rightarrow> c_int list" where
  "vals_muestra mn mx azar i =
     [word_of_int (mn + i), word_of_int (mx - i)] @
     (if i \<ge> mn \<and> i \<le> mx then [word_of_int i] else []) @
     (if - i \<ge> mn \<and> - i \<le> mx then [word_of_int (- i)] else []) @
     [word_of_int (random_val (azar i) mn mx)]"

text \<open>The array has room for \<^verbatim>\<open>MAX_TEST_VALS\<close> values; one more is stored outside it.\<close>

definition en_arreglo :: "c_int list \<Rightarrow> c_int list option" where
  "en_arreglo vals = (if int (length vals) \<le> MAX_TEST_VALS then Some vals else None)"

text \<open>
  The loop over all values does not end when the last one is \<^verbatim>\<open>INT_MAX\<close>: its counter overflows.
\<close>

definition gen_vals :: "opciones_t \<Rightarrow> int \<Rightarrow> int \<Rightarrow> int \<Rightarrow> nat \<Rightarrow> (int \<Rightarrow> int) \<Rightarrow> c_int list option" where
  "gen_vals op mn mx test_range arg azar =
     (if has_arg op ! arg then Some [argval op ! arg]
      else if mn = 1 \<and> mx = 1 then
        (let test_range = (if test_range > 2 ^ 23 then 2 ^ 23 else test_range)
         in en_arreglo (concat (map vals_float [0..test_range - 1]) @ vals_especiales))
      else if \<not> in_int (mx - MAX_TEST_VALS) then None
      else if mx - MAX_TEST_VALS \<le> mn then
        (if mx = int_max then None else en_arreglo (map word_of_int [mn..mx]))
      else en_arreglo (concat (map (vals_muestra mn mx azar) [0..test_range - 1])))"

subsection \<open>Testing a function\<close>

text \<open>One call of the puzzle and of its reference: \<^verbatim>\<open>test_0_arg\<close> to \<^verbatim>\<open>test_3_arg\<close>.\<close>

definition test_arg :: "test_rec \<Rightarrow> c_int list \<Rightarrow> salida_t option" where
  "test_arg t as =
     (let r = solution_funct t as; rt = test_funct t as
      in if r \<noteq> rt then Some (Falla (nombre t) as r rt) else None)"

text \<open>A loop over the values of an argument that stops at the first error.\<close>

primrec para_cada :: "(c_int \<Rightarrow> salida_t option) \<Rightarrow> c_int list \<Rightarrow> salida_t option" where
  "para_cada f [] = None"
| "para_cada f (a # as) = (case f a of Some e \<Rightarrow> Some e | None \<Rightarrow> para_cada f as)"

definition probar :: "test_rec \<Rightarrow> c_int list list \<Rightarrow> salida_t option" where
  "probar t vals =
     (if args t = 0 then test_arg t []
      else para_cada (\<lambda>a1.
        if args t = 1 then test_arg t [a1]
        else para_cada (\<lambda>a2.
          if args t = 2 then test_arg t [a1, a2]
          else para_cada (\<lambda>a3. test_arg t [a1, a2, a3]) (vals ! 2)) (vals ! 1)) (vals ! 0))"

text \<open>
  The number of values per argument: the range itself, its square root or the power 0.333 of it,
  as \<^verbatim>\<open>pow\<close> gives them, truncated.
\<close>

definition arg_test_range :: "nat \<Rightarrow> int" where
  "arg_test_range n =
     (let r = (if n = 1 then TEST_RANGE else if n = 2 then 707 else 79)
      in if r < 1 then 1 else r)"

text \<open>The arrays of all arguments; \<open>azar i\<close> is what \<^verbatim>\<open>rand\<close> delivers for argument \<open>i\<close>.\<close>

primrec gen_todos :: "opciones_t \<Rightarrow> test_rec \<Rightarrow> (nat \<Rightarrow> int \<Rightarrow> int) \<Rightarrow> nat list \<Rightarrow> c_int list list option" where
  "gen_todos op t azar [] = Some []"
| "gen_todos op t azar (i # is) = do {
     vals \<leftarrow> gen_vals op (fst (arg_ranges t ! i)) (snd (arg_ranges t ! i)) (arg_test_range (args t)) i (azar i);
     rest \<leftarrow> gen_todos op t azar is;
     Some (vals # rest)}"

text \<open>The result has the number of errors and the output. A jump out of the test ends in the second return of \<^verbatim>\<open>sigsetjmp\<close>.\<close>

definition test_function ::
    "opciones_t \<Rightarrow> (string \<Rightarrow> duracion_t) \<Rightarrow> (string \<Rightarrow> nat \<Rightarrow> int \<Rightarrow> int) \<Rightarrow> test_rec \<Rightarrow> proceso_t \<Rightarrow>
      fin_t + (int \<times> salida_t list \<times> proceso_t)" where
  "test_function op tarda azar t s =
     (let s = entra s; d = tarda (nombre t)
      in if args t > 3 then Inl (Sale 1 [Configuracion (int (args t)) (nombre t)])
         else case gen_todos op t (azar (nombre t)) [0..<args t] of
           None \<Rightarrow> Inl Indefinido
         | Some vals \<Rightarrow>
             (case transcurre (sigalrm op) (d_valores d) s of
                Inl e \<Rightarrow> Inl e
              | Inr (salto, s) \<Rightarrow>
                  if salto then Inr (1, [Vencido (nombre t) (timeout_limit op)], vuelve s)
                  else let s = (if timeout_limit op > 0 then alarm (timeout_limit op) (sigsetjmp s) else s)
                  in (case transcurre (sigalrm op) (d_prueba d) s of
                        Inl e \<Rightarrow> Inl e
                      | Inr (salto, s) \<Rightarrow>
                          if salto then Inr (1, [Vencido (nombre t) (timeout_limit op)], vuelve s)
                          else (case probar t vals of
                              None \<Rightarrow> Inr (0, [], vuelve s)
                            | Some e \<Rightarrow> Inr (1, if grade op then [] else [e], vuelve s)))))"

subsection \<open>Running the tests\<close>

text \<open>The totals of \<^verbatim>\<open>run_tests\<close>; the points are whole numbers, exact in a \<^verbatim>\<open>double\<close>.\<close>

record puntos_t =
  errores_b :: int
  puntos :: int
  puntos_max :: int
  impreso :: "salida_t list"

definition run_test ::
    "opciones_t \<Rightarrow> (string \<Rightarrow> duracion_t) \<Rightarrow> (string \<Rightarrow> nat \<Rightarrow> int \<Rightarrow> int) \<Rightarrow> test_rec \<Rightarrow> puntos_t \<times> proceso_t \<Rightarrow>
      fin_t + (puntos_t \<times> proceso_t)" where
  "run_test op tarda azar t ps =
     (case ps of (p, s) \<Rightarrow>
        if test_fname op = None \<or> test_fname op = Some (nombre t) then
          (let r = (if global_rating op \<noteq> 0 then global_rating op else rating t)
           in case test_function op tarda azar t s of
                Inl (Sale c ms) \<Rightarrow> Inl (Sale c (impreso p @ ms))
              | Inl e \<Rightarrow> Inl e
              | Inr (terrors, ms, s) \<Rightarrow>
                  (case transcurre (sigalrm op) (d_despues (tarda (nombre t))) s of
                     Inl e \<Rightarrow> Inl e
                   | Inr (_, s) \<Rightarrow>
                       let tpoints = (if terrors = 0 then r else 0)
                       in Inr (\<lparr>errores_b = errores_b p + terrors, puntos = puntos p + tpoints, puntos_max = puntos_max p + r,
                            impreso = impreso p @ ms @
                              (if grade op \<or> terrors < 1 then [Fila tpoints r terrors (nombre t)] else [])\<rparr>, s)))
        else Inr (p, s))"

primrec run_loop ::
    "opciones_t \<Rightarrow> (string \<Rightarrow> duracion_t) \<Rightarrow> (string \<Rightarrow> nat \<Rightarrow> int \<Rightarrow> int) \<Rightarrow> test_rec list \<Rightarrow> puntos_t \<times> proceso_t \<Rightarrow>
      fin_t + (puntos_t \<times> proceso_t)" where
  "run_loop op tarda azar [] ps = Inr ps"
| "run_loop op tarda azar (t # ts) ps =
     (case run_test op tarda azar t ps of Inl e \<Rightarrow> Inl e | Inr ps \<Rightarrow> run_loop op tarda azar ts ps)"

definition run_tests ::
    "opciones_t \<Rightarrow> (string \<Rightarrow> duracion_t) \<Rightarrow> (string \<Rightarrow> nat \<Rightarrow> int \<Rightarrow> int) \<Rightarrow> test_rec list \<Rightarrow> proceso_t \<Rightarrow>
      fin_t + (int \<times> salida_t list)" where
  "run_tests op tarda azar ts s =
     (case run_loop op tarda azar ts (\<lparr>errores_b = 0, puntos = 0, puntos_max = 0, impreso = [Cabecera]\<rparr>, s) of
        Inl e \<Rightarrow> Inl e
      | Inr (p, s) \<Rightarrow> Inr (errores_b p, impreso p @ [Total (puntos p) (puntos_max p)]))"

subsection \<open>The command line\<close>

text \<open>
  The copy of \<^verbatim>\<open>get_num_val\<close> in this file: for an integer it asks that the value be zero before, where
  the other copies ask for a pointer.
\<close>

definition get_num_val_btest :: "(string \<Rightarrow> u32 \<times> string) \<Rightarrow> string \<Rightarrow> u32 \<Rightarrow> u32 option" where
  "get_num_val_btest strtof sval valp =
     (if snd (tipo_num sval) then
        (case strtof sval of (fval, endp) \<Rightarrow> if endp = [] then Some fval else None)
      else let llval = strtoll sval in if valp = 0 \<and> cabe_32 llval then Some (word_of_int llval) else None)"

definition opcion_arg :: "(string \<Rightarrow> u32 \<times> string) \<Rightarrow> nat \<Rightarrow> string \<Rightarrow> opciones_t \<Rightarrow> fin_t + opciones_t" where
  "opcion_arg strtof n optarg op =
     (case get_num_val_btest strtof optarg (argval op ! n) of
        None \<Rightarrow> Inl (Sale 0 [Argumento_malo optarg])
      | Some v \<Rightarrow> Inr (op\<lparr>has_arg := (has_arg op)[n := True], argval := (argval op)[n := v]\<rparr>))"

definition opcion :: "(string \<Rightarrow> u32 \<times> string) \<Rightarrow> char \<times> string \<Rightarrow> opciones_t \<Rightarrow> fin_t + opciones_t" where
  "opcion strtof c op =
     (case c of (c, optarg) \<Rightarrow>
        if c = CHR ''h'' then Inl (Sale 1 [Uso_btest])
        else if c = CHR ''g'' then Inr (op\<lparr>grade := True\<rparr>)
        else if c = CHR ''f'' then Inr (op\<lparr>test_fname := Some optarg\<rparr>)
        else if c = CHR ''r'' then
          (case atoi optarg of
             None \<Rightarrow> Inl Indefinido
           | Some r \<Rightarrow> if r < 0 then Inl (Sale 1 [Uso_btest]) else Inr (op\<lparr>global_rating := r\<rparr>))
        else if c = CHR ''1'' then opcion_arg strtof 0 optarg op
        else if c = CHR ''2'' then opcion_arg strtof 1 optarg op
        else if c = CHR ''3'' then opcion_arg strtof 2 optarg op
        else if c = CHR ''T'' then
          (case atoi optarg of None \<Rightarrow> Inl Indefinido | Some l \<Rightarrow> Inr (op\<lparr>timeout_limit := l\<rparr>))
        else Inl (Sale 1 [Uso_btest]))"

primrec opciones :: "(string \<Rightarrow> u32 \<times> string) \<Rightarrow> (char \<times> string) list \<Rightarrow> opciones_t \<Rightarrow> fin_t + opciones_t" where
  "opciones strtof [] op = Inr op"
| "opciones strtof (c # cs) op = (case opcion strtof c op of Inl e \<Rightarrow> Inl e | Inr op \<Rightarrow> opciones strtof cs op)"

text \<open>The exit code does not depend on the errors found.\<close>

definition btest_main ::
    "(string \<Rightarrow> u32 \<times> string) \<Rightarrow> bool \<Rightarrow> (string \<Rightarrow> duracion_t) \<Rightarrow> (string \<Rightarrow> nat \<Rightarrow> int \<Rightarrow> int) \<Rightarrow> (char \<times> string) list \<Rightarrow> fin_t" where
  "btest_main strtof ok tarda azar os =
     (case opciones strtof os opciones_iniciales of
        Inl e \<Rightarrow> e
      | Inr op \<Rightarrow>
          (case (if timeout_limit op > 0 then Signal ok SIGALRM Timeout_handler (\<lambda>_. Por_defecto)
                 else (None, [], \<lambda>_. Por_defecto)) of
             (_, ms0, acciones) \<Rightarrow>
               (case run_tests (op\<lparr>sigalrm := acciones SIGALRM\<rparr>) tarda azar test_set proceso_ini of
                  Inl (Sale c ms) \<Rightarrow> Sale c (ms0 @ ms)
                | Inl e \<Rightarrow> e
                | Inr (errores, ms) \<Rightarrow> Sale 0 (ms0 @ ms))))"

end
