(* ===== verification/Btest_Props.thy ===== *)
theory Btest_Props
  imports Btest
begin

text \<open>
  What \<^verbatim>\<open>btest\<close> establishes: which values it tries, that its loops find the first disagreement between
  a puzzle and its reference, and the report on the puzzles of \<^verbatim>\<open>bits.c\<close>.
\<close>

subsection \<open>The search for a disagreement\<close>

lemma find_append: "find P (xs @ ys) = (case find P xs of None \<Rightarrow> find P ys | Some x \<Rightarrow> Some x)"
  by (induction xs) auto

lemma find_map: "find P (map f xs) = map_option f (find (P \<circ> f) xs)"
  by (induction xs) auto

lemma para_cada_find:
  assumes "\<And>a. f a = map_option g (find P (h a))"
  shows "para_cada f xs = map_option g (find P (concat (map h xs)))"
  by (induction xs) (auto simp: assms find_append split: option.splits)

text \<open>The nested loops visit the tuples in the order of \<open>product_lists\<close> and stop at the first that differs.\<close>

definition discrepa :: "test_rec \<Rightarrow> c_int list \<Rightarrow> bool" where
  "discrepa t as \<longleftrightarrow> solution_funct t as \<noteq> test_funct t as"

definition informe :: "test_rec \<Rightarrow> c_int list \<Rightarrow> salida_t" where
  "informe t as = Falla (nombre t) as (solution_funct t as) (test_funct t as)"

lemma test_arg_find: "test_arg t as = map_option (informe t) (find (discrepa t) [as])"
  by (simp add: test_arg_def discrepa_def informe_def Let_def)

lemma probar_find:
  assumes "length vals = args t" "args t \<le> 3"
  shows "probar t vals = map_option (informe t) (find (discrepa t) (product_lists vals))"
proof -
  have l: "product_lists [xs] = concat (map (\<lambda>a. [[a]]) xs)"
    "product_lists [xs, ys] = concat (map (\<lambda>a. concat (map (\<lambda>b. [[a, b]]) ys)) xs)"
    "product_lists [xs, ys, zs] = concat (map (\<lambda>a. concat (map (\<lambda>b. concat (map (\<lambda>c. [[a, b, c]]) zs)) ys)) xs)"
    for xs ys zs :: "c_int list"
    by (simp_all add: map_concat comp_def)
  consider "vals = []" | v where "vals = [v]" | v w where "vals = [v, w]" | v w u where "vals = [v, w, u]"
    using assms by (auto simp: le_Suc_eq numeral_eq_Suc length_Suc_conv)
  then show ?thesis
  proof cases
    case 1
    then show ?thesis using assms by (simp add: probar_def test_arg_find)
  next
    case (2 v)
    then have "probar t vals = para_cada (\<lambda>a. test_arg t [a]) v" using assms by (simp add: probar_def)
    also have "\<dots> = map_option (informe t) (find (discrepa t) (concat (map (\<lambda>a. [[a]]) v)))"
      by (intro para_cada_find test_arg_find)
    finally show ?thesis unfolding 2 l .
  next
    case (3 v w)
    then have "probar t vals = para_cada (\<lambda>a. para_cada (\<lambda>b. test_arg t [a, b]) w) v"
      using assms by (simp add: probar_def)
    also have "\<dots> = map_option (informe t) (find (discrepa t)
        (concat (map (\<lambda>a. concat (map (\<lambda>b. [[a, b]]) w)) v)))"
      by (intro para_cada_find test_arg_find)
    finally show ?thesis unfolding 3 l .
  next
    case (4 v w u)
    then have "probar t vals = para_cada (\<lambda>a. para_cada (\<lambda>b. para_cada (\<lambda>c. test_arg t [a, b, c]) u) w) v"
      using assms by (simp add: probar_def)
    also have "\<dots> = map_option (informe t) (find (discrepa t)
        (concat (map (\<lambda>a. concat (map (\<lambda>b. concat (map (\<lambda>c. [[a, b, c]]) u)) w)) v)))"
      by (intro para_cada_find test_arg_find)
    finally show ?thesis unfolding 4 l .
  qed
qed

subsection \<open>The test values\<close>

lemma en_arreglo_Some: "en_arreglo vals = Some r \<longleftrightarrow> r = vals \<and> length vals \<le> 6500000"
  by (auto simp: en_arreglo_def MAX_TEST_VALS_def TEST_RANGE_def)

lemma largo_concat:
  assumes "\<And>i. length (f i) \<le> k"
  shows "length (concat (map f xs)) \<le> k * length xs"
proof (induction xs)
  case (Cons x xs)
  then show ?case using assms [of x] by simp
qed simp

lemma gen_vals_fijo: "has_arg op ! n \<Longrightarrow> gen_vals op mn mx r n azar = Some [argval op ! n]"
  by (simp add: gen_vals_def)

lemma gen_vals_float:
  assumes "\<not> has_arg op ! n" "0 \<le> r" "r \<le> 500000"
  shows "gen_vals op 1 1 r n azar = Some (concat (map vals_float [0..r - 1]) @ vals_especiales)"
proof -
  have "length (concat (map vals_float [0..r - 1])) \<le> 12 * length [0..r - 1]"
    by (rule largo_concat) (simp add: vals_float_def Let_def)
  then show ?thesis using assms by (simp add: gen_vals_def en_arreglo_Some vals_especiales_def Let_def)
qed

lemma gen_vals_int:
  assumes "\<not> has_arg op ! n" "\<not> (mn = 1 \<and> mx = 1)" "in_int (mx - 6500000)"
  shows "gen_vals op mn mx r n azar =
    (if mx - 6500000 \<le> mn then (if mx = int_max then None else en_arreglo (map word_of_int [mn..mx]))
     else en_arreglo (concat (map (vals_muestra mn mx azar) [0..r - 1])))"
proof -
  have "\<not> \<not> in_int (mx - MAX_TEST_VALS)" "MAX_TEST_VALS = 6500000"
    using assms(3) by (simp_all add: MAX_TEST_VALS_def TEST_RANGE_def)
  then show ?thesis
    by (simp only: gen_vals_def if_not_P [OF assms(1)] if_not_P [OF assms(2)] if_False simp_thms)
qed

lemma gen_vals_todos:
  assumes "\<not> has_arg op ! n" "\<not> (mn = 1 \<and> mx = 1)" "in_int (mx - 6500000)" "mx < int_max"
    "mx - mn < 6500000"
  shows "gen_vals op mn mx r n azar = Some (map word_of_int [mn..mx])"
  using assms(4,5) by (simp add: gen_vals_int [OF assms(1-3)] en_arreglo_Some)

lemma gen_vals_muestra:
  assumes "\<not> has_arg op ! n" "in_int mn" "in_int mx" "6500000 < mx - mn" "0 \<le> r" "r \<le> 500000"
  shows "gen_vals op mn mx r n azar = Some (concat (map (vals_muestra mn mx azar) [0..r - 1]))"
    "length (concat (map (vals_muestra mn mx azar) [0..r - 1])) \<le> 6500000"
proof -
  have "length (concat (map (vals_muestra mn mx azar) [0..r - 1])) \<le> 5 * length [0..r - 1]"
    by (rule largo_concat) (simp add: vals_muestra_def)
  also have "\<dots> \<le> 6500000" using assms by simp
  finally show l: "length (concat (map (vals_muestra mn mx azar) [0..r - 1])) \<le> 6500000" .
  have m: "in_int (mx - 6500000)" "\<not> (mn = 1 \<and> mx = 1)" "\<not> mx - 6500000 \<le> mn"
    using assms by (auto simp: in_int_def)
  show "gen_vals op mn mx r n azar = Some (concat (map (vals_muestra mn mx azar) [0..r - 1]))"
    unfolding gen_vals_int [OF assms(1) m(2,1)] if_not_P [OF m(3)] en_arreglo_Some using l by blast
qed

lemma div_entre:
  fixes R :: int
  assumes "0 < R" "a * R \<le> n" "n \<le> b * R"
  shows "a \<le> n div R" "n div R \<le> b"
  using zdiv_mono1 [OF assms(2,1)] zdiv_mono1 [OF assms(3,1)] assms(1) by simp_all

lemma random_val_entre:
  assumes "0 \<le> r" "r \<le> RAND_MAX" "mn \<le> mx"
  shows "mn \<le> random_val r mn mx" "random_val r mn mx \<le> mx"
proof -
  let ?n = "mn * (RAND_MAX - r) + mx * r"
  have R: "0 < RAND_MAX" by (simp add: RAND_MAX_def)
  have "mn * RAND_MAX \<le> ?n" "?n \<le> mx * RAND_MAX"
    using mult_right_mono [OF assms(3,1)] mult_right_mono [OF assms(3), of "RAND_MAX - r"] assms(2)
    by (simp_all add: algebra_simps)
  then have "mn \<le> ?n div RAND_MAX" "?n div RAND_MAX \<le> mx"
    "- mx \<le> - ?n div RAND_MAX" "- ?n div RAND_MAX \<le> - mn"
    using div_entre [OF R, of mn ?n mx] div_entre [OF R, of "- mx" "- ?n" "- mn"] by simp_all
  then show "mn \<le> random_val r mn mx" "random_val r mn mx \<le> mx"
    by (simp_all add: random_val_def Let_def)
qed

lemma sint_word_of_int: "in_int z \<Longrightarrow> sint (word_of_int z :: c_int) = z"
  by (simp add: sint_word_of_int32)

text \<open>
  The values \<^verbatim>\<open>gen_vals\<close> makes for an \<^verbatim>\<open>int\<close> argument with bounds \<open>min\<close> and \<open>max\<close>: they lie between
  the bounds, fit the array and contain both bounds; all the values in between are there when they
  are at most \<^verbatim>\<open>MAX_TEST_VALS\<close> of them. There is one exception: with exactly one value more than that,
  the test for a small range still holds and the last value is stored outside the array.
\<close>

theorem gen_vals_correct:
  assumes "\<not> has_arg op ! n" "\<not> (mn = 1 \<and> mx = 1)" "in_int mn" "in_int mx" "mn \<le> mx"
    "in_int (mx - MAX_TEST_VALS)" "mx - mn < MAX_TEST_VALS \<longrightarrow> mx < int_max"
    "1 \<le> r" "r \<le> TEST_RANGE" "\<forall>i. 0 \<le> azar i \<and> azar i \<le> RAND_MAX"
  shows "if mx - mn = MAX_TEST_VALS then gen_vals op mn mx r n azar = None
    else \<exists>vals. gen_vals op mn mx r n azar = Some vals \<and> int (length vals) \<le> MAX_TEST_VALS \<and>
      sint ` set vals \<subseteq> {mn..mx} \<and> {mn, mx} \<subseteq> sint ` set vals \<and>
      (mx - mn < MAX_TEST_VALS \<longrightarrow> sint ` set vals = {mn..mx})"
proof -
  have M: "MAX_TEST_VALS = 6500000" "TEST_RANGE = 500000" by (simp_all add: MAX_TEST_VALS_def TEST_RANGE_def)
  have in_r: "in_int z" if "mn \<le> z" "z \<le> mx" for z using that assms(3,4) by (auto simp: in_int_def)
  consider "mx - mn = 6500000" | "mx - mn < 6500000" | "6500000 < mx - mn" by linarith
  then show ?thesis
  proof cases
    case 1
    then have "gen_vals op mn mx r n azar = (if mx = int_max then None else en_arreglo (map word_of_int [mn..mx]))"
      using gen_vals_int [OF assms(1,2)] assms(6) by (simp add: M)
    moreover have "en_arreglo (map word_of_int [mn..mx]) = None"
      using 1 by (simp add: en_arreglo_def M)
    ultimately show ?thesis using 1 by (simp add: M)
  next
    case 2
    have s: "sint ` set (map word_of_int [mn..mx] :: c_int list) = {mn..mx}"
      using in_r by (auto simp: sint_word_of_int image_image)
    have g: "gen_vals op mn mx r n azar = Some (map word_of_int [mn..mx])"
      using 2 assms by (intro gen_vals_todos) (simp_all add: M)
    show ?thesis using 2 assms(5) unfolding g M by (simp add: s del: set_map set_upto)
  next
    case 3
    let ?v = "concat (map (vals_muestra mn mx azar) [0..r - 1])"
    have g: "gen_vals op mn mx r n azar = Some ?v" and l: "length ?v \<le> 6500000"
      using 3 assms by (intro gen_vals_muestra; simp add: M)+
    have e: "sint ` set (vals_muestra mn mx azar i) \<subseteq> {mn..mx}" if "0 \<le> i" "i < r" for i
    proof -
      have "mn \<le> mn + i" "mn + i \<le> mx" "mn \<le> mx - i" "mx - i \<le> mx" using that assms(9) 3 M by linarith+
      moreover have "mn \<le> random_val (azar i) mn mx" "random_val (azar i) mn mx \<le> mx"
        using assms(5,10) by (simp_all add: random_val_entre)
      ultimately show ?thesis using in_r
        by (auto simp: vals_muestra_def sint_word_of_int simp del: of_int_add of_int_diff of_int_minus)
    qed
    have z: "{mn, mx} \<subseteq> sint ` set (vals_muestra mn mx azar 0)"
      using in_r assms(5) by (auto simp: vals_muestra_def sint_word_of_int image_iff)
    have "sint ` set ?v \<subseteq> {mn..mx}" using e by fastforce
    moreover have "{mn, mx} \<subseteq> sint ` set ?v" using z assms(8) by fastforce
    ultimately show ?thesis using 3 g l by (simp add: M del: set_concat)
  qed
qed

theorem gen_vals_correct_witness:
  "(\<exists>vals. gen_vals opciones_iniciales int_min int_max 707 0 (\<lambda>_. 5) = Some vals \<and>
      {int_min, int_max} \<subseteq> sint ` set vals) \<and>
   gen_vals opciones_iniciales 0 6500000 707 1 (\<lambda>_. 5) = None"
proof
  show "\<exists>vals. gen_vals opciones_iniciales int_min int_max 707 0 (\<lambda>_. 5) = Some vals \<and>
      {int_min, int_max} \<subseteq> sint ` set vals"
    using gen_vals_correct [of opciones_iniciales 0 int_min int_max 707 "\<lambda>_. 5"]
    by (auto simp: opciones_iniciales_def in_int_def int_min_def int_max_def MAX_TEST_VALS_def TEST_RANGE_def RAND_MAX_def)
  show "gen_vals opciones_iniciales 0 6500000 707 1 (\<lambda>_. 5) = None"
    using gen_vals_correct [of opciones_iniciales 1 0 6500000 707 "\<lambda>_. 5"]
    by (simp add: opciones_iniciales_def in_int_def int_min_def int_max_def MAX_TEST_VALS_def TEST_RANGE_def RAND_MAX_def)
qed

subsection \<open>The verdict on a function\<close>

lemma gen_todos_largo: "gen_todos op t azar is = Some vals \<Longrightarrow> length vals = length is"
  by (induction "is" arbitrary: vals) (auto split: Option.bind_splits)

lemma gen_todos_Some:
  assumes "\<And>i. i \<in> set is \<Longrightarrow> gen_vals op (fst (arg_ranges t ! i)) (snd (arg_ranges t ! i)) (arg_test_range (args t)) i (azar i) = Some (v i)"
  shows "gen_todos op t azar is = Some (map v is)"
  using assms by (induction "is") auto

text \<open>No alarm goes off while the program computes for \<open>us\<close> microseconds.\<close>

definition calla :: "nat option \<Rightarrow> nat \<Rightarrow> bool" where
  "calla a us \<longleftrightarrow> (case a of None \<Rightarrow> True | Some a \<Rightarrow> us < a)"

lemma transcurre_calla:
  "calla (alarma s) us \<Longrightarrow> transcurre h us s = Inr (False, s\<lparr>alarma := map_option (\<lambda>a. a - us) (alarma s)\<rparr>)"
  by (cases s) (auto simp: transcurre_def calla_def split: option.splits)

text \<open>An alarm that goes off outside the call that filled the buffer.\<close>

lemma transcurre_suelta:
  "\<not> calla (alarma s) us \<Longrightarrow> envbuf s \<noteq> marco s \<or> marco s = None \<Longrightarrow> transcurre Timeout_handler us s = Inl Indefinido"
  by (auto simp: transcurre_def calla_def entrega_def timeout_handler_def siglongjmp_def split: option.splits)

text \<open>No signal arrives during a call: neither the alarm that was set before nor the one of this test goes off in it.\<close>

definition sin_senal :: "opciones_t \<Rightarrow> duracion_t \<Rightarrow> nat option \<Rightarrow> bool" where
  "sin_senal op d a \<longleftrightarrow>
     (if 0 < timeout_limit op then calla a (d_valores d) \<and> int (d_prueba d) < 10 ^ 6 * timeout_limit op
      else calla a (d_valores d + d_prueba d))"

text \<open>The state after a call in which no signal arrives: the alarm of this test, if there is a limit, is still set.\<close>

definition tras_llamada :: "opciones_t \<Rightarrow> duracion_t \<Rightarrow> proceso_t \<Rightarrow> proceso_t" where
  "tras_llamada op d s =
     \<lparr>alarma = (if 0 < timeout_limit op then Some (10 ^ 6 * nat (timeout_limit op) - d_prueba d)
        else map_option (\<lambda>a. a - d_valores d - d_prueba d) (alarma s)),
      envbuf = (if 0 < timeout_limit op then Some (llamadas s) else envbuf s), marco = None, llamadas = Suc (llamadas s)\<rparr>"

lemma limite_us: "0 < l \<Longrightarrow> us < 1000000 * nat l \<longleftrightarrow> int us < 1000000 * l"
  by linarith

lemma test_function_find:
  assumes "args t \<le> 3" "gen_todos op t (azar (nombre t)) [0..<args t] = Some vals"
    "sin_senal op (tarda (nombre t)) (alarma s)"
  shows "test_function op tarda azar t s =
    (case find (discrepa t) (product_lists vals) of
       None \<Rightarrow> Inr (0, [], tras_llamada op (tarda (nombre t)) s)
     | Some as \<Rightarrow> Inr (1, if grade op then [] else [Falla (nombre t) as (solution_funct t as) (test_funct t as)],
         tras_llamada op (tarda (nombre t)) s))"
proof -
  let ?d = "tarda (nombre t)"
  have l: "length vals = args t" using gen_todos_largo [OF assms(2)] by simp
  define s1 where "s1 = (entra s)\<lparr>alarma := map_option (\<lambda>a. a - d_valores ?d) (alarma s)\<rparr>"
  define s2 where "s2 = (if timeout_limit op > 0 then alarm (timeout_limit op) (sigsetjmp s1) else s1)"
  define s3 where "s3 = s2\<lparr>alarma := map_option (\<lambda>a. a - d_prueba ?d) (alarma s2)\<rparr>"
  have c: "calla (alarma s) (d_valores ?d)" "calla (alarma s2) (d_prueba ?d)"
    using assms(3) limite_us
    by (auto simp: sin_senal_def calla_def alarm_def limite_us s2_def s1_def split: option.splits if_splits)
  have "transcurre (sigalrm op) (d_valores ?d) (entra s) = Inr (False, s1)"
    using transcurre_calla [of "entra s"] c(1) by (simp add: entra_def s1_def)
  moreover have "transcurre (sigalrm op) (d_prueba ?d) s2 = Inr (False, s3)"
    unfolding s3_def by (rule transcurre_calla [OF c(2)])
  moreover have "vuelve s3 = tras_llamada op ?d s"
    by (cases s) (simp add: s3_def s2_def s1_def tras_llamada_def vuelve_def alarm_def sigsetjmp_def entra_def option.map_comp comp_def)
  ultimately show ?thesis
    using assms(1,2) probar_find [OF l assms(1)]
    by (simp add: test_function_def Let_def informe_def flip: s2_def split: option.split)
qed

text \<open>
  C22. The verdict on a puzzle of at most three arguments, when no signal of the alarm clock arrives during the call: with all
  the tuples of the test values in the order of the nested loops, \<^verbatim>\<open>test_function\<close> returns 0 and prints
  nothing if the puzzle agrees with its reference on each of them, and otherwise 1 with a message
  (unless in grading mode) that shows the first tuple on which they differ. With a time limit it leaves its alarm
  set, with the microseconds the test did not use, and the jump buffer filled by a call that has returned.
\<close>

theorem test_function_veredicto:
  assumes "args t \<le> 3" "gen_todos op t (azar (nombre t)) [0..<args t] = Some vals"
    "sin_senal op (tarda (nombre t)) (alarma s)"
  shows "test_function op tarda azar t s =
    (case find (discrepa t) (product_lists vals) of
       None \<Rightarrow> Inr (0, [], tras_llamada op (tarda (nombre t)) s)
     | Some as \<Rightarrow> Inr (1, if grade op then [] else [Falla (nombre t) as (solution_funct t as) (test_funct t as)],
         tras_llamada op (tarda (nombre t)) s))"
  using assms by (rule test_function_find)

theorem test_function_veredicto_witness:
  "test_function (opciones_iniciales\<lparr>has_arg := [True, False, False], argval := [- 130, 0, 0]\<rparr>)
     (\<lambda>_. \<lparr>d_valores = 10, d_prueba = 500, d_despues = 20\<rparr>) (\<lambda>_ _ _. 0) (test_set ! 12) proceso_ini =
   Inr (1, [Falla ''floatPower2'' [- 130] 0x100000 0x80000],
     \<lparr>alarma = Some 9999500, envbuf = Some 0, marco = None, llamadas = 1\<rparr>)"
proof -
  let ?op = "opciones_iniciales\<lparr>has_arg := [True, False, False], argval := [- 130, 0, 0]\<rparr>"
  let ?t = "test_set ! 12"
  have t: "args ?t = 1" "nombre ?t = ''floatPower2''" "solution_funct ?t [- 130] = 0x100000"
    "test_funct ?t [- 130] = 0x80000"
    by (simp_all add: test_set_def funct1_def floatPower2_denormal test_floatPower2_eq f2u_def redondear_def)
  have "gen_todos ?op ?t (\<lambda>_ _. 0) [0..<args ?t] = Some [[- 130]]"
    by (simp add: t gen_vals_fijo upt_rec)
  then show ?thesis
    using test_function_veredicto [of ?t ?op "\<lambda>_ _ _. 0" "[[- 130]]" "\<lambda>_. \<lparr>d_valores = 10, d_prueba = 500, d_despues = 20\<rparr>" proceso_ini]
    by (simp add: t discrepa_def opciones_iniciales_def sin_senal_def calla_def proceso_ini_def tras_llamada_def)
qed

lemma test_function_cero:
  assumes "args t \<le> 3" "gen_todos op t (azar (nombre t)) [0..<args t] = Some vals" "sin_senal op (tarda (nombre t)) (alarma s)"
    "\<And>as. as \<in> set (product_lists vals) \<Longrightarrow> solution_funct t as = test_funct t as"
  shows "test_function op tarda azar t s = Inr (0, [], tras_llamada op (tarda (nombre t)) s)"
proof -
  have "find (discrepa t) (product_lists vals) = None"
    using assms(4) by (simp add: find_None_iff discrepa_def)
  then show ?thesis using test_function_find [of t op azar vals tarda s] assms(1-3) by simp
qed

text \<open>The alarm goes off in the test: the handler jumps back and the test counts as an error.\<close>

lemma test_function_vencido:
  assumes "args t \<le> 3" "gen_todos op t (azar (nombre t)) [0..<args t] \<noteq> None" "sigalrm op = Timeout_handler" "0 < timeout_limit op"
    "calla (alarma s) (d_valores (tarda (nombre t)))" "10 ^ 6 * timeout_limit op \<le> int (d_prueba (tarda (nombre t)))"
  shows "test_function op tarda azar t s = Inr (1, [Vencido (nombre t) (timeout_limit op)],
    \<lparr>alarma = None, envbuf = Some (llamadas s), marco = None, llamadas = Suc (llamadas s)\<rparr>)"
proof -
  let ?d = "tarda (nombre t)"
  let ?s1 = "(entra s)\<lparr>alarma := map_option (\<lambda>a. a - d_valores ?d) (alarma s)\<rparr>"
  have 1: "transcurre Timeout_handler (d_valores ?d) (entra s) = Inr (False, ?s1)"
    using transcurre_calla [of "entra s"] assms(5) by (simp add: entra_def)
  have "\<not> d_prueba ?d < 1000000 * nat (timeout_limit op)" using assms(6) by (simp add: limite_us [OF assms(4)])
  then have 2: "transcurre Timeout_handler (d_prueba ?d) (alarm (timeout_limit op) (sigsetjmp ?s1)) =
      Inr (True, (alarm (timeout_limit op) (sigsetjmp ?s1))\<lparr>alarma := None\<rparr>)"
    using assms(4) by (simp add: transcurre_def alarm_def sigsetjmp_def entrega_def timeout_handler_def siglongjmp_def entra_def)
  show ?thesis
    using assms(1-4) unfolding test_function_def Let_def assms(3) 1
    by (auto simp: 2) (cases s, simp add: vuelve_def alarm_def sigsetjmp_def entra_def)
qed

text \<open>The alarm of an earlier test goes off while the values are generated.\<close>

lemma test_function_suelta:
  assumes "args t \<le> 3" "gen_todos op t (azar (nombre t)) [0..<args t] \<noteq> None" "sigalrm op = Timeout_handler"
    "\<not> calla (alarma s) (d_valores (tarda (nombre t)))" "envbuf s \<noteq> Some (llamadas s)"
  shows "test_function op tarda azar t s = Inl Indefinido"
proof -
  have "transcurre Timeout_handler (d_valores (tarda (nombre t))) (entra s) = Inl Indefinido"
    by (rule transcurre_suelta) (use assms(4,5) in \<open>simp_all add: entra_def\<close>)
  then show ?thesis using assms(1-3) by (auto simp: test_function_def)
qed

subsection \<open>The puzzles of \<^verbatim>\<open>bits.c\<close>\<close>

text \<open>The values tried for a float, as numbers.\<close>

lemma sint_signo:
  assumes "0 \<le> z" "z < 2 ^ 31"
  shows "sint (0x80000000 OR word_of_int z :: c_int) = z - 2 ^ 31"
proof -
  have "uint (word_of_int z :: c_int) = z" using assms by (intro uint_of_small_int) simp_all
  then have "\<not> bit (word_of_int z :: c_int) 31" using assms by (simp only: bit31_uint)
  then have "(word_of_int z :: c_int) AND push_bit 31 1 = 0" by (simp only: and_bit_zero not_False_eq_True)
  moreover have "(0x80000000 :: c_int) AND word_of_int z = word_of_int z AND push_bit 31 1"
    by (subst and.commute) simp
  ultimately have "(0x80000000 :: c_int) AND word_of_int z = 0" by (simp only:)
  then have "0x80000000 OR word_of_int z = (0x80000000 + word_of_int z :: c_int)"
    by (simp add: disjunctive_add_eq_or)
  also have "\<dots> = word_of_int (z - 2 ^ 31)" by simp
  finally have "sint (0x80000000 OR word_of_int z :: c_int) = sint (word_of_int (z - 2 ^ 31) :: c_int)" by simp
  also have "\<dots> = z - 2 ^ 31" using assms by (intro sint_word_of_int) (simp add: in_int_def int_min_def int_max_def)
  finally show ?thesis .
qed

lemma vals_float_valores:
  assumes "0 \<le> i" "i < 2 ^ 23"
  shows "map sint (vals_float i) =
    [i, i - 2 ^ 31, 2 ^ 23 + i, 2 ^ 23 - i, 2 ^ 23 + i - 2 ^ 31, 2 ^ 23 - i - 2 ^ 31,
     127 * 2 ^ 23 + i, 127 * 2 ^ 23 - i, 127 * 2 ^ 23 + i - 2 ^ 31, 127 * 2 ^ 23 - i - 2 ^ 31,
     254 * 2 ^ 23 - i, 254 * 2 ^ 23 - i - 2 ^ 31]"
proof -
  have w: "(0x00800000 :: c_int) + word_of_int i = word_of_int (2 ^ 23 + i)"
    "(0x00800000 :: c_int) - word_of_int i = word_of_int (2 ^ 23 - i)"
    "(0x3F800000 :: c_int) + word_of_int i = word_of_int (127 * 2 ^ 23 + i)"
    "(0x3F800000 :: c_int) - word_of_int i = word_of_int (127 * 2 ^ 23 - i)"
    "(0x7F000000 :: c_int) - word_of_int i = word_of_int (254 * 2 ^ 23 - i)"
    by simp_all
  have s: "sint (0x80000000 OR word_of_int z :: c_int) = z - 2 ^ 31" "sint (word_of_int z :: c_int) = z"
    if "0 \<le> z" "z < 2 ^ 31" for z
    using that sint_signo [of z] sint_word_of_int [of z] by (simp_all add: in_int_def int_min_def int_max_def)
  show ?thesis
    unfolding vals_float_def Let_def w list.map
    using assms by (simp add: s del: of_int_add of_int_diff of_int_mult)
qed

text \<open>No value tried is one where \<^verbatim>\<open>floatPower2\<close> is wrong.\<close>

lemma vals_float_power2:
  assumes "v \<in> set (concat (map vals_float [0..500000 - 1]) @ vals_especiales)"
  shows "\<not> (- 150 \<le> sint v \<and> sint v \<le> - 127)"
proof (cases "v \<in> set vals_especiales")
  case True
  then show ?thesis by (auto simp: vals_especiales_def Let_def)
next
  case False
  then obtain i where i: "0 \<le> i" "i < 500000" "v \<in> set (vals_float i)" using assms by auto
  then have "sint v \<in> set (map sint (vals_float i))" by simp
  then show ?thesis using i(1,2) by (subst (asm) vals_float_valores) auto
qed

text \<open>The values an argument can take, by its bounds in the table.\<close>

definition permitido :: "int \<times> int \<Rightarrow> c_int \<Rightarrow> bool" where
  "permitido rango v \<longleftrightarrow>
     (if rango = (1, 1) then \<not> (- 150 \<le> sint v \<and> sint v \<le> - 127) else fst rango \<le> sint v \<and> sint v \<le> snd rango)"

lemma permitido_todo: "permitido todo_int v"
  using sint_range32 [of v] by (simp add: permitido_def todo_int_def int_min_def int_max_def)

lemma gen_vals_permitido:
  assumes "rango \<in> {todo_int, (0, 3), (0, 31), (1, 1)}" "\<not> has_arg op ! n" "0 \<le> r" "r \<le> 500000"
    "rango = (1, 1) \<longrightarrow> r = 500000"
  shows "\<exists>vals. gen_vals op (fst rango) (snd rango) r n azar = Some vals \<and> (\<forall>v\<in>set vals. permitido rango v)"
  using assms(1)
proof (elim insertE emptyE)
  assume t: "rango = todo_int"
  have "gen_vals op (fst rango) (snd rango) r n azar =
      Some (concat (map (vals_muestra int_min int_max azar) [0..r - 1]))"
    unfolding t todo_int_def fst_conv snd_conv using assms(2-4)
    by (intro gen_vals_muestra) (simp_all add: in_int_def int_min_def int_max_def)
  then show ?thesis by (simp add: t permitido_todo)
next
  assume "rango = (1, 1)"
  then show ?thesis
    using gen_vals_float [OF assms(2-4)] vals_float_power2 assms(5) by (simp add: permitido_def)
qed (use assms(2) in \<open>auto simp: gen_vals_todos in_int_def int_min_def int_max_def permitido_def sint_word_of_int\<close>)

definition rangos_bien :: "opciones_t \<Rightarrow> test_rec \<Rightarrow> bool" where
  "rangos_bien op t \<longleftrightarrow> args t \<le> 3 \<and> (\<forall>i<args t.
     arg_ranges t ! i \<in> {todo_int, (0, 3), (0, 31), (1, 1)} \<and> \<not> has_arg op ! i \<and> (arg_ranges t ! i = (1, 1) \<longrightarrow> args t = 1))"

lemma gen_todos_permitido:
  assumes "rangos_bien op t"
  shows "\<exists>vals. gen_todos op t (azar (nombre t)) [0..<args t] = Some vals \<and>
    (\<forall>as\<in>set (product_lists vals). length as = args t \<and> (\<forall>i<args t. permitido (arg_ranges t ! i) (as ! i)))"
proof -
  have "\<forall>i\<in>{..<args t}. \<exists>vals. gen_vals op (fst (arg_ranges t ! i)) (snd (arg_ranges t ! i)) (arg_test_range (args t)) i
      (azar (nombre t) i) = Some vals \<and> (\<forall>v\<in>set vals. permitido (arg_ranges t ! i) v)"
  proof
    fix i assume "i \<in> {..<args t}"
    then show "\<exists>vals. gen_vals op (fst (arg_ranges t ! i)) (snd (arg_ranges t ! i)) (arg_test_range (args t)) i
      (azar (nombre t) i) = Some vals \<and> (\<forall>v\<in>set vals. permitido (arg_ranges t ! i) v)"
      using assms by (intro gen_vals_permitido) (auto simp: rangos_bien_def arg_test_range_def TEST_RANGE_def)
  qed
  then obtain w where w: "\<forall>i\<in>{..<args t}. gen_vals op (fst (arg_ranges t ! i)) (snd (arg_ranges t ! i))
      (arg_test_range (args t)) i (azar (nombre t) i) = Some (w i) \<and> (\<forall>v\<in>set (w i). permitido (arg_ranges t ! i) v)"
    by (rule bchoice [THEN exE])
  then have "gen_todos op t (azar (nombre t)) [0..<args t] = Some (map w [0..<args t])"
    by (intro gen_todos_Some) simp
  moreover have "length as = args t \<and> (\<forall>i<args t. permitido (arg_ranges t ! i) (as ! i))"
    if "as \<in> set (product_lists (map w [0..<args t]))" for as
  proof -
    have "list_all2 (\<lambda>x ys. x \<in> set ys) as (map w [0..<args t])" using that by (simp add: product_lists_set)
    then show ?thesis using w by (auto simp: list_all2_conv_all_nth)
  qed
  ultimately show ?thesis by blast
qed

lemma test_function_permitido:
  assumes "rangos_bien op t" "sin_senal op (tarda (nombre t)) (alarma s)"
    "\<And>as. length as = args t \<Longrightarrow> \<forall>i<args t. permitido (arg_ranges t ! i) (as ! i) \<Longrightarrow>
       solution_funct t as = test_funct t as"
  shows "test_function op tarda azar t s = Inr (0, [], tras_llamada op (tarda (nombre t)) s)"
  using gen_todos_permitido [OF assms(1), of azar] assms test_function_cero [of t op azar _ tarda s]
  by (auto simp: rangos_bien_def)

text \<open>Every puzzle of the table on the arguments the table gives it.\<close>

definition en_rango :: "int \<times> int \<Rightarrow> c_int \<Rightarrow> bool" where
  "en_rango rango v \<longleftrightarrow> rango = (1, 1) \<or> fst rango \<le> sint v \<and> sint v \<le> snd rango"

definition potencia_denormal :: "test_rec \<Rightarrow> c_int list \<Rightarrow> bool" where
  "potencia_denormal t as \<longleftrightarrow> nombre t = ''floatPower2'' \<and> - 150 \<le> sint (as ! 0) \<and> sint (as ! 0) \<le> - 127"

lemma tabla_iguales:
  "bitAnd x y = test_bitAnd x y" "bitXor x y = test_bitXor x y" "negate x = test_negate x"
  "conditional x y z = test_conditional x y z" "isNonZero x = test_isNonZero x" "logicalNeg x = test_logicalNeg x"
  "allOddBits x = test_allOddBits x" "isAsciiDigit x = test_isAsciiDigit x"
  "floatNegate x = test_floatNegate x" "floatAbsVal x = test_floatAbsVal x"
  by (simp_all add: bit_puzzles_correct allOddBits_correct isAsciiDigit_correct floatNegate_correct floatAbsVal_correct)

lemma tabla_igual:
  assumes "t \<in> set test_set" "length as = args t" "\<forall>i<args t. en_rango (arg_ranges t ! i) (as ! i)"
  shows "solution_funct t as = test_funct t as \<longleftrightarrow> \<not> potencia_denormal t as"
proof -
  have r: "en_rango (0, k) v \<longleftrightarrow> 0 \<le>s v \<and> v \<le>s word_of_int k" if "k \<in> {3, 31}" for v k
    using that by (auto simp: en_rango_def word_sle_eq)
  consider x where "as = [x]" "args t = 1" | x y where "as = [x, y]" "args t = 2"
    | x y z where "as = [x, y, z]" "args t = 3"
    using assms(1,2) by (auto simp: test_set_def length_Suc_conv numeral_eq_Suc)
  then show ?thesis
  proof cases
    case (1 x)
    then show ?thesis using assms(1)
      by (auto simp: test_set_def funct1_def tabla_iguales potencia_denormal_def floatPower2_iff)
  next
    case (2 x y)
    then have "bitMask x y = test_bitMask x y" if "nombre t = ''bitMask''"
      using assms(1,3) that by (intro bitMask_correct) (auto simp: test_set_def numeral_eq_Suc All_less_Suc r)
    then show ?thesis using 2 assms(1)
      by (auto simp: test_set_def funct2_def tabla_iguales potencia_denormal_def)
  next
    case (3 x y z)
    then have "byteSwap x y z = test_byteSwap x y z" if "nombre t = ''byteSwap''"
      using assms(1,3) that by (intro byteSwap_correct) (auto simp: test_set_def numeral_eq_Suc All_less_Suc r)
    then show ?thesis using 3 assms(1)
      by (auto simp: test_set_def funct3_def tabla_iguales potencia_denormal_def)
  qed
qed

lemma test_set_rangos:
  assumes "t \<in> set test_set" "has_arg op = [False, False, False]"
  shows "rangos_bien op t"
  using assms
  by (auto simp: rangos_bien_def test_set_def todo_int_def int_min_def less_Suc_eq numeral_eq_Suc)

lemma test_set_cero:
  assumes "t \<in> set test_set" "sin_senal op (tarda (nombre t)) (alarma s)" "has_arg op = [False, False, False]"
  shows "test_function op tarda azar t s = Inr (0, [], tras_llamada op (tarda (nombre t)) s)"
proof (rule test_function_permitido)
  show "sin_senal op (tarda (nombre t)) (alarma s)" by (rule assms(2))
  show "rangos_bien op t" by (rule test_set_rangos [OF assms(1,3)])
next
  fix as assume as: "length as = args t" "\<forall>i<args t. permitido (arg_ranges t ! i) (as ! i)"
  have "\<forall>i<args t. en_rango (arg_ranges t ! i) (as ! i)"
    using as(2) by (auto simp: en_rango_def permitido_def split: if_splits)
  moreover have "\<not> potencia_denormal t as"
    using as(2) assms(1) by (auto simp: potencia_denormal_def permitido_def test_set_def)
  ultimately show "solution_funct t as = test_funct t as" using tabla_igual [OF assms(1) as(1)] by simp
qed

text \<open>
  C16. Every puzzle of the table computes its reference on all the arguments within the bounds of the
  table, each of the 13 functions on every pattern of 32 bits where there are no bounds, with one
  exception: \<^verbatim>\<open>floatPower2\<close> differs from its reference on each exponent from -150 to -127 and only
  there.
\<close>

theorem tabla_correcta:
  assumes "t \<in> set test_set" "length as = args t" "\<forall>i<args t. en_rango (arg_ranges t ! i) (as ! i)"
  shows "solution_funct t as = test_funct t as \<longleftrightarrow>
    \<not> (nombre t = ''floatPower2'' \<and> - 150 \<le> sint (as ! 0) \<and> sint (as ! 0) \<le> - 127)"
  using tabla_igual [OF assms] by (simp add: potencia_denormal_def)

theorem tabla_correcta_witness:
  "byteSwap 0x12345678 1 3 = test_byteSwap 0x12345678 1 3 \<and> floatPower2 (- 130) \<noteq> test_floatPower2 (- 130)"
proof
  show "byteSwap 0x12345678 1 3 = test_byteSwap 0x12345678 1 3"
    using tabla_correcta [of "test_set ! 3" "[0x12345678, 1, 3]"]
    by (simp add: test_set_def funct3_def numeral_eq_Suc All_less_Suc en_rango_def todo_int_def int_min_def int_max_def)
  show "floatPower2 (- 130) \<noteq> test_floatPower2 (- 130)"
    using tabla_correcta [of "test_set ! 12" "[- 130]"]
    by (simp add: test_set_def funct1_def en_rango_def)
qed

subsection \<open>The report\<close>

definition fila :: "test_rec \<Rightarrow> salida_t" where
  "fila t = Fila (rating t) (rating t) 0 (nombre t)"

text \<open>The microseconds of the time limit, and the tests that reach it.\<close>

definition limite :: "opciones_t \<Rightarrow> nat" where
  "limite op = 10 ^ 6 * nat (timeout_limit op)"

definition vencida :: "nat \<Rightarrow> (string \<Rightarrow> duracion_t) \<Rightarrow> test_rec \<Rightarrow> bool" where
  "vencida tope tarda t \<longleftrightarrow> tope \<le> d_prueba (tarda (nombre t))"

text \<open>
  With the alarm \<open>a\<close> set, no alarm goes off outside a test while the tests \<open>ts\<close> are run: a test that ends in time leaves an alarm, which
  must not go off before the next test sets another one or the program ends.
\<close>

primrec a_salvo :: "nat \<Rightarrow> (string \<Rightarrow> duracion_t) \<Rightarrow> nat option \<Rightarrow> test_rec list \<Rightarrow> bool" where
  "a_salvo tope tarda a [] \<longleftrightarrow> True"
| "a_salvo tope tarda a (t # ts) \<longleftrightarrow>
     (let d = tarda (nombre t); queda = (if tope \<le> d_prueba d then None else Some (tope - d_prueba d))
      in calla a (d_valores d) \<and> calla queda (d_despues d) \<and>
         a_salvo tope tarda (map_option (\<lambda>a. a - d_despues d) queda) ts)"

text \<open>Nothing is on the stack, and the buffer was filled by an earlier call, if at all.\<close>

definition reposo :: "proceso_t \<Rightarrow> bool" where
  "reposo s \<longleftrightarrow> marco s = None \<and> (\<forall>k. envbuf s = Some k \<longrightarrow> k < llamadas s)"

text \<open>The loop over puzzles that are right, with any times.\<close>

lemma run_loop_cero:
  assumes "test_fname op = None" "global_rating op = 0" "grade op = False" "0 < timeout_limit op" "sigalrm op = Timeout_handler"
    and "\<forall>t\<in>set ts. gen_todos op t (azar (nombre t)) [0..<args t] \<noteq> None \<and> args t \<le> 3"
    and "\<forall>t\<in>set ts. \<forall>s. sin_senal op (tarda (nombre t)) (alarma s) \<longrightarrow>
      test_function op tarda azar t s = Inr (0, [], tras_llamada op (tarda (nombre t)) s)"
    and "reposo s"
  shows "if a_salvo (limite op) tarda (alarma s) ts
    then \<exists>s'. run_loop op tarda azar ts (p, s) =
      Inr (\<lparr>errores_b = errores_b p + int (length (filter (vencida (limite op) tarda) ts)),
        puntos = puntos p + sum_list (map rating (filter (\<lambda>t. \<not> vencida (limite op) tarda t) ts)),
        puntos_max = puntos_max p + sum_list (map rating ts),
        impreso = impreso p @ map (\<lambda>t. if vencida (limite op) tarda t then Vencido (nombre t) (timeout_limit op) else fila t) ts\<rparr>, s')
    else run_loop op tarda azar ts (p, s) = Inl Indefinido"
  using assms(6-8)
proof (induction ts arbitrary: p s)
  case (Cons t ts)
  let ?d = "tarda (nombre t)"
  let ?tope = "limite op"
  define queda where "queda = (if vencida ?tope tarda t then None else Some (?tope - d_prueba ?d))"
  define s1 where "s1 = \<lparr>alarma = queda, envbuf = Some (llamadas s), marco = None, llamadas = Suc (llamadas s)\<rparr>"
  define s2 where "s2 = s1\<lparr>alarma := map_option (\<lambda>a. a - d_despues ?d) queda\<rparr>"
  define p1 where "p1 = \<lparr>errores_b = errores_b p + (if vencida ?tope tarda t then 1 else 0),
    puntos = puntos p + (if vencida ?tope tarda t then 0 else rating t), puntos_max = puntos_max p + rating t,
    impreso = impreso p @ [if vencida ?tope tarda t then Vencido (nombre t) (timeout_limit op) else fila t]\<rparr>"
  have g: "gen_todos op t (azar (nombre t)) [0..<args t] \<noteq> None" "args t \<le> 3" using Cons.prems(1) by simp_all
  have a: "a_salvo ?tope tarda (alarma s) (t # ts) \<longleftrightarrow>
      calla (alarma s) (d_valores ?d) \<and> calla queda (d_despues ?d) \<and> a_salvo ?tope tarda (alarma s2) ts"
    by (simp add: queda_def vencida_def s2_def Let_def)
  show ?case
  proof (cases "calla (alarma s) (d_valores ?d)")
    case False
    have "envbuf s \<noteq> Some (llamadas s)" using Cons.prems(3) by (auto simp: reposo_def)
    then have "test_function op tarda azar t s = Inl Indefinido"
      using test_function_suelta [of t op azar s tarda] g assms(5) False by simp
    then show ?thesis using False assms(1) unfolding a by (simp add: run_test_def Let_def)
  next
    case c: True
    have f: "test_function op tarda azar t s =
        (if vencida ?tope tarda t then Inr (1, [Vencido (nombre t) (timeout_limit op)], s1) else Inr (0, [], s1))"
    proof (cases "vencida ?tope tarda t")
      case True
      then have "10 ^ 6 * timeout_limit op \<le> int (d_prueba ?d)" using assms(4) by (simp add: vencida_def limite_def)
      then show ?thesis using test_function_vencido [of t op azar s tarda] g assms(4,5) c True by (simp add: s1_def queda_def)
    next
      case False
      then have "int (d_prueba ?d) < 10 ^ 6 * timeout_limit op" using assms(4) by (simp add: vencida_def limite_def)
      then have "sin_senal op ?d (alarma s)" using c assms(4) by (simp add: sin_senal_def)
      moreover have "tras_llamada op ?d s = s1" using False assms(4) by (simp add: tras_llamada_def s1_def queda_def limite_def)
      ultimately show ?thesis using Cons.prems(2) False by simp
    qed
    show ?thesis
    proof (cases "calla queda (d_despues ?d)")
      case False
      then have "transcurre Timeout_handler (d_despues ?d) s1 = Inl Indefinido"
        by (intro transcurre_suelta) (simp_all add: s1_def)
      then show ?thesis using False f assms(1,5) unfolding a by (cases "vencida ?tope tarda t") (simp_all add: run_test_def Let_def)
    next
      case True
      then have "transcurre Timeout_handler (d_despues ?d) s1 = Inr (False, s2)"
        using transcurre_calla [of s1] by (simp add: s1_def s2_def)
      then have t: "run_test op tarda azar t (p, s) = Inr (p1, s2)"
        using f assms(1-3,5) by (cases "vencida ?tope tarda t") (simp_all add: run_test_def Let_def p1_def fila_def)
      have "reposo s2" by (simp add: reposo_def s2_def s1_def)
      then have IH: "if a_salvo ?tope tarda (alarma s2) ts
        then \<exists>s'. run_loop op tarda azar ts (p1, s2) =
          Inr (\<lparr>errores_b = errores_b p1 + int (length (filter (vencida ?tope tarda) ts)),
            puntos = puntos p1 + sum_list (map rating (filter (\<lambda>t. \<not> vencida ?tope tarda t) ts)),
            puntos_max = puntos_max p1 + sum_list (map rating ts),
            impreso = impreso p1 @ map (\<lambda>t. if vencida ?tope tarda t then Vencido (nombre t) (timeout_limit op) else fila t) ts\<rparr>, s')
        else run_loop op tarda azar ts (p1, s2) = Inl Indefinido"
        using Cons.prems(1,2) by (intro Cons.IH) simp_all
      then show ?thesis unfolding a using c True t
        by (cases "vencida ?tope tarda t"; cases "a_salvo ?tope tarda (alarma s2) ts") (simp_all add: p1_def ac_simps)
    qed
  qed
qed simp

text \<open>
  A test that ends in time, but whose alarm goes off before the next test sets its own, while the driver prints, or
  generates the values of the next test, or ends.
\<close>

definition alarma_suelta :: "nat \<Rightarrow> (string \<Rightarrow> duracion_t) \<Rightarrow> test_rec list \<Rightarrow> nat \<Rightarrow> bool" where
  "alarma_suelta tope tarda ts i \<longleftrightarrow>
     (let d = tarda (nombre (ts ! i))
      in d_prueba d < tope \<and>
         tope \<le> d_prueba d + d_despues d + (if Suc i < length ts then d_valores (tarda (nombre (ts ! Suc i))) else 0))"

lemma a_salvo_suelta:
  "a_salvo tope tarda a ts \<longleftrightarrow>
     (ts \<noteq> [] \<longrightarrow> calla a (d_valores (tarda (nombre (hd ts))))) \<and> (\<forall>i<length ts. \<not> alarma_suelta tope tarda ts i)"
proof (induction ts arbitrary: a)
  case (Cons t ts)
  have "alarma_suelta tope tarda (t # ts) (Suc i) = alarma_suelta tope tarda ts i" for i
    by (simp add: alarma_suelta_def Let_def)
  moreover have "alarma_suelta tope tarda (t # ts) 0 \<longleftrightarrow>
      (let d = tarda (nombre t) in d_prueba d < tope \<and>
        tope \<le> d_prueba d + d_despues d + (if ts = [] then 0 else d_valores (tarda (nombre (hd ts)))))"
    by (cases ts) (simp_all add: alarma_suelta_def Let_def)
  ultimately show ?case
    unfolding a_salvo.simps Cons.IH by (auto simp: All_less_Suc2 Let_def calla_def)
qed simp

text \<open>The run without options: its two outcomes.\<close>

lemma btest_main_sin_opciones:
  "btest_main strtof True tarda azar [] =
    (if \<forall>i<length test_set. \<not> alarma_suelta (10 ^ 7) tarda test_set i
     then Sale 0 (Cabecera #
      map (\<lambda>t. if vencida (10 ^ 7) tarda t then Vencido (nombre t) 10 else fila t) test_set @
      [Total (sum_list (map rating (filter (\<lambda>t. \<not> vencida (10 ^ 7) tarda t) test_set))) 33])
     else Indefinido)"
proof -
  let ?op = "opciones_iniciales\<lparr>sigalrm := Timeout_handler\<rparr>"
  have op: "has_arg ?op = [False, False, False]" "timeout_limit opciones_iniciales = 10" "limite ?op = 10 ^ 7" "reposo proceso_ini"
    "timeout_limit ?op = 10"
    by (simp_all add: opciones_iniciales_def limite_def reposo_def proceso_ini_def)
  have g: "gen_todos ?op t (azar (nombre t)) [0..<args t] \<noteq> None \<and> args t \<le> 3" if "t \<in> set test_set" for t
    using test_set_rangos [OF that op(1)] gen_todos_permitido [of ?op t azar] by (auto simp: rangos_bien_def)
  have a: "a_salvo (10 ^ 7) tarda (alarma proceso_ini) test_set \<longleftrightarrow> (\<forall>i<length test_set. \<not> alarma_suelta (10 ^ 7) tarda test_set i)"
    unfolding a_salvo_suelta by (simp add: proceso_ini_def calla_def)
  have c: "test_fname ?op = None" "global_rating ?op = 0" "grade ?op = False" "0 < timeout_limit ?op" "sigalrm ?op = Timeout_handler"
    by (simp_all add: opciones_iniciales_def)
  let ?p = "\<lparr>errores_b = 0, puntos = 0, puntos_max = 0, impreso = [Cabecera]\<rparr>"
  note R = run_loop_cero [OF c _ _ op(4), of test_set azar tarda ?p, unfolded op(3,5) a]
  have "\<forall>t\<in>set test_set. \<forall>s. sin_senal ?op (tarda (nombre t)) (alarma s) \<longrightarrow>
      test_function ?op tarda azar t s = Inr (0, [], tras_llamada ?op (tarda (nombre t)) s)"
    using test_set_cero [OF _ _ op(1)] by blast
  note R = R [OF _ this]
  have t33: "sum_list (map rating test_set) = 33" by (simp add: test_set_def)
  show ?thesis
  proof (cases "\<forall>i<length test_set. \<not> alarma_suelta (10 ^ 7) tarda test_set i")
    case True
    then obtain s' where "run_loop ?op tarda azar test_set (?p, proceso_ini) =
        Inr (\<lparr>errores_b = errores_b ?p + int (length (filter (vencida (10 ^ 7) tarda) test_set)),
          puntos = puntos ?p + sum_list (map rating (filter (\<lambda>t. \<not> vencida (10 ^ 7) tarda t) test_set)),
          puntos_max = puntos_max ?p + sum_list (map rating test_set),
          impreso = impreso ?p @ map (\<lambda>t. if vencida (10 ^ 7) tarda t then Vencido (nombre t) 10 else fila t) test_set\<rparr>, s')"
      using R g unfolding if_P [OF True] by blast
    then show ?thesis unfolding if_P [OF True] by (simp add: btest_main_def run_tests_def Signal_def op(2) t33)
  next
    case False
    have "run_loop ?op tarda azar test_set (?p, proceso_ini) = Inl Indefinido"
      using R g unfolding if_not_P [OF False] by blast
    then show ?thesis unfolding if_not_P [OF False] by (simp add: btest_main_def run_tests_def Signal_def op(2))
  qed
qed

text \<open>
  C21. The run of \<^verbatim>\<open>btest\<close> without options on the puzzles of the repository, when no alarm goes off between
  two tests, that is, when after each test that takes less than ten seconds the program prints its row and generates the values of the next test, or ends, before
  these ten seconds are over: it prints, in the order of the table, one row with no errors and the full points for
  each puzzle that is tested within ten seconds and a message for each of the others, and as total the points
  of the former out of 33; all 33 when no test expires. This holds whatever numbers \<^verbatim>\<open>rand\<close> delivers; the exponents on which \<^verbatim>\<open>floatPower2\<close> is wrong are
  never among the values tried.
\<close>

theorem btest_main_puntaje:
  assumes "\<forall>i<length test_set. \<not> alarma_suelta (10 ^ 7) tarda test_set i"
  shows "btest_main strtof True tarda azar [] =
    Sale 0 (Cabecera #
      map (\<lambda>t. if 10 ^ 7 \<le> d_prueba (tarda (nombre t)) then Vencido (nombre t) 10 else Fila (rating t) (rating t) 0 (nombre t)) test_set @
      [Total (sum_list (map rating (filter (\<lambda>t. d_prueba (tarda (nombre t)) < 10 ^ 7) test_set))) 33])"
  using assms unfolding btest_main_sin_opciones by (simp add: vencida_def fila_def not_le)

text \<open>One run in which only the first puzzle takes too long.\<close>

theorem btest_main_puntaje_witness:
  "btest_main (\<lambda>_. (0, [])) True
      (\<lambda>n. \<lparr>d_valores = 2000, d_prueba = (if n = ''bitAnd'' then 10 ^ 8 else 30000), d_despues = 50\<rparr>) (\<lambda>_ _ _. 7) [] =
    Sale 0 (Cabecera # Vencido ''bitAnd'' 10 # map (\<lambda>t. Fila (rating t) (rating t) 0 (nombre t)) (tl test_set) @ [Total 32 33])"
  using btest_main_puntaje [of "\<lambda>n. \<lparr>d_valores = 2000, d_prueba = (if n = ''bitAnd'' then 10 ^ 8 else 30000), d_despues = 50\<rparr>"
      "\<lambda>_. (0, [])" "\<lambda>_ _ _. 7"]
  by (simp add: test_set_def alarma_suelta_def Let_def)

subsection \<open>An alarm after the test\<close>

text \<open>
  C40. The alarm of a test is never cancelled, and \<^verbatim>\<open>envbuf\<close> keeps the state of the call that filled it. When some test takes less than ten seconds, so that
  \<^verbatim>\<open>test_function\<close> returns with its alarm still set, and printing its row and generating the values of the next test (or ending the program) takes
  at least the rest of these ten seconds, \<^verbatim>\<open>timeout_handler\<close> jumps to a call that has returned: the run of \<^verbatim>\<open>btest\<close> is undefined although
  every puzzle is right.
\<close>

theorem btest_main_alarma:
  assumes "i < length test_set" "d_prueba (tarda (nombre (test_set ! i))) < 10 ^ 7"
    "10 ^ 7 \<le> d_prueba (tarda (nombre (test_set ! i))) + d_despues (tarda (nombre (test_set ! i))) +
       (if Suc i < length test_set then d_valores (tarda (nombre (test_set ! Suc i))) else 0)"
  shows "btest_main strtof True tarda azar [] = Indefinido"
proof -
  have "alarma_suelta (10 ^ 7) tarda test_set i" using assms(2,3) by (simp add: alarma_suelta_def Let_def)
  then show ?thesis unfolding btest_main_sin_opciones using assms(1) by auto
qed

text \<open>The test of \<^verbatim>\<open>negate\<close> ends half a millisecond before the limit, and the values of \<^verbatim>\<open>byteSwap\<close> take two.\<close>

theorem btest_main_alarma_witness:
  "btest_main (\<lambda>_. (0, [])) True
     (\<lambda>n. \<lparr>d_valores = 2000, d_prueba = (if n = ''negate'' then 9999500 else 30000), d_despues = 50\<rparr>) (\<lambda>_ _ _. 7) [] = Indefinido"
  by (rule btest_main_alarma [of 2]) (simp_all add: test_set_def)

end
