(* ===== verification/Recode_Alu.thy ===== *)
theory Recode_Alu
  imports Prelude
begin

text \<open>
  \<^verbatim>\<open>Labs individuales/lab3/recode57_alu.c\<close>: detecting and writing byte order marks, decoding
  one code point from a buffer and encoding one. A buffer is the list of the bytes of the C
  array from the pointer on; an access past its end is undefined and makes the function
  \<open>None\<close>. The length argument \<open>n\<close> is separate, as in C: bytes of the array from \<open>n\<close> on are
  there, but not part of the input. A \<^verbatim>\<open>size_t\<close> is a \<open>nat\<close> with the wrap-around of its
  subtraction written out.
\<close>

unbundle bit_operations_syntax

type_synonym codepoint = "32 word"

datatype encoding = UTF8 | UTF16BE | UTF16LE | UTF32BE | UTF32LE | UNKNOWN

subsection \<open>Bytes of a buffer\<close>

definition size_sub :: "nat \<Rightarrow> nat \<Rightarrow> nat" where
  "size_sub a b = (if b \<le> a then a - b else 2 ^ 64 + a - b)"

text \<open>A byte promoted to \<^verbatim>\<open>int\<close> and shifted left, as \<^verbatim>\<open>codepoint |= buf[i] << k\<close> uses it.\<close>

definition byte_shl :: "u8 \<Rightarrow> nat \<Rightarrow> codepoint" where
  "byte_shl b k = push_bit k (ucast b)"

subsection \<open>Byte order marks\<close>

definition bom_to_encoding :: "u8 list \<Rightarrow> encoding option" where
  "bom_to_encoding bom = do {
     b0 \<leftarrow> at bom 0; b1 \<leftarrow> at bom 1; b2 \<leftarrow> at bom 2; b3 \<leftarrow> at bom 3;
     Some (if b0 = 254 \<and> b1 = 255 then UTF16BE
           else if b0 = 0 \<and> b1 = 0 \<and> b2 = 254 \<and> b3 = 255 then UTF32BE
           else if b0 = 255 \<and> b1 = 254 \<and> b2 = 0 \<and> b3 = 0 then UTF32LE
           else if b0 = 255 \<and> b1 = 254 then UTF16LE
           else UTF8)
   }"

text \<open>The bytes written; the number the C function returns is their count.\<close>

definition write_bom :: "encoding \<Rightarrow> u8 list" where
  "write_bom enc =
     (let mask_ff = 0xFF; mask_fe = 0xFE
      in if enc = UTF16BE then [mask_fe, mask_ff]
         else if enc = UTF32BE then [0, 0, mask_fe, mask_ff]
         else if enc = UTF32LE then [mask_ff, mask_fe, 0, 0]
         else if enc = UTF16LE then [mask_ff, mask_fe]
         else [])"

subsection \<open>Decoding one code point\<close>

text \<open>
  \<^verbatim>\<open>read_codepoint\<close> returns the code point stored through \<^verbatim>\<open>dest\<close> and the number of bytes
  consumed. One definition per encoding family, in the order of the C code; the last case of
  the C function (an unknown encoding, or UTF-32 with fewer than four bytes) stores 0 and
  consumes nothing.
\<close>

definition read_utf32 :: "encoding \<Rightarrow> u8 list \<Rightarrow> (codepoint \<times> nat) option" where
  "read_utf32 enc buf = do {
     b0 \<leftarrow> at buf 0; b1 \<leftarrow> at buf 1; b2 \<leftarrow> at buf 2; b3 \<leftarrow> at buf 3;
     Some (if enc = UTF32BE
           then byte_shl b0 24 OR byte_shl b1 16 OR byte_shl b2 8 OR byte_shl b3 0
           else byte_shl b0 0 OR byte_shl b1 8 OR byte_shl b2 16 OR byte_shl b3 24, 4)
   }"

definition read_utf16 :: "encoding \<Rightarrow> u8 list \<Rightarrow> nat \<Rightarrow> (codepoint \<times> nat) option" where
  "read_utf16 enc buf n =
     (if n \<ge> 2 then do {
        b0 \<leftarrow> at buf 0; b1 \<leftarrow> at buf 1;
        if enc = UTF16BE then
          if drop_bit 2 b0 \<noteq> 0x36 then Some (byte_shl b0 8 OR byte_shl b1 0, 2)
          else if n \<ge> 4 then do {
            b2 \<leftarrow> at buf 2; b3 \<leftarrow> at buf 3;
            Some ((byte_shl (b0 AND 3) 18 OR byte_shl b1 10 OR byte_shl (b2 AND 3) 8
                   OR byte_shl b3 0) + 65536, 4)
          } else Some (0, 0)
        else
          if drop_bit 2 b1 \<noteq> 0x36 then Some (byte_shl b0 0 OR byte_shl b1 8, 2)
          else if n \<ge> 4 then do {
            b2 \<leftarrow> at buf 2; b3 \<leftarrow> at buf 3;
            Some ((byte_shl b0 10 OR byte_shl (b1 AND 3) 18 OR byte_shl b2 0
                   OR byte_shl (b3 AND 3) 8) + 65536, 4)
          } else Some (0, 0)
      } else Some (0, 0))"

definition read_utf8 :: "u8 list \<Rightarrow> nat \<Rightarrow> (codepoint \<times> nat) option" where
  "read_utf8 buf n =
     (if n > 0 then do {
        b0 \<leftarrow> at buf 0;
        if b0 < 0x80 then Some (byte_shl b0 0, 1)
        else if b0 < 0xE0 then do {
          b1 \<leftarrow> at buf 1;
          Some (byte_shl (b0 AND 31) 6 OR byte_shl (b1 AND 63) 0, 2)
        } else if b0 < 0xF0 then do {
          b1 \<leftarrow> at buf 1; b2 \<leftarrow> at buf 2;
          Some (byte_shl (b0 AND 15) 12 OR byte_shl (b1 AND 63) 6 OR byte_shl (b2 AND 63) 0, 3)
        } else do {
          b1 \<leftarrow> at buf 1; b2 \<leftarrow> at buf 2; b3 \<leftarrow> at buf 3;
          Some (byte_shl (b0 AND 7) 18 OR byte_shl (b1 AND 63) 12 OR byte_shl (b2 AND 63) 6
                OR byte_shl (b3 AND 63) 0, 4)
        }
      } else Some (0, 0))"

definition read_codepoint :: "encoding \<Rightarrow> u8 list \<Rightarrow> nat \<Rightarrow> (codepoint \<times> nat) option" where
  "read_codepoint enc buf n =
     (if (enc = UTF32LE \<or> enc = UTF32BE) \<and> n \<ge> 4 then read_utf32 enc buf
      else if enc = UTF16LE \<or> enc = UTF16BE then read_utf16 enc buf n
      else if enc = UTF8 then read_utf8 buf n
      else Some (0, 0))"

subsection \<open>Encoding one code point\<close>

text \<open>
  The bytes stored in \<^verbatim>\<open>outbuf\<close>; the number returned is their count. An assignment to a
  \<^verbatim>\<open>uint8_t\<close> keeps the low eight bits.
\<close>

definition byte_of :: "codepoint \<Rightarrow> u8" where
  "byte_of w = ucast w"

definition write_codepoint :: "encoding \<Rightarrow> codepoint \<Rightarrow> u8 list" where
  "write_codepoint enc cp =
     (if enc = UTF32LE \<or> enc = UTF32BE then
        (let aux = cp in
         if enc = UTF32LE then
           [byte_of (aux AND 255), byte_of (drop_bit 8 aux AND 255),
            byte_of (drop_bit 16 aux AND 255), byte_of (drop_bit 24 aux AND 255)]
         else
           [byte_of (drop_bit 24 aux AND 255), byte_of (drop_bit 16 aux AND 255),
            byte_of (drop_bit 8 aux AND 255), byte_of (aux AND 255)])
      else if enc = UTF16LE \<or> enc = UTF16BE then
        (if cp \<le> 0xFFFF then
           (let aux = cp in
            if enc = UTF16LE then [byte_of (aux AND 255), byte_of (drop_bit 8 aux AND 255)]
            else [byte_of (drop_bit 8 aux AND 255), byte_of (aux AND 255)])
         else
           (let aux = cp - 65536 in
            if enc = UTF16LE then
              [byte_of (drop_bit 10 aux AND 255), byte_of (216 OR drop_bit 18 aux),
               byte_of (aux AND 255), byte_of (220 OR (drop_bit 8 aux AND 3))]
            else
              [byte_of (216 OR drop_bit 18 aux), byte_of (drop_bit 10 aux AND 255),
               byte_of (220 OR (drop_bit 8 aux AND 3)), byte_of (aux AND 255)]))
      else if enc = UTF8 then
        (let aux = cp in
         if cp < 0x80 then [byte_of aux]
         else if cp < 0x800 then
           [byte_of (192 OR drop_bit 6 aux), byte_of (128 OR (aux AND 63))]
         else if cp < 0x10000 then
           [byte_of (224 OR drop_bit 12 aux), byte_of (128 OR (drop_bit 6 aux AND 63)),
            byte_of (128 OR (aux AND 63))]
         else
           [byte_of (240 OR drop_bit 18 aux), byte_of (128 OR (drop_bit 12 aux AND 63)),
            byte_of (128 OR (drop_bit 6 aux AND 63)), byte_of (128 OR (aux AND 63))])
      else [])"

subsection \<open>Lemmas\<close>

lemma size_sub_le [simp]: "b \<le> a \<Longrightarrow> size_sub a b = a - b"
  by (simp add: size_sub_def)

text \<open>Each byte written and the bits it carries.\<close>

named_theorems codec \<comment> \<open>the byte-level operations of the codec, unfolded to bits\<close>

lemmas [codec] = byte_shl_def byte_of_def

lemma write_codepoint_length:
  "length (write_codepoint enc cp) \<le> 4"
  "enc \<noteq> UNKNOWN \<Longrightarrow> 1 \<le> length (write_codepoint enc cp)"
  by (cases enc; simp add: write_codepoint_def Let_def)+

text \<open>
  The code points each encoding can carry: all 32 bits in UTF-32; in UTF-16 the range of
  Unicode without the high surrogates; in UTF-8 whatever fits its four-byte form.
\<close>

fun encodable :: "encoding \<Rightarrow> codepoint \<Rightarrow> bool" where
  "encodable UTF8 cp \<longleftrightarrow> cp < 0x200000"
| "encodable UTF16BE cp \<longleftrightarrow> cp \<le> 0x10FFFF \<and> \<not> (0xD800 \<le> cp \<and> cp < 0xDC00)"
| "encodable UTF16LE cp \<longleftrightarrow> cp \<le> 0x10FFFF \<and> \<not> (0xD800 \<le> cp \<and> cp < 0xDC00)"
| "encodable UTF32BE cp \<longleftrightarrow> True"
| "encodable UTF32LE cp \<longleftrightarrow> True"
| "encodable UNKNOWN cp \<longleftrightarrow> False"

text \<open>A byte is the sum of its bits; comparisons and the surrogate test read off bits 2 to 7.\<close>

lemma byte_bit: "bit (b::u8) n \<longleftrightarrow> odd (uint b div 2 ^ n)"
  by (metis bit_iff_odd bit_uint_iff bit_imp_le_length)

lemma byte_range: "0 \<le> uint (b::u8) \<and> uint b < 256" using uint_lt2p [of b] by simp

lemma halve: "y = of_bool (odd y) + 2 * (y div 2)" for y :: int
  by (cases "odd y") (auto elim!: oddE evenE)

lemma byte_digits: 
  fixes b :: u8
  shows "uint b = uint b mod 4 + 4 * of_bool (bit b 2) + 8 * of_bool (bit b 3) + 16 * of_bool (bit b 4)
    + 32 * of_bool (bit b 5) + 64 * of_bool (bit b 6) + 128 * of_bool (bit b 7)"
proof -
  define x where "x = uint b"
  have d: "x div 2 ^ n = of_bool (bit b n) + 2 * (x div 2 ^ Suc n)" for n
  proof -
    have "x div 2 ^ Suc n = x div (2 ^ n * 2)" by (simp add: mult.commute)
    then have "x div 2 ^ Suc n = x div 2 ^ n div 2" by (simp only: zdiv_zmult2_eq zero_le_numeral)
    moreover have "x div 2 ^ n = of_bool (odd (x div 2 ^ n)) + 2 * (x div 2 ^ n div 2)"
      by (rule halve)
    ultimately show ?thesis by (simp add: byte_bit x_def)
  qed
  have "x div 256 = 0" using byte_range [of b] by (simp add: x_def)
  moreover have "x = x mod 4 + 4 * (x div 4)" by simp
  moreover have "x div 4 = of_bool (bit b 2) + 2 * (x div 8)" using d [of 2] by simp
  moreover have "x div 8 = of_bool (bit b 3) + 2 * (x div 16)" using d [of 3] by simp
  moreover have "x div 16 = of_bool (bit b 4) + 2 * (x div 32)" using d [of 4] by simp
  moreover have "x div 32 = of_bool (bit b 5) + 2 * (x div 64)" using d [of 5] by simp
  moreover have "x div 64 = of_bool (bit b 6) + 2 * (x div 128)" using d [of 6] by simp
  moreover have "x div 128 = of_bool (bit b 7) + 2 * (x div 256)" using d [of 7] by simp
  ultimately show ?thesis unfolding x_def [symmetric] by linarith
qed

lemma byte_tests:
  fixes b :: u8
  shows byte_lt_80: "b < 0x80 \<longleftrightarrow> \<not> bit b 7"
   and byte_lt_E0: "b < 0xE0 \<longleftrightarrow> \<not> (bit b 7 \<and> bit b 6 \<and> bit b 5)"
  and byte_lt_F0: "b < 0xF0 \<longleftrightarrow> \<not> (bit b 7 \<and> bit b 6 \<and> bit b 5 \<and> bit b 4)"
  and byte_surrogate: "drop_bit 2 b = 0x36 \<longleftrightarrow> bit b 7 \<and> bit b 6 \<and> \<not> bit b 5 \<and> bit b 4 \<and> bit b 3 \<and> \<not> bit b 2"
proof -
  define x where "x = uint b mod 4"
  have x: "0 \<le> x" "x < 4" by (simp_all add: x_def)
  note v = byte_digits [of b, folded x_def]
  show "b < 0x80 \<longleftrightarrow> \<not> bit b 7" "b < 0xE0 \<longleftrightarrow> \<not> (bit b 7 \<and> bit b 6 \<and> bit b 5)"
    "b < 0xF0 \<longleftrightarrow> \<not> (bit b 7 \<and> bit b 6 \<and> bit b 5 \<and> bit b 4)"
    unfolding word_less_def by (subst v; use x in \<open>simp add: of_bool_def\<close>)+
  have "uint (drop_bit 2 b) = uint b div 4"
    using byte_range [of b]
    by (simp only: unsigned_drop_bit_eq) (simp add: drop_bit_eq_div take_bit_int_eq_self)
  then have "drop_bit 2 b = 0x36 \<longleftrightarrow> uint b div 4 = 0x36"
    by (simp only: word_uint_eq_iff) simp
  also have "\<dots> \<longleftrightarrow> 216 \<le> uint b \<and> uint b < 220" by auto
  also have "\<dots> \<longleftrightarrow> bit b 7 \<and> bit b 6 \<and> \<not> bit b 5 \<and> bit b 4 \<and> bit b 3 \<and> \<not> bit b 2"
    by (subst (1 2) v) (use x in \<open>simp add: of_bool_def\<close>)
  finally show "drop_bit 2 b = 0x36 \<longleftrightarrow> bit b 7 \<and> bit b 6 \<and> \<not> bit b 5 \<and> bit b 4 \<and> bit b 3 \<and> \<not> bit b 2" .
qed

lemma surrogate_top: "drop_bit 10 (w::32 word) = 0x36 \<longleftrightarrow> 0xD800 \<le> w \<and> w < 0xDC00"
proof -
  have u: "0 \<le> uint w" "uint w < 2 ^ 32" using uint_lt2p [of w] by simp_all
  have "uint (drop_bit 10 w) = uint w div 1024"
    using u by (simp only: unsigned_drop_bit_eq) (simp add: drop_bit_eq_div take_bit_int_eq_self)
  then have "drop_bit 10 w = 0x36 \<longleftrightarrow> uint w div 1024 = 0x36"
    by (simp only: word_uint_eq_iff) simp
  also have "\<dots> \<longleftrightarrow> 0xD800 \<le> uint w \<and> uint w < 0xDC00" by auto
  finally show ?thesis by (simp add: word_less_def word_le_def)
qed

lemma surrogate_byte: 
  assumes "cp \<le> 0xFFFF"
  shows "drop_bit 2 (ucast (drop_bit 8 cp) :: u8) = 0x36 \<longleftrightarrow> 0xD800 \<le> (cp :: 32 word) \<and> cp < 0xDC00"
proof -
  have h: "m < 16" if "bit cp m" for m
    using bit_above_bound [of cp 16 m] assms that by (cases "m < 16") (simp_all add: word_le_def)
  have "drop_bit 2 (ucast (drop_bit 8 cp) :: u8) = ucast (drop_bit 10 cp)"
    by (rule bit_word_eqI) (auto simp: bit_simps dest: h)
  moreover have "ucast (drop_bit 10 cp) = (0x36::u8) \<longleftrightarrow> drop_bit 10 cp = 0x36"
  proof
    assume a: "ucast (drop_bit 10 cp) = (0x36::u8)"
    have "ucast (ucast (drop_bit 10 cp) :: u8) = drop_bit 10 cp"
      by (intro bit_word_eqI) (auto simp: bit_simps dest: h)
    with a show "drop_bit 10 cp = 0x36" by simp
  qed simp
  ultimately show ?thesis by (simp add: surrogate_top)
qed

text \<open>Decoding what was encoded, one lemma per length of the encoded form.\<close>

lemmas codec_unfold =
  read_codepoint_def read_utf32_def read_utf16_def read_utf8_def write_codepoint_def codec Let_def

lemma read_write_utf32: "enc = UTF32LE \<or> enc = UTF32BE \<Longrightarrow> 4 \<le> n \<Longrightarrow> read_codepoint enc (write_codepoint enc cp @ rest) n = Some (cp, 4)"
    by (elim disjE, simp_all add: codec_unfold )
      (rule word32_by_bits, simp add: bit_simps)+

lemma read_write_utf8_1: "cp < 0x80 \<Longrightarrow> 1 \<le> n \<Longrightarrow> read_codepoint UTF8 (write_codepoint UTF8 cp @ rest) n = Some (cp, 1)"
proof -
  assume a: "cp < 0x80" "1 \<le> n"
  have h: "\<not> bit cp m" if "7 \<le> m" for m using bit_above_bound [of cp 7 m] a(1) that by (simp add: word_less_def)
  show ?thesis using a
    by (simp add: codec_unfold byte_lt_80 bit_simps h)
      (rule word32_by_bits, simp add: bit_simps h)
qed

lemma read_write_utf8_2: "\<not> cp < 0x80 \<Longrightarrow> cp < 0x800 \<Longrightarrow> 2 \<le> n \<Longrightarrow> read_codepoint UTF8 (write_codepoint UTF8 cp @ rest) n = Some (cp, 2)"
proof -
  assume a: "\<not> cp < 0x80" "cp < 0x800" "2 \<le> n"
  have h: "\<not> bit cp m" if "11 \<le> m" for m using bit_above_bound [of cp 11 m] a(2) that by (simp add: word_less_def)
  show ?thesis using a
    by (simp add: codec_unfold byte_lt_80 byte_lt_E0 bit_simps h)
      (rule word32_by_bits, simp add: bit_simps h)
qed

lemma read_write_utf8_3: "\<not> cp < 0x800 \<Longrightarrow> cp < 0x10000 \<Longrightarrow> 3 \<le> n \<Longrightarrow> read_codepoint UTF8 (write_codepoint UTF8 cp @ rest) n = Some (cp, 3)"
proof -
  assume a: "\<not> cp < 0x800" "cp < 0x10000" "3 \<le> n"
  have h: "\<not> bit cp m" if "16 \<le> m" for m using bit_above_bound [of cp 16 m] a(2) that by (simp add: word_less_def)
  have "\<not> cp < 0x80" using a(1) by (simp add: word_less_def)
  then show ?thesis using a
    by (simp add: codec_unfold byte_tests bit_simps h)
      (rule word32_by_bits, simp add: bit_simps h)
qed

lemma read_write_utf8_4: "\<not> cp < 0x10000 \<Longrightarrow> cp < 0x200000 \<Longrightarrow> 4 \<le> n \<Longrightarrow> read_codepoint UTF8 (write_codepoint UTF8 cp @ rest) n = Some (cp, 4)"
proof -
  assume a: "\<not> cp < 0x10000" "cp < 0x200000" "4 \<le> n"
  have h: "\<not> bit cp m" if "21 \<le> m" for m using bit_above_bound [of cp 21 m] a(2) that by (simp add: word_less_def)
  have "\<not> cp < 0x80" "\<not> cp < 0x800" using a(1) by (simp_all add: word_less_def)
  then show ?thesis using a
    by (simp add: codec_unfold byte_tests bit_simps h)
      (rule word32_by_bits, simp add: bit_simps h)
qed

lemma read_write_utf16_2: "enc = UTF16LE \<or> enc = UTF16BE \<Longrightarrow> cp \<le> 0xFFFF \<Longrightarrow> \<not> (0xD800 \<le> cp \<and> cp < 0xDC00) \<Longrightarrow> 2 \<le> n \<Longrightarrow>
  read_codepoint enc (write_codepoint enc cp @ rest) n = Some (cp, 2)"
proof -
  assume a: "enc = UTF16LE \<or> enc = UTF16BE" "cp \<le> 0xFFFF" "\<not> (0xD800 \<le> cp \<and> cp < 0xDC00)" "2 \<le> n"
  have h: "\<not> bit cp m" if "16 \<le> m" for m using bit_above_bound [of cp 16 m] a(2) that by (simp add: word_le_def)
  have "ucast (drop_bit 8 cp AND 255) = (ucast (drop_bit 8 cp) :: u8)"
    by (rule word8_by_bits) (simp add: bit_simps)
  then have "drop_bit 2 (ucast (drop_bit 8 cp AND 255) :: u8) \<noteq> 0x36" using a(2,3) surrogate_byte[of cp] by simp
  then show ?thesis using a(1,2,4)
    by (elim disjE, simp_all add: codec_unfold )
      (rule word32_by_bits, simp add: bit_simps h)+
qed

lemma read_write_utf16_4: "enc = UTF16LE \<or> enc = UTF16BE \<Longrightarrow> \<not> cp \<le> 0xFFFF \<Longrightarrow> cp \<le> 0x10FFFF \<Longrightarrow> 4 \<le> n \<Longrightarrow>
  read_codepoint enc (write_codepoint enc cp @ rest) n = Some (cp, 4)"
proof -
  assume a: "enc = UTF16LE \<or> enc = UTF16BE" "\<not> cp \<le> 0xFFFF" "cp \<le> 0x10FFFF" "4 \<le> n"
  define w where "w = cp - 65536"
  have cp: "cp = w + 65536" by (simp add: w_def)
  have "uint w < 2 ^ 20" 
  proof -
    have "uint w = (uint cp - 65536) mod 2 ^ 32" by (simp add: w_def uint_word_ariths)
    also have "\<dots> = uint cp - 65536" using a(2,3) by (intro mod_pos_pos_trivial) (simp_all add: word_le_def)
    finally show ?thesis using a(2,3) by (simp add: word_le_def)
  qed
  then have h: "\<not> bit w m" if "20 \<le> m" for m using bit_above_bound [of w 20 m] that by simp
  show ?thesis using a(1,2,4) unfolding cp
    by (elim disjE, simp_all add: codec_unfold byte_surrogate bit_simps h)
      (rule word32_by_bits, simp add: bit_simps h)+
qed

lemma write_codepoint_lengths:
  "write_codepoint UNKNOWN cp = []"
  "length (write_codepoint UTF32LE cp) = 4" "length (write_codepoint UTF32BE cp) = 4"
  "length (write_codepoint UTF16LE cp) = (if cp \<le> 0xFFFF then 2 else 4)"
  "length (write_codepoint UTF16BE cp) = (if cp \<le> 0xFFFF then 2 else 4)"
  "length (write_codepoint UTF8 cp) =
     (if cp < 0x80 then 1 else if cp < 0x800 then 2 else if cp < 0x10000 then 3 else 4)"
  by (simp_all add: write_codepoint_def Let_def)

lemma read_write_codepoint:
  assumes "encodable enc cp" and "length (write_codepoint enc cp) \<le> n"
  shows "read_codepoint enc (write_codepoint enc cp @ rest) n = Some (cp, length (write_codepoint enc cp))"
proof (cases enc)
  case UTF8
  then show ?thesis
    using assms read_write_utf8_1 [of cp n rest] read_write_utf8_2 [of cp n rest]
      read_write_utf8_3 [of cp n rest] read_write_utf8_4 [of cp n rest]
    by (simp add: write_codepoint_lengths split: if_splits)
next
  case UTF16BE
  then show ?thesis
    using assms read_write_utf16_2 [of enc cp n rest] read_write_utf16_4 [of enc cp n rest]
    by (cases "cp \<le> 0xFFFF") (simp_all add: write_codepoint_lengths)
next
  case UTF16LE
  then show ?thesis
    using assms read_write_utf16_2 [of enc cp n rest] read_write_utf16_4 [of enc cp n rest]
    by (cases "cp \<le> 0xFFFF") (simp_all add: write_codepoint_lengths)
next
  case UTF32BE
  then show ?thesis using assms read_write_utf32 [of enc n cp rest]
    by (simp add: write_codepoint_lengths)
next
  case UTF32LE
  then show ?thesis using assms read_write_utf32 [of enc n cp rest]
    by (simp add: write_codepoint_lengths)
qed (use assms in simp)

text \<open>The fixed-unit encodings never consume more than they were given.\<close>

definition unit_based :: "encoding \<Rightarrow> bool" where
  "unit_based enc \<longleftrightarrow> enc \<noteq> UTF8"

lemma read_codepoint_Nil: "read_codepoint enc [] n = Some (cp, b) \<Longrightarrow> b = 0"
  by (cases enc) (auto simp: read_codepoint_def read_utf32_def read_utf16_def read_utf8_def
      split: if_splits)

lemma read_codepoint_within:
  assumes "unit_based enc" "read_codepoint enc buf n = Some (cp, b)"
  shows "b \<le> n"
  using assms
  by (cases enc) (auto simp: unit_based_def read_codepoint_def read_utf32_def read_utf16_def
      split: if_splits bind_splits)

text \<open>
  On a buffer that holds the whole input, a fixed-unit decoder always returns, and what
  it decodes does not change when more input follows.
\<close>

lemma read_codepoint_total:
  assumes "unit_based enc" "n \<le> length buf"
  shows "\<exists>cp b. read_codepoint enc buf n = Some (cp, b)"
  using assms
  by (cases enc) (auto simp: unit_based_def read_codepoint_def read_utf32_def read_utf16_def
      simp del: length_greater_0_conv)

lemma read_codepoint_more:
  assumes "unit_based enc" "read_codepoint enc buf n = Some (cp, b)" "n \<le> length buf"
    and "0 < b" "n \<le> m"
  shows "read_codepoint enc (buf @ more) m = Some (cp, b)"
  using assms
  by (cases enc) (auto simp: unit_based_def read_codepoint_def read_utf32_def read_utf16_def
      nth_append simp del: length_greater_0_conv split: if_splits)

lemma read_codepoint_stale:
  assumes "unit_based enc" "n \<le> length buf"
  shows "read_codepoint enc (buf @ more) n = read_codepoint enc buf n"
  using assms
  by (cases enc) (auto simp: unit_based_def read_codepoint_def read_utf32_def read_utf16_def
      nth_append simp del: length_greater_0_conv)

end
