(* ===== verification/Recode_Main.thy ===== *)
theory Recode_Main
  imports Recode_Alu
begin

text \<open>
  \<^verbatim>\<open>Labs individuales/lab3/recode57.c\<close>: the converter around the codec. Standard input is the
  list of the pieces in which the kernel delivers it; a \<^verbatim>\<open>read\<close> takes at most as many bytes
  as asked for from the first piece and returns nothing at the end of input (or on an
  error, which the program does not tell apart). Standard output is the list of the bytes
  handed to \<^verbatim>\<open>write\<close>. The arrays \<^verbatim>\<open>inbuf\<close> (1024 bytes) and \<^verbatim>\<open>ucs4\<close> (1024 code points)
  keep their sizes: an access outside them is undefined and makes the run \<open>None\<close>.
\<close>

unbundle bit_operations_syntax

definition str_to_encoding :: "string \<Rightarrow> encoding" where
  "str_to_encoding enc =
     (if enc = ''UTF-8'' then UTF8
      else if enc = ''UTF-16BE'' then UTF16BE
      else if enc = ''UTF-16LE'' then UTF16LE
      else if enc = ''UTF-32BE'' then UTF32BE
      else if enc = ''UTF-32LE'' then UTF32LE
      else UNKNOWN)"

subsection \<open>From bytes to code points\<close>

text \<open>
  The loop of \<^verbatim>\<open>orig_to_ucs4\<close> over a decoder \<open>rd\<close>. Every iteration, the last one included,
  stores through \<^verbatim>\<open>&destbuf[n]\<close>: \<open>room\<close> is the number of elements left in \<^verbatim>\<open>destbuf\<close>, and a
  store with no room left is out of bounds. The result is the code points decoded and the
  final value of \<^verbatim>\<open>*nbytes\<close>, a \<^verbatim>\<open>size_t\<close> that wraps.
\<close>

type_synonym decoder = "u8 list \<Rightarrow> nat \<Rightarrow> (codepoint \<times> nat) option"

primrec ucs4_loop :: "decoder \<Rightarrow> nat \<Rightarrow> u8 list \<Rightarrow> nat \<Rightarrow> (codepoint list \<times> nat) option" where
  "ucs4_loop rd 0 buf nbytes = None"
| "ucs4_loop rd (Suc room) buf nbytes = do {
     (cp, b) \<leftarrow> rd buf nbytes;
     if b > 0 then do {
       (cps, left) \<leftarrow> ucs4_loop rd room (drop b buf) (size_sub nbytes b);
       Some (cp # cps, left)
     } else Some ([], nbytes)
   }"

definition orig_to_ucs4 :: "encoding \<Rightarrow> u8 list \<Rightarrow> nat \<Rightarrow> nat \<Rightarrow> (codepoint list \<times> nat) option" where
  "orig_to_ucs4 enc buf nbytes room = ucs4_loop (read_codepoint enc) room buf nbytes"

subsection \<open>From code points to bytes\<close>

primrec ucs4_to_dest :: "encoding \<Rightarrow> codepoint list \<Rightarrow> u8 list" where
  "ucs4_to_dest enc [] = []"
| "ucs4_to_dest enc (cp # cps) = write_codepoint enc cp @ ucs4_to_dest enc cps"

subsection \<open>The conversion loop and \<^verbatim>\<open>main\<close>\<close>

fun read_in :: "u8 list list \<Rightarrow> nat \<Rightarrow> u8 list \<times> u8 list list" where
  "read_in [] count = ([], [])"
| "read_in (piece # pieces) count =
     (take count piece, if length piece \<le> count then pieces else drop count piece # pieces)"

text \<open>
  \<open>keep_rest\<close> is the \<^verbatim>\<open>memcpy\<close> of the bytes not consumed to the front of \<^verbatim>\<open>inbuf\<close>. The source
  starts at \<^verbatim>\<open>inbuf + inbytes - prevbytes\<close>: outside the array if more is left than came in, and inside the
  destination, which makes the call undefined, if less than twice as much came in as is left.
\<close>

definition keep_rest :: "u8 list \<Rightarrow> nat \<Rightarrow> nat \<Rightarrow> u8 list option" where
  "keep_rest inbuf inbytes left =
     (if left > 0 then
        (if 2 * left \<le> inbytes then Some (take left (drop (inbytes - left) inbuf) @ drop left inbuf)
         else None)
      else Some inbuf)"

lemma read_in_concat: "read_in pieces count = (got, pieces') \<Longrightarrow> concat pieces = got @ concat pieces'"
  by (cases pieces) (auto split: if_splits)

function recode_loop ::
    "encoding \<Rightarrow> encoding \<Rightarrow> u8 list list \<Rightarrow> u8 list \<Rightarrow> nat \<Rightarrow> u8 list \<Rightarrow> u8 list option" where
  "recode_loop orig_enc dest_enc stdin inbuf prevbytes bom =
     (case read_in stdin (size_sub 1024 prevbytes) of (got, stdin') \<Rightarrow>
        if got = [] then Some []
        else do {
          let inbytes = length got + prevbytes;
          let inbuf = take prevbytes inbuf @ got @ drop inbytes inbuf;
          (points, left) \<leftarrow> orig_to_ucs4 orig_enc inbuf inbytes 1024;
          let out = ucs4_to_dest dest_enc points;
          inbuf \<leftarrow> keep_rest inbuf inbytes left;
          rest \<leftarrow> recode_loop orig_enc dest_enc stdin' inbuf left [];
          Some (bom @ out @ rest)
        })"
  by pat_completeness auto
termination
  by (relation "measure (\<lambda>(orig, dest, stdin, _). length (concat stdin))")
    (auto dest: read_in_concat [OF sym])

declare recode_loop.simps [simp del]

text \<open>
  \<^verbatim>\<open>main\<close>: the arguments (the program's name first), what the arrays \<^verbatim>\<open>bom\<close> and \<^verbatim>\<open>inbuf\<close>
  hold before they are written, and the input. The result is the exit status and the output.
\<close>

definition recode_main ::
    "string list \<Rightarrow> u8 list \<Rightarrow> u8 list \<Rightarrow> u8 list list \<Rightarrow> (int \<times> u8 list) option" where
  "recode_main argv bom0 inbuf0 stdin =
     (if length argv \<noteq> 2 then Some (1, [])
      else
        (let dest_enc = str_to_encoding (argv ! 1)
         in if dest_enc = UNKNOWN then Some (1, [])
            else
              (case read_in stdin 4 of (got, stdin') \<Rightarrow> do {
                 let bom = got @ drop (length got) bom0;
                 orig_enc \<leftarrow> bom_to_encoding bom;
                 let (inbuf, prevbytes) =
                   (if orig_enc = UTF8 then (take 4 bom @ drop 4 inbuf0, 4)
                    else if orig_enc = UTF16BE \<or> orig_enc = UTF16LE
                    then (take 2 (drop 2 bom) @ drop 2 inbuf0, 2)
                    else (inbuf0, 0));
                 out \<leftarrow> recode_loop orig_enc dest_enc stdin' inbuf prevbytes (write_bom dest_enc);
                 Some (0, out)
               })))"

subsection \<open>The codec as an interface\<close>

text \<open>
  What the converter needs of a decoder and an encoder to get back a stream of code points:
  decoding undoes encoding whatever follows in the buffer, every encoded form is one to four
  bytes long, and nothing is decoded from no bytes.
\<close>

locale codec =
  fixes rd :: decoder
    and wr :: "codepoint \<Rightarrow> u8 list"
    and ok :: "codepoint \<Rightarrow> bool"
  assumes rd_wr: "ok cp \<Longrightarrow> length (wr cp) \<le> n \<Longrightarrow> rd (wr cp @ rest) n = Some (cp, length (wr cp))"
    and wr_length: "ok cp \<Longrightarrow> 0 < length (wr cp) \<and> length (wr cp) \<le> 4"
    and rd_empty: "rd buf 0 = Some (0, 0)"
begin

lemma stream_roundtrip:
  "list_all ok cps \<Longrightarrow> length cps < room \<Longrightarrow>
     ucs4_loop rd room (concat (map wr cps) @ rest) (length (concat (map wr cps))) = Some (cps, 0)"
proof (induction cps arbitrary: room)
  case Nil
  then show ?case by (cases room) (simp_all add: rd_empty)
next
  case (Cons cp cps)
  then obtain r where r: "room = Suc r" "length cps < r" by (cases room) auto
  from Cons.prems have "wr cp \<noteq> []" using wr_length [of cp] by auto
  with Cons r show ?case by (simp add: rd_wr)
qed

lemma stream_overflow:
  "list_all ok cps \<Longrightarrow> room \<le> length cps \<Longrightarrow>
     ucs4_loop rd room (concat (map wr cps) @ rest) (length (concat (map wr cps))) = None"
proof (induction cps arbitrary: room)
  case (Cons cp cps)
  from Cons.prems have "wr cp \<noteq> []" using wr_length [of cp] by auto
  with Cons show ?case by (cases room) (simp_all add: rd_wr)
qed simp

end

lemma ucs4_loop_room: "ucs4_loop rd room buf n = Some (cps, left) \<Longrightarrow> length cps < room"
  by (induction room arbitrary: buf n cps left) (auto split: bind_splits if_splits)

lemma ucs4_to_dest_length: "length (ucs4_to_dest enc cps) \<le> 4 * length cps"
proof (induction cps)
  case (Cons cp cps)
  then show ?case using write_codepoint_length(1) [of enc cp] by simp
qed simp

text \<open>
  A decoder of fixed-size units: it never consumes more than it was given, needs at most
  four bytes to make progress and takes at least two, and neither the bytes after the input
  nor more input change what it decodes.
\<close>

locale unit_decoder =
  fixes rd :: decoder
  assumes rd_within: "rd buf n = Some (cp, b) \<Longrightarrow> b \<le> n"
    and rd_total: "n \<le> length buf \<Longrightarrow> \<exists>cp b. rd buf n = Some (cp, b)"
    and rd_progress: "rd buf n = Some (cp, 0) \<Longrightarrow> n < 4"
    and rd_unit: "rd buf n = Some (cp, b) \<Longrightarrow> b = 0 \<or> 2 \<le> b"
    and rd_more: "rd buf n = Some (cp, b) \<Longrightarrow> n \<le> length buf \<Longrightarrow> 0 < b \<Longrightarrow> n \<le> m \<Longrightarrow>
          rd (buf @ more) m = Some (cp, b)"
    and rd_stale: "n \<le> length buf \<Longrightarrow> rd (buf @ more) n = rd buf n"

text \<open>
  The abstract decoding of a whole input: the code points it holds and the bytes left over.
\<close>

inductive decodes :: "decoder \<Rightarrow> u8 list \<Rightarrow> codepoint list \<Rightarrow> u8 list \<Rightarrow> bool" for rd where
  decodes_stop: "rd bs (length bs) = Some (cp, 0) \<Longrightarrow> decodes rd bs [] bs"
| decodes_step: "rd bs (length bs) = Some (cp, b) \<Longrightarrow> 0 < b \<Longrightarrow> decodes rd (drop b bs) cps rest \<Longrightarrow>
     decodes rd bs (cp # cps) rest"

inductive_cases decodes_Cons: "decodes rd bs (cp # cps) rest"
inductive_cases decodes_Nil: "decodes rd bs [] rest"

context unit_decoder
begin

lemma decodes_exists: "\<exists>cps rest. decodes rd bs cps rest"
proof (induction bs rule: length_induct)
  case (1 bs)
  obtain cp b where r: "rd bs (length bs) = Some (cp, b)" using rd_total [of "length bs" bs] by auto
  show ?case
  proof (cases "b = 0")
    case True
    with r show ?thesis by (blast intro: decodes_stop)
  next
    case False
    then have "length (drop b bs) < length bs" using rd_within [OF r] by simp
    with 1 obtain cps rest where "decodes rd (drop b bs) cps rest" by blast
    with r False show ?thesis by (blast intro: decodes_step)
  qed
qed

lemma decodes_append:
  "decodes rd xs cps r \<Longrightarrow> decodes rd (r @ ys) cps' r' \<Longrightarrow> decodes rd (xs @ ys) (cps @ cps') r'"
proof (induction rule: decodes.induct)
  case (decodes_step bs cp b cps rest)
  from decodes_step(1) have "b \<le> length bs" by (rule rd_within)
  moreover have "rd (bs @ ys) (length (bs @ ys)) = Some (cp, b)"
    using decodes_step(1,2) by (intro rd_more [where n = "length bs"]) simp_all
  ultimately show ?case using decodes_step by (auto intro!: decodes.decodes_step)
qed simp

lemma decodes_rest: "decodes rd xs cps r \<Longrightarrow> length r < 4 \<and> r = drop (length xs - length r) xs \<and>
    length r \<le> length xs \<and> 2 * length cps \<le> length xs"
proof (induction rule: decodes.induct)
  case (decodes_stop bs cp)
  then show ?case using rd_progress by auto
next
  case (decodes_step bs cp b cps rest)
  have "b \<le> length bs" "2 \<le> b"
    using decodes_step(1,2) rd_within rd_unit [of bs "length bs" cp b] by auto
  with decodes_step.IH show ?case by (auto simp: add.commute)
qed

lemma decodes_loop:
  "decodes rd xs cps r \<Longrightarrow> length cps < room \<Longrightarrow>
     ucs4_loop rd room (xs @ stale) (length xs) = Some (cps, length r)"
proof (induction arbitrary: room rule: decodes.induct)
  case (decodes_stop bs cp)
  then show ?case by (cases room) (simp_all add: rd_stale)
next
  case (decodes_step bs cp b cps rest)
  then obtain k where "room = Suc k" "length cps < k" by (cases room) auto
  moreover have "b \<le> length bs" using decodes_step(1) by (rule rd_within)
  ultimately show ?case using decodes_step by (simp add: rd_stale)
qed

end

text \<open>Every known encoding of \<^verbatim>\<open>recode57_alu.c\<close> is such a codec, the unit-based ones such a decoder.\<close>

lemma codec_of_encoding:
  assumes "enc \<noteq> UNKNOWN"
  shows "codec (read_codepoint enc) (write_codepoint enc) (encodable enc)"
proof
  show "read_codepoint enc buf 0 = Some (0, 0)" for buf
    by (cases enc) (simp_all add: read_codepoint_def read_utf16_def read_utf8_def)
  show "encodable enc cp \<Longrightarrow> 0 < length (write_codepoint enc cp) \<and> length (write_codepoint enc cp) \<le> 4" for cp
    using assms by (cases enc) (simp_all add: write_codepoint_lengths)
qed (rule read_write_codepoint)

interpretation utf8: codec "read_codepoint UTF8" "write_codepoint UTF8" "encodable UTF8"
  by (rule codec_of_encoding) simp
interpretation utf16be: codec "read_codepoint UTF16BE" "write_codepoint UTF16BE" "encodable UTF16BE"
  by (rule codec_of_encoding) simp
interpretation utf16le: codec "read_codepoint UTF16LE" "write_codepoint UTF16LE" "encodable UTF16LE"
  by (rule codec_of_encoding) simp
interpretation utf32be: codec "read_codepoint UTF32BE" "write_codepoint UTF32BE" "encodable UTF32BE"
  by (rule codec_of_encoding) simp
interpretation utf32le: codec "read_codepoint UTF32LE" "write_codepoint UTF32LE" "encodable UTF32LE"
  by (rule codec_of_encoding) simp

definition unit_encoding :: "encoding \<Rightarrow> bool" where
  "unit_encoding enc \<longleftrightarrow> enc \<in> {UTF16BE, UTF16LE, UTF32BE, UTF32LE}"

lemma unit_decoder_of_encoding:
  assumes "unit_encoding enc"
  shows "unit_decoder (read_codepoint enc)"
proof
  have u: "unit_based enc" using assms by (auto simp: unit_encoding_def unit_based_def)
  show "read_codepoint enc buf n = Some (cp, b) \<Longrightarrow> b \<le> n" for buf n cp b
    using u by (rule read_codepoint_within)
  show "n \<le> length buf \<Longrightarrow> \<exists>cp b. read_codepoint enc buf n = Some (cp, b)" for buf n
    using u by (rule read_codepoint_total)
  show "n \<le> length buf \<Longrightarrow> read_codepoint enc (buf @ more) n = read_codepoint enc buf n" for buf n more
    using u by (rule read_codepoint_stale)
  show "read_codepoint enc buf n = Some (cp, b) \<Longrightarrow> n \<le> length buf \<Longrightarrow> 0 < b \<Longrightarrow> n \<le> m \<Longrightarrow>
      read_codepoint enc (buf @ more) m = Some (cp, b)" for buf n cp b m more
    using u by (rule read_codepoint_more)
  show "read_codepoint enc buf n = Some (cp, 0) \<Longrightarrow> n < 4" for buf n cp
    using assms by (auto simp: unit_encoding_def read_codepoint_def read_utf32_def read_utf16_def
        not_less[symmetric] split: if_splits bind_splits)
  show "read_codepoint enc buf n = Some (cp, b) \<Longrightarrow> b = 0 \<or> 2 \<le> b" for buf n cp b
    using assms by (auto simp: unit_encoding_def read_codepoint_def read_utf32_def read_utf16_def
        split: if_splits bind_splits)
qed

interpretation units16be: unit_decoder "read_codepoint UTF16BE"
  by (rule unit_decoder_of_encoding) (simp add: unit_encoding_def)
interpretation units16le: unit_decoder "read_codepoint UTF16LE"
  by (rule unit_decoder_of_encoding) (simp add: unit_encoding_def)
interpretation units32be: unit_decoder "read_codepoint UTF32BE"
  by (rule unit_decoder_of_encoding) (simp add: unit_encoding_def)
interpretation units32le: unit_decoder "read_codepoint UTF32LE"
  by (rule unit_decoder_of_encoding) (simp add: unit_encoding_def)

subsection \<open>The converter on fixed-unit input\<close>

lemma ucs4_to_dest_concat: "ucs4_to_dest enc cps = concat (map (write_codepoint enc) cps)"
  by (induction cps) simp_all

lemma ucs4_to_dest_append [simp]:
  "ucs4_to_dest enc (xs @ ys) = ucs4_to_dest enc xs @ ucs4_to_dest enc ys"
  by (simp add: ucs4_to_dest_concat)

lemma decodes_deterministic: "decodes rd bs c r \<Longrightarrow> decodes rd bs c' r' \<Longrightarrow> c = c' \<and> r = r'"
proof (induction arbitrary: c' rule: decodes.induct)
  case (decodes_stop bs cp)
  then show ?case by (auto elim: decodes.cases)
next
  case (decodes_step bs cp b cps rest)
  from decodes_step.prems show ?case
    by (cases rule: decodes.cases) (use decodes_step in auto)
qed

lemma decodes_rest_stuck: "decodes rd xs c r \<Longrightarrow> decodes rd r [] r"
  by (induction rule: decodes.induct) (auto intro: decodes.intros)

context codec
begin

lemma decodes_concat: "list_all ok cps \<Longrightarrow> decodes rd (concat (map wr cps)) cps []"
proof (induction cps)
  case Nil
  then show ?case using rd_empty by (auto intro!: decodes_stop)
next
  case (Cons cp cps)
  have "rd (wr cp @ concat (map wr cps)) (length (wr cp @ concat (map wr cps))) =
      Some (cp, length (wr cp))"
    by (rule rd_wr) (use Cons.prems in simp_all)
  with Cons wr_length [of cp] show ?case by (auto intro!: decodes_step)
qed

end

lemma decodes_encoded:
  assumes "enc \<noteq> UNKNOWN" "list_all (encodable enc) cps"
  shows "decodes (read_codepoint enc) (ucs4_to_dest enc cps) cps []"
  using codec.decodes_concat [OF codec_of_encoding [OF assms(1)] assms(2)]
  by (simp add: ucs4_to_dest_concat)

lemma read_in_step:
  assumes "read_in pieces count = (got, pieces')" "pieces \<noteq> []" "[] \<notin> set pieces" "0 < count"
  shows "got \<noteq> []" "[] \<notin> set pieces'" "length got \<le> count"
  using assms by (cases pieces; auto split: if_splits)+

lemma keep_rest_take:
  assumes "length inbuf = 1024" "inbytes \<le> 1024" "left = 0 \<or> 2 * left \<le> inbytes"
  shows "\<exists>b. keep_rest inbuf inbytes left = Some b \<and> length b = 1024 \<and>
      take left b = take left (drop (inbytes - left) inbuf)"
  using assms by (cases "left = 0") (auto simp: keep_rest_def)

lemma decodes_units:
  assumes u: "unit_encoding enc"
  shows "length cps < room \<Longrightarrow> decodes (read_codepoint enc) xs cps r \<Longrightarrow>
      orig_to_ucs4 enc (xs @ stale) (length xs) room = Some (cps, length r)"
    and "decodes (read_codepoint enc) xs cps r \<Longrightarrow> length r < 4 \<and>
      r = drop (length xs - length r) xs \<and> length r \<le> length xs \<and> 2 * length cps \<le> length xs"
    and "decodes (read_codepoint enc) xs cps r \<Longrightarrow> decodes (read_codepoint enc) (r @ ys) cps' r' \<Longrightarrow>
      decodes (read_codepoint enc) (xs @ ys) (cps @ cps') r'"
    and "\<exists>cps r. decodes (read_codepoint enc) xs cps r"
proof -
  note d = unit_decoder_of_encoding [OF u]
  show "length cps < room \<Longrightarrow> decodes (read_codepoint enc) xs cps r \<Longrightarrow>
      orig_to_ucs4 enc (xs @ stale) (length xs) room = Some (cps, length r)"
    unfolding orig_to_ucs4_def by (rule unit_decoder.decodes_loop [OF d])
  show "decodes (read_codepoint enc) xs cps r \<Longrightarrow> length r < 4 \<and>
      r = drop (length xs - length r) xs \<and> length r \<le> length xs \<and> 2 * length cps \<le> length xs"
    by (rule unit_decoder.decodes_rest [OF d])
  show "decodes (read_codepoint enc) xs cps r \<Longrightarrow> decodes (read_codepoint enc) (r @ ys) cps' r' \<Longrightarrow>
      decodes (read_codepoint enc) (xs @ ys) (cps @ cps') r'"
    by (rule unit_decoder.decodes_append [OF d])
  show "\<exists>cps r. decodes (read_codepoint enc) xs cps r"
    by (rule unit_decoder.decodes_exists [OF d])
qed

text \<open>One round of the loop consumes the complete units of what it holds and keeps the rest.\<close>

lemma recode_round:
  assumes u: "unit_encoding orig"
    and len: "length inbuf = 1024" "length data \<le> 1024"
    and d: "decodes (read_codepoint orig) data C1 R1"
    and buf: "take (length data) inbuf = data" and room: "R1 = [] \<or> 6 \<le> length data"
  obtains buf' where
    "orig_to_ucs4 orig inbuf (length data) 1024 = Some (C1, length R1)"
    "keep_rest inbuf (length data) (length R1) = Some buf'"
    "length buf' = 1024" "take (length R1) buf' = R1" "length R1 \<le> 3"
proof -
  have R: "length R1 < 4" "R1 = drop (length data - length R1) data" "length R1 \<le> length data"
    "2 * length C1 \<le> length data" using decodes_units(2) [OF u d] by auto
  have split: "inbuf = data @ drop (length data) inbuf" by (metis append_take_drop_id buf)
  have "orig_to_ucs4 orig (data @ drop (length data) inbuf) (length data) 1024 = Some (C1, length R1)"
    by (rule decodes_units(1) [OF u _ d]) (use R len in linarith)
  then have 1: "orig_to_ucs4 orig inbuf (length data) 1024 = Some (C1, length R1)"
    using split by simp
  obtain b where b: "keep_rest inbuf (length data) (length R1) = Some b" "length b = 1024"
    "take (length R1) b = take (length R1) (drop (length data - length R1) inbuf)"
    using keep_rest_take [OF len(1,2), of "length R1"] room R(1) by auto
  have "take (length R1) (drop (length data - length R1) inbuf) =
      take (length R1) (drop (length data - length R1) (data @ drop (length data) inbuf))"
    using split by simp
  also have "\<dots> = R1" using R(2,3) by simp
  finally show ?thesis using that [OF 1 b(1,2)] b(3) R(1) by simp
qed

text \<open>
  A piece of the input whose last read leaves room. Each read takes from 1021 to 1024 bytes of it, until at
  least 6 bytes are left that one read can take: twice what a unit can leave over.
\<close>

definition holgada :: "u8 list \<Rightarrow> bool" where
  "holgada p \<longleftrightarrow> (\<exists>k. 1024 * k + 6 \<le> length p \<and> length p \<le> 1021 * (k + 1))"

lemma holgada_corta: "6 \<le> length p \<Longrightarrow> length p \<le> 1021 \<Longrightarrow> holgada p"
  unfolding holgada_def by (rule exI [of _ 0]) simp

lemma holgada_drop:
  assumes "holgada p" "1021 \<le> n" "n \<le> 1024" "n < length p"
  shows "holgada (drop n p)"
proof -
  obtain k where k: "1024 * k + 6 \<le> length p" "length p \<le> 1021 * (k + 1)" using assms(1) by (auto simp: holgada_def)
  have "k \<noteq> 0" using k(2) assms(2,4) by (intro notI) simp
  then obtain j where j: "k = Suc j" by (cases k) simp_all
  have "length (drop n p) + n = length p" using assms(4) by simp
  note l = this k [unfolded j] assms(2,3)
  have "1024 * j + 6 \<le> length (drop n p)" using l by (simp add: algebra_simps)
  moreover have "length (drop n p) \<le> 1021 * (j + 1)" using l by (simp add: algebra_simps)
  ultimately show ?thesis unfolding holgada_def by blast
qed

lemma holgada_read:
  assumes "read_in stdin n = (got, stdin')" "\<forall>p\<in>set (butlast stdin). holgada p" "1021 \<le> n" "n \<le> 1024"
  shows "\<forall>p\<in>set (butlast stdin'). holgada p" "stdin' \<noteq> [] \<Longrightarrow> 6 \<le> length got"
proof -
  obtain p ps where st: "stdin = p # ps \<or> stdin = []" by (cases stdin) auto
  have p: "6 \<le> length p" if "holgada p" using that by (auto simp: holgada_def)
  show "\<forall>p\<in>set (butlast stdin'). holgada p"
    using st assms holgada_drop [of p n] by (cases "ps = []") (auto split: if_splits)
  show "6 \<le> length got" if "stdin' \<noteq> []"
    using st assms p that by (cases "ps = []") (auto split: if_splits)
qed

lemma recode_loop_units:
  assumes "unit_encoding orig"
  shows "[] \<notin> set stdin \<Longrightarrow> length inbuf = 1024 \<Longrightarrow> prev \<le> 3 \<Longrightarrow>
    decodes (read_codepoint orig) (take prev inbuf @ concat stdin) C [] \<Longrightarrow>
    \<forall>p\<in>set (butlast stdin). holgada p \<Longrightarrow>
    recode_loop orig dest stdin inbuf prev bom =
      Some (if stdin = [] then [] else bom @ ucs4_to_dest dest C)"
  using assms
proof (induction orig dest stdin inbuf prev bom arbitrary: C rule: recode_loop.induct)
  case (1 orig dest stdin inbuf prev bom)
  obtain got stdin' where io: "read_in stdin (size_sub 1024 prev) = (got, stdin')" by force
  show ?case
  proof (cases "stdin = []")
    case True
    then show ?thesis by (subst recode_loop.simps) simp
  next
    case False
    have pr: "size_sub 1024 prev = 1024 - prev" using 1(4) by simp
    note st = read_in_step [OF io False 1(2)]
    have got: "got \<noteq> []" "[] \<notin> set stdin'" "length got + prev \<le> 1024"
      using st 1(4) by (auto simp: pr)
    have h: "\<forall>p\<in>set (butlast stdin'). holgada p" "stdin' \<noteq> [] \<Longrightarrow> 6 \<le> length got"
      using holgada_read [OF io 1(6)] 1(4) by (simp_all add: pr)
    define data where "data = take prev inbuf @ got"
    define full where "full = take prev inbuf @ got @ drop (length got + prev) inbuf"
    have ld: "length data = length got + prev" using 1(3,4) by (simp add: data_def)
    obtain C1 R1 where d1: "decodes (read_codepoint orig) data C1 R1"
      using decodes_units(4) [OF 1(7)] by blast
    obtain C2 R2 where d2: "decodes (read_codepoint orig) (R1 @ concat stdin') C2 R2"
      using decodes_units(4) [OF 1(7)] by blast
    have stuck: "decodes (read_codepoint orig) R1 [] R1" by (rule decodes_rest_stuck [OF d1])
    have all: "C = C1 @ C2" "R2 = []"
      using decodes_deterministic [OF 1(5)] decodes_units(3) [OF 1(7) d1 d2] read_in_concat [OF io]
      by (auto simp: data_def)
    have last: "C2 = [] \<and> R1 = []" if "stdin' = []"
      using that d2 decodes_deterministic [OF stuck] all(2) by fastforce
    have F: "length full = 1024" "take (length data) full = data"
      using got(3) 1(3,4) ld by (simp_all add: full_def data_def)
    have room: "R1 = [] \<or> 6 \<le> length data" using ld h(2) last by (cases "stdin' = []") simp_all
    from recode_round [OF 1(7) F(1) _ d1 F(2) room] ld got(3) obtain buf' where r:
      "orig_to_ucs4 orig full (length got + prev) 1024 = Some (C1, length R1)"
      "keep_rest full (length got + prev) (length R1) = Some buf'"
      "length buf' = 1024" "take (length R1) buf' = R1" "length R1 \<le> 3" by auto
    have "recode_loop orig dest stdin' buf' (length R1) [] =
        Some (if stdin' = [] then [] else [] @ ucs4_to_dest dest C2)"
      by (rule 1(1) [OF io [symmetric] got(1) refl refl r(1) [unfolded full_def] refl refl
              r(2) [unfolded full_def] got(2) r(3) r(5) _ h(1) 1(7)])
        (use r d2 all(2) in simp_all)
    then show ?thesis
      using False io got(1) r all(1) last by (subst recode_loop.simps) (auto simp: full_def Let_def)
  qed
qed

subsection \<open>Properties\<close>

lemmas bom_unfold = bom_to_encoding_def write_bom_def

lemma read_in_first:
  assumes "stdin \<noteq> []" "[] \<notin> set stdin" "4 \<le> length (hd stdin)" "4 < length (concat stdin)"
  obtains ps where "read_in stdin 4 = (take 4 (concat stdin), ps)" "ps \<noteq> []" "[] \<notin> set ps"
    "concat ps = drop 4 (concat stdin)"
proof -
  obtain p qs where s: "stdin = p # qs" using assms(1) by (cases stdin) auto
  show ?thesis
    by (rule that [of "if length p \<le> 4 then qs else drop 4 p # qs"])
      (use assms in \<open>auto simp: s dest!: concat_eq_Nil_conv [THEN iffD2, rotated]\<close>)
qed

lemma write_utf16le_first:
  assumes "encodable UTF16LE cp" "cp \<noteq> 0"
  shows "\<exists>b0 b1 more. write_codepoint UTF16LE cp = b0 # b1 # more \<and> \<not> (b0 = 0 \<and> b1 = 0)"
proof (cases "cp \<le> 0xFFFF")
  case True
  then have h: "\<not> bit cp m" if "16 \<le> m" for m
    using bit_above_bound [of cp 16 m] that by (simp add: word_le_def)
  have "cp = 0" if z: "byte_of (cp AND 255) = 0" "byte_of (drop_bit 8 cp AND 255) = 0"
  proof -
    have "cp = ucast (byte_of (cp AND 255)) OR push_bit 8 (ucast (byte_of (drop_bit 8 cp AND 255)))"
      by (rule word32_by_bits) (simp add: byte_of_def bit_simps h)
    then show ?thesis by (simp add: z)
  qed
  then show ?thesis using True assms(2) by (auto simp: write_codepoint_def Let_def)
next
  case False
  have "bit (byte_of (216 OR drop_bit 18 (cp - 65536))) 7" by (simp add: byte_of_def bit_simps)
  then have "byte_of (216 OR drop_bit 18 (cp - 65536)) \<noteq> 0" by auto
  then show ?thesis using False by (auto simp: write_codepoint_def Let_def)
qed

lemma detect_encoding:
  assumes "unit_encoding src" "list_all (encodable src) points" "src = UTF16LE \<Longrightarrow> hd points \<noteq> 0"
    and "4 < length (write_bom src @ ucs4_to_dest src points)"
  shows "bom_to_encoding (take 4 (write_bom src @ ucs4_to_dest src points)) = Some src"
proof -
  have "points \<noteq> []" using assms(4) by (auto simp: write_bom_def split: if_splits)
  then obtain cp cps where t: "points = cp # cps" by (cases points) auto
  consider "src = UTF16BE" | "src = UTF16LE" | "src = UTF32BE" | "src = UTF32LE"
    using assms(1) by (auto simp: unit_encoding_def)
  then show ?thesis
  proof cases
    case 2
    then obtain b0 b1 more where "write_codepoint UTF16LE cp = b0 # b1 # more" "\<not> (b0 = 0 \<and> b1 = 0)"
      using write_utf16le_first [of cp] assms(2,3) t by auto
    then show ?thesis using 2 t by (auto simp: bom_unfold)
  next
    case 1
    have "2 \<le> length (write_codepoint UTF16BE cp)" by (simp add: write_codepoint_lengths)
    then show ?thesis using 1 t by (simp add: bom_unfold nth_append)
  qed (simp_all add: bom_unfold)
qed

lemma utf8_no_mark:
  assumes "encodable UTF8 cp" "b \<in> set (write_codepoint UTF8 cp)"
  shows "b \<noteq> 254" "b \<noteq> 255"
proof -
  consider "cp < 0x80" | "\<not> cp < 0x80" "cp < 0x800" | "\<not> cp < 0x800" "cp < 0x10000"
    | "\<not> cp < 0x10000" "cp < 0x200000"
    using assms(1) by auto
  then have "\<not> (bit b 7 \<and> bit b 6 \<and> bit b 5 \<and> bit b 4 \<and> bit b 3)"
  proof cases
    case 1
    then have "\<not> bit cp m" if "7 \<le> m" for m
      using bit_above_bound [of cp 7 m] that by (simp add: word_less_def)
    then show ?thesis using assms(2) 1 by (auto simp: write_codepoint_def byte_of_def bit_simps)
  next
    case 2
    then have "\<not> bit cp m" if "11 \<le> m" for m
      using bit_above_bound [of cp 11 m] that by (simp add: word_less_def)
    then show ?thesis using assms(2) 2 by (auto simp: write_codepoint_def byte_of_def bit_simps Let_def)
  next
    case 3
    then have "\<not> bit cp m" if "16 \<le> m" for m
      using bit_above_bound [of cp 16 m] that by (simp add: word_less_def)
    moreover have "\<not> cp < 0x80" using 3 by (simp add: word_less_def)
    ultimately show ?thesis using assms(2) 3
      by (auto simp: write_codepoint_def byte_of_def bit_simps Let_def)
  next
    case 4
    then have "\<not> bit cp m" if "21 \<le> m" for m
      using bit_above_bound [of cp 21 m] that by (simp add: word_less_def)
    moreover have "\<not> cp < 0x80" "\<not> cp < 0x800" using 4 by (simp_all add: word_less_def)
    ultimately show ?thesis using assms(2) 4
      by (auto simp: write_codepoint_def byte_of_def bit_simps Let_def)
  qed
  then show "b \<noteq> 254" "b \<noteq> 255" by (auto simp: bit_simps)
qed

lemma detect_utf8:
  assumes "list_all (encodable UTF8) points" "4 \<le> length (ucs4_to_dest UTF8 points)"
  shows "bom_to_encoding (take 4 (ucs4_to_dest UTF8 points)) = Some UTF8"
proof -
  let ?T = "ucs4_to_dest UTF8 points"
  have "?T ! i \<noteq> 254 \<and> ?T ! i \<noteq> 255" if "i < 4" for i
  proof -
    have "?T ! i \<in> set ?T" using that assms(2) by (intro nth_mem) simp
    then obtain cp where "encodable UTF8 cp" "?T ! i \<in> set (write_codepoint UTF8 cp)"
      using assms(1) by (auto simp: ucs4_to_dest_concat list_all_iff)
    then show ?thesis using utf8_no_mark by blast
  qed
  from this [of 0] this [of 1] this [of 2] this [of 3] show ?thesis
    using assms(2) by (simp add: bom_to_encoding_def)
qed

lemma second_pair: "take 2 (drop 2 (take 4 xs)) @ drop 4 xs = drop 2 xs"
  using append_take_drop_id [of 2 "drop 2 xs"] by (simp add: drop_take)

lemma write_bom_length: "length (write_bom enc) \<le> 4"
  by (cases enc) (simp_all add: write_bom_def)

lemma recode_main_head:
  assumes "read_in stdin 4 = (head, ps)" "length head = 4" "length bom0 = 4"
    and "bom_to_encoding head = Some src" "str_to_encoding name = dest" "dest \<noteq> UNKNOWN"
  shows "recode_main [prog, name] bom0 inbuf0 stdin =
    map_option (\<lambda>out. (0, out)) (recode_loop src dest ps
      (if src = UTF8 then head @ drop 4 inbuf0
       else if src = UTF16BE \<or> src = UTF16LE then take 2 (drop 2 head) @ drop 2 inbuf0 else inbuf0)
      (if src = UTF8 then 4 else if src = UTF16BE \<or> src = UTF16LE then 2 else 0) (write_bom dest))"
  using assms by (auto simp: recode_main_def Let_def map_conv_bind_option comp_def)

text \<open>The input behind its first four bytes comes in pieces, of which only the last one may be short.\<close>

definition sin_solape :: "u8 list list \<Rightarrow> bool" where
  "sin_solape stdin \<longleftrightarrow> (\<forall>p\<in>set (butlast (snd (read_in stdin 4))). holgada p)"

lemma transcodes:
  assumes "unit_encoding src" "list_all (encodable src) points"
    and "str_to_encoding name = dest" "dest \<noteq> UNKNOWN"
    and "concat stdin = write_bom src @ ucs4_to_dest src points"
    and "[] \<notin> set stdin" "stdin \<noteq> []" "4 \<le> length (hd stdin)" "4 < length (concat stdin)"
    and "src = UTF16LE \<Longrightarrow> hd points \<noteq> 0"
    and "length bom0 = 4" "length inbuf0 = 1024" "sin_solape stdin"
  shows "recode_main [prog, name] bom0 inbuf0 stdin =
           Some (0, write_bom dest @ ucs4_to_dest dest points)"
proof -
  let ?I = "write_bom src @ ucs4_to_dest src points"
  obtain ps where ps: "read_in stdin 4 = (take 4 ?I, ps)" "ps \<noteq> []" "[] \<notin> set ps"
    "concat ps = drop 4 ?I"
    using read_in_first [OF assms(7,6,8,9)] unfolding assms(5) by metis
  have long: "4 < length ?I" using assms(5,9) by simp
  have det: "bom_to_encoding (take 4 ?I) = Some src"
    by (rule detect_encoding [OF assms(1,2,10) long])
  have dec: "decodes (read_codepoint src) (ucs4_to_dest src points) points []"
    using assms(1,2) by (intro decodes_encoded) (auto simp: unit_encoding_def)
  have hol: "\<forall>p\<in>set (butlast ps). holgada p" using assms(13) ps(1) by (simp add: sin_solape_def)
  have run: "recode_loop src dest ps inbuf prev (write_bom dest) =
      Some (write_bom dest @ ucs4_to_dest dest points)"
    if "length inbuf = 1024" "prev \<le> 3" "take prev inbuf @ concat ps = ucs4_to_dest src points"
    for inbuf prev
    using recode_loop_units [OF assms(1) ps(3) that(1,2), of points dest] that(3) dec ps(2) hol
    by simp
  have len: "length (take 4 ?I) = 4" "length (drop 2 ?I) > 2" using long by simp_all
  show ?thesis
  proof (cases "src = UTF16BE \<or> src = UTF16LE")
    case True
    then have "length (write_bom src) = 2" by (auto simp: write_bom_def)
    then have t: "ucs4_to_dest src points = drop 2 ?I" by simp
    have "recode_loop src dest ps (take 2 (drop 2 (take 4 ?I)) @ drop 2 inbuf0) 2 (write_bom dest) =
        Some (write_bom dest @ ucs4_to_dest dest points)"
    proof (rule run)
      have "length (take 2 (drop 2 (take 4 ?I))) = 2" using long by simp
      then show "take 2 (take 2 (drop 2 (take 4 ?I)) @ drop 2 inbuf0) @ concat ps = ucs4_to_dest src points"
        using second_pair [of ?I] ps(4) t by (metis append_eq_conv_conj)
      show "length (take 2 (drop 2 (take 4 ?I)) @ drop 2 inbuf0) = 1024" using assms(12) long by simp
    qed simp
    with True show ?thesis
      by (subst recode_main_head [OF ps(1) len(1) assms(11) det assms(3,4)]) auto
  next
    case False
    then have src: "src = UTF32BE \<or> src = UTF32LE" using assms(1) by (auto simp: unit_encoding_def)
    have "recode_loop src dest ps inbuf0 0 (write_bom dest) =
        Some (write_bom dest @ ucs4_to_dest dest points)"
      by (rule run) (use src ps(4) assms(12) in \<open>auto simp: write_bom_def\<close>)
    with src show ?thesis
      by (subst recode_main_head [OF ps(1) len(1) assms(11) det assms(3,4)]) auto
  qed
qed

text \<open>
  C11. Transcoding. The program run on the byte order mark and the encoding of a text in UTF-16 or UTF-32, of any
  length, writes exactly the byte order mark and the encoding of the same text in the encoding asked for, and exits
  with 0, when standard input holds more than four bytes and arrives in pieces, none empty, the first one of at least four
  bytes, and none of them short (\<open>holgada\<close>): behind the first four bytes, each but the last has from \<open>1024 k + 6\<close> to \<open>1021 (k + 1)\<close>
  bytes for some \<open>k\<close>, say from 6 to 1021. A file is one piece. No character is lost
  or split where a piece or a full buffer ends. One text is
  excluded, a UTF-16LE text that starts with U+0000, whose first four bytes are the byte
  order mark of UTF-32LE. (After a shorter piece \<^verbatim>\<open>memcpy\<close> may be called on areas that overlap; see
  \<open>recode_main_solapa\<close>.)
\<close>

theorem recode_main_transcodes:
  assumes "unit_encoding src" "list_all (encodable src) points"
    and "str_to_encoding name = dest" "dest \<noteq> UNKNOWN"
    and "concat stdin = write_bom src @ ucs4_to_dest src points"
    and "[] \<notin> set stdin" "stdin \<noteq> []" "4 \<le> length (hd stdin)" "4 < length (concat stdin)"
    and "src = UTF16LE \<Longrightarrow> hd points \<noteq> 0"
    and "length bom0 = 4" "length inbuf0 = 1024" "sin_solape stdin"
  shows "recode_main [prog, name] bom0 inbuf0 stdin =
           Some (0, write_bom dest @ ucs4_to_dest dest points)"
  by (rule transcodes [OF assms])

lemma recode_main_transcodes_witness:
  "recode_main [''recode57'', ''UTF-8''] (replicate 4 0) (replicate 1024 7)
     [[254, 255, 0, 65], [0xD8, 0x3D, 0xDE, 0, 0xD8, 0x3D, 0xDE], [0]] =
   Some (0, [65, 0xF0, 0x9F, 0x98, 0x80, 0xF0, 0x9F, 0x98, 0x80])"
  using recode_main_transcodes [of UTF16BE "[65, 0x1F600, 0x1F600]" "''UTF-8''" UTF8
      "[[254, 255, 0, 65], [0xD8, 0x3D, 0xDE, 0, 0xD8, 0x3D, 0xDE], [0]]" "replicate 4 0" "replicate 1024 7" "''recode57''"]
    holgada_corta [of "[0xD8, 0x3D, 0xDE, 0, 0xD8, 0x3D, 0xDE]"]
  by (simp add: sin_solape_def unit_encoding_def str_to_encoding_def write_bom_def write_codepoint_def byte_of_def)

text \<open>
  C24. There and back. A text in UTF-16 or UTF-32 that does not start with U+0000 and that \<^verbatim>\<open>recode57\<close> has converted to another of these
  encodings comes back byte for byte when the output is given to \<^verbatim>\<open>recode57\<close> again with the name of the
  first encoding. Both times the input has more than four bytes and arrives in pieces, none empty and none short, the first one of at least four bytes,
  as for the conversion in one direction.
\<close>

theorem recode_main_ida_vuelta:
  assumes "unit_encoding src" "unit_encoding dest" "list_all (encodable src) points" "list_all (encodable dest) points"
    and "str_to_encoding name = dest" "str_to_encoding name' = src" "hd points \<noteq> 0"
    and "concat stdin = write_bom src @ ucs4_to_dest src points"
    and "[] \<notin> set stdin" "stdin \<noteq> []" "4 \<le> length (hd stdin)" "4 < length (concat stdin)"
    and "length bom0 = 4" "length inbuf0 = 1024" "sin_solape stdin"
  shows "\<exists>out. recode_main [prog, name] bom0 inbuf0 stdin = Some (0, out) \<and>
    (\<forall>stdin'. concat stdin' = out \<longrightarrow> [] \<notin> set stdin' \<longrightarrow> stdin' \<noteq> [] \<longrightarrow> 4 \<le> length (hd stdin') \<longrightarrow> 4 < length out \<longrightarrow> sin_solape stdin' \<longrightarrow>
       recode_main [prog, name'] bom0 inbuf0 stdin' = Some (0, concat stdin))"
proof (intro exI conjI allI impI)
  have k: "dest \<noteq> UNKNOWN" "src \<noteq> UNKNOWN" using assms(1,2) by (auto simp: unit_encoding_def)
  show "recode_main [prog, name] bom0 inbuf0 stdin = Some (0, write_bom dest @ ucs4_to_dest dest points)"
    by (rule transcodes [OF assms(1,3,5) k(1) assms(8-12,7,13-15)])
  fix stdin' assume s: "concat stdin' = write_bom dest @ ucs4_to_dest dest points" "[] \<notin> set stdin'" "stdin' \<noteq> []"
    "4 \<le> length (hd stdin')" "4 < length (write_bom dest @ ucs4_to_dest dest points)" "sin_solape stdin'"
  show "recode_main [prog, name'] bom0 inbuf0 stdin' = Some (0, concat stdin)"
    unfolding assms(8) by (rule transcodes [OF assms(2,4,6) k(2) s(1-4) _ assms(7,13,14) s(6)]) (use s(1,5) in simp)
qed

theorem recode_main_ida_vuelta_witness:
  "\<exists>out. recode_main [''recode57'', ''UTF-16BE''] (replicate 4 0) (replicate 1024 7)
       [[255, 254, 0, 0], [65, 0, 0, 0, 66, 0], [0, 0]] = Some (0, out) \<and>
     (\<forall>stdin'. concat stdin' = out \<longrightarrow> [] \<notin> set stdin' \<longrightarrow> stdin' \<noteq> [] \<longrightarrow> 4 \<le> length (hd stdin') \<longrightarrow> 4 < length out \<longrightarrow> sin_solape stdin' \<longrightarrow>
       recode_main [''recode57'', ''UTF-32LE''] (replicate 4 0) (replicate 1024 7) stdin' =
         Some (0, [255, 254, 0, 0, 65, 0, 0, 0, 66, 0, 0, 0]))"
  using recode_main_ida_vuelta [of UTF32LE UTF16BE "[65, 66]" "''UTF-16BE''" "''UTF-32LE''"
      "[[255, 254, 0, 0], [65, 0, 0, 0, 66, 0], [0, 0]]" "replicate 4 0" "replicate 1024 7" "''recode57''"]
    holgada_corta [of "[65, 0, 0, 0, 66, 0]"]
  by (simp add: sin_solape_def unit_encoding_def str_to_encoding_def write_bom_def write_codepoint_def byte_of_def)

text \<open>
  A short piece. When the kernel delivers a text that ends with a whole character, more than four bytes and at most
  1024, and then a single byte, the byte is left over and copied onto itself: the areas of
  \<^verbatim>\<open>memcpy\<close> overlap, and the run is undefined, whatever comes after it.
\<close>

theorem recode_main_solapa:
  assumes "unit_encoding src" "list_all (encodable src) points" "src = UTF16LE \<Longrightarrow> hd points \<noteq> 0"
    and "str_to_encoding name = dest" "dest \<noteq> UNKNOWN"
    and "p = write_bom src @ ucs4_to_dest src points" "4 < length p" "length p \<le> 1024"
    and "length bom0 = 4" "length inbuf0 = 1024"
  shows "recode_main [prog, name] bom0 inbuf0 (p # [b] # ps) = None"
proof -
  define prev :: nat where "prev = (if src = UTF16BE \<or> src = UTF16LE then 2 else 0)"
  define inbuf where "inbuf = (if src = UTF16BE \<or> src = UTF16LE then take 2 (drop 2 (take 4 p)) @ drop 2 inbuf0 else inbuf0)"
  have src: "src \<noteq> UTF8" "src \<noteq> UNKNOWN" using assms(1) by (auto simp: unit_encoding_def)
  have rd: "read_in (p # [b] # ps) 4 = (take 4 p, drop 4 p # [b] # ps)" using assms(7) by simp
  have det: "bom_to_encoding (take 4 p) = Some src"
    unfolding assms(6) by (rule detect_encoding [OF assms(1-3) assms(7) [unfolded assms(6)]])
  have len: "length (take 4 p) = 4" "length inbuf = 1024" "prev \<le> 2" using assms(7,10) by (auto simp: inbuf_def prev_def)
  have cab: "take prev inbuf @ drop 4 p = ucs4_to_dest src points"
  proof (cases "src = UTF16BE \<or> src = UTF16LE")
    case True
    then have "length (write_bom src) = 2" by (auto simp: write_bom_def)
    then have t: "ucs4_to_dest src points = drop 2 p" by (simp add: assms(6))
    have "length (take 2 (drop 2 (take 4 p))) = 2" using assms(7) by simp
    then show ?thesis unfolding t inbuf_def prev_def using True second_pair [of p] by simp
  next
    case False
    then have "length (write_bom src) = 4" using assms(1) by (auto simp: unit_encoding_def write_bom_def)
    then show ?thesis using False by (simp add: assms(6) inbuf_def prev_def)
  qed
  let ?T = "ucs4_to_dest src points"
  have lT: "length ?T = length (drop 4 p) + prev" using len(2,3) by (simp flip: cab)
  have d: "decodes (read_codepoint src) ?T points []" by (rule decodes_encoded [OF src(2) assms(2)])
  define full where "full = take prev inbuf @ drop 4 p @ drop (length (drop 4 p) + prev) inbuf"
  have full: "full = ?T @ drop (length ?T) inbuf" unfolding full_def lT append_assoc [symmetric] cab ..
  have f: "length full = 1024" "take (length ?T) full = ?T" unfolding full using lT len assms(8) by simp_all
  obtain buf' where r: "orig_to_ucs4 src full (length ?T) 1024 = Some (points, 0)"
    "keep_rest full (length ?T) 0 = Some buf'" "length buf' = 1024"
    by (rule recode_round [OF assms(1) f(1) _ d f(2)]) (use lT len assms(8) in auto)
  have d1: "decodes (read_codepoint src) [b] [] [b]"
  proof -
    obtain C r where c: "decodes (read_codepoint src) [b] C r" using decodes_units(4) [OF assms(1)] by blast
    have "C = []" using decodes_units(2) [OF assms(1) c] by (cases C) auto
    then show ?thesis using c by (auto elim!: decodes_Nil intro: decodes_stop)
  qed
  have "orig_to_ucs4 src ([b] @ drop 1 buf') (length [b]) 1024 = Some ([], length [b])"
    by (rule decodes_units(1) [OF assms(1) _ d1]) simp
  then have "recode_loop src dest ([b] # ps) buf' 0 [] = None"
    by (subst recode_loop.simps) (simp add: Let_def keep_rest_def)
  moreover have q: "length p - 4 \<le> 1024 - prev" "length (drop 4 p) \<le> 1024 - prev" using len(3) assms(8) by simp_all
  ultimately have "recode_loop src dest (drop 4 p # [b] # ps) inbuf prev (write_bom dest) = None"
    using r [unfolded lT full_def] q len assms(7,8) by (subst recode_loop.simps) (simp add: Let_def)
  then show ?thesis
    by (subst recode_main_head [OF rd len(1) assms(9) det assms(4,5)]) (use src in \<open>simp add: inbuf_def prev_def\<close>)
qed

lemma recode_main_solapa_witness:
  "recode_main [''recode57'', ''UTF-8''] (replicate 4 0) (replicate 1024 7) [[254, 255, 0, 65, 0, 66], [0], [67]] = None"
  using recode_main_solapa [of UTF16BE "[65, 66]" "''UTF-8''" UTF8 "[254, 255, 0, 65, 0, 66]" "replicate 4 0" "replicate 1024 7"
      "''recode57''" 0 "[[67]]"]
  by (simp add: unit_encoding_def str_to_encoding_def write_bom_def write_codepoint_def byte_of_def)

text \<open>A part of a UTF-8 text that fits in \<^verbatim>\<open>inbuf\<close>, and its characters in \<^verbatim>\<open>destbuf\<close>.\<close>

definition trozo_utf8 :: "codepoint list \<Rightarrow> bool" where
  "trozo_utf8 p \<longleftrightarrow> p \<noteq> [] \<and> list_all (encodable UTF8) p \<and> length p < 1024 \<and> length (ucs4_to_dest UTF8 p) \<le> 1024"

lemma trozo_utf8D:
  assumes "trozo_utf8 p"
  shows "p \<noteq> []" "list_all (encodable UTF8) p" "length p < 1024" "length (ucs4_to_dest UTF8 p) \<le> 1024"
  using assms unfolding trozo_utf8_def by blast+

lemma utf8_round:
  assumes "list_all (encodable UTF8) points" "length points < 1024"
    and "take prev inbuf @ got = ucs4_to_dest UTF8 points" "length (ucs4_to_dest UTF8 points) \<le> 1024"
    and "got \<noteq> []" "length inbuf = 1024" "prev \<le> 1024" "read_in stdin (size_sub 1024 prev) = (got, stdin')"
  shows "recode_loop UTF8 dest stdin inbuf prev bom =
    map_option (\<lambda>rest. bom @ ucs4_to_dest dest points @ rest)
      (recode_loop UTF8 dest stdin' (ucs4_to_dest UTF8 points @ drop (length (ucs4_to_dest UTF8 points)) inbuf) 0 [])"
proof -
  let ?T = "ucs4_to_dest UTF8 points"
  have l: "length got + prev = length ?T" using assms(6,7) by (simp add: assms(3) [symmetric])
  have "ucs4_loop (read_codepoint UTF8) 1024 (?T @ drop (length ?T) inbuf) (length ?T) = Some (points, 0)"
    unfolding ucs4_to_dest_concat by (rule utf8.stream_roundtrip [OF assms(1,2)])
  then show ?thesis
    using assms(5) by (subst recode_loop.simps)
      (simp add: assms(8) l orig_to_ucs4_def keep_rest_def Let_def assms(3) append_assoc [symmetric] map_conv_bind_option comp_def
        del: append_assoc)
qed

lemma recode_loop_utf8:
  assumes "\<forall>p \<in> set textos. trozo_utf8 p"
    "length inbuf = 1024"
  shows "recode_loop UTF8 dest (map (ucs4_to_dest UTF8) textos) inbuf 0 [] = Some (ucs4_to_dest dest (concat textos))"
  using assms
proof (induction textos arbitrary: inbuf)
  case Nil
  then show ?case by (simp add: recode_loop.simps)
next
  case (Cons p ps)
  have "trozo_utf8 p" using Cons.prems(1) by simp
  note p = trozo_utf8D [OF this]
  have ne: "ucs4_to_dest UTF8 p \<noteq> []" using p(1) by (cases p) (auto simp: write_codepoint_def Let_def)
  have "recode_loop UTF8 dest (map (ucs4_to_dest UTF8) ps) (ucs4_to_dest UTF8 p @ drop (length (ucs4_to_dest UTF8 p)) inbuf) 0 [] =
      Some (ucs4_to_dest dest (concat ps))"
    by (rule Cons.IH) (use Cons.prems p in simp_all)
  then show ?case
    by (subst utf8_round [where points = p]) (use p ne Cons.prems(2) in \<open>simp_all add: size_sub_def\<close>)
qed

text \<open>
  C28. Transcoding from UTF-8. When the kernel delivers the text in pieces that do not end within a
  character, none empty, each of at most 1024 bytes and fewer than 1024 characters, the first one of more than
  four bytes, the program writes the encoding of the whole text in the encoding asked for.
\<close>

theorem recode_main_utf8:
  assumes "\<forall>p \<in> set textos. trozo_utf8 p"
    and "str_to_encoding name = dest" "dest \<noteq> UNKNOWN"
    and "textos \<noteq> []" "4 < length (ucs4_to_dest UTF8 (hd textos))"
    and "length bom0 = 4" "length inbuf0 = 1024"
  shows "recode_main [prog, name] bom0 inbuf0 (map (ucs4_to_dest UTF8) textos) =
           Some (0, write_bom dest @ ucs4_to_dest dest (concat textos))"
proof -
  obtain p ps where t: "textos = p # ps" using assms(4) by (cases textos) auto
  let ?T = "ucs4_to_dest UTF8 p" and ?ps = "map (ucs4_to_dest UTF8) ps"
  have tp: "trozo_utf8 p" "4 < length ?T" using assms(1,5) by (simp_all add: t)
  note p = trozo_utf8D(2-4) [OF tp(1)] tp(2)
  have rd: "read_in (map (ucs4_to_dest UTF8) textos) 4 = (take 4 ?T, drop 4 ?T # ?ps)" using p(4) by (simp add: t)
  have det: "bom_to_encoding (take 4 ?T) = Some UTF8" by (rule detect_utf8) (use p in simp_all)
  have len: "length (take 4 ?T) = 4" using p(4) by simp
  let ?inbuf = "take 4 ?T @ drop 4 inbuf0"
  have rest: "recode_loop UTF8 dest ?ps (?T @ drop (length ?T) ?inbuf) 0 [] = Some (ucs4_to_dest dest (concat ps))"
    by (rule recode_loop_utf8) (use assms(1,7) p in \<open>simp_all add: t\<close>)
  have "recode_loop UTF8 dest (drop 4 ?T # ?ps) ?inbuf 4 (write_bom dest) =
      Some (write_bom dest @ ucs4_to_dest dest (concat textos))"
    by (subst utf8_round [where points = p and got = "drop 4 ?T" and stdin' = ?ps])
      (use p rest assms(7) len in \<open>simp_all add: size_sub_def t\<close>)
  then show ?thesis
    by (subst recode_main_head [OF rd len(1) assms(6) det assms(2,3)]) simp
qed

lemma recode_main_utf8_witness:
  "recode_main [''recode57'', ''UTF-16LE''] (replicate 4 0) (replicate 1024 7)
     [[72, 111, 108, 97, 0xC3, 0xB1], [0xE2, 0x82, 0xAC]] =
   Some (0, [255, 254, 72, 0, 111, 0, 108, 0, 97, 0, 0xF1, 0, 0xAC, 0x20])"
  using recode_main_utf8 [of "[[72, 111, 108, 97, 0xF1], [0x20AC]]" "''UTF-16LE''" UTF16LE
      "replicate 4 0" "replicate 1024 7" "''recode57''"]
  by (simp add: trozo_utf8_def str_to_encoding_def write_bom_def write_codepoint_def byte_of_def)

text \<open>
  C25. Decoding undoes encoding. In every known encoding, \<^verbatim>\<open>orig_to_ucs4\<close> run on what
  \<^verbatim>\<open>ucs4_to_dest\<close> wrote for a sequence of encodable code points, whatever follows it in the
  buffer, gives back the sequence and leaves no byte over, as long as \<^verbatim>\<open>destbuf\<close> has one
  element more than there are code points.
\<close>

theorem orig_to_ucs4_roundtrip:
  assumes "enc \<noteq> UNKNOWN" "list_all (encodable enc) cps" "length cps < room"
  shows "orig_to_ucs4 enc (ucs4_to_dest enc cps @ rest) (length (ucs4_to_dest enc cps)) room =
           Some (cps, 0)"
  unfolding orig_to_ucs4_def ucs4_to_dest_concat
  by (rule codec.stream_roundtrip [OF codec_of_encoding [OF assms(1)] assms(2,3)])

lemma orig_to_ucs4_roundtrip_witness:
  "orig_to_ucs4 UTF8 [65, 0xE2, 0x82, 0xAC, 9, 9] (length [65, 0xE2, 0x82, 0xAC :: u8]) 1024 = Some ([65, 0x20AC], 0)"
  using orig_to_ucs4_roundtrip [of UTF8 "[65, 0x20AC]" 1024 "[9, 9]"]
  by (simp add: write_codepoint_def byte_of_def)

text \<open>
  C29. The element count the comment of \<^verbatim>\<open>orig_to_ucs4\<close> asks for is not enough. With as many
  elements in \<^verbatim>\<open>destbuf\<close> as there are code points (1024 for a full buffer of ASCII), the
  call that finds no more input stores one element past the end of the array.
\<close>

theorem orig_to_ucs4_overflow:
  assumes "enc \<noteq> UNKNOWN" "list_all (encodable enc) cps" "room \<le> length cps"
  shows "orig_to_ucs4 enc (ucs4_to_dest enc cps @ rest) (length (ucs4_to_dest enc cps)) room = None"
  unfolding orig_to_ucs4_def ucs4_to_dest_concat
  by (rule codec.stream_overflow [OF codec_of_encoding [OF assms(1)] assms(2,3)])

lemma orig_to_ucs4_overflow_witness:
  "orig_to_ucs4 UTF8 (ucs4_to_dest UTF8 (replicate 1024 65)) (length (ucs4_to_dest UTF8 (replicate 1024 65)))
     1024 = None"
  using orig_to_ucs4_overflow [of UTF8 "replicate 1024 65" 1024 "[]"] by (simp add: list_all_iff)

text \<open>
  C30. A truncated UTF-8 sequence. Where \<^verbatim>\<open>recode57.h\<close> promises that nothing is consumed,
  \<^verbatim>\<open>read_codepoint\<close> decodes bytes beyond the input and returns more than \<^verbatim>\<open>n\<close>, so the count
  \<^verbatim>\<open>*nbytes -= b\<close> of the caller wraps around to almost \<open>2 ^ 64\<close>.
\<close>

theorem read_codepoint_utf8_truncated:
  assumes "encodable UTF8 cp" "0 < n" "n < length (write_codepoint UTF8 cp)"
  shows "\<exists>b. read_codepoint UTF8 (write_codepoint UTF8 cp @ stale) n = Some (cp, b) \<and> n < b \<and>
           2 ^ 64 - 4 \<le> size_sub n b"
proof -
  have "read_codepoint UTF8 (write_codepoint UTF8 cp @ stale) n =
      read_codepoint UTF8 (write_codepoint UTF8 cp @ stale) (length (write_codepoint UTF8 cp))"
    using assms(2,3) by (cases "write_codepoint UTF8 cp") (simp_all add: read_codepoint_def read_utf8_def)
  also have "\<dots> = Some (cp, length (write_codepoint UTF8 cp))"
    by (rule read_write_codepoint) (use assms(1) in simp_all)
  finally show ?thesis
    using assms(3) write_codepoint_length(1) [of UTF8 cp] by (simp add: size_sub_def)
qed

lemma read_codepoint_utf8_truncated_witness:
  "\<exists>b. read_codepoint UTF8 [0xC3, 0xB1, 7, 7] 1 = Some (0xF1, b) \<and> 1 < b \<and>
     2 ^ 64 - 4 \<le> size_sub 1 b"
  using read_codepoint_utf8_truncated [of "0xF1" 1 "[7, 7]"]
  by (simp add: write_codepoint_def byte_of_def)

text \<open>
  The output buffer is large enough: what one iteration of the main loop writes, byte
  order mark included, fits the \<open>1024 * 4 + 4\<close> bytes of \<^verbatim>\<open>outbuf\<close>.
\<close>

theorem recode_output_fits:
  assumes "orig_to_ucs4 enc inbuf inbytes 1024 = Some (points, left)"
  shows "length (write_bom dest @ ucs4_to_dest dest points) \<le> 1024 * 4 + 4"
  using ucs4_loop_room [OF assms [unfolded orig_to_ucs4_def]] ucs4_to_dest_length [of dest points]
    write_bom_length [of dest] by simp

lemma recode_output_fits_witness:
  "length (write_bom UTF32BE @ ucs4_to_dest UTF32BE [65, 66]) \<le> 1024 * 4 + 4"
proof (rule recode_output_fits)
  show "orig_to_ucs4 UTF8 [65, 66] (length [65, 66 :: u8]) 1024 = Some ([65, 66], 0)"
    using utf8.stream_roundtrip [of "[65, 66]" 1024 "[]"]
    by (simp add: orig_to_ucs4_def write_codepoint_def byte_of_def)
qed

text \<open>
  A short input is lost. When the whole input is four bytes (four ASCII characters, a
  UTF-8 sequence of four bytes, or a byte order mark and one UTF-16 unit), the program has
  already taken it all to look for the byte order mark, finds the end of input, and writes
  nothing at all, not even the byte order mark of the output.
\<close>

theorem recode_main_short_input:
  assumes "length bs = 4" "length bom0 = 4" "str_to_encoding name \<noteq> UNKNOWN"
  shows "recode_main [prog, name] bom0 inbuf0 [bs] = Some (0, [])"
proof -
  obtain enc where "bom_to_encoding bs = Some enc"
    using assms(1) by (simp add: bom_to_encoding_def)
  moreover have "recode_loop orig dest [] inbuf prev bom = Some []" for orig dest inbuf prev bom
    by (subst recode_loop.simps) simp
  ultimately show ?thesis using assms by (simp add: recode_main_def Let_def split: prod.split)
qed

lemma recode_main_short_input_witness:
  "recode_main [''recode57'', ''UTF-16BE''] [0, 0, 0, 0] [] [[72, 111, 108, 97]] = Some (0, [])"
  by (rule recode_main_short_input) (simp_all add: str_to_encoding_def)

end
