(* ===== verification/Cp57.thy ===== *)
theory Cp57
  imports Prelude
begin

text \<open>
  \<^verbatim>\<open>Labs individuales/lab1/cp57.c\<close>: the copy of a file with the system calls. The system is a parameter: the
  outcomes of the calls of \<^verbatim>\<open>read\<close> and \<^verbatim>\<open>write\<close>, in order, as POSIX allows them (short reads and writes,
  errors). A run that uses up the outcomes given has not ended, and has no value.
\<close>

subsection \<open>The system\<close>

text \<open>
  \<open>Lee n\<close>: the call delivers the next bytes, at most \<open>n\<close> of them, at least one if there is one and as
  many as asked for at most; at the end of the file it delivers none and returns 0. \<open>Escribe n\<close>: the
  call writes at most \<open>n\<close> bytes of those given. The other outcome is an error: -1 and the value of
  \<^verbatim>\<open>errno\<close>, which a successful call leaves as it was.
\<close>

datatype lectura = Lee nat | Error_r int
datatype escritura = Escribe nat | Error_w int

definition EINTR :: int where "EINTR = 4"
definition EISDIR :: int where "EISDIR = 21"

record sistema_t =
  origen :: "u8 list"
  destino :: "u8 list"
  lecturas :: "lectura list"
  escrituras :: "escritura list"
  errno :: int

text \<open>\<^verbatim>\<open>read\<close> into the start of the buffer: the result and the buffer afterwards.\<close>

definition sys_read :: "nat \<Rightarrow> u8 list \<Rightarrow> sistema_t \<Rightarrow> (int \<times> u8 list \<times> sistema_t) option" where
  "sys_read tam buf w =
     (case lecturas w of
        [] \<Rightarrow> None
      | Error_r e # ls \<Rightarrow> Some (- 1, buf, w\<lparr>lecturas := ls, errno := e\<rparr>)
      | Lee n # ls \<Rightarrow>
          (let k = min (max 1 n) (min tam (length (origen w)))
           in Some (int k, take k (origen w) @ drop k buf, w\<lparr>lecturas := ls, origen := drop k (origen w)\<rparr>)))"

text \<open>\<^verbatim>\<open>write\<close> of \<open>count\<close> bytes of the buffer from \<open>pos\<close> on; \<open>None\<close> if they are not all inside it.\<close>

definition sys_write :: "u8 list \<Rightarrow> nat \<Rightarrow> nat \<Rightarrow> sistema_t \<Rightarrow> (int \<times> sistema_t) option" where
  "sys_write buf pos count w =
     (if pos + count > length buf then None
      else case escrituras w of
        [] \<Rightarrow> None
      | Error_w e # es \<Rightarrow> Some (- 1, w\<lparr>escrituras := es, errno := e\<rparr>)
      | Escribe n # es \<Rightarrow>
          (let k = min n count
           in Some (int k, w\<lparr>escrituras := es, destino := destino w @ take k (drop pos buf)\<rparr>)))"

lemma sys_write_menos: "sys_write buf pos count w = Some (r, w') \<Longrightarrow> length (escrituras w') < length (escrituras w)"
  by (auto simp: sys_write_def Let_def split: if_splits list.splits escritura.splits)

lemma sys_read_menos: "sys_read tam buf w = Some (r, b, w') \<Longrightarrow> length (lecturas w') < length (lecturas w)"
  by (auto simp: sys_read_def Let_def split: list.splits lectura.splits)

subsection \<open>\<^verbatim>\<open>writeall\<close> and \<^verbatim>\<open>copyfd\<close>\<close>

text \<open>
  Each loop makes at least one system call per iteration, so the number of the outcomes bounds it.
  A call of \<^verbatim>\<open>write\<close> asks for \<open>count\<close> bytes every time, whatever \<open>pos\<close> is.
\<close>

function writeall_loop :: "u8 list \<Rightarrow> nat \<Rightarrow> nat \<Rightarrow> sistema_t \<Rightarrow> (nat \<times> sistema_t) option" where
  "writeall_loop buf count pos w =
     (case sys_write buf pos count w of
        None \<Rightarrow> None
      | Some (bytes_written, w') \<Rightarrow>
          (let pos' = (if bytes_written \<noteq> - 1 then pos + nat bytes_written else pos)
           in if bytes_written = - 1 \<and> errno w' \<noteq> EINTR then Some (pos', w')
              else if pos' < count \<and> bytes_written < 0 then writeall_loop buf count pos' w'
              else Some (0, w')))"
  by pat_completeness auto
termination
  by (relation "measure (\<lambda>(buf, count, pos, w). length (escrituras w))") (auto dest: sys_write_menos)

declare writeall_loop.simps [simp del]

definition writeall :: "u8 list \<Rightarrow> nat \<Rightarrow> sistema_t \<Rightarrow> (nat \<times> sistema_t) option" where
  "writeall buf count w = writeall_loop buf count 0 w"

lemma sys_write_lecturas: "sys_write buf pos count w = Some (r, w') \<Longrightarrow> lecturas w' = lecturas w"
  by (auto simp: sys_write_def Let_def split: if_splits list.splits escritura.splits)

lemma writeall_loop_lecturas: "writeall_loop buf count pos w = Some (r, w') \<Longrightarrow> lecturas w' = lecturas w"
proof (induction "length (escrituras w)" arbitrary: pos w rule: less_induct)
  case less
  then obtain b v where b: "sys_write buf pos count w = Some (b, v)"
    by (auto simp: writeall_loop.simps [of buf count pos w] split: option.splits)
  define pos' where "pos' = (if b \<noteq> - 1 then pos + nat b else pos)"
  show ?case
    using less.prems less.hyps [OF sys_write_menos [OF b], of pos'] sys_write_lecturas [OF b] b
    by (simp add: writeall_loop.simps [of buf count pos w] Let_def split: if_splits flip: pos'_def)
qed

text \<open>
  The number of bytes is passed on as an unsigned number: -1 becomes \<open>2^64 - 1\<close>, more than any buffer
  holds.
\<close>

definition tam_u64 :: "int \<Rightarrow> nat" where "tam_u64 z = nat (z mod 2 ^ 64)"

definition copiar_trozo :: "int \<Rightarrow> nat \<Rightarrow> u8 list \<Rightarrow> sistema_t \<Rightarrow> ((nat + nat) \<times> sistema_t) option" where
  "copiar_trozo bytes_read count buf w =
     (if errno w \<noteq> EINTR then
        (case writeall buf (tam_u64 bytes_read) w of
           None \<Rightarrow> None
         | Some (bytes_written, w) \<Rightarrow> Some (Inr (count + bytes_written), w))
      else if errno w \<noteq> 0 \<and> errno w \<noteq> EINTR then Some (Inl count, w)
      else Some (Inr count, w))"

lemma copiar_trozo_lecturas: "copiar_trozo bytes_read count buf w = Some (r, w') \<Longrightarrow> lecturas w' = lecturas w"
  by (auto simp: copiar_trozo_def writeall_def split: if_splits option.splits dest: writeall_loop_lecturas)

function copyfd_loop :: "nat \<Rightarrow> int \<Rightarrow> nat \<Rightarrow> u8 list \<Rightarrow> sistema_t \<Rightarrow> (nat \<times> sistema_t) option" where
  "copyfd_loop tam bytes_read count buf w =
     (case copiar_trozo bytes_read count buf w of
        None \<Rightarrow> None
      | Some (Inl r, w1) \<Rightarrow> Some (r, w1)
      | Some (Inr count1, w1) \<Rightarrow>
          (case sys_read tam buf w1 of
             None \<Rightarrow> None
           | Some (bytes_read1, buf1, w2) \<Rightarrow>
               if bytes_read1 \<noteq> 0 then copyfd_loop tam bytes_read1 count1 buf1 w2 else Some (0, w2)))"
  by pat_completeness auto
termination
  by (relation "measure (\<lambda>(tam, bytes_read, count, buf, w). length (lecturas w))")
    (auto dest!: copiar_trozo_lecturas sys_read_menos)

declare copyfd_loop.simps [simp del]

definition copyfd :: "u8 list \<Rightarrow> nat \<Rightarrow> sistema_t \<Rightarrow> (nat \<times> sistema_t) option" where
  "copyfd buf tam w =
     (case sys_read tam buf (w\<lparr>errno := 0\<rparr>) of
        None \<Rightarrow> None
      | Some (bytes_read, buf, w) \<Rightarrow> copyfd_loop tam bytes_read 0 buf w)"

subsection \<open>\<^verbatim>\<open>main\<close>\<close>

text \<open>
  What the other calls answer: the result of each, and for the first two calls of \<^verbatim>\<open>open\<close> the value of
  \<^verbatim>\<open>errno\<close> after it, which the program sets to 0 before.
\<close>

record respuestas_t =
  r_readlink :: int
  r_link :: int
  r_open_origen :: "int \<times> int"
  r_open_destino :: "int \<times> int"
  r_open_dir :: int
  r_openat :: int

datatype mensaje_t = Argumentos int | Error_al_abrir nat | Copiado | Hubo_error nat

text \<open>
  The exit code, the messages and the system afterwards. A destination that is a directory in which the
  file cannot be created leaves the variable \<^verbatim>\<open>reader\<close> without a value.
\<close>

definition cp57_main :: "int \<Rightarrow> respuestas_t \<Rightarrow> u8 list \<Rightarrow> sistema_t \<Rightarrow> (int \<times> mensaje_t list \<times> sistema_t) option" where
  "cp57_main argc a buf w =
     (if argc \<noteq> 3 then Some (0, [Argumentos argc], w)
      else if r_readlink a > - 1 then Some (r_link a, [], w)
      else if fst (r_open_origen a) = - 1 \<or> snd (r_open_origen a) = EISDIR then Some (- 1, [Error_al_abrir 1], w)
      else if snd (r_open_destino a) \<noteq> 0 \<and> snd (r_open_destino a) \<noteq> EISDIR then Some (- 1, [Error_al_abrir 2], w)
      else if snd (r_open_destino a) = EISDIR \<and> r_open_dir a = - 1 then Some (- 1, [Error_al_abrir 2], w)
      else if snd (r_open_destino a) = EISDIR \<and> r_openat a = - 1 then None
      else do {
        (reader, w) \<leftarrow> copyfd buf 512 w;
        Some (0, [if reader = 0 then Copiado else Hubo_error reader], w)})"

subsection \<open>A copy without errors\<close>

definition sin_errores :: "nat \<Rightarrow> sistema_t \<Rightarrow> bool" where
  "sin_errores tam w \<longleftrightarrow> (\<forall>l\<in>set (lecturas w). \<exists>n. l = Lee n) \<and> (\<forall>e\<in>set (escrituras w). \<exists>n\<ge>tam. e = Escribe n)"

lemma sys_read_bien:
  assumes "sin_errores tam w" "lecturas w \<noteq> []" "length buf = tam" "0 < tam" "errno w = 0"
  shows "\<exists>k w'. sys_read tam buf w = Some (int k, take k (origen w) @ drop k buf, w') \<and> k \<le> tam \<and> k \<le> length (origen w) \<and>
    (origen w \<noteq> [] \<longrightarrow> 0 < k) \<and> w' = w\<lparr>lecturas := tl (lecturas w), origen := drop k (origen w)\<rparr> \<and> sin_errores tam w'"
proof -
  obtain n ls where l: "lecturas w = Lee n # ls"
    using assms(1,2) by (cases "lecturas w") (auto simp: sin_errores_def)
  let ?k = "min (max 1 n) (min tam (length (origen w)))"
  show ?thesis
    using assms
    by (intro exI [of _ ?k] exI [of _ "w\<lparr>lecturas := tl (lecturas w), origen := drop ?k (origen w)\<rparr>"])
      (simp add: sys_read_def l Let_def sin_errores_def, linarith)
qed

lemma copiar_trozo_bien:
  assumes "sin_errores tam w" "escrituras w \<noteq> []" "errno w = 0" "k \<le> tam" "k \<le> length buf" "int k < 2 ^ 64"
  shows "\<exists>c w'. copiar_trozo (int k) count buf w = Some (Inr c, w') \<and>
    w' = w\<lparr>escrituras := tl (escrituras w), destino := destino w @ take k buf\<rparr> \<and> sin_errores tam w'"
proof -
  obtain n es where e: "escrituras w = Escribe n # es" "tam \<le> n"
    using assms(1,2) by (cases "escrituras w") (auto simp: sin_errores_def)
  then have n: "min n k = k" using assms(4) by simp
  have "writeall buf k w = Some (0, w\<lparr>escrituras := es, destino := destino w @ take k buf\<rparr>)"
    using assms(5) e n by (simp add: writeall_def writeall_loop.simps sys_write_def Let_def)
  then show ?thesis
    using assms e by (simp add: copiar_trozo_def tam_u64_def EINTR_def sin_errores_def)
qed

lemma copyfd_loop_bien:
  assumes "sin_errores tam w" "length buf = tam" "0 < tam" "int tam < 2 ^ 64" "errno w = 0" "k \<le> tam"
    "length (origen w) < length (lecturas w)" "length (origen w) < length (escrituras w)"
  shows "\<exists>w'. copyfd_loop tam (int k) count buf w = Some (0, w') \<and> destino w' = destino w @ take k buf @ origen w \<and> origen w' = []"
  using assms
proof (induction "length (origen w)" arbitrary: k count buf w rule: less_induct)
  case less
  define w1 where "w1 = w\<lparr>escrituras := tl (escrituras w), destino := destino w @ take k buf\<rparr>"
  have "escrituras w \<noteq> []" using less.prems(8) by auto
  then obtain c where c: "copiar_trozo (int k) count buf w = Some (Inr c, w1)" "sin_errores tam w1"
    using copiar_trozo_bien [of tam w k buf count] less.prems by (auto simp: w1_def)
  have w1: "lecturas w1 \<noteq> []" "errno w1 = 0" "origen w1 = origen w" "lecturas w1 = lecturas w"
    using less.prems by (auto simp: w1_def)
  obtain j where j: "sys_read tam buf w1 = Some (int j, take j (origen w) @ drop j buf,
      w1\<lparr>lecturas := tl (lecturas w), origen := drop j (origen w)\<rparr>)" "j \<le> tam" "j \<le> length (origen w)"
    "origen w \<noteq> [] \<longrightarrow> 0 < j" "sin_errores tam (w1\<lparr>lecturas := tl (lecturas w), origen := drop j (origen w)\<rparr>)"
    using sys_read_bien [OF c(2) w1(1) less.prems(2,3) w1(2)] w1(3,4) by auto
  let ?w2 = "w1\<lparr>lecturas := tl (lecturas w), origen := drop j (origen w)\<rparr>"
  show ?case
  proof (cases "j = 0")
    case True
    then have "origen w = []" using j(4) by simp
    then show ?thesis using True c j(1) by (auto simp: copyfd_loop.simps [of tam "int k"] w1_def)
  next
    case False
    have "\<exists>w'. copyfd_loop tam (int j) c (take j (origen w) @ drop j buf) ?w2 = Some (0, w') \<and>
      destino w' = destino ?w2 @ take j (take j (origen w) @ drop j buf) @ origen ?w2 \<and> origen w' = []"
      using less.prems j False by (intro less.hyps) (auto simp: w1_def)
    then show ?thesis using c j(1,3) False by (auto simp: copyfd_loop.simps [of tam "int k"] w1_def)
  qed
qed

text \<open>
  C18. The copy of a file. With three arguments, a source that is no symbolic link and opens, a
  destination that opens, and reads and writes that do not fail, every write complete and the reads
  as short as they may be, \<^verbatim>\<open>cp57\<close> ends, writes the contents of the source to the destination, says so and
  exits with 0.
\<close>

theorem cp57_main_copia:
  assumes "r_readlink a = - 1" "fst (r_open_origen a) \<noteq> - 1" "snd (r_open_origen a) \<noteq> EISDIR"
    "snd (r_open_destino a) = 0 \<or> snd (r_open_destino a) = EISDIR \<and> r_open_dir a \<noteq> - 1 \<and> r_openat a \<noteq> - 1"
    "length buf = 512" "sin_errores 512 w" "length (origen w) + 1 < length (lecturas w)"
    "length (origen w) < length (escrituras w)"
  shows "\<exists>w'. cp57_main 3 a buf w = Some (0, [Copiado], w') \<and> destino w' = destino w @ origen w \<and> origen w' = []"
proof -
  let ?w = "w\<lparr>errno := 0\<rparr>"
  have s: "sin_errores 512 ?w" "errno ?w = 0" using assms(6) by (simp_all add: sin_errores_def)
  obtain k where k: "sys_read 512 buf ?w = Some (int k, take k (origen w) @ drop k buf,
      ?w\<lparr>lecturas := tl (lecturas w), origen := drop k (origen w)\<rparr>)" "k \<le> 512" "k \<le> length (origen w)"
    "sin_errores 512 (?w\<lparr>lecturas := tl (lecturas w), origen := drop k (origen w)\<rparr>)"
    using sys_read_bien [OF s(1) _ assms(5) _ s(2)] assms(7) by fastforce
  have "length (origen w) - k < length (lecturas w) - 1" "length (origen w) - k < length (escrituras w)"
    using assms(7,8) by linarith+
  then obtain w' where "copyfd_loop 512 (int k) 0 (take k (origen w) @ drop k buf)
      (?w\<lparr>lecturas := tl (lecturas w), origen := drop k (origen w)\<rparr>) = Some (0, w')"
    "destino w' = destino w @ origen w" "origen w' = []"
    using copyfd_loop_bien [of 512 "?w\<lparr>lecturas := tl (lecturas w), origen := drop k (origen w)\<rparr>"
        "take k (origen w) @ drop k buf" k 0] k assms by (auto simp flip: append_assoc)
  then show ?thesis using k(1) assms(1-4) by (auto simp: cp57_main_def copyfd_def EISDIR_def)
qed

theorem cp57_main_copia_witness:
  "\<exists>w'. cp57_main 3 \<lparr>r_readlink = - 1, r_link = 0, r_open_origen = (3, 0), r_open_destino = (4, 0), r_open_dir = 0, r_openat = 0\<rparr>
      (replicate 512 0) \<lparr>origen = [104, 105], destino = [], lecturas = replicate 4 (Lee 1), escrituras = replicate 3 (Escribe 512), errno = 0\<rparr> =
    Some (0, [Copiado], w') \<and> destino w' = [104, 105]"
  using cp57_main_copia [of "\<lparr>r_readlink = - 1, r_link = 0, r_open_origen = (3, 0), r_open_destino = (4, 0), r_open_dir = 0, r_openat = 0\<rparr>"
      "replicate 512 0" "\<lparr>origen = [104, 105], destino = [], lecturas = replicate 4 (Lee 1), escrituras = replicate 3 (Escribe 512), errno = 0\<rparr>"]
  by (auto simp: sin_errores_def EISDIR_def)

subsection \<open>What goes wrong without notice\<close>

text \<open>
  \<^verbatim>\<open>writeall\<close> repeats a call that a signal interrupts and stops after the first other one, whatever
  its outcome: after a short write the rest of the bytes is not written, after an error none is, and the
  result is 0 in all cases, the value that stands for "all written".
\<close>

theorem writeall_correct:
  assumes "escrituras w = replicate k (Error_w EINTR) @ r # es" "r \<noteq> Error_w EINTR" "0 < count" "count \<le> length buf"
  shows "writeall buf count w = Some (0, w\<lparr>escrituras := es,
      destino := destino w @ (case r of Escribe n \<Rightarrow> take (min n count) buf | Error_w e \<Rightarrow> []),
      errno := (case r of Escribe n \<Rightarrow> (if k = 0 then errno w else EINTR) | Error_w e \<Rightarrow> e)\<rparr>)"
  using assms(1) unfolding writeall_def
proof (induction k arbitrary: w)
  case 0
  then show ?case using assms(2-4)
    by (cases r) (simp_all add: writeall_loop.simps [of buf count 0 w] sys_write_def Let_def)
next
  case (Suc k)
  let ?w = "w\<lparr>escrituras := replicate k (Error_w EINTR) @ r # es, errno := EINTR\<rparr>"
  have "writeall_loop buf count 0 w = writeall_loop buf count 0 ?w"
    using Suc.prems assms(3,4) by (simp add: writeall_loop.simps [of buf count 0 w] sys_write_def Let_def)
  then show ?case using Suc.IH [of ?w] by (cases r) simp_all
qed

theorem writeall_correct_witness:
  "writeall [1, 2, 3] 3 \<lparr>origen = [], destino = [], lecturas = [], escrituras = [Error_w EINTR, Escribe 2, Escribe 9], errno = 0\<rparr> =
     Some (0, \<lparr>origen = [], destino = [1, 2], lecturas = [], escrituras = [Escribe 9], errno = EINTR\<rparr>)"
  using writeall_correct [of "\<lparr>origen = [], destino = [], lecturas = [], escrituras = [Error_w EINTR, Escribe 2, Escribe 9], errno = 0\<rparr>"
    1 "Escribe 2" "[Escribe 9]" 3 "[1, 2, 3]"] by simp

text \<open>
  The state in which nothing is written any more: \<^verbatim>\<open>errno\<close> is \<^verbatim>\<open>EINTR\<close>, which no successful call
  resets, or every write fails.
\<close>

definition atascado :: "sistema_t \<Rightarrow> bool" where
  "atascado w \<longleftrightarrow> (\<forall>l\<in>set (lecturas w). \<exists>n. l = Lee n) \<and> length (origen w) < length (lecturas w) \<and>
     (errno w = EINTR \<or> (\<forall>r\<in>set (escrituras w). \<exists>e. r = Error_w e \<and> e \<noteq> EINTR) \<and> length (origen w) < length (escrituras w))"

lemma copiar_trozo_atascado:
  assumes "atascado w" "errno w = EINTR \<or> 0 \<le> br \<and> br \<le> int (length buf) \<and> br < 2 ^ 64"
  shows "\<exists>c w'. copiar_trozo br count buf w = Some (Inr c, w') \<and> destino w' = destino w \<and> origen w' = origen w \<and>
    lecturas w' = lecturas w \<and>
    (errno w' = EINTR \<or> (\<forall>r\<in>set (escrituras w'). \<exists>e. r = Error_w e \<and> e \<noteq> EINTR) \<and> length (origen w) \<le> length (escrituras w'))"
proof (cases "errno w = EINTR")
  case True
  then show ?thesis by (simp add: copiar_trozo_def)
next
  case False
  then obtain e es where e: "escrituras w = Error_w e # es" "e \<noteq> EINTR"
    using assms(1) by (cases "escrituras w") (auto simp: atascado_def)
  have "tam_u64 br \<le> length buf" using assms(2) False by (auto simp: tam_u64_def nat_le_iff)
  then have "writeall buf (tam_u64 br) w = Some (0, w\<lparr>escrituras := es, errno := e\<rparr>)"
    using e by (simp add: writeall_def writeall_loop.simps [of _ _ 0 w] sys_write_def Let_def)
  then show ?thesis using assms(1) e False by (auto simp: copiar_trozo_def atascado_def)
qed

lemma copyfd_loop_atascado:
  assumes "atascado w" "errno w = EINTR \<or> 0 \<le> br \<and> br \<le> int tam" "length buf = tam" "0 < tam" "int tam < 2 ^ 64"
  shows "\<exists>w'. copyfd_loop tam br count buf w = Some (0, w') \<and> destino w' = destino w"
  using assms
proof (induction "length (origen w)" arbitrary: br count buf w rule: less_induct)
  case less
  obtain c w1 where c: "copiar_trozo br count buf w = Some (Inr c, w1)" "destino w1 = destino w" "origen w1 = origen w"
    "lecturas w1 = lecturas w" "errno w1 = EINTR \<or> (\<forall>r\<in>set (escrituras w1). \<exists>e. r = Error_w e \<and> e \<noteq> EINTR) \<and>
      length (origen w) \<le> length (escrituras w1)"
    using copiar_trozo_atascado [of w br buf count] less.prems by auto
  obtain n ls where l: "lecturas w1 = Lee n # ls" "\<forall>l\<in>set ls. \<exists>n. l = Lee n" "length (origen w) \<le> length ls"
  proof -
    obtain r ls where "lecturas w = r # ls" using less.prems(1) by (cases "lecturas w") (simp_all add: atascado_def)
    then show thesis using that less.prems(1) c(4) by (auto simp: atascado_def)
  qed
  define j where "j = min (max 1 n) (min tam (length (origen w)))"
  define w2 where "w2 = w1\<lparr>lecturas := ls, origen := drop j (origen w)\<rparr>"
  have r: "sys_read tam buf w1 = Some (int j, take j (origen w) @ drop j buf, w2)"
    by (simp add: sys_read_def l c(3) Let_def j_def w2_def)
  show ?case
  proof (cases "j = 0")
    case True
    then show ?thesis using c(1,2) r by (auto simp: copyfd_loop.simps [of tam br] w2_def)
  next
    case False
    then have j: "0 < length (origen w)" "j \<le> tam" "j \<le> length (origen w)" by (auto simp: j_def)
    have "atascado w2" using c(5) l j False by (auto simp: atascado_def w2_def)
    then have "\<exists>w'. copyfd_loop tam (int j) c (take j (origen w) @ drop j buf) w2 = Some (0, w') \<and> destino w' = destino w2"
      using less.prems j False by (intro less.hyps) (auto simp: w2_def)
    then show ?thesis using c(1,2) r False by (auto simp: copyfd_loop.simps [of tam br] w2_def)
  qed
qed

text \<open>
  C35. Losses without notice. When the destination opens but every write to it fails, as on a full
  device, or when a signal interrupts the first read, \<^verbatim>\<open>cp57\<close> reads the whole source, writes nothing, says
  that the whole file was copied and exits with 0.
\<close>

theorem cp57_main_pierde:
  assumes "r_readlink a = - 1" "fst (r_open_origen a) \<noteq> - 1" "snd (r_open_origen a) \<noteq> EISDIR" "snd (r_open_destino a) = 0"
    "length buf = 512" "length (origen w) + 1 < length (lecturas w)"
    "(\<forall>l\<in>set (lecturas w). \<exists>n. l = Lee n) \<and> (\<forall>r\<in>set (escrituras w). \<exists>e. r = Error_w e \<and> e \<noteq> EINTR) \<and>
       length (origen w) < length (escrituras w) \<or>
     hd (lecturas w) = Error_r EINTR \<and> (\<forall>l\<in>set (tl (lecturas w)). \<exists>n. l = Lee n)"
  shows "\<exists>w'. cp57_main 3 a buf w = Some (0, [Copiado], w') \<and> destino w' = destino w"
proof -
  obtain r ls where l: "lecturas w = r # ls" using assms(6) by (cases "lecturas w") simp_all
  define w1 where "w1 = (case r of Error_r e \<Rightarrow> w\<lparr>errno := e, lecturas := ls\<rparr>
     | Lee n \<Rightarrow> w\<lparr>errno := 0, lecturas := ls, origen := drop (min (max 1 n) (min 512 (length (origen w)))) (origen w)\<rparr>)"
  obtain br b where b: "sys_read 512 buf (w\<lparr>errno := 0\<rparr>) = Some (br, b, w1)" "length b = 512"
    "errno w1 = EINTR \<or> 0 \<le> br \<and> br \<le> 512"
    using assms(5,7) l by (cases r) (auto simp: sys_read_def w1_def Let_def min_le_iff_disj)
  have "atascado w1" "destino w1 = destino w"
    using assms(6,7) l by (auto simp: w1_def atascado_def split: lectura.splits)
  then show ?thesis
    using copyfd_loop_atascado [of w1 br 512 b 0] b assms(1-4) by (auto simp: cp57_main_def copyfd_def EISDIR_def)
qed

theorem cp57_main_pierde_witness:
  "\<exists>w'. cp57_main 3 \<lparr>r_readlink = - 1, r_link = 0, r_open_origen = (3, 0), r_open_destino = (4, 0), r_open_dir = 0, r_openat = 0\<rparr>
      (replicate 512 0) \<lparr>origen = [104, 105], destino = [], lecturas = replicate 4 (Lee 9), escrituras = replicate 3 (Error_w 28), errno = 0\<rparr> =
    Some (0, [Copiado], w') \<and> destino w' = []"
  using cp57_main_pierde [of "\<lparr>r_readlink = - 1, r_link = 0, r_open_origen = (3, 0), r_open_destino = (4, 0), r_open_dir = 0, r_openat = 0\<rparr>"
      "replicate 512 0" "\<lparr>origen = [104, 105], destino = [], lecturas = replicate 4 (Lee 9), escrituras = replicate 3 (Error_w 28), errno = 0\<rparr>"]
  by (auto simp: EISDIR_def EINTR_def)

end
