(* ===== verification/Ls57.thy ===== *)
theory Ls57
  imports Decimal
begin

text \<open>
  \<^verbatim>\<open>Labs individuales/lab1/ls57.c\<close>: the listing of a directory. The system is a parameter: what
  \<^verbatim>\<open>opendir\<close> makes of a name and, for an open directory, what the calls of \<^verbatim>\<open>readdir\<close> and \<^verbatim>\<open>fstatat\<close> deliver.
\<close>

subsection \<open>The system\<close>

text \<open>
  The mode and the size \<^verbatim>\<open>fstatat\<close> stores, without following symbolic links. \<open>None\<close> in \<open>estado\<close>: the call fails and stores
  nothing, as when the file is removed after \<^verbatim>\<open>readdir\<close> has found it.
\<close>

record stat_t =
  st_mode :: int
  st_size :: int

record dirent_t =
  d_name :: string
  estado :: "stat_t option"

text \<open>
  An open directory: the value \<^verbatim>\<open>errno\<close> has after \<^verbatim>\<open>opendir\<close>, which may be any number, as a call that succeeds need not set it;
  the entries \<^verbatim>\<open>readdir\<close> delivers before it returns \<^verbatim>\<open>NULL\<close>; and the value of \<^verbatim>\<open>errno\<close> it leaves then: 0 at
  the end of the directory, another number after an error.
\<close>

record dir_t =
  errno_abierto :: int
  entradas :: "dirent_t list"
  errno_fin :: int

text \<open>\<^verbatim>\<open>opendir\<close>: a directory, or \<open>Inl\<close> with the value of \<^verbatim>\<open>errno\<close>, \<^verbatim>\<open>ENOTDIR\<close> for a name that is no directory.\<close>

definition ENOTDIR :: int where "ENOTDIR = 20"

definition S_IFMT :: int where "S_IFMT = 0xF000"
definition S_IFREG :: int where "S_IFREG = 0x8000"

unbundle bit_operations_syntax

subsection \<open>\<^verbatim>\<open>getsize\<close>\<close>

text \<open>\<open>basura\<close> is what the structure on the stack holds before the call.\<close>

definition getsize :: "dirent_t \<Rightarrow> stat_t \<Rightarrow> int" where
  "getsize file basura =
     (let st = (case estado file of Some st \<Rightarrow> st | None \<Rightarrow> basura)
      in if st_mode st AND S_IFMT = S_IFREG then st_size st else - 1)"

subsection \<open>\<^verbatim>\<open>lsdir\<close>\<close>

definition linea_archivo :: "string \<Rightarrow> int \<Rightarrow> string" where
  "linea_archivo nombre bytes =
     (if bytes \<noteq> - 1 then nombre @ [CHR 0x09] @ texto_int bytes @ [CHR 0x0A] else nombre @ [CHR 0x0A])"

text \<open>
  The loop, from the first entry on; \<open>basura k\<close> is what the structure holds in iteration \<open>k\<close>. A name has a
  first character, which is the final 0 for the empty name.
\<close>

fun lsdir_loop :: "(nat \<Rightarrow> stat_t) \<Rightarrow> nat \<Rightarrow> dirent_t list \<Rightarrow> string" where
  "lsdir_loop basura k [] = []"
| "lsdir_loop basura k (file # files) =
     (let bytes = getsize file (basura k)
      in (if take 1 (d_name file) \<noteq> ''.'' then linea_archivo (d_name file) bytes else []) @
         lsdir_loop basura (k + 1) files)"

definition lsdir :: "(nat \<Rightarrow> stat_t) \<Rightarrow> dir_t \<Rightarrow> string" where
  "lsdir basura dir = lsdir_loop basura 0 (entradas dir)"

subsection \<open>\<^verbatim>\<open>main\<close>\<close>

text \<open>The result is the value \<^verbatim>\<open>main\<close> returns and the output.\<close>

definition ls57_main :: "(string \<Rightarrow> int + dir_t) \<Rightarrow> (nat \<Rightarrow> stat_t) \<Rightarrow> string list \<Rightarrow> int \<times> string" where
  "ls57_main opendir basura argv =
     (let aviso = (if length argv > 2 then ''Solo se puede ejecutar con 1 o 2 parametros '' @ [CHR 0x0A] else []);
          nombre = (if length argv = 1 then ''.'' else argv ! 1)
      in case opendir nombre of
           Inl e \<Rightarrow> (- 1, aviso @ ''Error al abrir el directorio '' @ [CHR 0x0A])
         | Inr dir \<Rightarrow>
             let errno = errno_abierto dir
             in if errno = ENOTDIR then (- 1, aviso @ ''Solo se pueden listar directorios'' @ [CHR 0x0A])
                else (0, aviso @ lsdir basura dir))"

subsection \<open>What is listed\<close>

text \<open>The line for an entry with this state: the size of a regular file follows the name, unless it is -1.\<close>

definition linea_de :: "dirent_t \<Rightarrow> stat_t \<Rightarrow> string" where
  "linea_de file st =
     d_name file @
     (if st_mode st AND S_IFMT = S_IFREG \<and> st_size st \<noteq> - 1 then [CHR 0x09] @ texto_int (st_size st) else []) @ [CHR 0x0A]"

definition visible :: "dirent_t \<Rightarrow> bool" where
  "visible file \<longleftrightarrow> take 1 (d_name file) \<noteq> ''.''"

text \<open>The state that decides about the line of an entry: its own, or what the stack holds when \<^verbatim>\<open>fstatat\<close> fails.\<close>

definition estado_o :: "stat_t \<Rightarrow> dirent_t \<Rightarrow> stat_t" where
  "estado_o b file = (case estado file of Some st \<Rightarrow> st | None \<Rightarrow> b)"

lemma linea_archivo_getsize: "linea_archivo (d_name f) (getsize f b) = linea_de f (estado_o b f)"
  by (simp add: linea_archivo_def getsize_def linea_de_def estado_o_def Let_def split: option.split)

lemma lsdir_loop_lineas:
  "lsdir_loop basura k files =
    concat (map (\<lambda>(i, file). linea_de file (estado_o (basura i) file)) (filter (\<lambda>x. visible (snd x)) (enumerate k files)))"
  by (induction files arbitrary: k) (auto simp: linea_archivo_getsize visible_def Let_def)

lemma lineas_leidas:
  assumes "\<forall>file\<in>set files. visible file \<longrightarrow> estado file \<noteq> None"
  shows "map (\<lambda>(i, file). linea_de file (estado_o (basura i) file)) (filter (\<lambda>x. visible (snd x)) (enumerate k files)) =
    map (\<lambda>file. linea_de file (the (estado file))) (filter visible files)"
  using assms
proof (induction files arbitrary: k)
  case (Cons f fs)
  have "estado_o b f = the (estado f)" if "visible f" for b using Cons.prems that by (auto simp: estado_o_def)
  then show ?case using Cons by simp
qed simp

text \<open>
  C34. The listing, for a name (without an argument, the current directory) that \<^verbatim>\<open>opendir\<close> opens. If \<^verbatim>\<open>errno\<close> happens to be \<^verbatim>\<open>ENOTDIR\<close> then, \<^verbatim>\<open>ls57\<close>
  takes the name for one that is no directory and returns -1. Otherwise it returns 0 and prints one line for each entry whose name does not start with a dot, in the order of
  \<^verbatim>\<open>readdir\<close>, with the size after the name exactly when the state says a regular file whose size is not -1. The state is
  the one \<^verbatim>\<open>fstatat\<close> stores; when it fails, which nobody checks, it is what the stack holds in that iteration. When it fails for no entry that is listed, the
  stack has no influence. An error of \<^verbatim>\<open>readdir\<close> shows nowhere: the output and the value are those of the end of
  the directory.
\<close>

theorem ls57_main_lista:
  assumes "argv \<noteq> []" "opendir (if length argv = 1 then ''.'' else argv ! 1) = Inr dir"
  defines "aviso \<equiv> (if length argv > 2 then ''Solo se puede ejecutar con 1 o 2 parametros '' @ [CHR 0x0A] else [])"
  shows "ls57_main opendir basura argv =
      (if errno_abierto dir = ENOTDIR then (- 1, aviso @ ''Solo se pueden listar directorios'' @ [CHR 0x0A])
       else (0, aviso @ concat (map (\<lambda>(i, file). linea_de file (case estado file of Some st \<Rightarrow> st | None \<Rightarrow> basura i))
         (filter (\<lambda>x. visible (snd x)) (enumerate 0 (entradas dir)))))) \<and>
    ((\<forall>file\<in>set (entradas dir). visible file \<longrightarrow> estado file \<noteq> None) \<and> errno_abierto dir \<noteq> ENOTDIR \<longrightarrow>
      ls57_main opendir basura argv =
        (0, aviso @ concat (map (\<lambda>file. linea_de file (the (estado file))) (filter visible (entradas dir)))))"
proof -
  have g: "ls57_main opendir basura argv =
      (if errno_abierto dir = ENOTDIR then (- 1, aviso @ ''Solo se pueden listar directorios'' @ [CHR 0x0A])
       else (0, aviso @ concat (map (\<lambda>(i, file). linea_de file (estado_o (basura i) file))
         (filter (\<lambda>x. visible (snd x)) (enumerate 0 (entradas dir))))))"
    using assms(2) by (simp add: ls57_main_def Let_def lsdir_def lsdir_loop_lineas aviso_def)
  show ?thesis unfolding g using lineas_leidas [of "entradas dir" basura 0] by (simp add: estado_o_def)
qed

text \<open>
  A file that is gone when \<^verbatim>\<open>fstatat\<close> is called is listed with the size of the file before it, which the stack still holds. Without
  it the stack does not matter.
\<close>

definition dir_ejemplo :: dir_t where
  "dir_ejemplo = \<lparr>errno_abierto = 0, entradas =
     [\<lparr>d_name = ''.'', estado = None\<rparr>,
      \<lparr>d_name = ''src'', estado = Some \<lparr>st_mode = 0x41ED, st_size = 4096\<rparr>\<rparr>,
      \<lparr>d_name = ''a.c'', estado = Some \<lparr>st_mode = 0x81A4, st_size = 57\<rparr>\<rparr>,
      \<lparr>d_name = ''b.c'', estado = None\<rparr>],
     errno_fin = 5\<rparr>"

theorem ls57_main_lista_witness:
  "\<forall>basura. ls57_main (\<lambda>n. if n = ''.'' then Inr dir_ejemplo else Inl 2) (\<lambda>_. \<lparr>st_mode = 0x81A4, st_size = 57\<rparr>) [''ls57''] =
    (0, ''src'' @ [CHR 0x0A] @ ''a.c'' @ [CHR 0x09] @ ''57'' @ [CHR 0x0A] @ ''b.c'' @ [CHR 0x09] @ ''57'' @ [CHR 0x0A]) \<and>
   ls57_main (\<lambda>n. if n = ''d'' then Inr (dir_ejemplo\<lparr>entradas := take 3 (entradas dir_ejemplo)\<rparr>) else Inl 2) basura [''ls57'', ''d''] =
    (0, ''src'' @ [CHR 0x0A] @ ''a.c'' @ [CHR 0x09] @ ''57'' @ [CHR 0x0A])"
proof -
  have d: "decimal 57 = ''57''"
    by (simp add: decimal.simps [of 57] decimal.simps [of 5] char_of_eq_iff take_bit_eq_mod)
  note defs = dir_ejemplo_def visible_def linea_de_def S_IFMT_def S_IFREG_def texto_int_def d ENOTDIR_def
  show ?thesis
  proof (intro allI conjI)
    fix basura
    show "ls57_main (\<lambda>n. if n = ''.'' then Inr dir_ejemplo else Inl 2) (\<lambda>_. \<lparr>st_mode = 0x81A4, st_size = 57\<rparr>) [''ls57''] =
        (0, ''src'' @ [CHR 0x0A] @ ''a.c'' @ [CHR 0x09] @ ''57'' @ [CHR 0x0A] @ ''b.c'' @ [CHR 0x09] @ ''57'' @ [CHR 0x0A])"
      by (subst ls57_main_lista [where dir = dir_ejemplo, THEN conjunct1]) (simp_all add: defs)
    let ?dir = "dir_ejemplo\<lparr>entradas := take 3 (entradas dir_ejemplo)\<rparr>"
    show "ls57_main (\<lambda>n. if n = ''d'' then Inr ?dir else Inl 2) basura [''ls57'', ''d''] =
        (0, ''src'' @ [CHR 0x0A] @ ''a.c'' @ [CHR 0x09] @ ''57'' @ [CHR 0x0A])"
      by (subst ls57_main_lista [where dir = ?dir, THEN conjunct2, rule_format]) (simp_all add: defs)
  qed
qed

end
