(* ===== verification/Cachesim_Traza.thy ===== *)
theory Cachesim_Traza
  imports Decimal
begin

text \<open>
  The trace file of the cache simulator: what its \<^verbatim>\<open>fscanf\<close> does to the characters of the file, the
  sequence of the values of the variable \<^verbatim>\<open>traza\<close> in the simulation loops, and the text of a trace.
\<close>

record traza_t =
  instruction_pointer :: u32
  direccion_accedida :: u32
  datos_leidos :: u32
  instruccion :: char
  cant_de_bytes :: int

subsection \<open>The conversions of \<^verbatim>\<open>fscanf\<close>\<close>

text \<open>
  The outcome of a conversion: the file has ended, no match (with the text that is left), or a value.
  \<open>scan_base b\<close> reads an integer as \<^verbatim>\<open>strtol\<close> does with base \<open>b\<close>, which is 16 for \<open>%x\<close> and 0 for
  \<open>%i\<close>: both take the prefix \<open>0x\<close>, base 0 also octal numbers.
\<close>

datatype conv = Fin | No string | Si int string

fun prefijo_hexa :: "string \<Rightarrow> bool \<times> string" where
  "prefijo_hexa (c # x # cs) =
     (if c = CHR ''0'' \<and> (x = CHR ''x'' \<or> x = CHR ''X'') then (True, cs) else (False, c # x # cs))"
| "prefijo_hexa cs = (False, cs)"

definition scan_base :: "int \<Rightarrow> string \<Rightarrow> conv" where
  "scan_base b s =
     (let t = dropWhile is_space s
      in if t = [] then Fin
         else case parse_sign t of (sg, t) \<Rightarrow>
           (case prefijo_hexa t of (hexa, t) \<Rightarrow>
              let b = (if hexa then 16 else if b \<noteq> 0 then b else if take 1 t = ''0'' then 8 else 10);
                  r = dropWhile (\<lambda>c. valor_hex c < b) t
              in if takeWhile (\<lambda>c. valor_hex c < b) t = [] then No r else Si (sg * valor_base b t) r))"

text \<open>A number that does not fit the variable has no defined result.\<close>

definition cabe_u32 :: "int \<Rightarrow> bool" where
  "cabe_u32 v \<longleftrightarrow> \<bar>v\<bar> < 2 ^ 32"

subsection \<open>One call of \<^verbatim>\<open>fscanf\<close>\<close>

text \<open>
  The format is \<open>"%x: %c %x %i %x\n"\<close>. The result says whether the call returns \<^verbatim>\<open>EOF\<close>, which it does only when
  the file ends before the first conversion; a failure later leaves the other fields as they were. A
  space in the format passes over white space, the colon has to come at once.
\<close>

definition leer_datos :: "string \<Rightarrow> traza_t \<Rightarrow> (bool \<times> traza_t \<times> string) option" where
  "leer_datos s v =
     (case scan_base 16 s of
        Fin \<Rightarrow> Some (False, v, [])
      | No t \<Rightarrow> Some (False, v, t)
      | Si x t \<Rightarrow>
          if cabe_u32 x then Some (False, v\<lparr>datos_leidos := word_of_int x\<rparr>, dropWhile is_space t) else None)"

definition leer_cantidad :: "string \<Rightarrow> traza_t \<Rightarrow> (bool \<times> traza_t \<times> string) option" where
  "leer_cantidad s v =
     (case scan_base 0 s of
        Fin \<Rightarrow> Some (False, v, [])
      | No t \<Rightarrow> Some (False, v, t)
      | Si x t \<Rightarrow> if in_int x then leer_datos t (v\<lparr>cant_de_bytes := x\<rparr>) else None)"

definition leer_direccion :: "string \<Rightarrow> traza_t \<Rightarrow> (bool \<times> traza_t \<times> string) option" where
  "leer_direccion s v =
     (case scan_base 16 s of
        Fin \<Rightarrow> Some (False, v, [])
      | No t \<Rightarrow> Some (False, v, t)
      | Si x t \<Rightarrow> if cabe_u32 x then leer_cantidad t (v\<lparr>direccion_accedida := word_of_int x\<rparr>) else None)"

definition leer_instruccion :: "string \<Rightarrow> traza_t \<Rightarrow> (bool \<times> traza_t \<times> string) option" where
  "leer_instruccion s v =
     (case s of
        [] \<Rightarrow> Some (False, v, [])
      | c # t \<Rightarrow>
          if c \<noteq> CHR '':'' then Some (False, v, s)
          else (case dropWhile is_space t of
                  [] \<Rightarrow> Some (False, v, [])
                | i # t \<Rightarrow> leer_direccion t (v\<lparr>instruccion := i\<rparr>)))"

definition leer_traza :: "string \<Rightarrow> traza_t \<Rightarrow> (bool \<times> traza_t \<times> string) option" where
  "leer_traza s v =
     (case scan_base 16 s of
        Fin \<Rightarrow> Some (True, v, [])
      | No t \<Rightarrow> Some (False, v, t)
      | Si x t \<Rightarrow> if cabe_u32 x then leer_instruccion t (v\<lparr>instruction_pointer := word_of_int x\<rparr>) else None)"

text \<open>
  The values \<^verbatim>\<open>traza\<close> has in the iterations of a simulation loop, up to the call that returns \<^verbatim>\<open>EOF\<close>;
  \<open>v\<close> is what it holds at the start. The loop that does not end has no value.
\<close>

partial_function (option) leer_trazas :: "string \<Rightarrow> traza_t \<Rightarrow> traza_t list option" where
  "leer_trazas s v = do {
     r \<leftarrow> leer_traza s v;
     if fst r then Some []
     else do {
       ts \<leftarrow> leer_trazas (snd (snd r)) (fst (snd r));
       Some (fst (snd r) # ts)}}"

subsection \<open>The text of a trace\<close>

definition digito_hexa :: "nat \<Rightarrow> char" where
  "digito_hexa n = (if n < 10 then char_of (48 + n) else char_of (87 + n))"

fun hexa :: "nat \<Rightarrow> string" where
  "hexa n = (if n < 16 then [digito_hexa n] else hexa (n div 16) @ [digito_hexa (n mod 16)])"

declare hexa.simps [simp del]

text \<open>One line; the numbers in hexadecimal may be written with the prefix \<open>0x\<close> or without it.\<close>

definition linea_texto :: "string \<Rightarrow> traza_t \<Rightarrow> string" where
  "linea_texto pre t =
     pre @ hexa (unat (instruction_pointer t)) @ '': '' @ [instruccion t] @ '' '' @
     pre @ hexa (unat (direccion_accedida t)) @ '' '' @ texto_int (cant_de_bytes t) @ '' '' @
     pre @ hexa (unat (datos_leidos t)) @ [CHR 0x0A]"

definition texto_trazas :: "string \<Rightarrow> traza_t list \<Rightarrow> string" where
  "texto_trazas pre ts = concat (map (linea_texto pre) ts)"

definition traza_escribible :: "traza_t \<Rightarrow> bool" where
  "traza_escribible t \<longleftrightarrow> \<not> is_space (instruccion t) \<and> in_int (cant_de_bytes t)"

subsection \<open>Reading back a number\<close>

lemma digito_hexa_valor: "n < 16 \<Longrightarrow> valor_hex (digito_hexa n) = int n"
  using of_nat_of_char [where ?'a = int, of "char_of (48 + n)"] of_nat_of_char [where ?'a = int, of "char_of (87 + n)"]
  by (auto simp: valor_hex_def digito_hexa_def)

lemma hexa_digitos: "c \<in> set (hexa n) \<Longrightarrow> valor_hex c < 16"
proof (induction n rule: hexa.induct)
  case (1 n)
  then show ?case by (subst (asm) (2) hexa.simps) (auto simp: digito_hexa_valor split: if_splits)
qed

lemma hexa_no_vacio [simp]: "hexa n \<noteq> []"
  by (subst hexa.simps) simp

lemma hexa_valor: "foldl (\<lambda>v c. 16 * v + valor_hex c) 0 (hexa n) = int n"
proof (induction n rule: hexa.induct)
  case (1 n)
  show ?case
  proof (cases "n < 16")
    case True
    then show ?thesis by (simp add: hexa.simps [of n] digito_hexa_valor)
  next
    case False
    then have "foldl (\<lambda>v c. 16 * v + valor_hex c) 0 (hexa n) = 16 * int (n div 16) + int (n mod 16)"
      using 1 by (simp add: hexa.simps [of n] digito_hexa_valor)
    also have "\<dots> = int n" using div_mult_mod_eq [of n 16] by linarith
    finally show ?thesis .
  qed
qed

lemma valor_hex_limpio: "valor_hex c < 16 \<Longrightarrow> \<not> is_space c \<and> c \<notin> {CHR ''-'', CHR ''+'', CHR ''x'', CHR ''X''}"
  by (auto simp: valor_hex_def is_space_def Let_def)

lemma prefijo_hexa_no:
  "\<forall>c\<in>set (take 2 t). c \<noteq> CHR ''x'' \<and> c \<noteq> CHR ''X'' \<Longrightarrow> prefijo_hexa t = (False, t)"
  by (cases t rule: prefijo_hexa.cases) auto

lemma valor_base_todo:
  assumes "\<forall>c\<in>set ds. valor_hex c < b" "\<not> valor_hex c < b"
  shows "takeWhile (\<lambda>c. valor_hex c < b) (ds @ c # r) = ds" "dropWhile (\<lambda>c. valor_hex c < b) (ds @ c # r) = c # r"
    "valor_base b (ds @ c # r) = foldl (\<lambda>v c. b * v + valor_hex c) 0 ds"
  using assms by (simp_all add: valor_base_def takeWhile_append2 dropWhile_append2)

text \<open>A number after white space \<open>w\<close> and before a character \<open>c\<close> that is no digit in any base.\<close>

lemma scan_base_16:
  assumes "pre = [] \<or> pre = ''0x''" "list_all is_space w" "16 \<le> valor_hex c" "c \<noteq> CHR ''x''" "c \<noteq> CHR ''X''"
  shows "scan_base 16 (w @ pre @ hexa n @ c # r) = Si (int n) (c # r)"
proof -
  obtain d ds where d: "hexa n = d # ds" by (cases "hexa n") simp_all
  have h: "\<forall>c\<in>set (hexa n). valor_hex c < 16" using hexa_digitos by blast
  then have l: "\<not> is_space d" "d \<noteq> CHR ''-''" "d \<noteq> CHR ''+''" using d valor_hex_limpio by auto
  have v: "takeWhile (\<lambda>c. valor_hex c < 16) (hexa n @ c # r) = hexa n"
    "dropWhile (\<lambda>c. valor_hex c < 16) (hexa n @ c # r) = c # r" "valor_base 16 (hexa n @ c # r) = int n"
    using valor_base_todo [of "hexa n" 16 c r] h assms(3) by (simp_all add: hexa_valor)
  have s: "dropWhile is_space (w @ pre @ hexa n @ c # r) = pre @ hexa n @ c # r"
    using assms(1)
  proof
    assume "pre = ''0x''"
    then show ?thesis using assms(2) by (simp add: dropWhile_append2 list_all_iff) (simp add: is_space_def)
  qed (use assms(2) l(1) d in \<open>simp add: dropWhile_append2 list_all_iff\<close>)
  have g: "parse_sign (pre @ hexa n @ c # r) = (1, pre @ hexa n @ c # r)"
    using assms(1) l d by (elim disjE) simp_all
  have p: "prefijo_hexa (pre @ hexa n @ c # r) = (pre \<noteq> [], hexa n @ c # r)"
  proof (cases "pre = []")
    case True
    have "\<forall>c\<in>set (take 2 (hexa n @ c # r)). c \<noteq> CHR ''x'' \<and> c \<noteq> CHR ''X''"
      using d h assms(4,5) valor_hex_limpio by (cases ds) auto
    then show ?thesis using True by (simp add: prefijo_hexa_no)
  qed (use assms(1) in simp)
  show ?thesis by (simp add: scan_base_def s g p v Let_def)
qed

lemma decimal_0: "decimal 0 = ''0''"
  by (simp add: decimal.simps char_of_eq_iff take_bit_eq_mod)

lemma scan_base_0:
  assumes "list_all is_space w" "16 \<le> valor_hex c" "c \<noteq> CHR ''x''" "c \<noteq> CHR ''X''"
  shows "scan_base 0 (w @ texto_int z @ c # r) = Si z (c # r)"
proof -
  let ?n = "nat \<bar>z\<bar>"
  obtain d ds where d: "decimal ?n = d # ds" by (cases "decimal ?n") (simp_all add: decimal_no_vacio)
  have h: "\<forall>c\<in>set (decimal ?n). is_digit c" using decimal_digitos [of ?n] by (simp add: list_all_iff)
  then have l: "\<not> is_space d" "d \<noteq> CHR ''-''" "d \<noteq> CHR ''+''" using d digito_no_espacio by auto
  define b :: int where "b = (if d = CHR ''0'' then 8 else 10)"
  have b: "\<forall>c\<in>set (decimal ?n). valor_hex c < b" "\<not> valor_hex c < b"
  proof -
    show "\<not> valor_hex c < b" using assms(2) by (simp add: b_def)
    show "\<forall>c\<in>set (decimal ?n). valor_hex c < b"
    proof (cases "d = CHR ''0''")
      case True
      then have "?n = 0" using decimal_cero [of ?n] d by (cases "?n = 0") simp_all
      then show ?thesis using True by (simp add: decimal_0 valor_hex_def b_def)
    qed (use h valor_hex_digito in \<open>force simp: b_def\<close>)
  qed
  have "foldl (\<lambda>v c. b * v + valor_hex c) 0 (decimal ?n) = int ?n"
  proof (cases "d = CHR ''0''")
    case True
    then have "?n = 0" using decimal_cero [of ?n] d by (cases "?n = 0") simp_all
    then show ?thesis by (simp add: decimal_0 valor_hex_def)
  next
    case False
    have "foldl (\<lambda>v c. b * v + valor_hex c) 0 (decimal ?n) = foldl (\<lambda>v c. 10 * v + digit_value c) 0 (decimal ?n)"
      using h False by (intro foldl_cong) (simp_all add: valor_hex_digito b_def)
    then show ?thesis by (simp add: decimal_valor)
  qed
  then have v: "takeWhile (\<lambda>c. valor_hex c < b) (decimal ?n @ c # r) = decimal ?n"
    "dropWhile (\<lambda>c. valor_hex c < b) (decimal ?n @ c # r) = c # r" "valor_base b (decimal ?n @ c # r) = \<bar>z\<bar>"
    using valor_base_todo [OF b] by simp_all
  have s: "dropWhile is_space (w @ texto_int z @ c # r) = texto_int z @ c # r"
    using assms(1) l(1) d by (cases "z < 0") (simp_all add: texto_int_def dropWhile_append2 list_all_iff is_space_def)
  have g: "parse_sign (texto_int z @ c # r) = (if z < 0 then - 1 else 1, decimal ?n @ c # r)"
    using l d by (cases "z < 0") (simp_all add: texto_int_def)
  have "\<forall>c\<in>set (take 2 (decimal ?n @ c # r)). c \<noteq> CHR ''x'' \<and> c \<noteq> CHR ''X''"
  proof -
    have "valor_hex x < 16" if "x \<in> set (decimal ?n)" for x using h valor_hex_digito [of x] that by force
    then show ?thesis using d assms(3,4) valor_hex_limpio by (cases ds) auto
  qed
  then have p: "prefijo_hexa (decimal ?n @ c # r) = (False, decimal ?n @ c # r)" by (rule prefijo_hexa_no)
  have t: "(if False then 16 else if (0::int) \<noteq> 0 then 0 else if take 1 (decimal ?n @ c # r) = ''0'' then 8 else 10) = b"
    using d by (simp add: b_def)
  have n: "\<not> texto_int z @ c # r = []" "\<not> decimal ?n = []" by (simp_all add: decimal_no_vacio)
  have "scan_base 0 (w @ texto_int z @ c # r) = Si ((if z < 0 then - 1 else 1) * \<bar>z\<bar>) (c # r)"
    by (simp only: scan_base_def Let_def s g prod.case p t if_not_P [OF n(1)] v if_not_P [OF n(2)])
  then show ?thesis by (simp split: if_splits)
qed

subsection \<open>Reading back a trace\<close>

lemma cabe_u32_unat [simp]: "cabe_u32 (uint x)" for x :: u32
proof -
  have "uint x < 2 ^ 32" using uint_bounded [of x] by simp
  then show ?thesis by (simp add: cabe_u32_def)
qed

lemma fines [simp]: "16 \<le> valor_hex CHR '' ''" "16 \<le> valor_hex CHR '':''" "16 \<le> valor_hex CHR 0x0A"
  "is_space CHR '' ''" "is_space CHR 0x0A" "\<not> is_space CHR '':''"
  by (simp_all add: valor_hex_def is_space_def)

lemma leer_traza_linea:
  assumes "pre = [] \<or> pre = ''0x''" "traza_escribible t"
  shows "leer_traza (linea_texto pre t @ r) v = Some (False, t, dropWhile is_space r)"
proof -
  have x: "scan_base 16 (pre @ hexa n @ c # r) = Si (int n) (c # r)"
    "scan_base 16 (CHR '' '' # pre @ hexa n @ c # r) = Si (int n) (c # r)"
    if "c = CHR '':'' \<or> c = CHR '' '' \<or> c = CHR 0x0A" for n c r
    using scan_base_16 [OF assms(1), of "[]" c n r] scan_base_16 [OF assms(1), of "[CHR '' '']" c n r] that
    by auto
  have i: "scan_base 0 (CHR '' '' # texto_int z @ CHR '' '' # r) = Si z (CHR '' '' # r)" for z r
    using scan_base_0 [of "[CHR '' '']" "CHR '' ''" z r] by simp
  show ?thesis using assms(2)
    by (simp add: linea_texto_def leer_traza_def leer_instruccion_def leer_direccion_def leer_cantidad_def
      leer_datos_def x i traza_escribible_def)
qed

lemma texto_sin_espacio:
  assumes "pre = [] \<or> pre = ''0x''" "ts \<noteq> []"
  shows "texto_trazas pre ts \<noteq> []" "\<not> is_space (hd (texto_trazas pre ts))"
proof -
  obtain u us where u: "ts = u # us" using assms(2) by (cases ts) simp_all
  obtain d ds where d: "hexa (unat (instruction_pointer u)) = d # ds"
    by (cases "hexa (unat (instruction_pointer u))") simp_all
  then have "\<not> is_space d"
    using hexa_digitos [of d "unat (instruction_pointer u)"] valor_hex_limpio [of d] by simp
  then show "texto_trazas pre ts \<noteq> []" "\<not> is_space (hd (texto_trazas pre ts))"
    using assms(1) d by (auto simp: u texto_trazas_def linea_texto_def is_space_def)
qed

lemma leer_trazas_texto:
  assumes "pre = [] \<or> pre = ''0x''" "list_all traza_escribible ts"
  shows "leer_trazas (texto_trazas pre ts) v = Some ts"
  using assms(2)
proof (induction ts arbitrary: v)
  case Nil
  then show ?case by (subst leer_trazas.simps) (simp add: texto_trazas_def leer_traza_def scan_base_def)
next
  case (Cons t ts)
  have "dropWhile is_space (texto_trazas pre ts) = texto_trazas pre ts"
    using texto_sin_espacio [OF assms(1), of ts] by (cases "texto_trazas pre ts"; cases ts) (auto simp: texto_trazas_def)
  then have "leer_traza (texto_trazas pre (t # ts)) v = Some (False, t, texto_trazas pre ts)"
    using leer_traza_linea [OF assms(1), of t "texto_trazas pre ts" v] Cons.prems by (simp add: texto_trazas_def)
  then show ?case using Cons by (subst leer_trazas.simps) simp
qed

subsection \<open>A line that does not match\<close>

text \<open>A text at whose start the first conversion finds no number and no end of the file.\<close>

definition atascado :: "string \<Rightarrow> bool" where
  "atascado s \<longleftrightarrow> (case dropWhile is_space s of
     [] \<Rightarrow> False
   | c # _ \<Rightarrow> 16 \<le> valor_hex c \<and> c \<noteq> CHR ''-'' \<and> c \<noteq> CHR ''+'')"

lemma leer_traza_atascado:
  assumes "atascado s"
  shows "leer_traza s v = Some (False, v, dropWhile is_space s)" "atascado (dropWhile is_space s)"
proof -
  obtain c t where c: "dropWhile is_space s = c # t" "16 \<le> valor_hex c" "c \<noteq> CHR ''-''" "c \<noteq> CHR ''+''"
    using assms by (auto simp: atascado_def split: list.splits)
  then have "c \<noteq> CHR ''0''" "\<not> is_space c" using hd_dropWhile [of is_space s] by (auto simp: valor_hex_def)
  then show "leer_traza s v = Some (False, v, dropWhile is_space s)" "atascado (dropWhile is_space s)"
    using c by (cases t; simp add: leer_traza_def scan_base_def Let_def atascado_def)+
qed

lemma leer_trazas_atascado:
  assumes "atascado s"
  shows "leer_trazas s v = None"
proof (rule ccontr)
  assume "leer_trazas s v \<noteq> None"
  then obtain ts where "leer_trazas s v = Some ts" by blast
  then have "\<not> atascado s"
    by (rule leer_trazas.raw_induct [rotated])
      (auto simp: leer_traza_atascado(1) split: bind_splits if_splits, metis leer_traza_atascado(2))
  then show False using assms by blast
qed

text \<open>The same after any number of good lines.\<close>

lemma leer_trazas_mala:
  assumes "pre = [] \<or> pre = ''0x''" "list_all traza_escribible ts" "atascado s"
  shows "leer_trazas (texto_trazas pre ts @ s) v = None"
  using assms(2)
proof (induction ts arbitrary: v)
  case Nil
  then show ?case using assms(3) by (simp add: texto_trazas_def leer_trazas_atascado)
next
  case (Cons t ts)
  have t: "leer_traza (texto_trazas pre (t # ts) @ s) v = Some (False, t, dropWhile is_space (texto_trazas pre ts @ s))"
    using leer_traza_linea [OF assms(1), of t "texto_trazas pre ts @ s" v] Cons.prems by (simp add: texto_trazas_def)
  have "leer_trazas (dropWhile is_space (texto_trazas pre ts @ s)) t = None"
  proof (cases "ts = []")
    case True
    then show ?thesis using leer_trazas_atascado [OF leer_traza_atascado(2) [OF assms(3)]] by (simp add: texto_trazas_def)
  next
    case False
    then have "texto_trazas pre ts \<noteq> []" "\<not> is_space (hd (texto_trazas pre ts))"
      using texto_sin_espacio [OF assms(1)] by blast+
    then have "dropWhile is_space (texto_trazas pre ts @ s) = texto_trazas pre ts @ s"
      by (cases "texto_trazas pre ts") simp_all
    then show ?thesis using Cons by simp
  qed
  then show ?case by (subst leer_trazas.simps) (simp add: t)
qed

end
