(* ===== verification/Cachesim.thy ===== *)
theory Cachesim
  imports Cachesim_Traza
begin

text \<open>
  \<^verbatim>\<open>Labs grupales/cachesim/alpha4.0.c\<close>: a simulator of a set-associative write-back cache
  with LRU replacement. Names follow the source. Tags, cycle counts and metrics are plain
  integers (their bounds are lemmas), an address is a 32-bit word, the arrays \<^verbatim>\<open>sets\<close> and
  \<^verbatim>\<open>lineas\<close> are lists, and an index outside \<^verbatim>\<open>sets\<close> has no result. The simulation
  loops run over the list of the values that the calls of \<^verbatim>\<open>fscanf\<close> give the variable \<^verbatim>\<open>traza\<close>, which
  \<open>leer_trazas\<close> computes from the text of the file; printed lines are the lists of the arguments
  of \<^verbatim>\<open>printf\<close>.
\<close>

unbundle bit_operations_syntax

definition ERROR :: int where "ERROR = - 1"
definition ERROR_ARCHIVO :: int where "ERROR_ARCHIVO = - 2"
definition LECTURA :: char where "LECTURA = CHR ''R''"
definition MISS_PENALTY :: int where "MISS_PENALTY = 100"
definition DESALOJO_LIMPIO :: int where "DESALOJO_LIMPIO = 1"
definition DESALOJO_DIRTY_BIT :: int where "DESALOJO_DIRTY_BIT = 2"
definition VERBOSO_HIT :: int where "VERBOSO_HIT = 1"
definition VERBOSO_MISS_CLEAN :: string where "VERBOSO_MISS_CLEAN = ''2a''"
definition VERBOSO_MISS_DIRTY :: string where "VERBOSO_MISS_DIRTY = ''2b''"

record modo_verboso_t =
  operacion_actual :: int
  num_operacion :: int
  set_operado :: int
  tag_operado :: int
  linea_operada :: int
  tag_anterior :: int
  v_bit_validez :: bool
  v_dirty_bit :: bool
  v_ultima_operacion :: int
  mapeo_directo :: bool

record linea_t =
  tag :: int
  num_linea :: int
  dirty_bit :: bool
  valido :: bool
  ultimo_ciclo_usado :: int
  ultima_operacion :: int

record set_t =
  lineas :: "linea_t list"
  lineas_por_set :: nat
  lineas_ocupadas :: int

record metricas_t =
  lecturas :: int
  escrituras :: int
  total_accesos :: int
  misses_read :: int
  misses_write :: int
  total_misses :: int
  dirty_read_miss :: int
  dirty_write_miss :: int
  bytes_read :: int
  bytes_written :: int
  ciclos_lecturas :: int
  ciclos_escrituras :: int
  miss_rate :: "int \<times> int" \<comment> \<open>a \<^verbatim>\<open>double\<close>: the two integers whose quotient it is\<close>

record cache_t =
  metricas :: metricas_t
  sets :: "set_t list"
  cantidad_sets :: int
  tamanio_bloque :: int
  tamanio_cache :: int
  ciclos :: int

text \<open>An argument of \<^verbatim>\<open>printf\<close>: decimal, hexadecimal, a string, or the quotient of two numbers.\<close>

datatype arg = I int | X int | S string | D int int

type_synonym salida = "arg list list"

subsection \<open>Memory\<close>

text \<open>
  \<^verbatim>\<open>calloc\<close> may fail: \<open>ok k\<close> tells whether its call number \<open>k\<close> succeeds. The model counts
  the calls made and the blocks that are allocated and not yet freed. A pointer that is
  \<^verbatim>\<open>NULL\<close> is an empty array, and freeing it does nothing.
\<close>

record memoria =
  llamadas :: nat
  bloques :: int

definition calloc :: "(nat \<Rightarrow> bool) \<Rightarrow> memoria \<Rightarrow> bool \<times> memoria" where
  "calloc ok m =
     (ok (llamadas m),
      m\<lparr>llamadas := llamadas m + 1,
        bloques := bloques m + (if ok (llamadas m) then 1 else 0)\<rparr>)"

definition free :: "memoria \<Rightarrow> memoria" where
  "free m = m\<lparr>bloques := bloques m - 1\<rparr>"

definition free_lineas :: "set_t \<Rightarrow> memoria \<Rightarrow> memoria" where
  "free_lineas s m = (if lineas s = [] then m else free m)"

definition linea_cero :: linea_t where
  "linea_cero = \<lparr>tag = 0, num_linea = 0, dirty_bit = False, valido = False,
     ultimo_ciclo_usado = 0, ultima_operacion = 0\<rparr>"

definition set_cero :: set_t where
  "set_cero = \<lparr>lineas = [], lineas_por_set = 0, lineas_ocupadas = 0\<rparr>"

definition metricas_cero :: metricas_t where
  "metricas_cero = \<lparr>lecturas = 0, escrituras = 0, total_accesos = 0, misses_read = 0,
     misses_write = 0, total_misses = 0, dirty_read_miss = 0, dirty_write_miss = 0,
     bytes_read = 0, bytes_written = 0, ciclos_lecturas = 0, ciclos_escrituras = 0,
     miss_rate = (0, 1)\<rparr>"

text \<open>The array of lines of one set, as allocated and numbered by \<^verbatim>\<open>crear_sets\<close>.\<close>

definition lineas_nuevas :: "nat \<Rightarrow> linea_t list" where
  "lineas_nuevas asociatividad_cache =
     (if asociatividad_cache > 1
      then map (\<lambda>j. linea_cero\<lparr>num_linea := int j\<rparr>) [0..<asociatividad_cache]
      else replicate asociatividad_cache linea_cero)"

text \<open>The loop that allocates the lines of set \<open>i\<close> and the following ones; it stops where one fails.\<close>

function llenar_sets ::
    "(nat \<Rightarrow> bool) \<Rightarrow> nat \<Rightarrow> nat \<Rightarrow> set_t list \<Rightarrow> memoria \<Rightarrow> bool \<times> nat \<times> set_t list \<times> memoria" where
  "llenar_sets ok asociatividad_cache i ss m =
     (if i < length ss then
        (case calloc ok m of (p, m') \<Rightarrow>
           if \<not> p then (False, i, ss, m')
           else llenar_sets ok asociatividad_cache (Suc i)
                  (ss[i := (ss ! i)\<lparr>lineas := lineas_nuevas asociatividad_cache\<rparr>]) m')
      else (True, i, ss, m))"
  by pat_completeness auto
termination
  by (relation "measure (\<lambda>(ok, a, i, ss, m). length ss - i)") auto

declare llenar_sets.simps [simp del]

primrec liberar_hasta :: "set_t list \<Rightarrow> nat \<Rightarrow> memoria \<Rightarrow> memoria" where
  "liberar_hasta ss 0 m = free_lineas (ss ! 0) m"
| "liberar_hasta ss (Suc i) m = liberar_hasta ss i (free_lineas (ss ! Suc i) m)"

definition crear_sets :: "(nat \<Rightarrow> bool) \<Rightarrow> nat \<Rightarrow> nat \<Rightarrow> memoria \<Rightarrow> set_t list option \<times> memoria" where
  "crear_sets ok asociatividad_cache numero_sets_cache m =
     (case calloc ok m of (p, m) \<Rightarrow>
        if p then
          (let ss = replicate numero_sets_cache (set_cero\<lparr>lineas_por_set := asociatividad_cache\<rparr>)
           in case llenar_sets ok asociatividad_cache 0 ss m of (funciona, i, ss, m) \<Rightarrow>
                if funciona then (Some ss, m)
                else (None, free (liberar_hasta ss i m)))
        else (None, m))"

text \<open>
  The outer option is the division: an undefined product, or the trap of a division by zero.
  The inner one is the pointer returned.
\<close>

definition crear_cache ::
    "(nat \<Rightarrow> bool) \<Rightarrow> int \<Rightarrow> int \<Rightarrow> int \<Rightarrow> memoria \<Rightarrow> (cache_t option \<times> memoria) option" where
  "crear_cache ok tamanio asociatividad_cache numero_sets_cache m =
     (case calloc ok m of (p, m) \<Rightarrow>
        if p then do {
          prod \<leftarrow> c_mul asociatividad_cache numero_sets_cache;
          if prod = 0 then None
          else
            (case crear_sets ok (nat asociatividad_cache) (nat numero_sets_cache) m of
               (None, m) \<Rightarrow> Some (None, m)
             | (Some ss, m) \<Rightarrow>
                 Some (Some \<lparr>metricas = metricas_cero, sets = ss, cantidad_sets = numero_sets_cache,
                   tamanio_bloque = to_int32 (c_quot tamanio prod), tamanio_cache = tamanio,
                   ciclos = 0\<rparr>, m))
        } else Some (None, m))"

definition cache_destruir :: "cache_t \<Rightarrow> memoria \<Rightarrow> memoria" where
  "cache_destruir c m =
     free (free (fold free_lineas (take (nat (cantidad_sets c)) (sets c)) m))"

subsection \<open>Checking the parameters\<close>

text \<open>\<^verbatim>\<open>(long) pow(2, i)\<close> is exact for the exponents the loop reaches.\<close>

function potencia_loop :: "int \<Rightarrow> int \<Rightarrow> nat \<Rightarrow> int" where
  "potencia_loop numero potencia i =
     (if potencia < numero then potencia_loop numero (2 ^ i) (i + 1) else potencia)"
  by pat_completeness auto
termination
proof (relation "measure (\<lambda>(n, p, i). if p < n then nat (n - int i) + 1 else 0)")
  fix numero potencia :: int and i :: nat
  assume "potencia < numero"
  moreover have "int i < numero" if "2 ^ i < numero"
  proof -
    have "int i < 2 ^ i" by simp
    then show ?thesis using that by linarith
  qed
  ultimately show "((numero, 2 ^ i, i + 1), numero, potencia, i)
      \<in> measure (\<lambda>(n, p, i). if p < n then nat (n - int i) + 1 else 0)"
    by auto
qed simp

declare potencia_loop.simps [simp del]

definition es_potencia_de_dos :: "int \<Rightarrow> bool" where
  "es_potencia_de_dos numero \<longleftrightarrow> potencia_loop numero 0 0 = numero"

definition son_potencias_de_dos :: "int \<Rightarrow> int \<Rightarrow> int \<Rightarrow> bool" where
  "son_potencias_de_dos tamanio asociatividad_cache numero_sets_cache \<longleftrightarrow>
     es_potencia_de_dos (to_int32 tamanio) \<and> es_potencia_de_dos asociatividad_cache \<and>
     es_potencia_de_dos numero_sets_cache"

definition combinacion_correcta :: "int \<Rightarrow> int \<Rightarrow> int \<Rightarrow> bool option" where
  "combinacion_correcta tamanio asociatividad_cache numero_sets_cache = do {
     prod \<leftarrow> c_mul asociatividad_cache numero_sets_cache;
     bloque \<leftarrow> c_div tamanio prod;
     parcial \<leftarrow> c_mul bloque asociatividad_cache;
     chequeo_cache \<leftarrow> c_mul parcial numero_sets_cache;
     Some (tamanio = chequeo_cache)
   }"

subsection \<open>Splitting an address\<close>

text \<open>
  \<^verbatim>\<open>(int) log2((double) x)\<close> of an \<^verbatim>\<open>int\<close>: the floor of the logarithm, undefined (the conversion
  of an infinity or a NaN) when \<open>x\<close> is not positive.
\<close>

fun ilog2 :: "nat \<Rightarrow> nat" where
  "ilog2 n = (if n \<le> 1 then 0 else Suc (ilog2 (n div 2)))"

declare ilog2.simps [simp del]

definition log2_int :: "int \<Rightarrow> nat option" where
  "log2_int x = (if x > 0 then Some (ilog2 (nat x)) else None)"

text \<open>
  The result is \<^verbatim>\<open>*set\<close> and \<^verbatim>\<open>*tag\<close>. With 32 or more bits of set and offset the shifts by
  \<^verbatim>\<open>bits_tag - 1\<close> and by \<^verbatim>\<open>bits_set + bits_offset\<close> are undefined.
\<close>

definition calcular_set_y_tag :: "cache_t \<Rightarrow> u32 \<Rightarrow> int \<Rightarrow> (int \<times> int) option" where
  "calcular_set_y_tag c direccion bloque = do {
     bits_set \<leftarrow> log2_int (cantidad_sets c);
     bits_offset \<leftarrow> log2_int bloque;
     if bits_set + bits_offset \<ge> 32 then None
     else
       (let bits_tag = 32 - (bits_set + bits_offset);
            mascara_tag = signed_drop_bit (bits_tag - 1) (push_bit 31 (1 :: u32));
            mascara_offset = NOT (push_bit bits_offset (push_bit 31 (1 :: u32) XOR NOT 0));
            mascara_set = drop_bit bits_offset (NOT (mascara_tag OR mascara_offset))
        in Some (sint (drop_bit bits_offset direccion AND mascara_set),
                 sint (drop_bit (bits_set + bits_offset) direccion)))
   }"

subsection \<open>Lines of a set\<close>

text \<open>
  The loop shared by the searches of the source: the first index from \<open>i\<close> on whose line
  satisfies the test, and \<open>lineas_por_set\<close> when there is none.
\<close>

function buscar_desde :: "(linea_t \<Rightarrow> bool) \<Rightarrow> set_t \<Rightarrow> nat \<Rightarrow> nat" where
  "buscar_desde P s i =
     (if i < lineas_por_set s \<and> \<not> P (lineas s ! i) then buscar_desde P s (Suc i) else i)"
  by pat_completeness auto
termination
  by (relation "measure (\<lambda>(P, s, i). lineas_por_set s - i)") auto

declare buscar_desde.simps [simp del]

abbreviation modificar :: "set_t \<Rightarrow> nat \<Rightarrow> (linea_t \<Rightarrow> linea_t) \<Rightarrow> set_t" where
  "modificar s i f \<equiv> s\<lparr>lineas := (lineas s)[i := f (lineas s ! i)]\<rparr>"

definition leer_set :: "set_t \<Rightarrow> int \<Rightarrow> int" where
  "leer_set s tag_buscado =
     (let i = buscar_desde (\<lambda>l. valido l \<and> tag l = tag_buscado) s 0
      in if i < lineas_por_set s then int i else ERROR)"

definition actualizar_ciclos_lectura :: "set_t \<Rightarrow> int \<Rightarrow> int \<Rightarrow> set_t" where
  "actualizar_ciclos_lectura s tg ahora =
     (let i = buscar_desde (\<lambda>l. tag l = tg) s 0
      in if i < lineas_por_set s
         then modificar s i (\<lambda>l. l\<lparr>ultimo_ciclo_usado := ahora + 1, valido := True\<rparr>)
         else s)"

definition linea_no_valida :: "set_t \<Rightarrow> nat option" where
  "linea_no_valida s =
     (let i = buscar_desde (\<lambda>l. \<not> valido l) s 0
      in if i < lineas_por_set s then Some i else None)"

definition cargar_linea :: "linea_t \<Rightarrow> int \<Rightarrow> int \<Rightarrow> char \<Rightarrow> linea_t" where
  "cargar_linea l tg ahora instr =
     (let l = l\<lparr>valido := True, tag := tg, ultimo_ciclo_usado := ahora + MISS_PENALTY + 1\<rparr>
      in if dirty_bit l \<and> instr \<noteq> LECTURA
         then l\<lparr>ultimo_ciclo_usado := ultimo_ciclo_usado l + MISS_PENALTY\<rparr>
         else if \<not> dirty_bit l \<and> instr \<noteq> LECTURA then l\<lparr>dirty_bit := True\<rparr>
         else l\<lparr>dirty_bit := False\<rparr>)"

definition actualizar_ciclos_escritura :: "set_t \<Rightarrow> int \<Rightarrow> int \<Rightarrow> set_t" where
  "actualizar_ciclos_escritura s tg ahora =
     (let i = buscar_desde (\<lambda>l. tag l = tg) s 0
      in if i < lineas_por_set s
         then modificar s i (\<lambda>l. l\<lparr>ultimo_ciclo_usado := ahora + 1, dirty_bit := True, valido := True\<rparr>)
         else s)"

subsection \<open>Verbose output\<close>

definition c_flag :: "bool \<Rightarrow> arg" where
  "c_flag b = I (if b then 1 else 0)"

definition imprimir_hit :: "modo_verboso_t \<Rightarrow> int \<Rightarrow> int \<Rightarrow> int \<Rightarrow> linea_t \<Rightarrow> arg list" where
  "imprimir_hit v nset tg num l =
     (if \<not> mapeo_directo v then
        [I (operacion_actual v), I VERBOSO_HIT, X nset, X tg, I num, X tg, I 1,
         c_flag (dirty_bit l), I (ultima_operacion l)]
      else
        [I (operacion_actual v), I VERBOSO_HIT, X nset, X tg, I num, X tg, I 1,
         c_flag (dirty_bit l)])"

definition imprimir_miss_desalojo ::
    "modo_verboso_t \<Rightarrow> int \<Rightarrow> int \<Rightarrow> int \<Rightarrow> linea_t \<Rightarrow> string \<Rightarrow> arg list" where
  "imprimir_miss_desalojo v nset tg num l tipo_miss =
     (if \<not> mapeo_directo v then
        [I (operacion_actual v), S tipo_miss, X nset, X tg, I num, X (tag l), I 1,
         c_flag (dirty_bit l), I (ultima_operacion l)]
      else
        [I (operacion_actual v), S tipo_miss, X nset, X tg, I num, X (tag l), I 1,
         c_flag (dirty_bit l)])"

definition imprimir_miss_limpio :: "modo_verboso_t \<Rightarrow> int \<Rightarrow> int \<Rightarrow> int \<Rightarrow> arg list" where
  "imprimir_miss_limpio v nset tg linea =
     (if \<not> mapeo_directo v then
        [I (operacion_actual v), S ''2a'', X nset, X tg, I linea, I (- 1), I 0, I 0, I 0]
      else
        [I (operacion_actual v), S ''2a'', X nset, X tg, I linea, I (- 1), I 0, I 0])"

text \<open>\<^verbatim>\<open>linea.ultima_operacion = verboso->operacion_actual\<close>, when there is a verbose mode.\<close>

definition anotar :: "modo_verboso_t option \<Rightarrow> linea_t \<Rightarrow> linea_t" where
  "anotar verboso l =
     (case verboso of None \<Rightarrow> l | Some v \<Rightarrow> l\<lparr>ultima_operacion := operacion_actual v\<rparr>)"

definition imprimir :: "modo_verboso_t option \<Rightarrow> (modo_verboso_t \<Rightarrow> arg list) \<Rightarrow> salida" where
  "imprimir verboso f = (case verboso of None \<Rightarrow> [] | Some v \<Rightarrow> [f v])"

subsection \<open>One access\<close>

definition leer_cache ::
    "cache_t \<Rightarrow> u32 \<Rightarrow> modo_verboso_t option \<Rightarrow> (bool \<times> cache_t \<times> salida) option" where
  "leer_cache c direccion verboso = do {
     (nset, tg) \<leftarrow> calcular_set_y_tag c direccion (tamanio_bloque c);
     s \<leftarrow> elem (sets c) nset;
     let linea_buscada = leer_set s tg;
     if linea_buscada \<noteq> ERROR then do {
       l \<leftarrow> elem (lineas s) linea_buscada;
       let out = imprimir verboso (\<lambda>v. imprimir_hit v nset tg linea_buscada l);
       let s = modificar s (nat linea_buscada) (anotar verboso);
       let s = actualizar_ciclos_lectura s tg (ciclos c);
       Some (True, c\<lparr>sets := (sets c)[nat nset := s]\<rparr>, out)
     } else Some (False, c, [])
   }"

definition escribir_cache ::
    "cache_t \<Rightarrow> u32 \<Rightarrow> modo_verboso_t option \<Rightarrow> (bool \<times> cache_t \<times> salida) option" where
  "escribir_cache c direccion verboso = do {
     (nset, tg) \<leftarrow> calcular_set_y_tag c direccion (tamanio_bloque c);
     s \<leftarrow> elem (sets c) nset;
     let linea_buscada = leer_set s tg;
     if linea_buscada \<noteq> ERROR then do {
       l \<leftarrow> elem (lineas s) linea_buscada;
       let out = imprimir verboso (\<lambda>v. imprimir_hit v nset tg linea_buscada l);
       let s = modificar s (nat linea_buscada) (anotar verboso);
       let s = actualizar_ciclos_escritura s tg (ciclos c);
       Some (True, c\<lparr>sets := (sets c)[nat nset := s]\<rparr>, out)
     } else Some (False, c, [])
   }"

function buscar_desalojo :: "set_t \<Rightarrow> nat \<Rightarrow> nat \<Rightarrow> nat" where
  "buscar_desalojo s pos i =
     (if i < lineas_por_set s then
        buscar_desalojo s
          (if ultimo_ciclo_usado (lineas s ! pos) > ultimo_ciclo_usado (lineas s ! i) then i else pos)
          (Suc i)
      else pos)"
  by pat_completeness auto
termination
  by (relation "measure (\<lambda>(s, pos, i). lineas_por_set s - i)") auto

declare buscar_desalojo.simps [simp del]

definition desalojar_linea ::
    "int \<Rightarrow> set_t \<Rightarrow> int \<Rightarrow> char \<Rightarrow> modo_verboso_t option \<Rightarrow> int \<Rightarrow> int \<times> set_t \<times> salida" where
  "desalojar_linea ahora s tg instr verboso num_set =
     (let pos_desalojar = buscar_desalojo s 0 1;
          l = lineas s ! pos_desalojar
      in if dirty_bit l then
           (DESALOJO_DIRTY_BIT,
            modificar s pos_desalojar (\<lambda>l. cargar_linea (anotar verboso l) tg ahora instr),
            imprimir verboso (\<lambda>v. imprimir_miss_desalojo v num_set tg (int pos_desalojar) l VERBOSO_MISS_DIRTY))
         else
           (DESALOJO_LIMPIO,
            modificar s pos_desalojar (\<lambda>l. cargar_linea (anotar verboso l) tg ahora instr),
            imprimir verboso (\<lambda>v. imprimir_miss_desalojo v num_set tg (int pos_desalojar) l VERBOSO_MISS_CLEAN)))"

definition cargar_linea_miss ::
    "cache_t \<Rightarrow> u32 \<Rightarrow> char \<Rightarrow> modo_verboso_t option \<Rightarrow> (int \<times> cache_t \<times> salida) option" where
  "cargar_linea_miss c direccion instr verboso = do {
     (nset, tg) \<leftarrow> calcular_set_y_tag c direccion (tamanio_bloque c);
     s \<leftarrow> elem (sets c) nset;
     case linea_no_valida s of
       Some i \<Rightarrow>
         (let out = imprimir verboso (\<lambda>v. imprimir_miss_limpio v nset tg (lineas_ocupadas s));
              s = modificar s i (\<lambda>l. cargar_linea (anotar verboso l) tg (ciclos c) instr);
              s = s\<lparr>lineas_ocupadas := lineas_ocupadas s + 1\<rparr>
          in Some (DESALOJO_LIMPIO, c\<lparr>sets := (sets c)[nat nset := s]\<rparr>, out))
     | None \<Rightarrow>
         (case desalojar_linea (ciclos c) s tg instr verboso nset of (resultado, s, out) \<Rightarrow>
            Some (resultado, c\<lparr>sets := (sets c)[nat nset := s]\<rparr>, out))
   }"

definition actualizar_metricas :: "metricas_t \<Rightarrow> char \<Rightarrow> bool \<Rightarrow> int \<Rightarrow> int \<Rightarrow> metricas_t" where
  "actualizar_metricas m instr fue_hit desalojo bloque =
     (if instr = LECTURA then
        (let m = m\<lparr>lecturas := lecturas m + 1\<rparr>
         in if fue_hit then m\<lparr>ciclos_lecturas := ciclos_lecturas m + 1\<rparr>
            else
              (let m = m\<lparr>misses_read := misses_read m + 1,
                         ciclos_lecturas := ciclos_lecturas m + (MISS_PENALTY + 1),
                         bytes_read := bytes_read m + bloque\<rparr>
               in if desalojo = DESALOJO_DIRTY_BIT then
                    m\<lparr>dirty_read_miss := dirty_read_miss m + 1,
                      ciclos_lecturas := ciclos_lecturas m + MISS_PENALTY,
                      bytes_written := bytes_written m + bloque\<rparr>
                  else m))
      else
        (let m = m\<lparr>escrituras := escrituras m + 1\<rparr>
         in if fue_hit then m\<lparr>ciclos_escrituras := ciclos_escrituras m + 1\<rparr>
            else
              (let m = m\<lparr>bytes_read := bytes_read m + bloque,
                         misses_write := misses_write m + 1,
                         ciclos_escrituras := ciclos_escrituras m + (MISS_PENALTY + 1)\<rparr>
               in if desalojo = DESALOJO_DIRTY_BIT then
                    m\<lparr>dirty_write_miss := dirty_write_miss m + 1,
                      ciclos_escrituras := ciclos_escrituras m + MISS_PENALTY,
                      bytes_written := bytes_written m + bloque\<rparr>
                  else m)))"

text \<open>The body that the two simulation loops share, from the test of the instruction to the metrics.\<close>

definition acceder :: "cache_t \<Rightarrow> traza_t \<Rightarrow> modo_verboso_t option \<Rightarrow> (cache_t \<times> salida) option" where
  "acceder c traza verboso = do {
     (hit, c, out) \<leftarrow> (if instruccion traza = LECTURA
                       then leer_cache c (direccion_accedida traza) verboso
                       else escribir_cache c (direccion_accedida traza) verboso);
     (resultado, c, out') \<leftarrow>
       (if hit then Some (0, c\<lparr>ciclos := ciclos c + 1\<rparr>, [])
        else do {
          (resultado, c, out') \<leftarrow>
            cargar_linea_miss c (direccion_accedida traza) (instruccion traza) verboso;
          let c = c\<lparr>ciclos := ciclos c + (MISS_PENALTY + 1)\<rparr>;
          Some (resultado,
            (if resultado = DESALOJO_DIRTY_BIT then c\<lparr>ciclos := ciclos c + MISS_PENALTY\<rparr> else c),
            out')
        });
     Some (c\<lparr>metricas := actualizar_metricas (metricas c) (instruccion traza) hit resultado
               (tamanio_bloque c)\<rparr>, out @ out')
   }"

subsection \<open>Simulation\<close>

primrec simular_cache_simple :: "cache_t \<Rightarrow> traza_t list \<Rightarrow> cache_t option" where
  "simular_cache_simple c [] = Some c"
| "simular_cache_simple c (traza # archivo) = do {
     (c, out) \<leftarrow> acceder c traza None;
     simular_cache_simple c archivo
   }"

definition rango_verboso :: "int \<Rightarrow> int \<Rightarrow> int \<Rightarrow> bool" where
  "rango_verboso actual primera ultima \<longleftrightarrow> actual \<ge> primera \<and> actual \<le> ultima"

definition modo_verboso_cero :: modo_verboso_t where
  "modo_verboso_cero = \<lparr>operacion_actual = 0, num_operacion = 0, set_operado = 0, tag_operado = 0,
     linea_operada = 0, tag_anterior = 0, v_bit_validez = False, v_dirty_bit = False,
     v_ultima_operacion = 0, mapeo_directo = False\<rparr>"

definition crear_modo_verboso :: "(nat \<Rightarrow> bool) \<Rightarrow> nat \<Rightarrow> memoria \<Rightarrow> modo_verboso_t option \<times> memoria" where
  "crear_modo_verboso ok mapeo m =
     (case calloc ok m of (p, m) \<Rightarrow>
        (if p then Some (modo_verboso_cero\<lparr>mapeo_directo := (mapeo = 1)\<rparr>) else None, m))"

primrec verboso_loop ::
    "cache_t \<Rightarrow> modo_verboso_t \<Rightarrow> int \<Rightarrow> int \<Rightarrow> traza_t list \<Rightarrow> (cache_t \<times> salida) option" where
  "verboso_loop c v primera ultima [] = Some (c, [])"
| "verboso_loop c v primera ultima (traza # archivo) = do {
     (c, out) \<leftarrow> acceder c traza
        (if rango_verboso (operacion_actual v) primera ultima then Some v else None);
     (c, out') \<leftarrow> verboso_loop c (v\<lparr>operacion_actual := operacion_actual v + 1\<rparr>) primera ultima archivo;
     Some (c, out @ out')
   }"

definition simular_cache_modo_verboso ::
    "(nat \<Rightarrow> bool) \<Rightarrow> cache_t \<Rightarrow> traza_t list \<Rightarrow> int \<Rightarrow> int \<Rightarrow> memoria \<Rightarrow>
       (cache_t \<times> salida \<times> memoria) option" where
  "simular_cache_modo_verboso ok c archivo primera ultima m = do {
     s \<leftarrow> at (sets c) 0;
     case crear_modo_verboso ok (lineas_por_set s) m of
       (None, m) \<Rightarrow> Some (c, [], m)
     | (Some v, m) \<Rightarrow> do {
         (c, out) \<leftarrow> verboso_loop c v primera ultima archivo;
         Some (c, out, free m)
       }
   }"

definition mostrar_metricas :: "cache_t \<Rightarrow> (cache_t \<times> salida) option" where
  "mostrar_metricas c = do {
     let m = metricas c;
     let m = m\<lparr>total_accesos := lecturas m + escrituras m,
               total_misses := misses_read m + misses_write m\<rparr>;
     let m = m\<lparr>miss_rate := (total_misses m, total_accesos m)\<rparr>;
     s \<leftarrow> at (sets c) 0;
     Some (c\<lparr>metricas := m\<rparr>,
       [(if lineas_por_set s = 1 then [S ''direct-mapped, ''] else [I (int (lineas_por_set s)), S ''-way, '']),
        [I (cantidad_sets c), S '' sets, size = '', I (c_quot (tamanio_cache c) 1024), S ''KB''],
        [S ''loads '', I (lecturas m), S '' stores '', I (escrituras m), S '' total '', I (total_accesos m)],
        [S ''rmiss '', I (misses_read m), S '' wmiss '', I (misses_write m), S '' total '', I (total_misses m)],
        [S ''dirty rmiss '', I (dirty_read_miss m), S '' dirty wmiss '', I (dirty_write_miss m)],
        [S ''bytes read '', I (bytes_read m), S '' bytes written '', I (bytes_written m)],
        [S ''read time '', I (ciclos_lecturas m), S '' write time '', I (ciclos_escrituras m)],
        [S ''miss rate '', D (fst (miss_rate m)) (snd (miss_rate m))]])
   }"

text \<open>
  \<^verbatim>\<open>main\<close>: the command line, the text of the trace file (\<open>None\<close> when it cannot be
  opened), what the variable \<^verbatim>\<open>traza\<close> holds before the first line is read, and the outcome of each \<^verbatim>\<open>calloc\<close>. The result is the exit value, what was printed on
  standard output, and the memory at that point.
\<close>

definition cachesim_main ::
    "string list \<Rightarrow> string option \<Rightarrow> traza_t \<Rightarrow> (nat \<Rightarrow> bool) \<Rightarrow> (int \<times> salida \<times> memoria) option" where
  "cachesim_main argv archivo traza ok =
     (let m = \<lparr>llamadas = 0, bloques = 0\<rparr>
      in if length argv \<noteq> 5 \<and> length argv \<noteq> 8 then Some (ERROR, [], m)
         else do {
           tamanio \<leftarrow> atol (argv ! 2);
           asociatividad_cache \<leftarrow> atoi (argv ! 3);
           numero_sets_cache \<leftarrow> atoi (argv ! 4);
           if tamanio \<le> 0 \<or> \<not> son_potencias_de_dos tamanio asociatividad_cache numero_sets_cache
           then Some (ERROR, [], m)
           else do {
             correcta \<leftarrow> combinacion_correcta (to_int32 tamanio) asociatividad_cache numero_sets_cache;
             if \<not> correcta then Some (ERROR, [], m)
             else case archivo of
               None \<Rightarrow> Some (ERROR_ARCHIVO, [[S ''No se pudo abrir el archivo'']], m)
             | Some texto \<Rightarrow> do {
                 (nueva, m) \<leftarrow> crear_cache ok tamanio asociatividad_cache numero_sets_cache m;
                 case nueva of
                   None \<Rightarrow> Some (ERROR, [], m)
                 | Some c \<Rightarrow>
                     if length argv = 8 then do {
                       primera \<leftarrow> atoi (argv ! 6);
                       ultima \<leftarrow> atoi (argv ! 7);
                       if primera \<ge> ultima then Some (ERROR, [], m)
                       else do {
                         trazas \<leftarrow> leer_trazas texto traza;
                         (c, out, m) \<leftarrow> simular_cache_modo_verboso ok c trazas primera ultima m;
                         (c, out') \<leftarrow> mostrar_metricas c;
                         Some (0, out @ out', cache_destruir c m)
                       }
                     } else do {
                       trazas \<leftarrow> leer_trazas texto traza;
                       c \<leftarrow> simular_cache_simple c trazas;
                       (c, out') \<leftarrow> mostrar_metricas c;
                       Some (0, out', cache_destruir c m)
                     }
               }
           }
         })"

end
