(* ===== verification/Cachesim_Params.thy ===== *)
theory Cachesim_Params
  imports Cachesim
begin

text \<open>
  The arithmetic of the simulator: which parameters \<^verbatim>\<open>main\<close> accepts, and how an address is
  split into set and tag.
\<close>

unbundle bit_operations_syntax

subsection \<open>Powers of two\<close>

lemma potencia_loop_from:
  "potencia_loop n (2 ^ i) (Suc i) = n \<longleftrightarrow> (\<exists>k\<ge>i. n = 2 ^ k)"
proof (induction "nat (n - 2 ^ i)" arbitrary: i rule: less_induct)
  case less
  show ?case
  proof (cases "2 ^ i < n")
    case True
    have "nat (n - 2 ^ Suc i) < nat (n - 2 ^ i)" using True by (simp add: nat_less_eq_zless)
    with less [of "Suc i"] have "potencia_loop n (2 ^ Suc i) (Suc (Suc i)) = n \<longleftrightarrow> (\<exists>k\<ge>Suc i. n = 2 ^ k)"
      by blast
    moreover have "(\<exists>k\<ge>Suc i. n = 2 ^ k) \<longleftrightarrow> (\<exists>k\<ge>i. n = 2 ^ k)"
      using True by (metis Suc_leD le_antisym less_irrefl not_less_eq_eq)
    ultimately show ?thesis using True by (subst potencia_loop.simps) simp
  next
    case False
    then have "potencia_loop n (2 ^ i) (Suc i) = 2 ^ i" by (subst potencia_loop.simps) simp
    moreover have "k = i" if "n = 2 ^ k" "k \<ge> i" for k
      using False that power_increasing_iff [of "2::int" k i] by simp
    ultimately show ?thesis by auto
  qed
qed

text \<open>
  \<^verbatim>\<open>es_potencia_de_dos\<close> ends for every \<^verbatim>\<open>int\<close> and accepts exactly the powers of two and
  zero.
\<close>

theorem es_potencia_de_dos_correct:
  "es_potencia_de_dos n \<longleftrightarrow> n = 0 \<or> (\<exists>k. n = 2 ^ k)"
proof (cases "0 < n")
  case True
  then have "potencia_loop n 0 0 = potencia_loop n (2 ^ 0) (Suc 0)"
    by (subst potencia_loop.simps) simp
  then show ?thesis using True potencia_loop_from [of n 0] by (simp add: es_potencia_de_dos_def)
next
  case False
  then have "potencia_loop n 0 0 = 0" by (subst potencia_loop.simps) simp
  moreover have "n \<noteq> 2 ^ k" for k using False zero_less_power [of "2::int" k] by linarith
  ultimately show ?thesis by (auto simp: es_potencia_de_dos_def)
qed

lemma ilog2_power [simp]: "ilog2 (2 ^ k) = k"
proof (induction k)
  case (Suc k)
  have "\<not> 2 ^ Suc k \<le> (1::nat)" using one_le_power [of "2::nat" k] unfolding power_Suc by linarith
  then have "ilog2 (2 ^ Suc k) = Suc (ilog2 (2 ^ Suc k div 2))"
    by (subst ilog2.simps) (simp only: if_False)
  then show ?case using Suc by simp
qed (simp add: ilog2.simps)

lemma log2_int_power [simp]: "log2_int (2 ^ k) = Some k"
  by (simp add: log2_int_def nat_power_eq)

lemma power2_in_int: "in_int (2 ^ k) \<longleftrightarrow> k < 31"
proof -
  have "(2::int) ^ k \<le> 2 ^ 31 - 1 \<longleftrightarrow> (2::int) ^ k < 2 ^ 31" by linarith
  also have "\<dots> \<longleftrightarrow> k < 31" by (rule power_strict_increasing_iff) simp
  moreover have "int_min \<le> 2 ^ k" unfolding int_min_def by (rule order.trans [of _ 0]) simp_all
  ultimately show ?thesis by (simp only: in_int_def int_max_def simp_thms)
qed

subsection \<open>The parameters\<close>

lemma combinacion_potencias:
  assumes "i < 31" "j < 31" "k < 31"
  shows "combinacion_correcta (2 ^ i) (2 ^ j) (2 ^ k) =
           (if j + k < 31 then Some (j + k \<le> i) else None)"
proof (cases "j + k < 31")
  case True
  have prod: "c_mul (2 ^ j) (2 ^ k) = Some (2 ^ (j + k))"
    using True power2_in_int [of "j + k"] by (simp add: c_mul_def power_add)
  show ?thesis
  proof (cases "j + k \<le> i")
    case True
    then have q: "c_quot (2 ^ i) (2 ^ (j + k)) = 2 ^ (i - (j + k))"
      by (simp add: power_diff)
    have b: "c_mul (2 ^ (i - (j + k))) (2 ^ j) = Some (2 ^ (i - k))"
      using True assms(1) power2_in_int [of "i - k"]
      by (simp add: c_mul_def flip: power_add)
    have c: "c_mul (2 ^ (i - k)) (2 ^ k) = Some (2 ^ i)"
      using True assms(1) power2_in_int [of i] by (simp add: c_mul_def flip: power_add)
    have "in_int (2 ^ (i - (j + k)))" using assms(1) power2_in_int [of "i - (j + k)"] by simp
    then show ?thesis using True \<open>j + k < 31\<close>
      by (simp add: combinacion_correcta_def prod c_div_def q b c)
  next
    case False
    have "(2::int) ^ i < 2 ^ (j + k)" using False by (intro power_strict_increasing) simp_all
    then have "c_quot (2 ^ i) (2 ^ (j + k)) = 0" by simp
    moreover have "in_int 0" by (simp add: in_int_def int_min_def int_max_def)
    moreover from this have "c_mul 0 x = Some 0" for x by (simp add: c_mul_def)
    ultimately show ?thesis using False \<open>j + k < 31\<close>
      by (simp add: combinacion_correcta_def prod c_div_def)
  qed
next
  case False
  then have "\<not> in_int (2 ^ (j + k))" by (simp only: power2_in_int) simp
  then show ?thesis using False by (simp add: combinacion_correcta_def c_mul_def power_add)
qed

lemma combinacion_cero:
  "a = 0 \<or> n = 0 \<Longrightarrow> combinacion_correcta t a n = None"
  by (auto simp: combinacion_correcta_def c_mul_def c_div_def)

lemma parametros_iff:
  assumes "0 < t" "in_int t" "in_int a" "in_int n"
  shows "son_potencias_de_dos t a n \<and> combinacion_correcta t a n = Some True \<longleftrightarrow>
           (\<exists>i j k. t = 2 ^ i \<and> a = 2 ^ j \<and> n = 2 ^ k \<and> j + k \<le> i)" (is "?l \<longleftrightarrow> ?r")
proof
  assume l: ?l
  then have "a \<noteq> 0" "n \<noteq> 0" using combinacion_cero by force+
  with l assms obtain i j k where p: "t = 2 ^ i" "a = 2 ^ j" "n = 2 ^ k"
    by (auto simp: son_potencias_de_dos_def es_potencia_de_dos_correct)
  with assms have "i < 31" "j < 31" "k < 31" by (simp_all only: power2_in_int)
  then show ?r using l p by (auto simp: combinacion_potencias split: if_splits)
next
  assume ?r
  then obtain i j k where p: "t = 2 ^ i" "a = 2 ^ j" "n = 2 ^ k" "j + k \<le> i" by blast
  with assms have b: "i < 31" "j < 31" "k < 31" by (simp_all only: power2_in_int)
  have "son_potencias_de_dos t a n"
    using p assms by (auto simp: son_potencias_de_dos_def es_potencia_de_dos_correct)
  then show ?l using p b by (simp add: combinacion_potencias)
qed

lemma parametros_potencias:
  assumes "t = 2 ^ i" "a = 2 ^ j" "n = 2 ^ k" "j + k \<le> i" "i < 31"
  shows "0 < t" "son_potencias_de_dos t a n" "combinacion_correcta (to_int32 t) a n = Some True"
proof -
  have r: "0 < t" "in_int t" "in_int a" "in_int n"
    using assms power2_in_int [of i] power2_in_int [of j] power2_in_int [of k] by simp_all
  then show "0 < t" "son_potencias_de_dos t a n" "combinacion_correcta (to_int32 t) a n = Some True"
    using parametros_iff [OF r] assms by auto
qed

text \<open>
  C31. Parameter check. For a cache size that is a positive \<^verbatim>\<open>int\<close>, the two tests of \<^verbatim>\<open>main\<close>
  accept exactly the configurations in which size, associativity and number of sets are powers
  of two and a line has room for at least one byte.
\<close>

theorem parametros_aceptados:
  assumes "0 < t" "in_int t" "in_int a" "in_int n"
  shows "son_potencias_de_dos t a n \<and> combinacion_correcta t a n = Some True \<longleftrightarrow>
           (\<exists>i j k. t = 2 ^ i \<and> a = 2 ^ j \<and> n = 2 ^ k \<and> j + k \<le> i)"
  using assms by (rule parametros_iff)

lemma parametros_aceptados_witness:
  "son_potencias_de_dos 1024 2 8 \<and> combinacion_correcta 1024 2 8 = Some True"
proof -
  have "\<exists>i j k. (1024::int) = 2 ^ i \<and> (2::int) = 2 ^ j \<and> (8::int) = 2 ^ k \<and> j + k \<le> i"
    by (rule exI [of _ 10], rule exI [of _ 1], rule exI [of _ 3]) simp
  then show ?thesis
    using parametros_aceptados [of 1024 2 8] by (simp add: in_int_def int_min_def int_max_def)
qed

definition traza_cero :: traza_t where
  "traza_cero = \<lparr>instruction_pointer = 0, direccion_accedida = 0, datos_leidos = 0,
     instruccion = CHR ''R'', cant_de_bytes = 0\<rparr>"

text \<open>
  An associativity or a number of sets of zero passes the power-of-two test, and the
  division that follows has no result: the process is killed by the trap.
\<close>

theorem main_division_por_cero:
  assumes "length argv = 5" "atol (argv ! 2) = Some t" "t = 2 ^ i" "i < 31"
    and "atoi (argv ! 3) = Some a" "atoi (argv ! 4) = Some n"
    and "a = 0 \<and> (n = 0 \<or> (\<exists>k. n = 2 ^ k)) \<or> n = 0 \<and> (\<exists>k. a = 2 ^ k)"
  shows "cachesim_main argv archivo traza ok = None"
proof -
  have "in_int t" using assms(3,4) power2_in_int by simp
  then have s: "son_potencias_de_dos t a n"
    using assms(3,7) by (auto simp: son_potencias_de_dos_def es_potencia_de_dos_correct)
  have c: "combinacion_correcta (to_int32 t) a n = None"
    by (rule combinacion_cero) (use assms(7) in blast)
  have "\<not> t \<le> 0" using assms(3) by simp
  then show ?thesis unfolding cachesim_main_def Let_def assms(1,2,5,6) by (simp add: s c)
qed

lemma main_division_por_cero_witness:
  "cachesim_main [''cachesim'', ''traza'', ''1024'', ''0'', ''8''] (Some []) traza_cero (\<lambda>_. True) = None"
  by (rule main_division_por_cero [where t = 1024 and i = 10 and a = 0 and n = 8])
    (simp_all add: atoi_def atol_def is_space_def parse_digits_def is_digit_def digit_value_def
      in_int_def int_min_def int_max_def exI [of _ 3])

text \<open>
  The check looks at the low 32 bits of the cache size only, although the size is a
  \<^verbatim>\<open>long\<close>: adding a multiple of \<open>2 ^ 32\<close> to an accepted size gives an accepted size.
\<close>

theorem parametros_modulo_32:
  "(son_potencias_de_dos (t + 2 ^ 32 * m) a n, combinacion_correcta (to_int32 (t + 2 ^ 32 * m)) a n) =
     (son_potencias_de_dos t a n, combinacion_correcta (to_int32 t) a n)"
proof -
  have "to_int32 (t + 2 ^ 32 * m) = to_int32 t"
  proof -
    have "t + 2 ^ 32 * m + 2 ^ 31 = t + 2 ^ 31 + 2 ^ 32 * m" by simp
    then show ?thesis unfolding to_int32_def by (simp only: mod_mult_self2)
  qed
  then show ?thesis by (simp only: son_potencias_de_dos_def)
qed

subsection \<open>The split\<close>

lemma bit_top: "bit (2147483648 :: u32) n \<longleftrightarrow> n = 31"
  "bit (2147483648 :: int) n \<longleftrightarrow> n = 31"
  using bit_exp_iff [where 'a = "32 word", of 31 n] bit_exp_iff [where 'a = int, of 31 n] by auto

lemma mascara_set:
  assumes "s + b < 32"
  shows "drop_bit b (NOT (signed_drop_bit (31 - (s + b)) (push_bit 31 (1 :: u32)) OR
           NOT (push_bit b (push_bit 31 1 XOR NOT 0)))) = (mask s :: u32)"
  using assms by (intro bit_word_eqI) (auto simp: bit_simps bit_top)

lemma uint_drop: "uint (drop_bit b (d::u32)) = uint d div 2 ^ b"
proof -
  have "take_bit LENGTH(32) (uint d) = uint d"
    using uint_lt2p [of d] by (simp add: take_bit_int_eq_self)
  then show ?thesis by (simp only: unsigned_drop_bit_eq) (simp only: drop_bit_eq_div)
qed

lemma and_mask_div_mod:
  fixes d :: u32
  assumes "s < 32"
  shows "sint (drop_bit b d AND mask s) = uint d div 2 ^ b mod 2 ^ s"
proof -
  have u: "uint (drop_bit b d AND mask s) = uint d div 2 ^ b mod 2 ^ s"
    by (simp only: take_bit_eq_mask [symmetric] unsigned_take_bit_eq uint_drop) (simp only: take_bit_eq_mod)
  have "(2::int) ^ s \<le> 2 ^ 31" using assms by (intro power_increasing) simp_all
  moreover have "uint d div 2 ^ b mod 2 ^ s < 2 ^ s" by simp
  ultimately have "uint d div 2 ^ b mod 2 ^ s < 2 ^ 31" by linarith
  then show ?thesis by (simp add: sint_uint32 u)
qed

lemma sint_to_int32: "sint (w :: u32) = to_int32 (uint w)"
  using uint_lt2p [of w]
  by (simp add: sint_uint32 to_int32_def mod_pos_pos_trivial)
    (smt (verit) minus_mod_self2 mod_pos_pos_trivial)

lemma split_power:
  assumes "cantidad_sets c = 2 ^ s" "s + b < 32"
  shows "calcular_set_y_tag c d (2 ^ b) =
           Some (uint d div 2 ^ b mod 2 ^ s, to_int32 (uint d div 2 ^ (s + b)))"
proof -
  have "sint (drop_bit b d AND mask s) = uint d div 2 ^ b mod 2 ^ s"
    by (rule and_mask_div_mod) (use assms(2) in simp)
  moreover have "sint (drop_bit (s + b) d) = to_int32 (uint d div 2 ^ (s + b))"
    by (simp only: sint_to_int32 uint_drop)
  moreover have "32 - (s + b) - 1 = 31 - (s + b)" using assms(2) by simp
  ultimately show ?thesis
    using assms mascara_set [OF assms(2)]
    by (simp add: calcular_set_y_tag_def Let_def not_le del: push_bit_of_1 push_bit_of_Suc_0 push_bit_numeral)
qed

lemma to_int32_inj:
  assumes "to_int32 x = to_int32 y" "0 \<le> x" "x < 2 ^ 32" "0 \<le> y" "y < 2 ^ 32"
  shows "x = y"
proof -
  have "(x + 2 ^ 31) mod 2 ^ 32 = (y + 2 ^ 31) mod 2 ^ 32" using assms(1) by (simp add: to_int32_def)
  then have "x mod 2 ^ 32 = y mod 2 ^ 32" by (metis add_diff_cancel_right' mod_diff_left_eq)
  then show ?thesis using assms by simp
qed

text \<open>
  Splitting an address. For power-of-two sizes of a line (\<open>2 ^ b\<close> bytes) and of the cache
  (\<open>2 ^ s\<close> sets) with at most 31 bits of set and offset, the mask arithmetic of
  \<^verbatim>\<open>calcular_set_y_tag\<close> computes the set as the block number modulo the number of sets and the
  tag as the quotient, the set is an index of the array, and two addresses get the same set
  and tag exactly when they lie in the same block of memory.
\<close>

theorem calcular_set_y_tag_correct:
  assumes "cantidad_sets c = 2 ^ s" "s + b < 32"
  shows "\<exists>nset tg. calcular_set_y_tag c d (2 ^ b) = Some (nset, tg) \<and>
           nset = (uint d div 2 ^ b) mod 2 ^ s \<and> 0 \<le> nset \<and> nset < cantidad_sets c \<and>
           tg = to_int32 (uint d div 2 ^ b div 2 ^ s) \<and>
           (calcular_set_y_tag c d' (2 ^ b) = Some (nset, tg) \<longleftrightarrow> uint d' div 2 ^ b = uint d div 2 ^ b)"
proof -
  have dd: "uint d div 2 ^ (s + b) = uint d div 2 ^ b div 2 ^ s" for d :: u32
    by (simp add: zdiv_zmult2_eq power_add mult.commute)
  have bound: "0 \<le> uint d div 2 ^ b div 2 ^ s" "uint d div 2 ^ b div 2 ^ s < 2 ^ 32" for d :: u32
  proof -
    have "uint (drop_bit (s + b) d) < 2 ^ 32" using uint_lt2p [of "drop_bit (s + b) d"] by simp
    then show "uint d div 2 ^ b div 2 ^ s < 2 ^ 32" by (simp only: uint_drop dd)
  qed (simp add: pos_imp_zdiv_nonneg_iff)
  have "uint d' div 2 ^ b = uint d div 2 ^ b"
    if "uint d' div 2 ^ b mod 2 ^ s = uint d div 2 ^ b mod 2 ^ s"
      "to_int32 (uint d' div 2 ^ b div 2 ^ s) = to_int32 (uint d div 2 ^ b div 2 ^ s)"
    using that(1) to_int32_inj [OF that(2) bound bound] by (metis div_mult_mod_eq)
  then show ?thesis using assms by (auto simp: split_power dd)
qed

lemma calcular_set_y_tag_correct_witness:
  "calcular_set_y_tag (\<lparr>metricas = metricas_cero, sets = [], cantidad_sets = 8, tamanio_bloque = 64,
     tamanio_cache = 1024, ciclos = 0\<rparr>) 0xFFFFFFC0 64 = Some (7, 8388607)"
  using calcular_set_y_tag_correct [of "\<lparr>metricas = metricas_cero, sets = [], cantidad_sets = 8,
      tamanio_bloque = 64, tamanio_cache = 1024, ciclos = 0\<rparr>" 3 6 "0xFFFFFFC0" "0xFFFFFFC0"]
  by (simp add: to_int32_def)

end
