(* ===== verification/Cachesim_Set.thy ===== *)
theory Cachesim_Set
  imports Cachesim_Params "HOL-Library.Multiset"
begin

text \<open>
  One set of the simulated cache: its invariant, and the refinement of the operations on the
  array of lines to a list of blocks in order of use.
\<close>

subsection \<open>The searches\<close>

lemma buscar_desde_spec:
  "i \<le> lineas_por_set s \<Longrightarrow>
     i \<le> buscar_desde P s i \<and> buscar_desde P s i \<le> lineas_por_set s \<and>
     (\<forall>j. i \<le> j \<and> j < buscar_desde P s i \<longrightarrow> \<not> P (lineas s ! j)) \<and>
     (buscar_desde P s i < lineas_por_set s \<longrightarrow> P (lineas s ! buscar_desde P s i))"
proof (induction P s i rule: buscar_desde.induct)
  case (1 P s i)
  show ?case
  proof (cases "i < lineas_por_set s \<and> \<not> P (lineas s ! i)")
    case True
    then have "buscar_desde P s i = buscar_desde P s (Suc i)" by (subst buscar_desde.simps) simp
    moreover have "\<not> P (lineas s ! j)" if "i \<le> j" "j < buscar_desde P s (Suc i)" for j
      using 1 True that by (cases "j = i") auto
    ultimately show ?thesis using 1 True by auto
  next
    case False
    then have "buscar_desde P s i = i" by (subst buscar_desde.simps) auto
    then show ?thesis using False 1(2) by auto
  qed
qed

lemma buscar_desde_first:
  assumes "i < lineas_por_set s" "P (lineas s ! i)" "\<And>j. j < i \<Longrightarrow> \<not> P (lineas s ! j)"
  shows "buscar_desde P s 0 = i"
proof -
  let ?r = "buscar_desde P s 0"
  have r: "\<And>j. j < ?r \<Longrightarrow> \<not> P (lineas s ! j)" "?r < lineas_por_set s \<Longrightarrow> P (lineas s ! ?r)"
    using buscar_desde_spec [of 0 s P] by auto
  show ?thesis
  proof (rule linorder_cases [of ?r i])
    assume "?r < i"
    then show ?thesis using r(2) assms by simp
  next
    assume "i < ?r"
    then show ?thesis using r(1) assms(2) by blast
  qed
qed

lemma buscar_desde_none:
  "(\<And>j. j < lineas_por_set s \<Longrightarrow> \<not> P (lineas s ! j)) \<Longrightarrow> buscar_desde P s 0 = lineas_por_set s"
  using buscar_desde_spec [of 0 s P] by (cases "buscar_desde P s 0 < lineas_por_set s") auto

lemma buscar_desalojo_spec:
  "pos < i \<Longrightarrow> i \<le> lineas_por_set s \<Longrightarrow>
   (\<forall>j<i. ultimo_ciclo_usado (lineas s ! pos) \<le> ultimo_ciclo_usado (lineas s ! j)) \<Longrightarrow>
   buscar_desalojo s pos i < lineas_por_set s \<and>
   (\<forall>j<lineas_por_set s. ultimo_ciclo_usado (lineas s ! buscar_desalojo s pos i)
      \<le> ultimo_ciclo_usado (lineas s ! j))"
proof (induction s pos i rule: buscar_desalojo.induct)
  case (1 s pos i)
  show ?case
  proof (cases "i < lineas_por_set s")
    case True
    let ?p = "if ultimo_ciclo_usado (lineas s ! pos) > ultimo_ciclo_usado (lineas s ! i) then i else pos"
    have "buscar_desalojo s pos i = buscar_desalojo s ?p (Suc i)"
      using True by (subst buscar_desalojo.simps) simp
    moreover have "\<forall>j<Suc i. ultimo_ciclo_usado (lineas s ! ?p) \<le> ultimo_ciclo_usado (lineas s ! j)"
      using 1(4) by (fastforce simp: less_Suc_eq)
    ultimately show ?thesis using 1 True by (simp add: less_Suc_eq)
  next
    case False
    then have "buscar_desalojo s pos i = pos" by (subst buscar_desalojo.simps) simp
    then show ?thesis using False 1 by simp
  qed
qed

subsection \<open>The invariant\<close>

text \<open>
  The first \<open>k\<close> of the \<open>n\<close> lines are valid, \<open>k\<close> is the count kept by the set, no two valid
  lines have the same tag or the same time of last use, those times are not in the future,
  and a line that was never loaded is not dirty.
\<close>

definition ocupadas :: "set_t \<Rightarrow> nat" where
  "ocupadas s = nat (lineas_ocupadas s)"

definition validas :: "set_t \<Rightarrow> linea_t list" where
  "validas s = take (ocupadas s) (lineas s)"

definition wf_set :: "nat \<Rightarrow> int \<Rightarrow> set_t \<Rightarrow> bool" where
  "wf_set n ahora s \<longleftrightarrow>
     0 < n \<and> lineas_por_set s = n \<and> length (lineas s) = n \<and>
     0 \<le> lineas_ocupadas s \<and> ocupadas s \<le> n \<and>
     list_all (\<lambda>l. valido l \<and> ultimo_ciclo_usado l \<le> ahora) (validas s) \<and>
     list_all (\<lambda>l. \<not> valido l \<and> \<not> dirty_bit l) (drop (ocupadas s) (lineas s)) \<and>
     distinct (map tag (validas s)) \<and> distinct (map ultimo_ciclo_usado (validas s))"

lemma wf_setD:
  assumes "wf_set n ahora s"
  shows "0 < n" "lineas_por_set s = n" "length (lineas s) = n" "ocupadas s \<le> n"
    "lineas_ocupadas s = int (ocupadas s)" "length (validas s) = ocupadas s"
    "distinct (map tag (validas s))" "distinct (map ultimo_ciclo_usado (validas s))"
  using assms by (simp_all add: wf_set_def ocupadas_def validas_def)

lemma validas_nth: "wf_set n ahora s \<Longrightarrow> i < ocupadas s \<Longrightarrow> validas s ! i = lineas s ! i"
  by (simp add: validas_def)

lemma validas_linea:
  "wf_set n ahora s \<Longrightarrow> l \<in> set (validas s) \<Longrightarrow> valido l \<and> ultimo_ciclo_usado l \<le> ahora"
  by (simp add: wf_set_def list_all_iff)

lemma libre_linea:
  assumes "wf_set n ahora s" "ocupadas s \<le> i" "i < n"
  shows "\<not> valido (lineas s ! i) \<and> \<not> dirty_bit (lineas s ! i)"
proof -
  have "drop (ocupadas s) (lineas s) ! (i - ocupadas s) = lineas s ! i"
    using assms wf_setD(3,4) [OF assms(1)] by simp
  moreover have "i - ocupadas s < length (drop (ocupadas s) (lineas s))"
    using assms wf_setD(3) [OF assms(1)] by simp
  ultimately have "lineas s ! i \<in> set (drop (ocupadas s) (lineas s))" by (metis nth_mem)
  then show ?thesis using assms(1) by (auto simp: wf_set_def list_all_iff)
qed

lemma wf_set_later: "wf_set n ahora s \<Longrightarrow> ahora \<le> ahora' \<Longrightarrow> wf_set n ahora' s"
  unfolding wf_set_def by (fastforce simp: list_all_iff)

subsection \<open>Blocks in order of use\<close>

text \<open>
  What a set promises: a list of the tags it holds, the last one used first, each with its
  dirty flag. An access to a resident tag moves it to the front; an access to another tag puts
  it in front and, when the set is full, evicts the one used longest ago.
\<close>

datatype resultado = Acierto | Limpio | Sucio

type_synonym bloques_lru = "(int \<times> bool) list"

definition lru_acceso :: "nat \<Rightarrow> int \<Rightarrow> bool \<Rightarrow> bloques_lru \<Rightarrow> resultado \<times> bloques_lru" where
  "lru_acceso n tg escribe xs =
     (case map_of xs tg of
        Some d \<Rightarrow> (Acierto, (tg, d \<or> escribe) # filter (\<lambda>x. fst x \<noteq> tg) xs)
      | None \<Rightarrow>
          if length xs < n then (Limpio, (tg, escribe) # xs)
          else (if snd (last xs) then Sucio else Limpio, (tg, escribe) # butlast xs))"

definition por_uso :: "linea_t list \<Rightarrow> linea_t list" where
  "por_uso ls = rev (sort_key ultimo_ciclo_usado ls)"

definition abs_set :: "set_t \<Rightarrow> bloques_lru" where
  "abs_set s = map (\<lambda>l. (tag l, dirty_bit l)) (por_uso (validas s))"

lemma set_por_uso [simp]: "set (por_uso ls) = set ls" by (simp add: por_uso_def)
lemma length_por_uso [simp]: "length (por_uso ls) = length ls" by (simp add: por_uso_def)

lemma distinct_por_uso [simp]: "distinct (map f (por_uso ls)) \<longleftrightarrow> distinct (map f ls)"
proof -
  have "mset (map f (por_uso ls)) = mset (map f ls)" by (simp add: por_uso_def)
  then show ?thesis by (metis mset_eq_imp_distinct_iff)
qed

lemma remove1_by_key:
  "distinct (map f ls) \<Longrightarrow> x \<in> set ls \<Longrightarrow> remove1 x ls = filter (\<lambda>l. f l \<noteq> f x) ls"
proof (induction ls)
  case (Cons a ls)
  show ?case
  proof (cases "a = x")
    case True
    with Cons.prems(1) have "\<forall>l\<in>set ls. f l \<noteq> f x" by (auto simp: image_iff)
    then have "filter (\<lambda>l. f l \<noteq> f x) ls = ls" by (simp add: filter_id_conv)
    then show ?thesis using True by simp
  next
    case False
    with Cons show ?thesis by auto
  qed
qed simp


lemma por_uso_unique:
  assumes "mset ys = mset ls" "distinct (map ultimo_ciclo_usado ls)" "sorted (map ultimo_ciclo_usado ys)"
  shows "por_uso ls = rev ys"
proof -
  have "inj_on ultimo_ciclo_usado (set ls)" using assms(2) by (simp add: distinct_map)
  then show ?thesis
    unfolding por_uso_def using assms sort_key_inj_key_eq [of ls ys ultimo_ciclo_usado] by metis
qed

lemma por_uso_sorted: "sorted (map ultimo_ciclo_usado (rev (por_uso ls)))"
  by (simp add: por_uso_def)

lemma mset_por_uso [simp]: "mset (por_uso ls) = mset ls"
  by (simp add: por_uso_def)

lemma distinct_update_map:
  "distinct (map f ls) \<Longrightarrow> i < length ls \<Longrightarrow> (\<And>j. j < length ls \<Longrightarrow> j \<noteq> i \<Longrightarrow> f (ls ! j) \<noteq> f y) \<Longrightarrow>
     distinct (map f (ls[i := y]))"
  unfolding map_update by (rule distinct_list_update) (auto simp: in_set_conv_nth, metis)

lemma distinct_map_nth_neq:
  "distinct (map f ls) \<Longrightarrow> i < length ls \<Longrightarrow> j < length ls \<Longrightarrow> i \<noteq> j \<Longrightarrow> f (ls ! i) \<noteq> f (ls ! j)"
  by (auto simp: distinct_conv_nth)

text \<open>A line that becomes the last one used, wherever it is in the array, comes to the front.\<close>

lemma por_uso_touch:
  assumes d: "distinct (map ultimo_ciclo_usado ls)" and i: "i < length ls"
    and y: "\<forall>l\<in>set ls. ultimo_ciclo_usado l < ultimo_ciclo_usado y"
  shows "por_uso (ls[i := y]) = y # remove1 (ls ! i) (por_uso ls)"
proof -
  let ?x = "ls ! i" and ?u = ultimo_ciclo_usado
  let ?ys = "rev (remove1 ?x (por_uso ls)) @ [y]"
  have "mset ?ys = mset (ls[i := y])" using i by (simp add: mset_update)
  moreover have "distinct (map ?u (ls[i := y]))"
    using i y by (intro distinct_update_map [OF d]) (metis nth_mem order_less_irrefl)+
  moreover have "sorted (map ?u ?ys)"
  proof -
    have "remove1 ?x (por_uso ls) = filter (\<lambda>l. ?u l \<noteq> ?u ?x) (por_uso ls)"
      using d i by (intro remove1_by_key) simp_all
    then have "rev (remove1 ?x (por_uso ls)) = filter (\<lambda>l. ?u l \<noteq> ?u ?x) (rev (por_uso ls))"
      by (simp add: rev_filter)
    moreover have "sorted (map ?u (filter (\<lambda>l. ?u l \<noteq> ?u ?x) (rev (por_uso ls))))"
      by (rule sorted_filter) (rule por_uso_sorted)
    moreover have "\<forall>l. l \<in> set ls \<and> ?u l \<noteq> ?u ?x \<longrightarrow> ?u l \<le> ?u y"
      using y by (auto intro: less_imp_le)
    ultimately show ?thesis by (simp add: sorted_append)
  qed
  ultimately have "por_uso (ls[i := y]) = rev ?ys" by (rule por_uso_unique)
  then show ?thesis by simp
qed

lemma por_uso_append:
  assumes "distinct (map ultimo_ciclo_usado ls)"
    and y: "\<forall>l\<in>set ls. ultimo_ciclo_usado l < ultimo_ciclo_usado y"
  shows "por_uso (ls @ [y]) = y # por_uso ls"
proof -
  have "por_uso (ls @ [y]) = rev (rev (por_uso ls) @ [y])"
  proof (rule por_uso_unique)
    show "sorted (map ultimo_ciclo_usado (rev (por_uso ls) @ [y]))"
      using por_uso_sorted [of ls] y by (auto simp: sorted_append intro: less_imp_le)
    show "distinct (map ultimo_ciclo_usado (ls @ [y]))" using assms by fastforce
  qed simp
  then show ?thesis by simp
qed

lemma por_uso_last:
  assumes d: "distinct (map ultimo_ciclo_usado ls)" and x: "x \<in> set ls"
    and min: "\<forall>l\<in>set ls. ultimo_ciclo_usado x \<le> ultimo_ciclo_usado l"
  shows "por_uso ls = remove1 x (por_uso ls) @ [x]"
proof -
  let ?u = ultimo_ciclo_usado
  have r: "remove1 x (por_uso ls) = filter (\<lambda>l. ?u l \<noteq> ?u x) (por_uso ls)"
    using d x by (intro remove1_by_key) simp_all
  have "por_uso ls = rev (x # rev (remove1 x (por_uso ls)))"
  proof (rule por_uso_unique)
    show "sorted (map ?u (x # rev (remove1 x (por_uso ls))))"
      using por_uso_sorted [of ls] min by (auto simp: r rev_filter sorted_filter)
  qed (use d x in simp_all)
  then show ?thesis by simp
qed

text \<open>The dirty flag the list holds for a tag.\<close>

lemma map_of_lineas:
  "distinct (map tag ls) \<Longrightarrow> l \<in> set ls \<Longrightarrow>
     map_of (map (\<lambda>l. (tag l, dirty_bit l)) ls) (tag l) = Some (dirty_bit l)"
  by (rule map_of_is_SomeI) (auto simp: comp_def)

lemma map_of_lineas_None:
  "map_of (map (\<lambda>l. (tag l, dirty_bit l)) ls) tg = None \<longleftrightarrow> tg \<notin> tag ` set ls"
  by (auto simp: map_of_eq_None_iff image_image)

lemma abs_remove:
  assumes "distinct (map tag ls)" "x \<in> set ls"
  shows "map (\<lambda>l. (tag l, dirty_bit l)) (remove1 x ls) =
           filter (\<lambda>p. fst p \<noteq> tag x) (map (\<lambda>l. (tag l, dirty_bit l)) ls)"
  using remove1_by_key [OF assms] by (simp add: filter_map comp_def)

subsection \<open>The operations on a set\<close>

text \<open>
  What \<^verbatim>\<open>leer_cache\<close>, \<^verbatim>\<open>escribir_cache\<close> and \<^verbatim>\<open>cargar_linea_miss\<close> do to the set they work
  on, composed as the simulation composes them: a search for the tag, and on a miss the load
  of a free line or of the one evicted. The outcome is the one the metrics are computed from.
\<close>

definition tocar_set :: "char \<Rightarrow> set_t \<Rightarrow> int \<Rightarrow> int \<Rightarrow> set_t" where
  "tocar_set instr =
     (if instr = LECTURA then actualizar_ciclos_lectura else actualizar_ciclos_escritura)"

definition cargar_set ::
    "set_t \<Rightarrow> int \<Rightarrow> int \<Rightarrow> char \<Rightarrow> modo_verboso_t option \<Rightarrow> int \<times> set_t" where
  "cargar_set s tg ahora instr v =
     (case linea_no_valida s of
        Some i \<Rightarrow>
          (DESALOJO_LIMPIO,
           (modificar s i (\<lambda>l. cargar_linea (anotar v l) tg ahora instr))
             \<lparr>lineas_ocupadas := lineas_ocupadas s + 1\<rparr>)
      | None \<Rightarrow> (case desalojar_linea ahora s tg instr v 0 of (r, s, out) \<Rightarrow> (r, s)))"

definition acceso_set ::
    "set_t \<Rightarrow> int \<Rightarrow> int \<Rightarrow> char \<Rightarrow> modo_verboso_t option \<Rightarrow> resultado \<times> set_t" where
  "acceso_set s tg ahora instr v =
     (if leer_set s tg \<noteq> ERROR
      then (Acierto, tocar_set instr (modificar s (nat (leer_set s tg)) (anotar v)) tg ahora)
      else (case cargar_set s tg ahora instr v of (r, s) \<Rightarrow>
              (if r = DESALOJO_DIRTY_BIT then Sucio else Limpio, s)))"

definition costo :: "resultado \<Rightarrow> int" where
  "costo r = (case r of Acierto \<Rightarrow> 1 | Limpio \<Rightarrow> 101 | Sucio \<Rightarrow> 201)"

lemma anotar_simps [simp]:
  "tag (anotar v l) = tag l" "valido (anotar v l) = valido l" "dirty_bit (anotar v l) = dirty_bit l"
  "ultimo_ciclo_usado (anotar v l) = ultimo_ciclo_usado l" "num_linea (anotar v l) = num_linea l"
  by (simp_all add: anotar_def split: option.splits)

lemma cargar_linea_simps [simp]:
  "tag (cargar_linea l tg ahora instr) = tg" "valido (cargar_linea l tg ahora instr)"
  "dirty_bit (cargar_linea l tg ahora instr) \<longleftrightarrow> instr \<noteq> LECTURA"
  by (simp_all add: cargar_linea_def Let_def)

lemma cargar_linea_ciclo:
  "ultimo_ciclo_usado (cargar_linea l tg ahora instr) =
     ahora + (if dirty_bit l \<and> instr \<noteq> LECTURA then 201 else 101)"
  by (simp add: cargar_linea_def Let_def MISS_PENALTY_def)

lemma leer_set_spec:
  assumes w: "wf_set n ahora s"
  shows "tg \<notin> tag ` set (validas s) \<Longrightarrow> leer_set s tg = ERROR"
    and "i < ocupadas s \<Longrightarrow> tag (lineas s ! i) = tg \<Longrightarrow> leer_set s tg = int i"
proof -
  note d = wf_setD [OF w]
  show "leer_set s tg = ERROR" if "tg \<notin> tag ` set (validas s)"
  proof -
    have "\<not> (valido (lineas s ! j) \<and> tag (lineas s ! j) = tg)" if "j < n" for j
    proof (cases "j < ocupadas s")
      case True
      then have "lineas s ! j \<in> set (validas s)" using d(6) validas_nth [OF w] by (metis nth_mem)
      then show ?thesis using \<open>tg \<notin> tag ` set (validas s)\<close> by auto
    qed (use libre_linea [OF w] that in auto)
    then have "buscar_desde (\<lambda>l. valido l \<and> tag l = tg) s 0 = n"
      using buscar_desde_none [of s] d(2) by simp
    then show ?thesis by (simp add: leer_set_def d(2))
  qed
  show "leer_set s tg = int i" if i: "i < ocupadas s" "tag (lineas s ! i) = tg"
  proof -
    have "buscar_desde (\<lambda>l. valido l \<and> tag l = tg) s 0 = i"
    proof (rule buscar_desde_first)
      have "lineas s ! i \<in> set (validas s)" using i d(6) validas_nth [OF w] by (metis nth_mem)
      then show "valido (lineas s ! i) \<and> tag (lineas s ! i) = tg"
        using i validas_linea [OF w] by auto
      show "\<not> (valido (lineas s ! j) \<and> tag (lineas s ! j) = tg)" if "j < i" for j
        using distinct_map_nth_neq [OF d(7), of i j] that i d(6) validas_nth [OF w] by auto
    qed (use i d in simp)
    then show ?thesis using i d by (simp add: leer_set_def)
  qed
qed

lemma tocar_set_spec:
  assumes w: "wf_set n ahora s" and i: "i < ocupadas s" "tag (lineas s ! i) = tg"
  shows "\<exists>l'. tocar_set instr (modificar s i (anotar v)) tg ahora = s\<lparr>lineas := (lineas s)[i := l']\<rparr> \<and>
           tag l' = tg \<and> valido l' \<and> ultimo_ciclo_usado l' = ahora + 1 \<and>
           (dirty_bit l' \<longleftrightarrow> dirty_bit (lineas s ! i) \<or> instr \<noteq> LECTURA)"
proof -
  note d = wf_setD [OF w]
  let ?s = "modificar s i (anotar v)"
  have "buscar_desde (\<lambda>l. tag l = tg) ?s 0 = i"
  proof (rule buscar_desde_first)
    show "tag (lineas ?s ! j) \<noteq> tg" if "j < i" for j
      using distinct_map_nth_neq [OF d(7), of i j] that i d(6) validas_nth [OF w] by auto
  qed (use i d in simp_all)
  then have "tocar_set instr ?s tg ahora = s\<lparr>lineas := (lineas s)[i :=
      if instr = LECTURA then (anotar v (lineas s ! i))\<lparr>ultimo_ciclo_usado := ahora + 1, valido := True\<rparr>
      else (anotar v (lineas s ! i))\<lparr>ultimo_ciclo_usado := ahora + 1, dirty_bit := True, valido := True\<rparr>]\<rparr>"
    using i d by (simp add: tocar_set_def actualizar_ciclos_lectura_def actualizar_ciclos_escritura_def)
  then show ?thesis using i by - (intro exI conjI, assumption, simp_all)
qed

text \<open>
  The three cases of an access, each as an update of one line that keeps the invariant and
  does to the list of blocks what the specification says.
\<close>

lemma validas_update:
  "wf_set n ahora s \<Longrightarrow> i < ocupadas s \<Longrightarrow>
     validas (s\<lparr>lineas := (lineas s)[i := l']\<rparr>) = (validas s)[i := l']"
  by (simp add: validas_def ocupadas_def take_update_swap)

lemma wf_set_update:
  assumes w: "wf_set n ahora s" and i: "i < ocupadas s"
    and l': "valido l'" "ahora < ultimo_ciclo_usado l'" "ultimo_ciclo_usado l' \<le> ahora'"
    and tg: "tag l' = tag (lineas s ! i) \<or> tag l' \<notin> tag ` set (validas s)"
    and s': "s' = s\<lparr>lineas := (lineas s)[i := l']\<rparr>"
  shows "wf_set n ahora' s'"
    and "abs_set s' = (tag l', dirty_bit l') #
           filter (\<lambda>p. fst p \<noteq> tag (lineas s ! i)) (abs_set s)"
proof -
  note d = wf_setD [OF w]
  have v: "validas s' = (validas s)[i := l']" unfolding s' by (rule validas_update [OF w i])
  have o: "ocupadas s' = ocupadas s" by (simp add: ocupadas_def s')
  have li: "validas s ! i = lineas s ! i" "i < length (validas s)" using validas_nth [OF w i] d(6) i by simp_all
  have lt: "\<forall>l\<in>set (validas s). ultimo_ciclo_usado l < ultimo_ciclo_usado l'"
    using validas_linea [OF w] l'(2) by force
  show "wf_set n ahora' s'"
    unfolding wf_set_def
  proof (intro conjI)
    show "list_all (\<lambda>l. valido l \<and> ultimo_ciclo_usado l \<le> ahora') (validas s')"
      unfolding v list_all_iff
      using validas_linea [OF w] l' by (fastforce dest: set_update_subset_insert [THEN subsetD])
    show "list_all (\<lambda>l. \<not> valido l \<and> \<not> dirty_bit l) (drop (ocupadas s') (lineas s'))"
      using w i by (simp add: o wf_set_def) (simp add: s')
    show "distinct (map tag (validas s'))"
      unfolding v
    proof (rule distinct_update_map [OF d(7) li(2)])
      show "tag (validas s ! j) \<noteq> tag l'" if "j < length (validas s)" "j \<noteq> i" for j
        using tg distinct_map_nth_neq [OF d(7), of j i] that li by (metis imageI nth_mem)
    qed
    show "distinct (map ultimo_ciclo_usado (validas s'))"
      unfolding v
    proof (rule distinct_update_map [OF d(8) li(2)])
      show "ultimo_ciclo_usado (validas s ! j) \<noteq> ultimo_ciclo_usado l'" if "j < length (validas s)" for j
        using lt nth_mem [OF that] by fastforce
    qed
  qed (use d o in \<open>simp_all add: s'\<close>)
  have "por_uso (validas s') = l' # remove1 (lineas s ! i) (por_uso (validas s))"
    unfolding v using por_uso_touch [OF d(8) li(2) lt] li(1) by simp
  moreover have "lineas s ! i \<in> set (por_uso (validas s))" using li nth_mem by fastforce
  ultimately show "abs_set s' = (tag l', dirty_bit l') #
      filter (\<lambda>p. fst p \<noteq> tag (lineas s ! i)) (abs_set s)"
    using d(7) by (simp add: abs_set_def abs_remove)
qed

lemma wf_set_append:
  assumes w: "wf_set n ahora s" and k: "ocupadas s < n"
    and l': "valido l'" "ahora < ultimo_ciclo_usado l'" "ultimo_ciclo_usado l' \<le> ahora'"
    and tg: "tag l' \<notin> tag ` set (validas s)"
    and s': "s' = s\<lparr>lineas := (lineas s)[ocupadas s := l'], lineas_ocupadas := lineas_ocupadas s + 1\<rparr>"
  shows "wf_set n ahora' s'"
    and "abs_set s' = (tag l', dirty_bit l') # abs_set s"
proof -
  note d = wf_setD [OF w]
  have "0 \<le> lineas_ocupadas s" using w by (simp add: wf_set_def)
  then have o: "ocupadas s' = Suc (ocupadas s)" by (simp add: ocupadas_def s' Suc_nat_eq_nat_zadd1 add.commute)
  have v: "validas s' = validas s @ [l']"
    using k d(3) by (simp add: validas_def o take_Suc_conv_app_nth) (simp add: s' take_Suc_conv_app_nth)
  have lt: "\<forall>l\<in>set (validas s). ultimo_ciclo_usado l < ultimo_ciclo_usado l'"
    using validas_linea [OF w] l'(2) by force
  show "wf_set n ahora' s'"
    unfolding wf_set_def
  proof (intro conjI)
    show "list_all (\<lambda>l. valido l \<and> ultimo_ciclo_usado l \<le> ahora') (validas s')"
      unfolding v list_all_iff using validas_linea [OF w] l' by fastforce
    show "list_all (\<lambda>l. \<not> valido l \<and> \<not> dirty_bit l) (drop (ocupadas s') (lineas s'))"
    proof -
      have "drop (ocupadas s') (lineas s') = drop (Suc (ocupadas s)) (lineas s)"
        by (simp only: o) (simp add: s')
      then show ?thesis
        using w set_drop_subset_set_drop [of "ocupadas s" "Suc (ocupadas s)" "lineas s"]
        by (auto simp: wf_set_def list_all_iff)
    qed
    show "distinct (map tag (validas s'))" unfolding v using d(7) tg by auto
    show "distinct (map ultimo_ciclo_usado (validas s'))" unfolding v using d(8) lt by fastforce
  qed (use d o k in \<open>simp_all add: s'\<close>)
  show "abs_set s' = (tag l', dirty_bit l') # abs_set s"
    unfolding abs_set_def v by (simp add: por_uso_append [OF d(8) lt])
qed

lemma tag_resident:
  assumes "wf_set n ahora s" "tg \<in> tag ` set (validas s)"
  obtains i where "i < ocupadas s" "tag (lineas s ! i) = tg"
  using assms wf_setD(6) [OF assms(1)] validas_nth [OF assms(1)] by (auto simp: in_set_conv_nth)

lemma map_of_abs:
  assumes "wf_set n ahora s"
  shows "i < ocupadas s \<Longrightarrow> map_of (abs_set s) (tag (lineas s ! i)) = Some (dirty_bit (lineas s ! i))"
    and "map_of (abs_set s) tg = None \<longleftrightarrow> tg \<notin> tag ` set (validas s)"
proof -
  show "map_of (abs_set s) (tag (lineas s ! i)) = Some (dirty_bit (lineas s ! i))" if "i < ocupadas s"
    unfolding abs_set_def using wf_setD(6,7) [OF assms] validas_nth [OF assms] that
    by (intro map_of_lineas) (auto, metis nth_mem)
qed (simp add: abs_set_def map_of_lineas_None)

lemma length_abs: "wf_set n ahora s \<Longrightarrow> length (abs_set s) = ocupadas s"
  using wf_setD(6) by (simp add: abs_set_def)

lemma acierto_spec:
  assumes w: "wf_set n ahora s" and t: "tg \<in> tag ` set (validas s)"
    and a: "acceso_set s tg ahora instr v = (r, s')"
  shows "lru_acceso n tg (instr \<noteq> LECTURA) (abs_set s) = (r, abs_set s') \<and> wf_set n (ahora + costo r) s'"
proof -
  obtain i where i: "i < ocupadas s" "tag (lineas s ! i) = tg" using tag_resident [OF w t] .
  have l: "leer_set s tg = int i" by (rule leer_set_spec(2) [OF w i])
  obtain l' where l': "tocar_set instr (modificar s i (anotar v)) tg ahora = s\<lparr>lineas := (lineas s)[i := l']\<rparr>"
    "tag l' = tg" "valido l'" "ultimo_ciclo_usado l' = ahora + 1"
    "dirty_bit l' \<longleftrightarrow> dirty_bit (lineas s ! i) \<or> instr \<noteq> LECTURA"
    using tocar_set_spec [OF w i] by blast
  have r: "r = Acierto" "s' = s\<lparr>lineas := (lineas s)[i := l']\<rparr>"
    using a l l'(1) by (simp_all add: acceso_set_def ERROR_def)
  have "wf_set n (ahora + costo r) s'"
    "abs_set s' = (tag l', dirty_bit l') # filter (\<lambda>p. fst p \<noteq> tag (lineas s ! i)) (abs_set s)"
    by (rule wf_set_update [OF w i(1) l'(3) _ _ _ r(2), where ahora' = "ahora + costo r"]; use l' i r in \<open>simp add: costo_def\<close>)+
  then show ?thesis using map_of_abs(1) [OF w i(1)] i l' r by (simp add: lru_acceso_def)
qed

lemma linea_no_valida_spec:
  assumes w: "wf_set n ahora s"
  shows "linea_no_valida s = (if ocupadas s < n then Some (ocupadas s) else None)"
proof (cases "ocupadas s < n")
  case True
  have "buscar_desde (\<lambda>l. \<not> valido l) s 0 = ocupadas s"
  proof (rule buscar_desde_first)
    show "\<not> \<not> valido (lineas s ! j)" if "j < ocupadas s" for j
      using validas_linea [OF w, of "lineas s ! j"] validas_nth [OF w that] wf_setD(6) [OF w] that
      by (metis nth_mem)
  qed (use True libre_linea [OF w, of "ocupadas s"] wf_setD(2) [OF w] in simp_all)
  then show ?thesis using True wf_setD(2) [OF w] by (simp add: linea_no_valida_def)
next
  case False
  have "buscar_desde (\<lambda>l. \<not> valido l) s 0 = lineas_por_set s"
  proof (rule buscar_desde_none)
    show "\<not> \<not> valido (lineas s ! j)" if "j < lineas_por_set s" for j
      using validas_linea [OF w, of "lineas s ! j"] validas_nth [OF w, of j] wf_setD [OF w] that False
      by (metis le_antisym nth_mem not_less)
  qed
  then show ?thesis using False by (simp add: linea_no_valida_def)
qed

lemma fallo_spec:
  assumes w: "wf_set n ahora s" and t: "tg \<notin> tag ` set (validas s)"
    and a: "acceso_set s tg ahora instr v = (r, s')"
  shows "lru_acceso n tg (instr \<noteq> LECTURA) (abs_set s) = (r, abs_set s') \<and> wf_set n (ahora + costo r) s'"
proof (cases "ocupadas s < n")
  case True
  note d = wf_setD [OF w]
  let ?l' = "cargar_linea (anotar v (lineas s ! ocupadas s)) tg ahora instr"
  have r: "r = Limpio"
    "s' = s\<lparr>lineas := (lineas s)[ocupadas s := ?l'], lineas_ocupadas := lineas_ocupadas s + 1\<rparr>"
    using a True leer_set_spec(1) [OF w t] linea_no_valida_spec [OF w]
    by (simp_all add: acceso_set_def cargar_set_def DESALOJO_LIMPIO_def DESALOJO_DIRTY_BIT_def)
  have "ultimo_ciclo_usado ?l' = ahora + 101"
    using libre_linea [OF w, of "ocupadas s"] True by (simp add: cargar_linea_ciclo)
  then have "wf_set n (ahora + costo r) s'" "abs_set s' = (tag ?l', dirty_bit ?l') # abs_set s"
    by (intro wf_set_append [OF w True _ _ _ _ r(2), where ahora' = "ahora + costo r"]; simp add: r costo_def t)+
  then show ?thesis
    using map_of_abs(2) [OF w, of tg] t True length_abs [OF w] r by (simp add: lru_acceso_def)
next
  case False
  note d = wf_setD [OF w]
  let ?p = "buscar_desalojo s 0 1"
  let ?x = "lineas s ! ?p"
  let ?l' = "cargar_linea (anotar v ?x) tg ahora instr"
  have full: "ocupadas s = n" using False d(4) by simp
  then have all: "validas s = lineas s" using d(3) by (simp add: validas_def)
  have p: "?p < n" "\<forall>j<n. ultimo_ciclo_usado ?x \<le> ultimo_ciclo_usado (lineas s ! j)"
    using buscar_desalojo_spec [of 0 1 s] d(1,2) by auto
  have r: "r = (if dirty_bit ?x then Sucio else Limpio)" "s' = s\<lparr>lineas := (lineas s)[?p := ?l']\<rparr>"
    using a False leer_set_spec(1) [OF w t] linea_no_valida_spec [OF w]
    by (simp_all add: acceso_set_def cargar_set_def desalojar_linea_def Let_def DESALOJO_LIMPIO_def
        DESALOJO_DIRTY_BIT_def split: if_splits)
  have c: "ahora < ultimo_ciclo_usado ?l'" "ultimo_ciclo_usado ?l' \<le> ahora + costo r"
    using r by (simp_all add: cargar_linea_ciclo costo_def)
  have 1: "wf_set n (ahora + costo r) s'"
    "abs_set s' = (tag ?l', dirty_bit ?l') # filter (\<lambda>p. fst p \<noteq> tag ?x) (abs_set s)"
    by (rule wf_set_update [OF w _ _ c _ r(2)]; use t full p in simp)+
  have x: "?x \<in> set (validas s)" using p d(3) all nth_mem by metis
  have u: "por_uso (validas s) = remove1 ?x (por_uso (validas s)) @ [?x]"
    using p(2) d(3) by (intro por_uso_last [OF d(8) x]) (auto simp: all in_set_conv_nth)
  have A: "abs_set s = map (\<lambda>l. (tag l, dirty_bit l)) (remove1 ?x (por_uso (validas s))) @
      [(tag ?x, dirty_bit ?x)]"
    using arg_cong [OF u, where f = "map (\<lambda>l. (tag l, dirty_bit l))"]
    by (simp only: abs_set_def map_append list.map)
  have B: "map (\<lambda>l. (tag l, dirty_bit l)) (remove1 ?x (por_uso (validas s))) =
      filter (\<lambda>p. fst p \<noteq> tag ?x) (abs_set s)"
    unfolding abs_set_def using d(7) x by (intro abs_remove) simp_all
  note 2 = A [unfolded B]
  have "last (abs_set s) = (tag ?x, dirty_bit ?x)" "butlast (abs_set s) = filter (\<lambda>p. fst p \<noteq> tag ?x) (abs_set s)"
    using arg_cong [OF 2, where f = last] arg_cong [OF 2, where f = butlast] by simp_all
  then show ?thesis
    using 1 map_of_abs(2) [OF w, of tg] t False length_abs [OF w] r(1) by (simp add: lru_acceso_def)
qed

lemma acceso_set_spec:
  assumes "wf_set n ahora s" "acceso_set s tg ahora instr v = (r, s')"
  shows "lru_acceso n tg (instr \<noteq> LECTURA) (abs_set s) = (r, abs_set s')"
    and "wf_set n (ahora + costo r) s'"
  using acierto_spec [OF assms(1) _ assms(2)] fallo_spec [OF assms(1) _ assms(2)] by blast+

end
