(* ===== verification/Cachesim_Sim.thy ===== *)
theory Cachesim_Sim
  imports Cachesim_Set
begin

text \<open>
  The simulation: every access of a trace, in any of the two modes, is one step of an
  LRU list per set, and the cycle count and the metrics are those of the steps' outcomes.
\<close>

subsection \<open>One access of the cache\<close>

definition wf_cache :: "nat \<Rightarrow> nat \<Rightarrow> nat \<Rightarrow> cache_t \<Rightarrow> bool" where
  "wf_cache s b n c \<longleftrightarrow> s + b < 32 \<and> cantidad_sets c = 2 ^ s \<and> tamanio_bloque c = 2 ^ b \<and>
     length (sets c) = 2 ^ s \<and> list_all (wf_set n (ciclos c)) (sets c)"

text \<open>The set and the tag of an address, and the outcome as the program passes it to the metrics.\<close>

definition nset_de :: "nat \<Rightarrow> nat \<Rightarrow> u32 \<Rightarrow> nat" where
  "nset_de s b d = nat (uint d div 2 ^ b mod 2 ^ s)"

definition tag_de :: "nat \<Rightarrow> nat \<Rightarrow> u32 \<Rightarrow> int" where
  "tag_de s b d = to_int32 (uint d div 2 ^ (s + b))"

definition desalojo_de :: "resultado \<Rightarrow> int" where
  "desalojo_de r = (case r of Acierto \<Rightarrow> 0 | Limpio \<Rightarrow> DESALOJO_LIMPIO | Sucio \<Rightarrow> DESALOJO_DIRTY_BIT)"

definition codigo :: "resultado \<Rightarrow> arg" where
  "codigo r = (case r of Acierto \<Rightarrow> I VERBOSO_HIT | Limpio \<Rightarrow> S VERBOSO_MISS_CLEAN | Sucio \<Rightarrow> S VERBOSO_MISS_DIRTY)"

lemma nset_lt: "nset_de s b d < 2 ^ s"
proof -
  have "uint d div 2 ^ b mod 2 ^ s < 2 ^ s" "0 \<le> uint d div 2 ^ b mod 2 ^ s" by simp_all
  then show ?thesis unfolding nset_de_def by (simp add: nat_less_iff)
qed

lemma nset_split:
  assumes "wf_cache s b n c"
  shows "calcular_set_y_tag c d (tamanio_bloque c) = Some (int (nset_de s b d), tag_de s b d)"
proof -
  have "0 \<le> uint d div 2 ^ b mod 2 ^ s" by simp
  then show ?thesis
    using assms split_power [of c s b d] by (simp add: wf_cache_def nset_de_def tag_de_def)
qed

text \<open>The cache after an access that took the set \<open>i\<close> to \<open>st\<close> with outcome \<open>r\<close>.\<close>

definition tras_acceso :: "cache_t \<Rightarrow> nat \<Rightarrow> set_t \<Rightarrow> char \<Rightarrow> resultado \<Rightarrow> cache_t" where
  "tras_acceso c i st instr r =
     c\<lparr>sets := (sets c)[i := st], ciclos := ciclos c + costo r,
       metricas := actualizar_metricas (metricas c) instr (r = Acierto) (desalojo_de r) (tamanio_bloque c)\<rparr>"

lemma leer_escribir:
  "(if instr = LECTURA then leer_cache c d v else escribir_cache c d v) = do {
     (nset, tg) \<leftarrow> calcular_set_y_tag c d (tamanio_bloque c);
     s \<leftarrow> elem (sets c) nset;
     if leer_set s tg \<noteq> ERROR then do {
       l \<leftarrow> elem (lineas s) (leer_set s tg);
       Some (True, c\<lparr>sets := (sets c)[nat nset :=
               tocar_set instr (modificar s (nat (leer_set s tg)) (anotar v)) tg (ciclos c)]\<rparr>,
             imprimir v (\<lambda>v. imprimir_hit v nset tg (leer_set s tg) l))
     } else Some (False, c, [])
   }"
  unfolding leer_cache_def escribir_cache_def tocar_set_def Let_def by (cases "instr = LECTURA") simp_all

lemma acceder_acierto:
  assumes c: "calcular_set_y_tag c d (tamanio_bloque c) = Some (int i, tg)" "i < length (sets c)"
    and t: "direccion_accedida t = d" "instruccion t = instr"
    and hit: "leer_set (sets c ! i) tg = int j" "j < length (lineas (sets c ! i))"
  shows "acceder c t v = Some
     (tras_acceso c i (tocar_set instr (modificar (sets c ! i) j (anotar v)) tg (ciclos c)) instr Acierto,
      imprimir v (\<lambda>v. imprimir_hit v (int i) tg (int j) (lineas (sets c ! i) ! j)))"
proof -
  have l: "(if instr = LECTURA then leer_cache c d v else escribir_cache c d v) =
      Some (True, c\<lparr>sets := (sets c)[i := tocar_set instr (modificar (sets c ! i) j (anotar v)) tg (ciclos c)]\<rparr>,
        imprimir v (\<lambda>v. imprimir_hit v (int i) tg (int j) (lineas (sets c ! i) ! j)))"
    unfolding leer_escribir using c hit by (simp add: ERROR_def)
  show ?thesis
    unfolding acceder_def t l by (simp add: tras_acceso_def costo_def desalojo_de_def)
qed

lemma acceder_fallo:
  assumes c: "calcular_set_y_tag c d (tamanio_bloque c) = Some (int i, tg)" "i < length (sets c)"
    and t: "direccion_accedida t = d" "instruccion t = instr"
    and miss: "leer_set (sets c ! i) tg = ERROR"
    and load: "cargar_set (sets c ! i) tg (ciclos c) instr v = (r, st)"
      "r = DESALOJO_LIMPIO \<or> r = DESALOJO_DIRTY_BIT"
  shows "\<exists>out. acceder c t v = Some
     (tras_acceso c i st instr (if r = DESALOJO_DIRTY_BIT then Sucio else Limpio), out) \<and>
     map (take 2) out = imprimir v (\<lambda>v. [I (operacion_actual v), codigo (if r = DESALOJO_DIRTY_BIT then Sucio else Limpio)])"
proof -
  have l: "(if instr = LECTURA then leer_cache c d v else escribir_cache c d v) = Some (False, c, [])"
    unfolding leer_escribir using c miss by simp
  have "\<exists>out. cargar_linea_miss c d instr v = Some (r, c\<lparr>sets := (sets c)[i := st]\<rparr>, out) \<and>
     map (take 2) out = imprimir v (\<lambda>v. [I (operacion_actual v), codigo (if r = DESALOJO_DIRTY_BIT then Sucio else Limpio)])"
    using c load(1)
    by (auto simp: cargar_linea_miss_def cargar_set_def desalojar_linea_def Let_def imprimir_def
        codigo_def imprimir_miss_limpio_def imprimir_miss_desalojo_def VERBOSO_MISS_CLEAN_def
        DESALOJO_LIMPIO_def DESALOJO_DIRTY_BIT_def split: option.splits if_splits)
  then show ?thesis
    unfolding acceder_def t l using load(2)
    by (auto simp: tras_acceso_def costo_def desalojo_de_def MISS_PENALTY_def
        DESALOJO_LIMPIO_def DESALOJO_DIRTY_BIT_def split: if_splits)
qed

lemma cargar_set_resultado:
  "cargar_set s tg ahora instr v = (r, st) \<Longrightarrow> r = DESALOJO_LIMPIO \<or> r = DESALOJO_DIRTY_BIT"
  by (auto simp: cargar_set_def desalojar_linea_def Let_def split: option.splits if_splits)

lemma acceder_paso:
  assumes w: "wf_cache s b n c"
    and i: "i = nset_de s b (direccion_accedida t)" and tg: "tg = tag_de s b (direccion_accedida t)"
    and a: "acceso_set (sets c ! i) tg (ciclos c) (instruccion t) v = (r, st)"
  shows "\<exists>out. acceder c t v = Some (tras_acceso c i st (instruccion t) r, out) \<and>
           map (take 2) out = imprimir v (\<lambda>v. [I (operacion_actual v), codigo r])"
proof -
  have c: "calcular_set_y_tag c (direccion_accedida t) (tamanio_bloque c) = Some (int i, tg)"
    using nset_split [OF w] i tg by simp
  have il: "i < length (sets c)" using w nset_lt i by (simp add: wf_cache_def)
  have ws: "wf_set n (ciclos c) (sets c ! i)"
    using w il by (simp add: wf_cache_def list_all_length)
  show ?thesis
  proof (cases "tg \<in> tag ` set (validas (sets c ! i))")
    case True
    obtain j where j: "j < ocupadas (sets c ! i)" "tag (lineas (sets c ! i) ! j) = tg"
      using tag_resident [OF ws True] .
    have l: "leer_set (sets c ! i) tg = int j" by (rule leer_set_spec(2) [OF ws j])
    have jl: "j < length (lineas (sets c ! i))" using j(1) wf_setD(3,4) [OF ws] by simp
    have "r = Acierto" "st = tocar_set (instruccion t) (modificar (sets c ! i) j (anotar v)) tg (ciclos c)"
      using a l by (simp_all add: acceso_set_def ERROR_def)
    then show ?thesis
      using acceder_acierto [OF c il refl refl l jl, of v]
      by (auto simp: imprimir_def imprimir_hit_def codigo_def split: option.splits)
  next
    case False
    have l: "leer_set (sets c ! i) tg = ERROR" by (rule leer_set_spec(1) [OF ws False])
    obtain r' where r': "cargar_set (sets c ! i) tg (ciclos c) (instruccion t) v = (r', st)"
      "r = (if r' = DESALOJO_DIRTY_BIT then Sucio else Limpio)"
      using a l by (auto simp: acceso_set_def split: prod.splits)
    show ?thesis
      using acceder_fallo [OF c il refl refl l r'(1) cargar_set_resultado [OF r'(1)]] r'(2) by simp
  qed
qed

lemma costo_pos: "0 < costo r" by (simp add: costo_def split: resultado.split)

lemma wf_cache_tras:
  assumes w: "wf_cache s b n c" and i: "i = nset_de s b d" and st: "wf_set n (ciclos c + costo r) st"
  shows "wf_cache s b n (tras_acceso c i st instr r)"
proof -
  have "wf_set n (ciclos c + costo r) x" if "x \<in> set ((sets c)[i := st])" for x
  proof -
    have "x = st \<or> wf_set n (ciclos c) x"
      using that w by (auto simp: wf_cache_def list_all_iff dest: set_update_subset_insert [THEN subsetD])
    then show ?thesis using st wf_set_later [of n "ciclos c" x] costo_pos [of r] by fastforce
  qed
  then show ?thesis using w by (simp add: wf_cache_def tras_acceso_def list_all_iff)
qed

subsection \<open>The abstract cache\<close>

text \<open>
  The specification of the whole simulator: one list of blocks per set, and for each access
  its outcome.
\<close>

type_synonym bloques_cache = "bloques_lru list"

definition abs_cache :: "cache_t \<Rightarrow> bloques_cache" where
  "abs_cache c = map abs_set (sets c)"

definition lru_paso :: "nat \<Rightarrow> nat \<Rightarrow> nat \<Rightarrow> bloques_cache \<Rightarrow> traza_t \<Rightarrow> resultado \<times> bloques_cache" where
  "lru_paso s b n bs t =
     (let i = nset_de s b (direccion_accedida t)
      in case lru_acceso n (tag_de s b (direccion_accedida t)) (instruccion t \<noteq> LECTURA) (bs ! i) of
           (r, xs) \<Rightarrow> (r, bs[i := xs]))"

primrec lru_corrida :: "nat \<Rightarrow> nat \<Rightarrow> nat \<Rightarrow> bloques_cache \<Rightarrow> traza_t list \<Rightarrow> resultado list \<times> bloques_cache" where
  "lru_corrida s b n bs [] = ([], bs)"
| "lru_corrida s b n bs (t # ts) =
     (case lru_paso s b n bs t of (r, bs) \<Rightarrow>
        case lru_corrida s b n bs ts of (rs, bs) \<Rightarrow> (r # rs, bs))"

definition metricas_corrida :: "metricas_t \<Rightarrow> int \<Rightarrow> (traza_t \<times> resultado) list \<Rightarrow> metricas_t" where
  "metricas_corrida = (\<lambda>m bloque. foldl (\<lambda>m (t, r).
     actualizar_metricas m (instruccion t) (r = Acierto) (desalojo_de r) bloque) m)"

text \<open>One step of the program is one step of the specification.\<close>

lemma acceder_refines:
  assumes w: "wf_cache s b n c" and p: "lru_paso s b n (abs_cache c) t = (r, bs')"
  shows "\<exists>c' out. acceder c t v = Some (c', out) \<and> wf_cache s b n c' \<and> abs_cache c' = bs' \<and>
           ciclos c' = ciclos c + costo r \<and>
           metricas c' = metricas_corrida (metricas c) (2 ^ b) [(t, r)] \<and>
           map (take 2) out = imprimir v (\<lambda>v. [I (operacion_actual v), codigo r])"
proof -
  let ?i = "nset_de s b (direccion_accedida t)" and ?tg = "tag_de s b (direccion_accedida t)"
  have il: "?i < length (sets c)" using w nset_lt by (simp add: wf_cache_def)
  have ws: "wf_set n (ciclos c) (sets c ! ?i)"
    using w il by (simp add: wf_cache_def list_all_length)
  obtain r' st where a: "acceso_set (sets c ! ?i) ?tg (ciclos c) (instruccion t) v = (r', st)" by force
  note s = acceso_set_spec [OF ws a]
  have r: "r = r'" "bs' = (abs_cache c)[?i := abs_set st]"
    using p s(1) il by (simp_all add: lru_paso_def Let_def abs_cache_def)
  have "wf_cache s b n (tras_acceso c ?i st (instruccion t) r)"
    by (rule wf_cache_tras [OF w refl]) (use s(2) r in simp)
  moreover have "abs_cache (tras_acceso c ?i st (instruccion t) r) = bs'"
    using r(2) by (simp add: abs_cache_def tras_acceso_def map_update)
  ultimately show ?thesis
    using acceder_paso [OF w refl refl a] w r(1)
    by (auto simp: tras_acceso_def metricas_corrida_def wf_cache_def)
qed

lemma metricas_corrida_Cons:
  "metricas_corrida m bloque (x # xs) = metricas_corrida (metricas_corrida m bloque [x]) bloque xs"
  by (simp add: metricas_corrida_def)

definition costo_corrida :: "resultado list \<Rightarrow> int" where
  "costo_corrida rs = sum_list (map costo rs)"

lemma simular_refines:
  assumes "wf_cache s b n c" "lru_corrida s b n (abs_cache c) ts = (rs, bs')"
  shows "\<exists>c'. simular_cache_simple c ts = Some c' \<and> wf_cache s b n c' \<and> abs_cache c' = bs' \<and>
           ciclos c' = ciclos c + costo_corrida rs \<and>
           metricas c' = metricas_corrida (metricas c) (2 ^ b) (zip ts rs)"
  using assms
proof (induction ts arbitrary: c rs)
  case (Cons t ts)
  obtain r bs where p: "lru_paso s b n (abs_cache c) t = (r, bs)" by force
  obtain rs' where rs: "lru_corrida s b n bs ts = (rs', bs')" "rs = r # rs'"
    using Cons.prems(2) p by (auto split: prod.splits)
  obtain c1 out where c1: "acceder c t None = Some (c1, out)" "wf_cache s b n c1" "abs_cache c1 = bs"
    "ciclos c1 = ciclos c + costo r" "metricas c1 = metricas_corrida (metricas c) (2 ^ b) [(t, r)]"
    using acceder_refines [OF Cons.prems(1) p, of None] by blast
  from Cons.IH [OF c1(2)] rs(1) c1(3) show ?case
    using c1 rs(2) by (auto simp: costo_corrida_def) (subst metricas_corrida_Cons, simp)
qed (simp_all add: metricas_corrida_def costo_corrida_def)

text \<open>The numbers of the operations that verbose mode reports, with the outcome of each.\<close>

definition informe :: "int \<Rightarrow> int \<Rightarrow> int \<Rightarrow> resultado list \<Rightarrow> arg list list" where
  "informe actual primera ultima rs =
     map (\<lambda>(k, r). [I k, codigo r])
       (filter (\<lambda>(k, r). primera \<le> k \<and> k \<le> ultima) (zip (map (\<lambda>j. actual + int j) [0..<length rs]) rs))"

lemma informe_Cons:
  "informe k p u (r # rs) = (if p \<le> k \<and> k \<le> u then [[I k, codigo r]] else []) @ informe (k + 1) p u rs"
proof -
  have "map (\<lambda>j. k + int j) [0..<length (r # rs)] = k # map (\<lambda>j. k + 1 + int j) [0..<length rs]"
    by (simp add: upt_conv_Cons map_Suc_upt [symmetric] add.assoc del: upt_Suc)
  then show ?thesis by (simp add: informe_def)
qed

lemma verboso_refines:
  assumes "wf_cache s b n c" "lru_corrida s b n (abs_cache c) ts = (rs, bs')"
  shows "\<exists>c' out. verboso_loop c v p u ts = Some (c', out) \<and> wf_cache s b n c' \<and> abs_cache c' = bs' \<and>
           ciclos c' = ciclos c + costo_corrida rs \<and>
           metricas c' = metricas_corrida (metricas c) (2 ^ b) (zip ts rs) \<and>
           map (take 2) out = informe (operacion_actual v) p u rs"
  using assms
proof (induction ts arbitrary: c rs v)
  case (Cons t ts)
  obtain r bs where st: "lru_paso s b n (abs_cache c) t = (r, bs)" by force
  obtain rs' where rs: "lru_corrida s b n bs ts = (rs', bs')" "rs = r # rs'"
    using Cons.prems(2) st by (auto split: prod.splits)
  let ?v = "if rango_verboso (operacion_actual v) p u then Some v else None"
  obtain c1 out where c1: "acceder c t ?v = Some (c1, out)" "wf_cache s b n c1" "abs_cache c1 = bs"
    "ciclos c1 = ciclos c + costo r" "metricas c1 = metricas_corrida (metricas c) (2 ^ b) [(t, r)]"
    "map (take 2) out = imprimir ?v (\<lambda>v. [I (operacion_actual v), codigo r])"
    using acceder_refines [OF Cons.prems(1) st, of ?v] by blast
  obtain c2 out' where c2: "verboso_loop c1 (v\<lparr>operacion_actual := operacion_actual v + 1\<rparr>) p u ts = Some (c2, out')"
    "wf_cache s b n c2" "abs_cache c2 = bs'" "ciclos c2 = ciclos c1 + costo_corrida rs'"
    "metricas c2 = metricas_corrida (metricas c1) (2 ^ b) (zip ts rs')"
    "map (take 2) out' = informe (operacion_actual v + 1) p u rs'"
    using Cons.IH [OF c1(2), of rs' "v\<lparr>operacion_actual := operacion_actual v + 1\<rparr>"] rs(1) c1(3) by auto
  have "metricas c2 = metricas_corrida (metricas c) (2 ^ b) (zip (t # ts) rs)"
    by (simp only: rs(2) c2(5) c1(5) zip_Cons_Cons) (rule metricas_corrida_Cons [symmetric])
  moreover have "map (take 2) (out @ out') = informe (operacion_actual v) p u rs"
    using c1(6) c2(6) rs(2) by (simp add: informe_Cons imprimir_def rango_verboso_def)
  moreover have "verboso_loop c v p u (t # ts) = Some (c2, out @ out')" using c1(1) c2(1) by simp
  moreover have "ciclos c2 = ciclos c + costo_corrida rs"
    using c1(4) c2(4) rs(2) by (simp add: costo_corrida_def)
  ultimately show ?case using c2(2,3) by blast
qed (simp_all add: metricas_corrida_def costo_corrida_def informe_def)

subsection \<open>The metrics\<close>

text \<open>What every counter holds after a run, as a count over the accesses and their outcomes.\<close>

definition cuenta :: "(char \<Rightarrow> resultado \<Rightarrow> bool) \<Rightarrow> (traza_t \<times> resultado) list \<Rightarrow> int" where
  "cuenta P xs = int (length (filter (\<lambda>(t, r). P (instruccion t) r) xs))"

lemma cuenta_simps [simp]:
  "cuenta P [] = 0"
  "cuenta P ((t, r) # xs) = (if P (instruccion t) r then 1 else 0) + cuenta P xs"
  by (simp_all add: cuenta_def)

lemma cuenta_bounds: "0 \<le> cuenta P xs" "cuenta P xs \<le> int (length xs)"
  by (simp_all add: cuenta_def)

definition es_r :: "char \<Rightarrow> bool" where "es_r i \<longleftrightarrow> i = LECTURA"

definition metricas_de :: "metricas_t \<Rightarrow> int \<Rightarrow> (traza_t \<times> resultado) list \<Rightarrow> metricas_t" where
  "metricas_de m bloque xs = m
     \<lparr>lecturas := lecturas m + cuenta (\<lambda>i r. es_r i) xs,
      escrituras := escrituras m + cuenta (\<lambda>i r. \<not> es_r i) xs,
      misses_read := misses_read m + cuenta (\<lambda>i r. es_r i \<and> r \<noteq> Acierto) xs,
      misses_write := misses_write m + cuenta (\<lambda>i r. \<not> es_r i \<and> r \<noteq> Acierto) xs,
      dirty_read_miss := dirty_read_miss m + cuenta (\<lambda>i r. es_r i \<and> r = Sucio) xs,
      dirty_write_miss := dirty_write_miss m + cuenta (\<lambda>i r. \<not> es_r i \<and> r = Sucio) xs,
      bytes_read := bytes_read m + bloque * cuenta (\<lambda>i r. r \<noteq> Acierto) xs,
      bytes_written := bytes_written m + bloque * cuenta (\<lambda>i r. r = Sucio) xs,
      ciclos_lecturas := ciclos_lecturas m + cuenta (\<lambda>i r. es_r i) xs
        + 100 * (cuenta (\<lambda>i r. es_r i \<and> r \<noteq> Acierto) xs + cuenta (\<lambda>i r. es_r i \<and> r = Sucio) xs),
      ciclos_escrituras := ciclos_escrituras m + cuenta (\<lambda>i r. \<not> es_r i) xs
        + 100 * (cuenta (\<lambda>i r. \<not> es_r i \<and> r \<noteq> Acierto) xs + cuenta (\<lambda>i r. \<not> es_r i \<and> r = Sucio) xs)\<rparr>"

lemma metricas_paso:
  "metricas_corrida m bloque [(t, r)] = metricas_de m bloque [(t, r)]"
  by (cases r) (simp_all add: metricas_corrida_def metricas_de_def actualizar_metricas_def Let_def es_r_def
      desalojo_de_def DESALOJO_LIMPIO_def DESALOJO_DIRTY_BIT_def MISS_PENALTY_def)

lemma metricas_de_Cons:
  "metricas_de (metricas_de m bloque [(t, r)]) bloque xs = metricas_de m bloque ((t, r) # xs)"
  by (simp add: metricas_de_def algebra_simps)

lemma metricas_corrida_eq: "metricas_corrida m bloque xs = metricas_de m bloque xs"
proof (induction xs arbitrary: m)
  case Nil
  then show ?case by (simp add: metricas_corrida_def metricas_de_def)
next
  case (Cons x xs)
  obtain t r where "x = (t, r)" by force
  then show ?case
    using Cons by (subst metricas_corrida_Cons) (simp only: metricas_paso metricas_de_Cons)
qed

lemma cuenta_split:
  "cuenta (\<lambda>i r. es_r i \<and> P i r) xs + cuenta (\<lambda>i r. \<not> es_r i \<and> P i r) xs = cuenta P xs"
  by (induction xs) auto

lemma costo_corrida_cuenta:
  "length ts = length rs \<Longrightarrow> costo_corrida rs = int (length rs)
     + 100 * (cuenta (\<lambda>i r. r \<noteq> Acierto) (zip ts rs) + cuenta (\<lambda>i r. r = Sucio) (zip ts rs))"
  by (induction ts rs rule: list_induct2)
    (simp_all add: costo_corrida_def costo_def split: resultado.split)

lemma length_corrida: "lru_corrida s b n bs ts = (rs, bs') \<Longrightarrow> length rs = length ts"
  by (induction ts arbitrary: bs rs) (auto split: prod.splits)

end
