(* ===== verification/Cachesim_LRU.thy ===== *)
theory Cachesim_LRU
  imports Cachesim_Sim
begin

text \<open>
  What least-recently-used replacement guarantees: a block stays in its set until as many
  other blocks of the set as there are ways have been used after it. Stated once for any
  implementation of the LRU list, and applied to the sets and to the whole simulator.
\<close>

subsection \<open>Lists in order of use\<close>

definition bien :: "nat \<Rightarrow> bloques_lru \<Rightarrow> bool" where
  "bien n xs \<longleftrightarrow> distinct (map fst xs) \<and> length xs \<le> n"

text \<open>The block \<open>tg\<close> is resident and the ones used after it are among \<open>A\<close>.\<close>

definition protegido :: "nat \<Rightarrow> int set \<Rightarrow> int \<Rightarrow> bloques_lru \<Rightarrow> bool" where
  "protegido n A tg xs \<longleftrightarrow> bien n xs \<and> (\<exists>pre d post. xs = pre @ (tg, d) # post \<and> fst ` set pre \<subseteq> A)"

lemma lru_casos:
  "map_of xs t = Some d \<Longrightarrow> lru_acceso n t w xs = (Acierto, (t, d \<or> w) # filter (\<lambda>x. fst x \<noteq> t) xs)"
  "map_of xs t = None \<Longrightarrow> length xs < n \<Longrightarrow> lru_acceso n t w xs = (Limpio, (t, w) # xs)"
  "map_of xs t = None \<Longrightarrow> \<not> length xs < n \<Longrightarrow>
     lru_acceso n t w xs = (if snd (last xs) then Sucio else Limpio, (t, w) # butlast xs)"
  by (simp_all add: lru_acceso_def)

lemma bien_acceso:
  assumes "0 < n" "bien n xs" "lru_acceso n t w xs = (r, ys)"
  shows "bien n ys" and "\<exists>d zs. ys = (t, d) # zs"
proof -
  consider (hit) d where "map_of xs t = Some d" | (room) "map_of xs t = None" "length xs < n"
    | (full) "map_of xs t = None" "\<not> length xs < n"
    by (cases "map_of xs t") auto
  then have "bien n ys \<and> (\<exists>d zs. ys = (t, d) # zs)"
  proof cases
    case hit
    then have "(t, d) \<in> set xs" by (rule map_of_SomeD)
    then have "length (filter (\<lambda>x. fst x \<noteq> t) xs) < length xs"
      by (intro length_filter_less) auto
    then show ?thesis using assms lru_casos(1) [OF hit, of n w]
      by (auto simp: bien_def distinct_map_filter)
  next
    case room
    then show ?thesis using assms lru_casos(2) [OF room, of w]
      by (auto simp: bien_def map_of_eq_None_iff)
  next
    case full
    have "distinct (map fst (butlast xs))"
      using assms(2) by (simp add: bien_def map_butlast distinct_butlast)
    moreover have "t \<notin> fst ` set (butlast xs)"
      using full(1) by (auto simp: map_of_eq_None_iff dest: in_set_butlastD)
    ultimately show ?thesis using assms lru_casos(3) [OF full, of w] by (auto simp: bien_def)
  qed
  then show "bien n ys" "\<exists>d zs. ys = (t, d) # zs" by simp_all
qed

lemma protegido_nuevo:
  "0 < n \<Longrightarrow> bien n xs \<Longrightarrow> lru_acceso n tg w xs = (r, ys) \<Longrightarrow> protegido n A tg ys"
  using bien_acceso [of n xs tg w r ys] by (force simp: protegido_def)

lemma protegido_acierto:
  assumes "protegido n A tg xs"
  shows "fst (lru_acceso n tg w xs) = Acierto"
proof -
  have "map_of xs tg \<noteq> None" using assms by (auto simp: protegido_def map_of_eq_None_iff)
  then show ?thesis by (auto simp: lru_acceso_def)
qed

lemma protegido_paso:
  assumes "0 < n" and p: "protegido n A tg xs" and a: "lru_acceso n t w xs = (r, ys)"
    and A: "finite A" "t = tg \<or> card (insert t A) < n"
  shows "protegido n (if t = tg then A else insert t A) tg ys"
proof (cases "t = tg")
  case True
  then show ?thesis using protegido_nuevo [of n xs tg w r ys A] assms by (simp add: protegido_def)
next
  case False
  obtain pre d post where xs: "xs = pre @ (tg, d) # post" "fst ` set pre \<subseteq> A"
    using p by (auto simp: protegido_def)
  have b: "bien n xs" using p by (simp add: protegido_def)
  have "\<exists>pre' d post'. ys = pre' @ (tg, d) # post' \<and> fst ` set pre' \<subseteq> insert t A"
  proof (cases "map_of xs t")
    case (Some e)
    then have "ys = ((t, e \<or> w) # filter (\<lambda>x. fst x \<noteq> t) pre) @ (tg, d) # filter (\<lambda>x. fst x \<noteq> t) post"
      using a False lru_casos(1) [OF Some, of n w] by (simp add: xs(1))
    moreover have "fst ` set ((t, e \<or> w) # filter (\<lambda>x. fst x \<noteq> t) pre) \<subseteq> insert t A" using xs(2) by auto
    ultimately show ?thesis by blast
  next
    case None
    show ?thesis
    proof (cases "length xs < n")
      case True
      then have "ys = ((t, w) # pre) @ (tg, d) # post"
        using a lru_casos(2) [OF None True, of w] by (simp add: xs(1))
      moreover have "fst ` set ((t, w) # pre) \<subseteq> insert t A" using xs(2) by auto
      ultimately show ?thesis by blast
    next
      case full: False
      have "post \<noteq> []"
      proof
        assume "post = []"
        then have "distinct (map fst pre)" "n = Suc (length pre)" "t \<notin> fst ` set pre"
          using b full None by (auto simp: bien_def xs(1) map_of_eq_None_iff)
        then have "card (fst ` set pre) = n - 1" "t \<notin> fst ` set pre" "finite (fst ` set pre)"
          using distinct_card [of "map fst pre"] by simp_all
        then have "card (insert t (fst ` set pre)) = n" using assms(1) by simp
        moreover have "card (insert t (fst ` set pre)) \<le> card (insert t A)"
          using A(1) xs(2) by (intro card_mono) auto
        ultimately show False using A(2) False by simp
      qed
      then have "ys = ((t, w) # pre) @ (tg, d) # butlast post"
        using a lru_casos(3) [OF None full, of w] by (simp add: xs(1) butlast_append)
      moreover have "fst ` set ((t, w) # pre) \<subseteq> insert t A" using xs(2) by auto
      ultimately show ?thesis by blast
    qed
  qed
  then show ?thesis using bien_acceso(1) [OF assms(1) b a] False by (simp add: protegido_def)
qed

subsection \<open>The interface of an LRU set\<close>

text \<open>
  Any representation \<open>'s\<close> of a set with \<open>n\<close> ways whose access refines the list. The
  environment \<open>'e\<close> is what else an access depends on.
\<close>

locale lru_set =
  fixes n :: nat
    and acc :: "'e \<Rightarrow> 's \<Rightarrow> int \<Rightarrow> bool \<Rightarrow> resultado \<times> 's"
    and inv :: "'s \<Rightarrow> bool"
    and bloques_de :: "'s \<Rightarrow> bloques_lru"
  assumes ways: "0 < n"
    and acc_refines: "inv st \<Longrightarrow> acc e st tg w = (r, st') \<Longrightarrow>
          lru_acceso n tg w (bloques_de st) = (r, bloques_de st') \<and> inv st'"
    and inv_bien: "inv st \<Longrightarrow> bien n (bloques_de st)"
begin

lemma run_protected:
  assumes "inv st" "protegido n A tg (bloques_de st)" "finite A"
    and "card (A \<union> ((\<lambda>(e, t, w). t) ` set as - {tg})) < n"
  shows "protegido n (A \<union> ((\<lambda>(e, t, w). t) ` set as - {tg})) tg
           (bloques_de (foldl (\<lambda>st (e, t, w). snd (acc e st t w)) st as)) \<and>
         inv (foldl (\<lambda>st (e, t, w). snd (acc e st t w)) st as)"
  using assms
proof (induction as arbitrary: st A)
  case (Cons a as)
  obtain e t w where a: "a = (e, t, w)" by (cases a)
  obtain r st' where s: "acc e st t w = (r, st')" by force
  let ?B = "if t = tg then A else insert t A"
  let ?T = "(\<lambda>(e, t, w). t) ` set as - {tg}"
  have eq: "A \<union> ((\<lambda>(e, t, w). t) ` set (a # as) - {tg}) = ?B \<union> ?T" by (auto simp: a)
  have fin: "finite (?B \<union> ?T)" using Cons.prems(3) by auto
  have "card (insert t A) < n" if "t \<noteq> tg"
  proof -
    have "card (insert t A) \<le> card (?B \<union> ?T)" using that by (intro card_mono [OF fin]) auto
    then show ?thesis using Cons.prems(4) eq by simp
  qed
  then have "protegido n ?B tg (bloques_de st')"
    using acc_refines [OF Cons.prems(1) s] Cons.prems(2,3)
    by (intro protegido_paso [OF ways, of A tg "bloques_de st" t w r]) auto
  moreover have "inv st'" using acc_refines [OF Cons.prems(1) s] by simp
  ultimately show ?case
    using Cons.IH [of st' ?B] Cons.prems(3,4) eq by (simp add: a s)
qed simp

lemma reuse_hits:
  assumes "inv st" "acc e st tg w = (r, st1)"
    and "card ((\<lambda>(e, t, w). t) ` set as - {tg}) < n"
  shows "fst (acc e' (foldl (\<lambda>st (e, t, w). snd (acc e st t w)) st1 as) tg w') = Acierto"
proof -
  let ?st2 = "foldl (\<lambda>st (e, t, w). snd (acc e st t w)) st1 as"
  have "protegido n {} tg (bloques_de st1)" "inv st1"
    using acc_refines [OF assms(1,2)] inv_bien [OF assms(1)] by (auto intro: protegido_nuevo [OF ways])
  then have p: "protegido n ((\<lambda>(e, t, w). t) ` set as - {tg}) tg (bloques_de ?st2)" "inv ?st2"
    using run_protected [of st1 "{}" tg as] assms(3) by auto
  obtain r2 st3 where a: "acc e' ?st2 tg w' = (r2, st3)" by force
  show ?thesis
    using acc_refines [OF p(2) a] protegido_acierto [OF p(1), of w'] a by simp
qed

end

text \<open>
  The sets of the simulator. The state is the set and the time; before an access some time
  passes while other sets are in use, and the access may be reported or not.
\<close>

definition acceso_con_reloj ::
    "nat \<times> modo_verboso_t option \<Rightarrow> set_t \<times> int \<Rightarrow> int \<Rightarrow> bool \<Rightarrow> resultado \<times> set_t \<times> int" where
  "acceso_con_reloj = (\<lambda>(espera, v) (st, ahora) tg escribe.
     case acceso_set st tg (ahora + int espera) (if escribe then CHR ''W'' else LECTURA) v of
       (r, st') \<Rightarrow> (r, st', ahora + int espera + costo r))"

lemma abs_set_bien: "wf_set n ahora st \<Longrightarrow> bien n (abs_set st)"
  using wf_setD [of n ahora st] length_abs [of n ahora st]
  by (simp add: bien_def abs_set_def comp_def)

interpretation lru: lru_set "Suc k" acceso_con_reloj "\<lambda>(st, ahora). wf_set (Suc k) ahora st"
  "\<lambda>(st, ahora). abs_set st" for k
proof
  fix st :: "set_t \<times> int" and e :: "nat \<times> modo_verboso_t option" and tg w r st'
  assume w: "case st of (st, ahora) \<Rightarrow> wf_set (Suc k) ahora st"
    and a: "acceso_con_reloj e st tg w = (r, st')"
  obtain s ahora d v s' where eq: "st = (s, ahora)" "e = (d, v)"
    "acceso_set s tg (ahora + int d) (if w then CHR ''W'' else LECTURA) v = (r, s')"
    "st' = (s', ahora + int d + costo r)"
    using a by (auto simp: acceso_con_reloj_def split: prod.splits)
  have ws: "wf_set (Suc k) (ahora + int d) s" using w eq(1) by (auto intro: wf_set_later)
  show "lru_acceso (Suc k) tg w (case st of (st, ahora) \<Rightarrow> abs_set st) =
      (r, case st' of (st, ahora) \<Rightarrow> abs_set st) \<and> (case st' of (st, ahora) \<Rightarrow> wf_set (Suc k) ahora st)"
    using acceso_set_spec [OF ws eq(3)] eq by (auto simp: LECTURA_def split: if_splits)
next
  show "bien (Suc k) (case st of (st, ahora) \<Rightarrow> abs_set st)"
    if "case st of (st, ahora) \<Rightarrow> wf_set (Suc k) ahora st" for st
    using that by (auto intro: abs_set_bien)
qed simp

text \<open>
  Inside a set. With \<open>k + 1\<close> ways, an access to a block after accesses to at most \<open>k\<close> other
  blocks of the set since its last use is a hit, whatever time passes in between and whether
  accesses are reads or writes, reported or not.
\<close>

theorem reuso_en_set:
  assumes "wf_set (Suc k) ahora st" "acceso_con_reloj e (st, ahora) tg w = (r, x)"
    and "card ((\<lambda>(e, t, w). t) ` set as - {tg}) < Suc k"
  shows "fst (acceso_con_reloj e'
           (foldl (\<lambda>x (e, t, w). snd (acceso_con_reloj e x t w)) x as) tg w') = Acierto"
  using lru.reuse_hits [of k "(st, ahora)" e tg w r x as e' w'] assms by simp

definition set_ejemplo :: set_t where
  "set_ejemplo = \<lparr>lineas = lineas_nuevas 2, lineas_por_set = 2, lineas_ocupadas = 0\<rparr>"

lemma set_ejemplo_wf: "wf_set 2 0 set_ejemplo"
  by (simp add: wf_set_def set_ejemplo_def ocupadas_def validas_def lineas_nuevas_def linea_cero_def
      upt_rec)

lemma reuso_en_set_witness:
  "fst (acceso_con_reloj (0, None)
     (foldl (\<lambda>x (e, t, w). snd (acceso_con_reloj e x t w))
        (snd (acceso_con_reloj (0, None) (set_ejemplo, 0) 5 False)) [((3, None), 8, True), ((1, None), 8, False)])
     5 True) = Acierto"
proof -
  obtain r x where e: "acceso_con_reloj (0, None) (set_ejemplo, 0) 5 False = (r, x)"
    using surj_pair by metis
  have "wf_set (Suc 1) 0 set_ejemplo" using set_ejemplo_wf by (simp add: numeral_2_eq_2)
  from reuso_en_set [OF this e, of "[((3, None), 8, True), ((1, None), 8, False)]" "(0, None)" True]
  show ?thesis by (simp add: e)
qed

subsection \<open>The whole cache\<close>

lemma corrida_protegido:
  assumes "0 < n" "i < length bs" "protegido n A tg (bs ! i)" "finite A"
    and "lru_corrida s b n bs ts = (rs, bs')"
    and "card (A \<union> ({tag_de s b (direccion_accedida t) | t. t \<in> set ts \<and>
           nset_de s b (direccion_accedida t) = i} - {tg})) < n"
  shows "protegido n (A \<union> ({tag_de s b (direccion_accedida t) | t. t \<in> set ts \<and>
           nset_de s b (direccion_accedida t) = i} - {tg})) tg (bs' ! i) \<and> length bs' = length bs"
  using assms
proof (induction ts arbitrary: bs A rs)
  case (Cons t ts)
  let ?d = "direccion_accedida t"
  let ?T = "\<lambda>ts. {tag_de s b (direccion_accedida t) | t. t \<in> set ts \<and>
           nset_de s b (direccion_accedida t) = i} - {tg}"
  obtain r bs1 where p: "lru_paso s b n bs t = (r, bs1)" by force
  obtain rs' where run: "lru_corrida s b n bs1 ts = (rs', bs')"
    using Cons.prems(5) p by (auto split: prod.splits)
  have fin: "finite (A \<union> ?T (t # ts))" using Cons.prems(4) by simp
  have len: "length bs1 = length bs" using p by (auto simp: lru_paso_def Let_def split: prod.splits)
  define B where "B = (if nset_de s b ?d = i \<and> tag_de s b ?d \<noteq> tg then insert (tag_de s b ?d) A else A)"
  have eq: "A \<union> ?T (t # ts) = B \<union> ?T ts" by (auto simp: B_def)
  have "protegido n B tg (bs1 ! i)"
  proof (cases "nset_de s b ?d = i")
    case True
    obtain ys where a: "lru_acceso n (tag_de s b ?d) (instruccion t \<noteq> LECTURA) (bs ! i) = (r, ys)"
      "bs1 ! i = ys" using p True Cons.prems(2) by (auto simp: lru_paso_def Let_def split: prod.splits)
    have "card (insert (tag_de s b ?d) A) < n" if "tag_de s b ?d \<noteq> tg"
    proof -
      have "insert (tag_de s b ?d) A \<subseteq> A \<union> ?T (t # ts)" using that True by auto
      then have "card (insert (tag_de s b ?d) A) \<le> card (A \<union> ?T (t # ts))" by (rule card_mono [OF fin])
      then show ?thesis using Cons.prems(6) by simp
    qed
    then have "protegido n (if tag_de s b ?d = tg then A else insert (tag_de s b ?d) A) tg ys"
      by (intro protegido_paso [OF Cons.prems(1,3) a(1) Cons.prems(4)]) blast
    then show ?thesis using True a(2) by (simp add: B_def split: if_splits)
  next
    case False
    then show ?thesis using p Cons.prems(3) by (auto simp: lru_paso_def Let_def B_def split: prod.splits)
  qed
  moreover have "finite B" using Cons.prems(4) by (simp add: B_def)
  ultimately show ?case
    using Cons.IH [OF Cons.prems(1), of bs1 B rs'] Cons.prems(2,6) len run unfolding eq by simp
qed simp

lemma wf_cache_ways: "wf_cache s b n c \<Longrightarrow> 0 < n"
proof -
  assume w: "wf_cache s b n c"
  then have "sets c \<noteq> []" by (auto simp: wf_cache_def)
  then obtain st where "st \<in> set (sets c)" by (meson list.set_sel(1))
  then show ?thesis using w wf_setD(1) by (force simp: wf_cache_def list_all_iff)
qed

text \<open>
  C13. Locality in the simulated cache. After an access to an address and any accesses to
  fewer than \<open>n\<close> other blocks of its set (and to any blocks of other sets), an access to the
  same block, in any mode, is a hit: one cycle, and no miss counted.
\<close>

theorem bloque_reusado_acierta:
  assumes w: "wf_cache s b n c" and run: "simular_cache_simple c (t1 # mid) = Some c1"
    and same: "uint (direccion_accedida t2) div 2 ^ b = uint (direccion_accedida t1) div 2 ^ b"
    and few: "card ({tag_de s b (direccion_accedida t) | t. t \<in> set mid \<and>
            nset_de s b (direccion_accedida t) = nset_de s b (direccion_accedida t1)}
          - {tag_de s b (direccion_accedida t1)}) < n"
  shows "\<exists>c2 out. acceder c1 t2 v = Some (c2, out) \<and> ciclos c2 = ciclos c1 + 1 \<and>
           misses_read (metricas c2) = misses_read (metricas c1) \<and>
           misses_write (metricas c2) = misses_write (metricas c1)"
proof -
  let ?i = "nset_de s b (direccion_accedida t1)" and ?tg = "tag_de s b (direccion_accedida t1)"
  have n: "0 < n" by (rule wf_cache_ways [OF w])
  obtain rs bs' where r: "lru_corrida s b n (abs_cache c) (t1 # mid) = (rs, bs')" by force
  obtain c' where c': "simular_cache_simple c (t1 # mid) = Some c'" "wf_cache s b n c'" "abs_cache c' = bs'"
    using simular_refines [OF w r] by blast
  then have c1: "wf_cache s b n c1" "abs_cache c1 = bs'" using run by simp_all
  obtain r1 bs1 where p: "lru_paso s b n (abs_cache c) t1 = (r1, bs1)" by force
  obtain rs1 where run1: "lru_corrida s b n bs1 mid = (rs1, bs')" using r p by (auto split: prod.splits)
  have il: "?i < length (sets c)" using w nset_lt by (simp add: wf_cache_def)
  obtain ys where ys: "lru_acceso n ?tg (instruccion t1 \<noteq> LECTURA) (abs_cache c ! ?i) = (r1, ys)"
    "bs1 = (abs_cache c)[?i := ys]"
    using p by (auto simp: lru_paso_def Let_def split: prod.splits)
  have "wf_set n (ciclos c) (sets c ! ?i)" using w il by (simp add: wf_cache_def list_all_length)
  then have "bien n (abs_cache c ! ?i)" using abs_set_bien il by (simp add: abs_cache_def)
  then have "protegido n {} ?tg ys" by (rule protegido_nuevo [OF n _ ys(1)])
  then have "protegido n {} ?tg (bs1 ! ?i)" using ys(2) il by (simp add: abs_cache_def)
  then have prot: "\<exists>A. protegido n A ?tg (bs' ! ?i)"
    using corrida_protegido [OF n _ _ finite.emptyI run1, of ?i ?tg] few ys(2) il
    by (auto simp: abs_cache_def)
  have idx: "nset_de s b (direccion_accedida t2) = ?i" "tag_de s b (direccion_accedida t2) = ?tg"
    using same by (simp_all add: nset_de_def tag_de_def power_add zdiv_zmult2_eq mult.commute [of "2 ^ s"])
  obtain r2 bs2 where p2: "lru_paso s b n (abs_cache c1) t2 = (r2, bs2)" by force
  then have "r2 = Acierto"
    using prot protegido_acierto [of n _ ?tg "bs' ! ?i" "instruccion t2 \<noteq> LECTURA"] idx c1(2)
    by (auto simp: lru_paso_def Let_def split: prod.splits)
  with acceder_refines [OF c1(1) p2, of v] show ?thesis
    by (auto simp: costo_def metricas_paso metricas_de_def)
qed

definition cache_ejemplo :: cache_t where
  "cache_ejemplo = \<lparr>metricas = metricas_cero, sets = [set_ejemplo, set_ejemplo], cantidad_sets = 2,
     tamanio_bloque = 16, tamanio_cache = 64, ciclos = 0\<rparr>"

definition acceso_ejemplo :: "char \<Rightarrow> u32 \<Rightarrow> traza_t" where
  "acceso_ejemplo i d = \<lparr>instruction_pointer = 0, direccion_accedida = d, datos_leidos = 0,
     instruccion = i, cant_de_bytes = 4\<rparr>"

lemma cache_ejemplo_wf: "wf_cache 1 4 2 cache_ejemplo"
  using set_ejemplo_wf by (simp add: wf_cache_def cache_ejemplo_def)

lemma bloque_reusado_acierta_witness:
  "\<exists>c1 c2 out. simular_cache_simple cache_ejemplo [acceso_ejemplo CHR ''W'' 0, acceso_ejemplo CHR ''R'' 64] = Some c1 \<and>
     acceder c1 (acceso_ejemplo CHR ''R'' 4) None = Some (c2, out) \<and> ciclos c2 = ciclos c1 + 1"
proof -
  obtain c1 where c1: "simular_cache_simple cache_ejemplo
      [acceso_ejemplo CHR ''W'' 0, acceso_ejemplo CHR ''R'' 64] = Some c1"
    using simular_refines [OF cache_ejemplo_wf] by (metis surj_pair)
  have "card ({tag_de 1 4 (direccion_accedida t) | t. t \<in> set [acceso_ejemplo CHR ''R'' 64] \<and>
      nset_de 1 4 (direccion_accedida t) = nset_de 1 4 (direccion_accedida (acceso_ejemplo CHR ''W'' 0))}
      - {tag_de 1 4 (direccion_accedida (acceso_ejemplo CHR ''W'' 0))}) \<le> card {tag_de 1 4 64}"
    by (intro card_mono) (auto simp: acceso_ejemplo_def)
  then show ?thesis
    using bloque_reusado_acierta [OF cache_ejemplo_wf c1, of "acceso_ejemplo CHR ''R'' 4" None] c1
    by (auto simp: acceso_ejemplo_def)
qed

end
