(* ===== verification/Cachesim_Main.thy ===== *)
theory Cachesim_Main
  imports Cachesim_LRU
begin

text \<open>
  The properties of the whole program: memory, metrics, verbose mode and \<^verbatim>\<open>main\<close>.
\<close>

subsection \<open>Memory\<close>

lemma lineas_nuevas_length [simp]: "length (lineas_nuevas a) = a"
  by (simp add: lineas_nuevas_def)

lemma lineas_nuevas_nonempty [simp]: "lineas_nuevas a = [] \<longleftrightarrow> a = 0"
  by (metis length_0_conv lineas_nuevas_length)

lemma llenar_sets_spec:
  assumes "llenar_sets ok a i ss m = (f, k, ss', m')" "i \<le> length ss"
  shows "i \<le> k \<and> k \<le> length ss \<and> (f \<longleftrightarrow> k = length ss) \<and> length ss' = length ss \<and>
    (\<forall>j<length ss. ss' ! j = (if i \<le> j \<and> j < k then (ss ! j)\<lparr>lineas := lineas_nuevas a\<rparr> else ss ! j)) \<and>
    bloques m' = bloques m + int (k - i) \<and> ((\<forall>q. ok q) \<longrightarrow> f)"
  using assms
proof (induction ok a i ss m rule: llenar_sets.induct)
  case (1 ok a i ss m)
  show ?case
  proof (cases "i < length ss \<and> ok (llamadas m)")
    case True
    let ?ss = "ss[i := (ss ! i)\<lparr>lineas := lineas_nuevas a\<rparr>]"
    let ?m = "snd (calloc ok m)"
    have rec: "llenar_sets ok a (Suc i) ?ss ?m = (f, k, ss', m')"
      using 1(2) True by (subst (asm) llenar_sets.simps) (simp add: calloc_def)
    have
      "Suc i \<le> k \<and> k \<le> length ?ss \<and> (f \<longleftrightarrow> k = length ?ss) \<and> length ss' = length ?ss \<and>
       (\<forall>j<length ?ss. ss' ! j = (if Suc i \<le> j \<and> j < k then (?ss ! j)\<lparr>lineas := lineas_nuevas a\<rparr> else ?ss ! j)) \<and>
       bloques m' = bloques ?m + int (k - Suc i) \<and> ((\<forall>q. ok q) \<longrightarrow> f)"
      by (rule 1(1) [OF _ _ _ rec, of True]) (use True in \<open>simp_all add: calloc_def\<close>)
    moreover have "bloques ?m = bloques m + 1" using True by (simp add: calloc_def)
    ultimately show ?thesis using True by (elim conjE, intro conjI) (auto simp: nth_list_update)
  next
    case False
    then show ?thesis using 1(2) [unfolded llenar_sets.simps [of ok a i ss m]] 1(3)
      by (auto simp: calloc_def split: if_splits)
  qed
qed

lemma bloques_free_lineas [simp]:
  "bloques (free_lineas s m) = bloques m - (if lineas s = [] then 0 else 1)"
  by (simp add: free_lineas_def free_def)

lemma liberar_hasta_bloques:
  "(\<forall>j<k. lineas (ss ! j) \<noteq> []) \<Longrightarrow>
     bloques (liberar_hasta ss k m) = bloques m - int k - (if lineas (ss ! k) = [] then 0 else 1)"
  by (induction k arbitrary: m) auto

lemma fold_free_bloques:
  "(\<forall>s\<in>set ss. lineas s \<noteq> []) \<Longrightarrow> bloques (fold free_lineas ss m) = bloques m - int (length ss)"
  by (induction ss arbitrary: m) auto

lemma crear_sets_spec:
  assumes "crear_sets ok a n m = (p, m')" "0 < a"
  shows "p = None \<Longrightarrow> bloques m' = bloques m"
    and "p = Some ss \<Longrightarrow> bloques m' = bloques m + 1 + int n \<and>
           ss = replicate n \<lparr>lineas = lineas_nuevas a, lineas_por_set = a, lineas_ocupadas = 0\<rparr>"
    and "(\<forall>q. ok q) \<Longrightarrow> p \<noteq> None"
proof -
  let ?ss = "replicate n (set_cero\<lparr>lineas_por_set := a\<rparr>)" and ?m = "snd (calloc ok m)"
  obtain f k ss' m1 where l: "llenar_sets ok a 0 ?ss ?m = (f, k, ss', m1)" by (metis surj_pair)
  note sp = llenar_sets_spec [OF l]
  have "bloques ?m = bloques m + (if ok (llamadas m) then 1 else 0)" by (simp add: calloc_def)
  moreover have "bloques (liberar_hasta ss' k m1) = bloques m1 - int k" if "\<not> f"
  proof -
    have "lineas (ss' ! k) = []" "\<forall>j<k. lineas (ss' ! j) \<noteq> []"
      using sp that assms(2) by (auto simp: set_cero_def)
    then show ?thesis by (simp add: liberar_hasta_bloques)
  qed
  moreover have "ss' = replicate n \<lparr>lineas = lineas_nuevas a, lineas_por_set = a, lineas_ocupadas = 0\<rparr>" if f
    using sp that by (intro nth_equalityI) (auto simp: set_cero_def)
  ultimately show "p = None \<Longrightarrow> bloques m' = bloques m"
    "p = Some ss \<Longrightarrow> bloques m' = bloques m + 1 + int n \<and>
       ss = replicate n \<lparr>lineas = lineas_nuevas a, lineas_por_set = a, lineas_ocupadas = 0\<rparr>"
    "(\<forall>q. ok q) \<Longrightarrow> p \<noteq> None"
    using assms(1) l sp
    by (auto simp: crear_sets_def calloc_def Let_def free_def split: if_splits)
qed

definition set_vacio :: "nat \<Rightarrow> set_t" where
  "set_vacio a = \<lparr>lineas = lineas_nuevas a, lineas_por_set = a, lineas_ocupadas = 0\<rparr>"

lemma set_vacio_wf: "0 < a \<Longrightarrow> wf_set a 0 (set_vacio a)"
  by (simp add: wf_set_def set_vacio_def ocupadas_def validas_def list_all_iff lineas_nuevas_def linea_cero_def)

lemma set_vacio_abs: "abs_set (set_vacio a) = []"
  by (simp add: abs_set_def por_uso_def set_vacio_def validas_def ocupadas_def)

text \<open>
  A failed allocation is not repaired completely. When \<^verbatim>\<open>crear_sets\<close> cannot get its memory it
  frees all it had taken, but \<^verbatim>\<open>crear_cache\<close> then returns \<^verbatim>\<open>NULL\<close> without freeing the cache
  itself: one block is lost, unless it was that first allocation that failed.
\<close>

theorem crear_cache_fuga:
  assumes "crear_cache ok t a n m = Some (None, m')" "0 < a"
  shows "bloques m' = bloques m + (if ok (llamadas m) then 1 else 0)"
proof (cases "ok (llamadas m)")
  case True
  let ?m = "snd (calloc ok m)"
  have "crear_sets ok (nat a) (nat n) ?m = (None, m')"
    using assms(1) True by (auto simp: crear_cache_def calloc_def split: bind_splits if_splits prod.splits option.splits)
  then have "bloques m' = bloques ?m" using crear_sets_spec(1) assms(2) by simp
  then show ?thesis using True by (simp add: calloc_def)
qed (use assms(1) in \<open>auto simp: crear_cache_def calloc_def\<close>)

lemma crear_cache_fuga_witness:
  "\<exists>m'. crear_cache (\<lambda>k. k < 2) 1024 2 4 \<lparr>llamadas = 0, bloques = 0\<rparr> = Some (None, m') \<and> bloques m' = 1"
proof -
  have "\<exists>m'. crear_cache (\<lambda>k. k < 2) 1024 2 4 \<lparr>llamadas = 0, bloques = 0\<rparr> = Some (None, m')"
    by (simp add: crear_cache_def calloc_def crear_sets_def llenar_sets.simps c_mul_def in_int_def
        int_min_def int_max_def Let_def numeral_eq_Suc)
  then show ?thesis using crear_cache_fuga by fastforce
qed

lemma crear_cache_spec:
  assumes "j + k \<le> i" "i < 31" "\<And>q. ok q"
  shows "\<exists>c m'. crear_cache ok (2 ^ i) (2 ^ j) (2 ^ k) m = Some (Some c, m') \<and>
           wf_cache k (i - (j + k)) (2 ^ j) c \<and> abs_cache c = replicate (2 ^ k) [] \<and>
           metricas c = metricas_cero \<and> ciclos c = 0 \<and> tamanio_cache c = 2 ^ i \<and>
           sets c = replicate (2 ^ k) (set_vacio (2 ^ j)) \<and>
           bloques m' = bloques m + 2 + 2 ^ k"
proof -
  obtain m0 where m0: "calloc ok m = (True, m0)" "bloques m0 = bloques m + 1"
    using assms(3) by (simp add: calloc_def)
  have prod: "c_mul (2 ^ j) (2 ^ k) = Some (2 ^ (j + k))"
    using assms(1,2) power2_in_int [of "j + k"] by (simp add: c_mul_def power_add)
  have q: "c_quot (2 ^ i) (2 ^ (j + k)) = 2 ^ (i - (j + k))" using assms(1) by (simp add: power_diff)
  have "in_int (2 ^ (i - (j + k)))" using assms(2) power2_in_int [of "i - (j + k)"] by simp
  then have b: "to_int32 (c_quot (2 ^ i) (2 ^ (j + k))) = 2 ^ (i - (j + k))" unfolding q by simp
  obtain p m' where s: "crear_sets ok (2 ^ j) (2 ^ k) m0 = (p, m')" by force
  have "p \<noteq> None" using crear_sets_spec(3) [OF s] assms(3) by simp
  then obtain ss where ss: "p = Some ss" by blast
  have sp: "bloques m' = bloques m0 + 1 + 2 ^ k" "ss = replicate (2 ^ k) (set_vacio (2 ^ j))"
    using crear_sets_spec(2) [OF s _ ss] by (simp_all add: set_vacio_def)
  define c where "c = \<lparr>metricas = metricas_cero, sets = ss, cantidad_sets = 2 ^ k,
    tamanio_bloque = 2 ^ (i - (j + k)), tamanio_cache = 2 ^ i, ciclos = 0\<rparr>"
  have "crear_cache ok (2 ^ i) (2 ^ j) (2 ^ k) m = Some (Some c, m')"
    using s ss m0(1) by (simp add: crear_cache_def prod b nat_power_eq c_def del: c_quot_nonneg)
  moreover have "wf_cache k (i - (j + k)) (2 ^ j) c"
    using assms(1,2) set_vacio_wf [of "2 ^ j"] by (simp add: wf_cache_def c_def sp(2) list_all_iff)
  moreover have "bloques m' = bloques m + 2 + 2 ^ k"
    using sp(1) m0(2) by simp
  ultimately show ?thesis
    by (intro exI [of _ c] exI [of _ m']) (simp add: c_def sp(2) abs_cache_def set_vacio_abs)
qed

lemma cache_destruir_bloques:
  assumes w: "wf_cache s b n c"
  shows "bloques (cache_destruir c m) = bloques m - 2 ^ s - 2"
proof -
  have "nat (cantidad_sets c) = length (sets c)" using w by (simp add: wf_cache_def nat_power_eq)
  moreover have "\<forall>st\<in>set (sets c). lineas st \<noteq> []"
    using w wf_setD(1,3) by (fastforce simp: wf_cache_def list_all_iff)
  moreover have "length (sets c) = 2 ^ s" using w by (simp add: wf_cache_def)
  ultimately show ?thesis by (simp add: cache_destruir_def free_def fold_free_bloques)
qed

subsection \<open>Simulation\<close>

text \<open>
  C10. The simulator refines the LRU specification. Run on a trace from a well-formed cache, the
  simple mode never leaves its arrays, ends in a well-formed cache whose sets hold the blocks
  of the specification in the specified order with the specified dirty flags, advances
  the clock by 1, 101 or 201 cycles per access as the outcome was a hit, a miss or a miss that
  writes a line back, and leaves in every metric the count its name promises.
\<close>

theorem simular_cache_simple_correct:
  assumes "wf_cache s b n c" "lru_corrida s b n (abs_cache c) ts = (rs, bs')"
  shows "\<exists>c'. simular_cache_simple c ts = Some c' \<and> wf_cache s b n c' \<and> abs_cache c' = bs' \<and>
           ciclos c' = ciclos c + costo_corrida rs \<and>
           metricas c' = metricas_de (metricas c) (2 ^ b) (zip ts rs)"
  using simular_refines [OF assms] unfolding metricas_corrida_eq .

lemma simular_cache_simple_correct_witness:
  "\<exists>c'. simular_cache_simple cache_ejemplo [acceso_ejemplo CHR ''W'' 0] = Some c' \<and>
     abs_cache c' = [[(0, True)], []] \<and> ciclos c' = 101"
proof -
  have e: "abs_cache cache_ejemplo = [[], []]"
    by (simp add: abs_cache_def cache_ejemplo_def set_ejemplo_def abs_set_def por_uso_def validas_def
        ocupadas_def)
  have "lru_corrida 1 4 2 (abs_cache cache_ejemplo) [acceso_ejemplo CHR ''W'' 0] =
      ([Limpio], [[(0, True)], []])"
    by (simp add: e lru_paso_def nset_de_def tag_de_def acceso_ejemplo_def lru_acceso_def to_int32_def
        LECTURA_def)
  from simular_cache_simple_correct [OF cache_ejemplo_wf this] show ?thesis
    by (auto simp: costo_corrida_def costo_def cache_ejemplo_def)
qed

text \<open>
  Verbose mode changes nothing but the output: from the same cache, it ends with the same
  blocks, the same clock and the same metrics as simple mode, and it prints one line for each
  access whose number lies between the two limits, in order, starting with that number and the
  code of the outcome (1 for a hit, 2a for a miss, 2b for a miss that writes a line back).
\<close>

theorem simular_cache_modo_verboso_correct:
  assumes "wf_cache s b n c" "lru_corrida s b n (abs_cache c) ts = (rs, bs')" "ok (llamadas m)"
  shows "\<exists>c1 c2 out m'. simular_cache_modo_verboso ok c ts p u m = Some (c1, out, m') \<and>
           simular_cache_simple c ts = Some c2 \<and> abs_cache c1 = abs_cache c2 \<and>
           ciclos c1 = ciclos c2 \<and> metricas c1 = metricas c2 \<and>
           map (take 2) out = informe 0 p u rs \<and> bloques m' = bloques m"
proof -
  have "sets c \<noteq> []" using assms(1) by (auto simp: wf_cache_def)
  then have z: "at (sets c) 0 = Some (sets c ! 0)" by simp
  let ?v = "modo_verboso_cero\<lparr>mapeo_directo := (lineas_por_set (sets c ! 0) = 1)\<rparr>"
  have "operacion_actual ?v = 0" by (simp add: modo_verboso_cero_def)
  then obtain c1 out where 1: "verboso_loop c ?v p u ts = Some (c1, out)" "abs_cache c1 = bs'"
    "ciclos c1 = ciclos c + costo_corrida rs"
    "metricas c1 = metricas_corrida (metricas c) (2 ^ b) (zip ts rs)" "map (take 2) out = informe 0 p u rs"
    using verboso_refines [OF assms(1,2), of ?v p u] by metis
  obtain c2 where 2: "simular_cache_simple c ts = Some c2" "abs_cache c2 = bs'"
    "ciclos c2 = ciclos c + costo_corrida rs"
    "metricas c2 = metricas_corrida (metricas c) (2 ^ b) (zip ts rs)"
    using simular_refines [OF assms(1,2)] by blast
  have "simular_cache_modo_verboso ok c ts p u m =
      Some (c1, out, free (m\<lparr>llamadas := llamadas m + 1, bloques := bloques m + 1\<rparr>))"
    using z 1(1) assms(3) by (simp add: simular_cache_modo_verboso_def crear_modo_verboso_def calloc_def)
  then show ?thesis using 1 2 by (simp add: free_def)
qed

lemma simular_cache_modo_verboso_correct_witness:
  "\<exists>c1 out m'. simular_cache_modo_verboso (\<lambda>_. True) cache_ejemplo
     [acceso_ejemplo CHR ''R'' 0, acceso_ejemplo CHR ''R'' 3] 0 5 \<lparr>llamadas = 3, bloques = 4\<rparr> = Some (c1, out, m') \<and>
     map (take 2) out = [[I 0, S ''2a''], [I 1, I 1]]"
proof -
  have e: "abs_cache cache_ejemplo = [[], []]"
    by (simp add: abs_cache_def cache_ejemplo_def set_ejemplo_def abs_set_def por_uso_def validas_def
        ocupadas_def)
  have "lru_corrida 1 4 2 (abs_cache cache_ejemplo) [acceso_ejemplo CHR ''R'' 0, acceso_ejemplo CHR ''R'' 3] =
      ([Limpio, Acierto], [[(0, False)], []])"
    by (simp add: e lru_paso_def nset_de_def tag_de_def acceso_ejemplo_def lru_acceso_def to_int32_def
        LECTURA_def)
  from simular_cache_modo_verboso_correct [OF cache_ejemplo_wf this,
      of "\<lambda>_. True" "\<lparr>llamadas = 3, bloques = 4\<rparr>" 0 5] show ?thesis
    by (auto simp: informe_def codigo_def VERBOSO_HIT_def VERBOSO_MISS_CLEAN_def upt_rec)
qed

subsection \<open>\<^verbatim>\<open>main\<close>\<close>

text \<open>The report, from the parameters and the metrics.\<close>

definition informe_metricas :: "int \<Rightarrow> nat \<Rightarrow> int \<Rightarrow> metricas_t \<Rightarrow> salida" where
  "informe_metricas tam vias nsets m =
     [(if vias = 1 then [S ''direct-mapped, ''] else [I (int vias), S ''-way, '']),
      [I nsets, S '' sets, size = '', I (tam div 1024), S ''KB''],
      [S ''loads '', I (lecturas m), S '' stores '', I (escrituras m), S '' total '', I (lecturas m + escrituras m)],
      [S ''rmiss '', I (misses_read m), S '' wmiss '', I (misses_write m), S '' total '',
       I (misses_read m + misses_write m)],
      [S ''dirty rmiss '', I (dirty_read_miss m), S '' dirty wmiss '', I (dirty_write_miss m)],
      [S ''bytes read '', I (bytes_read m), S '' bytes written '', I (bytes_written m)],
      [S ''read time '', I (ciclos_lecturas m), S '' write time '', I (ciclos_escrituras m)],
      [S ''miss rate '', D (misses_read m + misses_write m) (lecturas m + escrituras m)]]"

lemma acceder_tamanio: "acceder c t v = Some (c1, out) \<Longrightarrow> tamanio_cache c1 = tamanio_cache c"
  by (auto simp: acceder_def leer_cache_def escribir_cache_def cargar_linea_miss_def Let_def
      split: bind_splits if_splits prod.splits option.splits)

lemma simular_tamanios:
  "simular_cache_simple c ts = Some c' \<Longrightarrow> tamanio_cache c' = tamanio_cache c"
proof (induction ts arbitrary: c)
  case (Cons t ts)
  then show ?case using acceder_tamanio by (fastforce split: bind_splits)
qed simp

lemma verboso_tamanio:
  "verboso_loop c v p u ts = Some (c', out) \<Longrightarrow> tamanio_cache c' = tamanio_cache c"
proof (induction ts arbitrary: c v out)
  case (Cons t ts)
  then show ?case using acceder_tamanio by (fastforce split: bind_splits)
qed simp

lemma mostrar_metricas_wf:
  assumes "wf_cache s b n c" "tamanio_cache c = 2 ^ i"
  shows "\<exists>c'. mostrar_metricas c = Some (c', informe_metricas (2 ^ i) n (2 ^ s) (metricas c)) \<and>
           wf_cache s b n c'"
proof -
  have "sets c \<noteq> []" using assms(1) by (auto simp: wf_cache_def)
  then have "at (sets c) 0 = Some (sets c ! 0)" "sets c ! 0 \<in> set (sets c)" by simp_all
  moreover from this have "lineas_por_set (sets c ! 0) = n"
    using assms(1) wf_setD(2) by (fastforce simp: wf_cache_def list_all_iff)
  ultimately show ?thesis
    using assms by (simp add: mostrar_metricas_def Let_def informe_metricas_def wf_cache_def)
qed

text \<open>
  C12. The program. Called with the file of a trace (its numbers written with the prefix \<open>0x\<close> or without)
  and power-of-two sizes that fit, and enough memory, the program exits with 0, prints the report whose numbers are the counts of the LRU
  specification run on the trace from an empty cache, and has freed all its memory.
\<close>

theorem cachesim_main_correct:
  assumes "length argv = 5"
    and "atol (argv ! 2) = Some t" "atoi (argv ! 3) = Some a" "atoi (argv ! 4) = Some n"
    and "t = 2 ^ i" "a = 2 ^ j" "n = 2 ^ k" "j + k \<le> i" "i < 31" "\<forall>q. ok q"
    and "pre = [] \<or> pre = ''0x''" "list_all traza_escribible ts"
    and "lru_corrida k (i - (j + k)) (2 ^ j) (replicate (2 ^ k) []) ts = (rs, bs')"
  shows "\<exists>m. cachesim_main argv (Some (texto_trazas pre ts)) traza ok =
           Some (0, informe_metricas t (2 ^ j) n (metricas_de metricas_cero (2 ^ (i - (j + k))) (zip ts rs)), m) \<and>
           bloques m = 0"
proof -
  note par = parametros_potencias [OF assms(5-9)]
  obtain c m where c: "crear_cache ok t a n \<lparr>llamadas = 0, bloques = 0\<rparr> = Some (Some c, m)"
    "wf_cache k (i - (j + k)) (2 ^ j) c" "abs_cache c = replicate (2 ^ k) []" "metricas c = metricas_cero"
    "tamanio_cache c = 2 ^ i" "bloques m = 2 + 2 ^ k"
    using crear_cache_spec [OF assms(8,9), of ok "\<lparr>llamadas = 0, bloques = 0\<rparr>"] assms(5-7,10) by auto
  obtain c' where c': "simular_cache_simple c ts = Some c'" "wf_cache k (i - (j + k)) (2 ^ j) c'"
    "metricas c' = metricas_de metricas_cero (2 ^ (i - (j + k))) (zip ts rs)"
    using simular_refines [OF c(2), of ts rs bs'] assms(13) c(3,4) by (auto simp: metricas_corrida_eq)
  have "tamanio_cache c' = 2 ^ i" using simular_tamanios [OF c'(1)] c(5) by simp
  from mostrar_metricas_wf [OF c'(2) this] obtain c'' where c'':
    "mostrar_metricas c' = Some (c'', informe_metricas t (2 ^ j) n (metricas c'))"
    "wf_cache k (i - (j + k)) (2 ^ j) c''" using assms(5,7) by blast
  have "\<not> t \<le> 0" using par(1) by simp
  then have "cachesim_main argv (Some (texto_trazas pre ts)) traza ok =
      Some (0, informe_metricas t (2 ^ j) n (metricas c'), cache_destruir c'' m)"
    using assms(1) c''(1) unfolding cachesim_main_def Let_def assms(2-4)
    by (simp add: par(2,3) c(1) c'(1) leer_trazas_texto assms(11,12))
  then show ?thesis using cache_destruir_bloques [OF c''(2), of m] c(6) c'(3) by simp
qed

lemma simular_verboso_wf:
  assumes "wf_cache s b n c" "lru_corrida s b n (abs_cache c) ts = (rs, bs')" "ok (llamadas m)"
  shows "\<exists>c1 out m'. simular_cache_modo_verboso ok c ts p u m = Some (c1, out, m') \<and> wf_cache s b n c1 \<and>
    metricas c1 = metricas_de (metricas c) (2 ^ b) (zip ts rs) \<and> tamanio_cache c1 = tamanio_cache c \<and>
    map (take 2) out = informe 0 p u rs \<and> bloques m' = bloques m"
proof -
  have "sets c \<noteq> []" using assms(1) by (auto simp: wf_cache_def)
  then have z: "at (sets c) 0 = Some (sets c ! 0)" by simp
  let ?v = "modo_verboso_cero\<lparr>mapeo_directo := (lineas_por_set (sets c ! 0) = 1)\<rparr>"
  have "operacion_actual ?v = 0" by (simp add: modo_verboso_cero_def)
  then obtain c1 out where 1: "verboso_loop c ?v p u ts = Some (c1, out)" "wf_cache s b n c1"
    "metricas c1 = metricas_corrida (metricas c) (2 ^ b) (zip ts rs)" "map (take 2) out = informe 0 p u rs"
    using verboso_refines [OF assms(1,2), of ?v p u] by metis
  have "simular_cache_modo_verboso ok c ts p u m =
      Some (c1, out, free (m\<lparr>llamadas := llamadas m + 1, bloques := bloques m + 1\<rparr>))"
    using z 1(1) assms(3) by (simp add: simular_cache_modo_verboso_def crear_modo_verboso_def calloc_def)
  then show ?thesis using 1 verboso_tamanio [OF 1(1)] by (simp add: free_def metricas_corrida_eq)
qed

text \<open>
  C26. The program in verbose mode, on the same files and sizes. It prints one line for each access whose number
  lies between the two limits, in order, starting with that number and the code of the outcome in the LRU
  specification (1 for a hit, 2a for a miss, 2b for a miss that writes a line back), and then the same report as simple mode; it exits with 0 and has freed all its memory. When the
  limits are not in increasing order, so also for a single operation, it prints nothing, returns an error and keeps the blocks of the
  cache.
\<close>

theorem cachesim_main_verboso:
  assumes "length argv = 8"
    and "atol (argv ! 2) = Some t" "atoi (argv ! 3) = Some a" "atoi (argv ! 4) = Some n"
    and "t = 2 ^ i" "a = 2 ^ j" "n = 2 ^ k" "j + k \<le> i" "i < 31" "\<forall>q. ok q"
    and "pre = [] \<or> pre = ''0x''" "list_all traza_escribible ts" "atoi (argv ! 6) = Some p" "atoi (argv ! 7) = Some u"
    and "lru_corrida k (i - (j + k)) (2 ^ j) (replicate (2 ^ k) []) ts = (rs, bs')"
  shows "\<exists>lineas m. cachesim_main argv (Some (texto_trazas pre ts)) traza ok =
      (if p < u then Some (0, lineas @ informe_metricas t (2 ^ j) n (metricas_de metricas_cero (2 ^ (i - (j + k))) (zip ts rs)), m)
       else Some (ERROR, [], m)) \<and>
    map (take 2) lineas = informe 0 p u rs \<and> bloques m = (if p < u then 0 else 2 + 2 ^ k)"
proof -
  note par = parametros_potencias [OF assms(5-9)]
  obtain c m where c: "crear_cache ok t a n \<lparr>llamadas = 0, bloques = 0\<rparr> = Some (Some c, m)"
    "wf_cache k (i - (j + k)) (2 ^ j) c" "abs_cache c = replicate (2 ^ k) []" "metricas c = metricas_cero"
    "tamanio_cache c = 2 ^ i" "bloques m = 2 + 2 ^ k"
    using crear_cache_spec [OF assms(8,9), of ok "\<lparr>llamadas = 0, bloques = 0\<rparr>"] assms(5-7,10) by auto
  have r: "lru_corrida k (i - (j + k)) (2 ^ j) (abs_cache c) ts = (rs, bs')" using assms(15) c(3) by simp
  obtain c1 out m1 where c1: "simular_cache_modo_verboso ok c ts p u m = Some (c1, out, m1)" "wf_cache k (i - (j + k)) (2 ^ j) c1"
    "metricas c1 = metricas_de metricas_cero (2 ^ (i - (j + k))) (zip ts rs)" "tamanio_cache c1 = 2 ^ i"
    "map (take 2) out = informe 0 p u rs" "bloques m1 = 2 + 2 ^ k"
    using simular_verboso_wf [OF c(2) r, of ok m p u] assms(10) c(4-6) by auto
  obtain c2 where c2: "mostrar_metricas c1 = Some (c2, informe_metricas t (2 ^ j) n (metricas c1))"
    "wf_cache k (i - (j + k)) (2 ^ j) c2"
    using mostrar_metricas_wf [OF c1(2,4)] assms(5,7) by blast
  have "\<not> t \<le> 0" using par(1) by simp
  then have "cachesim_main argv (Some (texto_trazas pre ts)) traza ok =
      (if p < u then Some (0, out @ informe_metricas t (2 ^ j) n (metricas c1), cache_destruir c2 m1) else Some (ERROR, [], m))"
    using assms(1) c2(1) unfolding cachesim_main_def Let_def assms(2-4)
    by (simp add: par(2,3) c(1) c1(1) leer_trazas_texto assms(11-14))
  then show ?thesis using cache_destruir_bloques [OF c2(2), of m1] c1(3,5,6) c(6) by (cases "p < u") auto
qed

definition traza_ejemplo :: traza_t where
  "traza_ejemplo = \<lparr>instruction_pointer = 0x8048314, direccion_accedida = 0xbfdce470, datos_leidos = 1,
     instruccion = CHR ''W'', cant_de_bytes = 4\<rparr>"

lemma cachesim_main_correct_witness:
  "\<exists>m. cachesim_main [''cachesim'', ''traza'', ''1024'', ''2'', ''8'']
       (Some (texto_trazas ''0x'' [traza_ejemplo])) traza_cero (\<lambda>_. True) =
     Some (0, informe_metricas 1024 2 8 (metricas_cero\<lparr>escrituras := 1, misses_write := 1, bytes_read := 64,
       ciclos_escrituras := 101\<rparr>), m) \<and> bloques m = 0"
proof -
  have n: "atol ''1024'' = Some 1024" "atoi ''2'' = Some 2" "atoi ''8'' = Some 8"
    by (simp_all add: atoi_def atol_def is_space_def parse_digits_def is_digit_def digit_value_def
        in_int_def int_min_def int_max_def)
  have t: "traza_escribible traza_ejemplo"
    by (simp add: traza_escribible_def traza_ejemplo_def is_space_def in_int_def int_min_def int_max_def)
  have i: "nset_de 3 6 (direccion_accedida traza_ejemplo) < 8" using nset_lt [of 3 6] by simp
  obtain bs where r: "lru_corrida 3 6 2 (replicate 8 []) [traza_ejemplo] = ([Limpio], bs)"
    using i by (simp add: lru_paso_def lru_acceso_def Let_def)
  have m: "metricas_de metricas_cero 64 [(traza_ejemplo, Limpio)] =
    metricas_cero\<lparr>escrituras := 1, misses_write := 1, bytes_read := 64, ciclos_escrituras := 101\<rparr>"
    by (simp add: metricas_de_def traza_ejemplo_def es_r_def LECTURA_def metricas_cero_def)
  have "\<exists>m. cachesim_main [''cachesim'', ''traza'', ''1024'', ''2'', ''8'']
       (Some (texto_trazas ''0x'' [traza_ejemplo])) traza_cero (\<lambda>_. True) =
     Some (0, informe_metricas 1024 (2 ^ 1) 8 (metricas_de metricas_cero (2 ^ (10 - (1 + 3)))
       (zip [traza_ejemplo] [Limpio])), m) \<and> bloques m = 0"
    by (rule cachesim_main_correct [where a = 2 and i = 10 and j = 1 and k = 3 and bs' = bs]) (use n t r in simp_all)
  then show ?thesis by (simp add: m)
qed

theorem cachesim_main_verboso_witness:
  "\<exists>lineas m. cachesim_main [''cachesim'', ''traza'', ''1024'', ''2'', ''8'', ''-v'', ''0'', ''9'']
       (Some (texto_trazas ''0x'' [traza_ejemplo])) traza_cero (\<lambda>_. True) =
     Some (0, lineas @ informe_metricas 1024 2 8 (metricas_cero\<lparr>escrituras := 1, misses_write := 1, bytes_read := 64,
       ciclos_escrituras := 101\<rparr>), m) \<and> map (take 2) lineas = [[I 0, S ''2a'']] \<and> bloques m = 0"
proof -
  have n: "atol ''1024'' = Some 1024" "atoi ''2'' = Some 2" "atoi ''8'' = Some 8" "atoi ''0'' = Some 0" "atoi ''9'' = Some 9"
    by (simp_all add: atoi_def atol_def is_space_def parse_digits_def is_digit_def digit_value_def
        in_int_def int_min_def int_max_def)
  have t: "traza_escribible traza_ejemplo"
    by (simp add: traza_escribible_def traza_ejemplo_def is_space_def in_int_def int_min_def int_max_def)
  have i: "nset_de 3 6 (direccion_accedida traza_ejemplo) < 8" using nset_lt [of 3 6] by simp
  obtain bs where r: "lru_corrida 3 6 2 (replicate 8 []) [traza_ejemplo] = ([Limpio], bs)"
    using i by (simp add: lru_paso_def lru_acceso_def Let_def)
  have m: "metricas_de metricas_cero 64 [(traza_ejemplo, Limpio)] =
    metricas_cero\<lparr>escrituras := 1, misses_write := 1, bytes_read := 64, ciclos_escrituras := 101\<rparr>"
    by (simp add: metricas_de_def traza_ejemplo_def es_r_def LECTURA_def metricas_cero_def)
  have inf: "informe 0 0 9 [Limpio] = [[I 0, S ''2a'']]" by (simp add: informe_def codigo_def VERBOSO_MISS_CLEAN_def)
  have "\<exists>lineas m. cachesim_main [''cachesim'', ''traza'', ''1024'', ''2'', ''8'', ''-v'', ''0'', ''9'']
       (Some (texto_trazas ''0x'' [traza_ejemplo])) traza_cero (\<lambda>_. True) =
      (if (0 :: int) < 9 then Some (0, lineas @ informe_metricas 1024 (2 ^ 1) 8 (metricas_de metricas_cero (2 ^ (10 - (1 + 3)))
         (zip [traza_ejemplo] [Limpio])), m) else Some (ERROR, [], m)) \<and>
      map (take 2) lineas = informe 0 0 9 [Limpio] \<and> bloques m = (if (0 :: int) < 9 then 0 else 2 + 2 ^ 3)"
    by (rule cachesim_main_verboso [where a = 2 and i = 10 and j = 1 and k = 3 and bs' = bs]) (use n t r in simp_all)
  then show ?thesis by (simp add: m inf)
qed

text \<open>
  C32. A line that does not start with a number. After any number of good lines, a text at which the
  first conversion of \<^verbatim>\<open>fscanf\<close> fails is never passed: each call returns 0, which is not \<^verbatim>\<open>EOF\<close>, takes
  nothing but white space and leaves \<^verbatim>\<open>traza\<close> as it was. Called with sizes it accepts, the program
  accesses the last address over and over and never prints its report.
\<close>

theorem cachesim_main_linea_mala:
  assumes "length argv = 5"
    and "atol (argv ! 2) = Some t" "atoi (argv ! 3) = Some a" "atoi (argv ! 4) = Some n"
    and "t = 2 ^ i" "a = 2 ^ j" "n = 2 ^ k" "j + k \<le> i" "i < 31" "\<forall>q. ok q"
    and "pre = [] \<or> pre = ''0x''" "list_all traza_escribible ts" "atascado s"
  shows "(\<forall>v. leer_traza s v = Some (False, v, dropWhile is_space s) \<and> atascado (dropWhile is_space s)) \<and>
    cachesim_main argv (Some (texto_trazas pre ts @ s)) traza ok = None"
proof -
  note par = parametros_potencias [OF assms(5-9)]
  obtain c m where c: "crear_cache ok t a n \<lparr>llamadas = 0, bloques = 0\<rparr> = Some (Some c, m)"
    using crear_cache_spec [OF assms(8,9), of ok "\<lparr>llamadas = 0, bloques = 0\<rparr>"] assms(5-7,10) by auto
  have "\<not> t \<le> 0" using par(1) by simp
  then have "cachesim_main argv (Some (texto_trazas pre ts @ s)) traza ok = None"
    using assms(1) unfolding cachesim_main_def Let_def assms(2-4)
    by (simp add: par(2,3) c leer_trazas_mala assms(11-13))
  then show ?thesis using leer_traza_atascado [OF assms(13)] by simp
qed

theorem cachesim_main_linea_mala_witness:
  "cachesim_main [''cachesim'', ''traza'', ''1024'', ''2'', ''8'']
     (Some (texto_trazas [] [traza_ejemplo] @ ''#eof'')) traza_cero (\<lambda>_. True) = None"
proof -
  have n: "atol ''1024'' = Some 1024" "atoi ''2'' = Some 2" "atoi ''8'' = Some 8"
    by (simp_all add: atoi_def atol_def is_space_def parse_digits_def is_digit_def digit_value_def
        in_int_def int_min_def int_max_def)
  have t: "traza_escribible traza_ejemplo"
    by (simp add: traza_escribible_def traza_ejemplo_def is_space_def in_int_def int_min_def int_max_def)
  have "atascado ''#eof''" by (simp add: atascado_def is_space_def valor_hex_def)
  then show ?thesis
    by (intro cachesim_main_linea_mala [where a = 2 and n = 8 and t = 1024 and i = 10 and j = 1 and k = 3, THEN conjunct2])
      (use n t in simp_all)
qed

text \<open>
  C27. Conservation. After any trace on a new cache: loads and stores add up to the length of
  the trace, read and write time to the clock; the bytes read are a block for every miss and the
  bytes written a block for every dirty miss; and no kind of miss is counted more often than
  the accesses or misses it is a part of.
\<close>

theorem metricas_conservacion:
  assumes "wf_cache s b n c" "metricas c = metricas_cero" "ciclos c = 0"
    and "simular_cache_simple c ts = Some c'" "metricas c' = m"
  shows "lecturas m + escrituras m = int (length ts) \<and>
         ciclos_lecturas m + ciclos_escrituras m = ciclos c' \<and>
         bytes_read m = tamanio_bloque c * (misses_read m + misses_write m) \<and>
         bytes_written m = tamanio_bloque c * (dirty_read_miss m + dirty_write_miss m) \<and>
         dirty_read_miss m \<le> misses_read m \<and> misses_read m \<le> lecturas m \<and>
         dirty_write_miss m \<le> misses_write m \<and> misses_write m \<le> escrituras m"
proof -
  obtain rs bs' where r: "lru_corrida s b n (abs_cache c) ts = (rs, bs')" by force
  let ?z = "zip ts rs"
  have l: "length ts = length rs" using length_corrida [OF r] by simp
  have s: "metricas c' = metricas_de metricas_cero (2 ^ b) ?z" "ciclos c' = costo_corrida rs"
    using simular_refines [OF assms(1) r] assms(2-4) by (auto simp: metricas_corrida_eq)
  have tb: "tamanio_bloque c = 2 ^ b" using assms(1) by (simp add: wf_cache_def)
  have mono: "cuenta P ?z \<le> cuenta Q ?z" if "\<And>i r. P i r \<Longrightarrow> Q i r" for P Q
  proof -
    have "cuenta P xs \<le> cuenta Q xs" for xs :: "(traza_t \<times> resultado) list"
      by (induction xs) (use that in auto)
    then show ?thesis .
  qed
  have tot: "cuenta (\<lambda>i r. es_r i) ?z + cuenta (\<lambda>i r. \<not> es_r i) ?z = int (length ts)"
    using l by (induction ts rs rule: list_induct2) auto
  note sp = cuenta_split [of "\<lambda>i r. r \<noteq> Acierto" ?z] cuenta_split [of "\<lambda>i r. r = Sucio" ?z]
  have "dirty_read_miss m \<le> misses_read m" "misses_read m \<le> lecturas m"
    "dirty_write_miss m \<le> misses_write m" "misses_write m \<le> escrituras m"
    using assms(5) s(1) by (auto simp: metricas_de_def metricas_cero_def intro!: mono)
  moreover have "lecturas m + escrituras m = int (length ts)"
    using assms(5) s(1) tot by (auto simp: metricas_de_def metricas_cero_def)
  moreover have "ciclos_lecturas m + ciclos_escrituras m = ciclos c'"
    using assms(5) s tot sp costo_corrida_cuenta [OF l] l
    by (auto simp: metricas_de_def metricas_cero_def)
  moreover have "bytes_read m = tamanio_bloque c * (misses_read m + misses_write m)"
    "bytes_written m = tamanio_bloque c * (dirty_read_miss m + dirty_write_miss m)"
    using assms(5) s(1) sp tb by (auto simp: metricas_de_def metricas_cero_def)
  ultimately show ?thesis by simp
qed

lemma metricas_conservacion_witness:
  "\<exists>c'. simular_cache_simple cache_ejemplo [acceso_ejemplo CHR ''W'' 0] = Some c' \<and>
     bytes_read (metricas c') = 16 * (misses_read (metricas c') + misses_write (metricas c'))"
proof -
  obtain c' where c': "simular_cache_simple cache_ejemplo [acceso_ejemplo CHR ''W'' 0] = Some c'"
    using simular_refines [OF cache_ejemplo_wf] by (metis surj_pair)
  show ?thesis
    using metricas_conservacion [OF cache_ejemplo_wf _ _ c' refl] c' by (simp add: cache_ejemplo_def)
qed

text \<open>
  No counter overflows. On a trace of fewer than \<open>2 ^ 31\<close> accesses every \<^verbatim>\<open>int\<close> counter of a new
  cache stays an \<^verbatim>\<open>int\<close>, and the byte counts and the clock stay below \<open>2 ^ 63\<close>.
\<close>

theorem contadores_acotados:
  assumes "wf_cache s b n c" "metricas c = metricas_cero" "ciclos c = 0"
    and "simular_cache_simple c ts = Some c'" "int (length ts) < 2 ^ 31" "metricas c' = m"
  shows "list_all in_int [lecturas m, escrituras m, misses_read m, misses_write m,
           dirty_read_miss m, dirty_write_miss m] \<and>
         list_all (\<lambda>x. 0 \<le> x \<and> x < 2 ^ 63) [bytes_read m, bytes_written m, ciclos_lecturas m,
           ciclos_escrituras m, ciclos c']"
proof -
  obtain rs bs' where r: "lru_corrida s b n (abs_cache c) ts = (rs, bs')" by force
  let ?z = "zip ts rs"
  have l: "length ts = length rs" using length_corrida [OF r] by simp
  have s: "m = metricas_de metricas_cero (2 ^ b) ?z" "ciclos c' = costo_corrida rs"
    using simular_refines [OF assms(1) r] assms(2-6) by (auto simp: metricas_corrida_eq)
  have c: "0 \<le> cuenta P ?z" "cuenta P ?z < 2 ^ 31" for P
    using cuenta_bounds [of P ?z] assms(5) l by simp_all
  have "b \<le> 31" using assms(1) by (simp add: wf_cache_def)
  then have p: "(0::int) < 2 ^ b" "(2::int) ^ b \<le> 2 ^ 31" by (simp_all del: power_numeral)
  have prod: "0 \<le> 2 ^ b * cuenta P ?z" "2 ^ b * cuenta P ?z < 2 ^ 63" for P
  proof -
    have "2 ^ b * cuenta P ?z \<le> 2 ^ 31 * cuenta P ?z" using p c by (intro mult_right_mono) simp_all
    then show "2 ^ b * cuenta P ?z < 2 ^ 63" using c [of P] by simp
  qed (use p c in simp)
  have "costo_corrida rs = int (length ts) + 100 * (cuenta (\<lambda>i r. r \<noteq> Acierto) ?z + cuenta (\<lambda>i r. r = Sucio) ?z)"
    using costo_corrida_cuenta [OF l] l by simp
  then have "0 \<le> ciclos c'" "ciclos c' < 2 ^ 63"
    using s(2) assms(5) c [of "\<lambda>i r. r \<noteq> Acierto"] c [of "\<lambda>i r. r = Sucio"] by simp_all
  moreover have "in_int (cuenta P ?z)" for P
    using c [of P] by (simp add: in_int_def int_min_def int_max_def)
  moreover have "cuenta P ?z + 100 * (cuenta Q ?z + cuenta R ?z) < 2 ^ 63" for P Q R
    using c [of P] c [of Q] c [of R] by simp
  ultimately show ?thesis using c prod by (simp add: s(1) metricas_de_def metricas_cero_def)
qed

lemma contadores_acotados_witness:
  "\<exists>c'. simular_cache_simple cache_ejemplo [acceso_ejemplo CHR ''W'' 0] = Some c' \<and>
     in_int (lecturas (metricas c'))"
proof -
  obtain c' where c': "simular_cache_simple cache_ejemplo [acceso_ejemplo CHR ''W'' 0] = Some c'"
    using simular_refines [OF cache_ejemplo_wf] by (metis surj_pair)
  show ?thesis
    using contadores_acotados [OF cache_ejemplo_wf _ _ c' _ refl] c' by (simp add: cache_ejemplo_def)
qed

end
