(* ===== verification/Cachesim_Inclusion.thy ===== *)
theory Cachesim_Inclusion
  imports Cachesim_Main
begin

text \<open>
  Caches that differ in the number of ways only. A set with more ways holds what one with fewer
  holds (the most recently used blocks come first in both), and a dirty block that the larger one writes
  back was written back by the smaller one before: more ways cost no cycle on any trace.
\<close>

subsection \<open>One set\<close>

definition sucios :: "bloques_lru \<Rightarrow> int set" where
  "sucios xs = {t. (t, True) \<in> set xs}"

definition sale :: "bloques_lru \<Rightarrow> bloques_lru \<Rightarrow> int set" where
  "sale xs xs' = fst ` set xs - fst ` set xs'"

lemma finite_sucios [simp]: "finite (sucios xs)"
  by (rule finite_subset [of _ "fst ` set xs"]) (force simp: sucios_def)+

lemma sucios_fst: "t \<in> sucios xs \<Longrightarrow> t \<in> fst ` set xs"
  by (force simp: sucios_def)

text \<open>What an access does to the order of use, to the dirty blocks and to the one that leaves.\<close>

lemma lru_datos:
  assumes n: "0 < n" and b: "bien n xs" and a: "lru_acceso n t w xs = (r, xs')"
  shows "map fst xs' = take n (t # filter (\<lambda>x. x \<noteq> t) (map fst xs))"
    and "r = Acierto \<longleftrightarrow> t \<in> fst ` set xs"
    and "sucios xs' = sucios xs - sale xs xs' \<union> (if w then {t} else {})"
    and "card (sucios xs \<inter> sale xs xs') = of_bool (r = Sucio)"
proof -
  have d: "distinct (map fst xs)" "length xs \<le> n" using b by (simp_all add: bien_def)
  have all: "map fst xs' = take n (t # filter (\<lambda>x. x \<noteq> t) (map fst xs)) \<and> (r = Acierto \<longleftrightarrow> t \<in> fst ` set xs) \<and>
    sucios xs' = sucios xs - sale xs xs' \<union> (if w then {t} else {}) \<and> card (sucios xs \<inter> sale xs xs') = of_bool (r = Sucio)"
  proof (cases "map_of xs t")
    case (Some e)
    then have r: "r = Acierto" "xs' = (t, e \<or> w) # filter (\<lambda>x. fst x \<noteq> t) xs"
      using a lru_casos(1) [OF Some, of n w] by simp_all
    have te: "(t, e) \<in> set xs" by (rule map_of_SomeD [OF Some])
    then have tin: "t \<in> fst ` set xs" by force
    have s: "sale xs xs' = {}" by (auto simp: sale_def r(2))
    have u: "(t, True) \<in> set xs \<longleftrightarrow> e"
      using d(1) te map_of_is_SomeI [of xs t True] Some by (cases e) auto
    have "length (filter (\<lambda>x. fst x \<noteq> t) xs) < length xs"
      by (rule length_filter_less [OF te]) simp
    then have "map fst xs' = take n (t # filter (\<lambda>x. x \<noteq> t) (map fst xs))"
      using d(2) by (simp add: r(2) filter_map comp_def)
    moreover have "sucios xs' = sucios xs \<union> (if w then {t} else {})"
    proof (rule set_eqI)
      fix x show "x \<in> sucios xs' \<longleftrightarrow> x \<in> sucios xs \<union> (if w then {t} else {})"
        by (cases "x = t") (simp_all add: sucios_def r(2) u)
    qed
    ultimately show ?thesis using r(1) s tin by simp
  next
    case None
    then have t: "t \<notin> fst ` set xs" by (simp add: map_of_eq_None_iff)
    then have f: "filter (\<lambda>x. x \<noteq> t) (map fst xs) = map fst xs" by (auto intro!: filter_True)
    show ?thesis
    proof (cases "length xs < n")
      case True
      then have r: "r = Limpio" "xs' = (t, w) # xs" using a lru_casos(2) [OF None True, of w] by simp_all
      have "sale xs xs' = {}" by (auto simp: sale_def r(2))
      then show ?thesis using r t f True by (auto simp: sucios_def)
    next
      case False
      then have r: "r = (if snd (last xs) then Sucio else Limpio)" "xs' = (t, w) # butlast xs"
        using a lru_casos(3) [OF None False, of w] by simp_all
      have ne: "xs \<noteq> []" and l: "length xs = n" using n d(2) False by auto
      then obtain ys u e where xs: "xs = ys @ [(u, e)]" by (metis prod.exhaust rev_exhaust)
      have s: "sale xs xs' = {u}" using d(1) t by (auto simp: sale_def r(2) xs)
      have e: "(u, e') \<in> set xs \<longleftrightarrow> e' = e" for e' using d(1) by (force simp: xs)
      have "sucios xs' = sucios xs - {u} \<union> (if w then {t} else {})"
        using d(1) t by (force simp: sucios_def r(2) xs)
      moreover have "sucios xs \<inter> {u} = (if e then {u} else {})" using e by (auto simp: sucios_def)
      moreover have "map fst xs' = take n (t # map fst xs)"
        using l n by (simp add: r(2) xs take_Cons')
      ultimately show ?thesis using r(1) s t f by (simp add: xs)
    qed
  qed
  then show "map fst xs' = take n (t # filter (\<lambda>x. x \<noteq> t) (map fst xs))"
    "r = Acierto \<longleftrightarrow> t \<in> fst ` set xs"
    "sucios xs' = sucios xs - sale xs xs' \<union> (if w then {t} else {})"
    "card (sucios xs \<inter> sale xs xs') = of_bool (r = Sucio)" by blast+
qed

text \<open>The smaller set holds the first blocks of the larger one, and nothing dirty that is clean there.\<close>

definition incluye :: "nat \<Rightarrow> nat \<Rightarrow> bloques_lru \<Rightarrow> bloques_lru \<Rightarrow> bool" where
  "incluye n n' xs ys \<longleftrightarrow> bien n xs \<and> bien n' ys \<and> map fst xs = take n (map fst ys) \<and> sucios xs \<subseteq> sucios ys"

definition deuda :: "bloques_lru \<Rightarrow> bloques_lru \<Rightarrow> nat" where
  "deuda xs ys = card (sucios ys - sucios xs)"

lemma take_filter_take:
  "distinct L \<Longrightarrow> take m (filter (\<lambda>x. x \<noteq> t) (take (Suc m) L)) = take m (filter (\<lambda>x. x \<noteq> t) L)"
proof (induction L arbitrary: m)
  case (Cons a L)
  show ?case
  proof (cases "a = t")
    case True
    then have "filter (\<lambda>x. x \<noteq> t) L = L" "filter (\<lambda>x. x \<noteq> t) (take m L) = take m L"
      using Cons.prems by (auto intro!: filter_True dest: in_set_takeD)
    then show ?thesis using True by simp
  next
    case False
    then show ?thesis using Cons by (cases m) simp_all
  qed
qed simp

lemma deuda_paso:
  assumes "finite B" "A \<subseteq> B" "F \<inter> A \<subseteq> E"
  shows "card ((B - F \<union> W) - (A - E \<union> W)) + card (B \<inter> F) \<le> card (B - A) + card (A \<inter> E)"
proof -
  have fin: "finite A" using assms(1,2) finite_subset by blast
  have "(B - F \<union> W) - (A - E \<union> W) \<subseteq> ((B - A) - F) \<union> (A \<inter> E - F)" using assms by auto
  then have "card ((B - F \<union> W) - (A - E \<union> W)) \<le> card ((B - A) - F) + card (A \<inter> E - F)"
    using assms(1) fin by (meson card_Un_le card_mono finite_Diff finite_Int finite_UnI order_trans)
  moreover have "card (B \<inter> F) \<le> card ((B - A) \<inter> F) + card (A \<inter> E \<inter> F)"
  proof -
    have "B \<inter> F = ((B - A) \<inter> F) \<union> (A \<inter> E \<inter> F)" using assms by auto
    then show ?thesis by (metis card_Un_le)
  qed
  moreover have "card (B - A) = card ((B - A) - F) + card ((B - A) \<inter> F)"
    using assms(1) card_Int_Diff [of "B - A" F] by simp
  moreover have "card (A \<inter> E) = card (A \<inter> E - F) + card (A \<inter> E \<inter> F)"
    using fin card_Int_Diff [of "A \<inter> E" F] by simp
  ultimately show ?thesis by simp
qed

lemma incluye_paso:
  assumes n: "0 < n" "n \<le> n'" and i: "incluye n n' xs ys"
    and a: "lru_acceso n t w xs = (r, xs')" "lru_acceso n' t w ys = (r', ys')"
  shows "incluye n n' xs' ys'" and "r = Acierto \<Longrightarrow> r' = Acierto"
    and "deuda xs' ys' + of_bool (r' = Sucio) \<le> deuda xs ys + of_bool (r = Sucio)"
proof -
  have b: "bien n xs" "bien n' ys" and T: "map fst xs = take n (map fst ys)" and D: "sucios xs \<subseteq> sucios ys"
    using i by (simp_all add: incluye_def)
  have n': "0 < n'" using n by simp
  note x = lru_datos [OF n(1) b(1) a(1)] and y = lru_datos [OF n' b(2) a(2)]
  obtain m m' where m: "n = Suc m" "n' = Suc m'" "m \<le> m'" using n by (cases n; cases n') auto
  have T': "map fst xs' = take n (map fst ys')"
    using take_filter_take [of "map fst ys" m t] b(2) m(3)
    by (simp add: x(1) y(1) T m(1,2) bien_def min_def)
  have sub: "fst ` set xs \<subseteq> fst ` set ys" "fst ` set xs' \<subseteq> fst ` set ys'"
    using T T' by (metis list.set_map set_take_subset)+
  have F: "sale ys ys' \<inter> sucios xs \<subseteq> sale xs xs'" using sub sucios_fst [of _ xs] by (auto simp: sale_def)
  have "sucios xs' \<subseteq> sucios ys'" using D F by (auto simp: x(3) y(3))
  then show "incluye n n' xs' ys'"
    using T' bien_acceso(1) [OF n(1) b(1) a(1)] bien_acceso(1) [OF n' b(2) a(2)] by (simp add: incluye_def)
  show "r = Acierto \<Longrightarrow> r' = Acierto" using x(2) y(2) sub(1) by blast
  show "deuda xs' ys' + of_bool (r' = Sucio) \<le> deuda xs ys + of_bool (r = Sucio)"
    using deuda_paso [OF finite_sucios D F, of "if w then {t} else {}"]
    by (simp only: deuda_def x(3,4) y(3,4))
qed

subsection \<open>The whole cache and its metrics\<close>

definition incluye_cache :: "nat \<Rightarrow> nat \<Rightarrow> nat \<Rightarrow> bloques_cache \<Rightarrow> bloques_cache \<Rightarrow> bool" where
  "incluye_cache s n n' bs cs \<longleftrightarrow> length bs = 2 ^ s \<and> length cs = 2 ^ s \<and>
     (\<forall>i < 2 ^ s. incluye n n' (bs ! i) (cs ! i))"

definition deuda_cache :: "nat \<Rightarrow> bloques_cache \<Rightarrow> bloques_cache \<Rightarrow> nat" where
  "deuda_cache s bs cs = (\<Sum>i < 2 ^ s. deuda (bs ! i) (cs ! i))"

lemma deuda_separa:
  "k < 2 ^ s \<Longrightarrow> deuda_cache s bs cs = deuda (bs ! k) (cs ! k) + (\<Sum>j \<in> {..<2 ^ s} - {k}. deuda (bs ! j) (cs ! j))"
  by (simp add: deuda_cache_def sum.remove)

lemma incluye_lru_paso:
  assumes n: "0 < n" "n \<le> n'" and i: "incluye_cache s n n' bs cs"
    and p: "lru_paso s b n bs t = (r, bs')" "lru_paso s b n' cs t = (r', cs')"
  shows "incluye_cache s n n' bs' cs'" and "r = Acierto \<Longrightarrow> r' = Acierto"
    and "deuda_cache s bs' cs' + of_bool (r' = Sucio) \<le> deuda_cache s bs cs + of_bool (r = Sucio)"
proof -
  let ?k = "nset_de s b (direccion_accedida t)" and ?tg = "tag_de s b (direccion_accedida t)"
  have k: "?k < 2 ^ s" by (rule nset_lt)
  have l: "length bs = 2 ^ s" "length cs = 2 ^ s" "incluye n n' (bs ! ?k) (cs ! ?k)"
    using i k by (simp_all add: incluye_cache_def)
  obtain xs ys where a: "lru_acceso n ?tg (instruccion t \<noteq> LECTURA) (bs ! ?k) = (r, xs)" "bs' = bs[?k := xs]"
    "lru_acceso n' ?tg (instruccion t \<noteq> LECTURA) (cs ! ?k) = (r', ys)" "cs' = cs[?k := ys]"
    using p by (auto simp: lru_paso_def Let_def split: prod.splits)
  note q = incluye_paso [OF n l(3) a(1,3)]
  have "incluye n n' (bs' ! j) (cs' ! j)" if "j < 2 ^ s" for j
    by (cases "j = ?k") (use i q(1) l(1,2) k that in \<open>simp_all add: incluye_cache_def a(2,4)\<close>)
  then show "incluye_cache s n n' bs' cs'" by (simp add: incluye_cache_def a(2,4) l(1,2))
  show "r = Acierto \<Longrightarrow> r' = Acierto" by (rule q(2))
  have "(\<Sum>j \<in> {..<2 ^ s} - {?k}. deuda (bs' ! j) (cs' ! j)) = (\<Sum>j \<in> {..<2 ^ s} - {?k}. deuda (bs ! j) (cs ! j))"
    by (rule sum.cong) (simp_all add: a(2,4))
  then have "deuda_cache s bs' cs' = deuda xs ys + (\<Sum>j \<in> {..<2 ^ s} - {?k}. deuda (bs ! j) (cs ! j))"
    using deuda_separa [OF k, of bs' cs'] k l(1,2) by (simp add: a(2,4))
  then show "deuda_cache s bs' cs' + of_bool (r' = Sucio) \<le> deuda_cache s bs cs + of_bool (r = Sucio)"
    using q(3) deuda_separa [OF k, of bs cs] by linarith
qed

definition mejora :: "resultado \<Rightarrow> resultado \<Rightarrow> bool" where
  "mejora r r' \<longleftrightarrow> (r = Acierto \<longrightarrow> r' = Acierto)"

lemma incluye_lru_corrida:
  assumes n: "0 < n" "n \<le> n'" and "incluye_cache s n n' bs cs"
    and "lru_corrida s b n bs ts = (rs, bs')" "lru_corrida s b n' cs ts = (rs', cs')"
  shows "list_all2 mejora rs rs' \<and> deuda_cache s bs' cs' + count_list rs' Sucio \<le> deuda_cache s bs cs + count_list rs Sucio"
  using assms(3-)
proof (induction ts arbitrary: bs cs rs rs')
  case (Cons t ts)
  obtain r bs1 r' cs1 where p: "lru_paso s b n bs t = (r, bs1)" "lru_paso s b n' cs t = (r', cs1)" by (metis surj_pair)
  obtain qs qs' where q: "lru_corrida s b n bs1 ts = (qs, bs')" "lru_corrida s b n' cs1 ts = (qs', cs')"
    "rs = r # qs" "rs' = r' # qs'" using Cons.prems(2,3) p by (auto split: prod.splits)
  note d = incluye_lru_paso [OF n Cons.prems(1) p]
  show ?case using Cons.IH [OF d(1) q(1,2)] d(2,3) by (auto simp: q(3,4) mejora_def of_bool_def split: if_splits)
qed simp

lemma mejora_cuenta:
  "length ts = length rs \<Longrightarrow> list_all2 mejora rs rs' \<Longrightarrow>
     cuenta (\<lambda>i r. P i \<and> r \<noteq> Acierto) (zip ts rs') \<le> cuenta (\<lambda>i r. P i \<and> r \<noteq> Acierto) (zip ts rs)"
proof (induction ts rs arbitrary: rs' rule: list_induct2)
  case (Cons t ts r rs)
  obtain q qs where q: "rs' = q # qs" "mejora r q" "list_all2 mejora rs qs" using Cons.prems by (cases rs') auto
  show ?case using Cons.IH [OF q(3)] q(2) by (auto simp: q(1) mejora_def)
qed (simp add: list_all2_iff)

lemma cuenta_sucios: "length ts = length rs \<Longrightarrow> cuenta (\<lambda>i r. r = Sucio) (zip ts rs) = int (count_list rs Sucio)"
  by (induction ts rs rule: list_induct2) simp_all

lemma incluye_vacias: "incluye_cache s n n' (replicate (2 ^ s) []) (replicate (2 ^ s) [])"
  "deuda_cache s (replicate (2 ^ s) []) (replicate (2 ^ s) []) = 0"
  by (simp_all add: incluye_cache_def incluye_def bien_def deuda_cache_def deuda_def)

text \<open>
  C14. More ways never hurt. Of two caches with as many sets and blocks as large, the one with more ways has, on
  every trace, no more misses of loads and of stores, no more evictions of dirty blocks, no more bytes
  read and written, and needs no more cycles: the larger cache holds what the smaller one holds, and whatever it writes back
  the smaller one wrote back before.
\<close>

theorem mas_vias_no_empeora:
  assumes "j + k \<le> i" "i + e < 31"
  shows "\<exists>c m c' m' d d'. crear_cache (\<lambda>_. True) (2 ^ i) (2 ^ j) (2 ^ k) mem = Some (Some c, m) \<and>
    crear_cache (\<lambda>_. True) (2 ^ (i + e)) (2 ^ (j + e)) (2 ^ k) mem = Some (Some c', m') \<and>
    simular_cache_simple c ts = Some d \<and> simular_cache_simple c' ts = Some d' \<and>
    misses_read (metricas d') \<le> misses_read (metricas d) \<and> misses_write (metricas d') \<le> misses_write (metricas d) \<and>
    dirty_read_miss (metricas d') + dirty_write_miss (metricas d') \<le> dirty_read_miss (metricas d) + dirty_write_miss (metricas d) \<and>
    bytes_read (metricas d') \<le> bytes_read (metricas d) \<and> bytes_written (metricas d') \<le> bytes_written (metricas d) \<and>
    ciclos d' \<le> ciclos d"
proof -
  let ?b = "i - (j + k)" and ?v = "replicate (2 ^ k) [] :: bloques_cache"
  obtain c m where c: "crear_cache (\<lambda>_. True) (2 ^ i) (2 ^ j) (2 ^ k) mem = Some (Some c, m)"
    "wf_cache k ?b (2 ^ j) c" "abs_cache c = ?v" "metricas c = metricas_cero" "ciclos c = 0"
    using crear_cache_spec [of j k i "\<lambda>_. True" mem] assms by auto
  have "i + e - (j + e + k) = ?b" by simp
  then obtain c' m' where c': "crear_cache (\<lambda>_. True) (2 ^ (i + e)) (2 ^ (j + e)) (2 ^ k) mem = Some (Some c', m')"
    "wf_cache k ?b (2 ^ (j + e)) c'" "abs_cache c' = ?v" "metricas c' = metricas_cero" "ciclos c' = 0"
    using crear_cache_spec [of "j + e" k "i + e" "\<lambda>_. True" mem] assms by auto
  obtain rs bs rs' bs' where r: "lru_corrida k ?b (2 ^ j) ?v ts = (rs, bs)" "lru_corrida k ?b (2 ^ (j + e)) ?v ts = (rs', bs')"
    by (metis surj_pair)
  have inc: "list_all2 mejora rs rs'" "count_list rs' Sucio \<le> count_list rs Sucio"
    using incluye_lru_corrida [OF _ _ incluye_vacias(1) r] incluye_vacias(2) by (simp_all add: power_increasing)
  have len: "length ts = length rs" "length ts = length rs'" using length_corrida r by metis+
  obtain d where d: "simular_cache_simple c ts = Some d" "ciclos d = costo_corrida rs"
    "metricas d = metricas_corrida metricas_cero (2 ^ ?b) (zip ts rs)"
    using simular_refines [OF c(2), of ts rs bs] r(1) c(3-5) by auto
  obtain d' where d': "simular_cache_simple c' ts = Some d'" "ciclos d' = costo_corrida rs'"
    "metricas d' = metricas_corrida metricas_cero (2 ^ ?b) (zip ts rs')"
    using simular_refines [OF c'(2), of ts rs' bs'] r(2) c'(3-5) by auto
  note mis = mejora_cuenta [OF len(1) inc(1)]
  have "cuenta (\<lambda>i r. r \<noteq> Acierto) (zip ts rs') \<le> cuenta (\<lambda>i r. r \<noteq> Acierto) (zip ts rs)"
    using mis [of "\<lambda>_. True"] by simp
  moreover have "cuenta (\<lambda>i r. r = Sucio) (zip ts rs') \<le> cuenta (\<lambda>i r. r = Sucio) (zip ts rs)"
    using inc(2) by (simp only: cuenta_sucios [OF len(1)] cuenta_sucios [OF len(2)] of_nat_mono)
  ultimately show ?thesis
    using c(1) c'(1) d(1) d'(1) mis [of es_r] mis [of "\<lambda>i. \<not> es_r i"] len
    by (simp add: d d' metricas_corrida_eq metricas_de_def metricas_cero_def costo_corrida_cuenta
        cuenta_split [of "\<lambda>i r. r = Sucio", symmetric] mult_left_mono)
qed

text \<open>Two sets of one way and of two ways, on two blocks of one set that are used in turn.\<close>

theorem mas_vias_no_empeora_witness:
  "\<exists>c m c' m' d d'. crear_cache (\<lambda>_. True) 8 1 2 \<lparr>llamadas = 0, bloques = 0\<rparr> = Some (Some c, m) \<and>
    crear_cache (\<lambda>_. True) 16 2 2 \<lparr>llamadas = 0, bloques = 0\<rparr> = Some (Some c', m') \<and>
    simular_cache_simple c [acceso_ejemplo CHR ''W'' 0, acceso_ejemplo LECTURA 8, acceso_ejemplo LECTURA 0] = Some d \<and>
    simular_cache_simple c' [acceso_ejemplo CHR ''W'' 0, acceso_ejemplo LECTURA 8, acceso_ejemplo LECTURA 0] = Some d' \<and>
    ciclos d' \<le> ciclos d"
  using mas_vias_no_empeora [of 0 1 3 1 "\<lparr>llamadas = 0, bloques = 0\<rparr>"
      "[acceso_ejemplo CHR ''W'' 0, acceso_ejemplo LECTURA 8, acceso_ejemplo LECTURA 0]"]
  by simp metis

end
