(* ===== verification/Memlib.thy ===== *)
theory Memlib
  imports Prelude
begin

text \<open>
  \<^verbatim>\<open>Labs grupales/malloc/memlib.c\<close>: the simulated memory system, and the access to it that the
  allocators share. An address is an integer, memory a function from addresses to bytes; the
  area is the \<open>MAX_HEAP\<close> bytes from \<open>mem_start_brk\<close> on that \<^verbatim>\<open>mem_init\<close> got from the system. A
  read or a write outside the area has no result. The record also holds the variable
  \<open>heap_listp\<close> of \<^verbatim>\<open>mm.c\<close> and the diagnostics it prints.
\<close>

unbundle bit_operations_syntax

type_synonym addr = int

definition NULL :: addr where "NULL = 0"

text \<open>\<^verbatim>\<open>(void *) -1\<close>\<close>

definition SBRK_FAILED :: addr where "SBRK_FAILED = 2 ^ 64 - 1"

definition MAX_HEAP :: int where "MAX_HEAP = 20 * 2 ^ 20"

datatype mensaje =
    Bloque addr
  | Mal_alineado int
  | Tamanos u64 u64
  | Bits_asignado bool bool
  | Sin_memoria

record heap_t =
  bytes :: "addr \<Rightarrow> u8"
  mem_start_brk :: addr
  mem_brk :: addr
  mem_max_addr :: addr
  heap_listp :: addr
  impreso :: "mensaje list"

subsection \<open>The operations of \<^verbatim>\<open>memlib.c\<close>\<close>

text \<open>\<^verbatim>\<open>mem_init\<close> with the block \<^verbatim>\<open>malloc\<close> returned; when it returns \<open>NULL\<close> the process exits.\<close>

definition mem_init :: "addr \<Rightarrow> heap_t \<Rightarrow> heap_t option" where
  "mem_init p h =
     (if p = NULL then None
      else Some (h\<lparr>mem_start_brk := p, mem_max_addr := p + MAX_HEAP, mem_brk := p\<rparr>))"

definition mem_reset_brk :: "heap_t \<Rightarrow> heap_t" where
  "mem_reset_brk h = h\<lparr>mem_brk := mem_start_brk h\<rparr>"

definition mem_sbrk :: "int \<Rightarrow> heap_t \<Rightarrow> addr \<times> heap_t" where
  "mem_sbrk incr h =
     (let old_brk = mem_brk h
      in if incr < 0 \<or> mem_brk h + incr > mem_max_addr h
         then (SBRK_FAILED, h\<lparr>impreso := impreso h @ [Sin_memoria]\<rparr>)
         else (old_brk, h\<lparr>mem_brk := mem_brk h + incr\<rparr>))"

definition mem_heap_lo :: "heap_t \<Rightarrow> addr" where
  "mem_heap_lo h = mem_start_brk h"

definition mem_heap_hi :: "heap_t \<Rightarrow> addr" where
  "mem_heap_hi h = mem_brk h - 1"

definition mem_heapsize :: "heap_t \<Rightarrow> int" where
  "mem_heapsize h = mem_brk h - mem_start_brk h"

text \<open>
  \<^verbatim>\<open>mem_deinit\<close> gives the block back; \<open>B\<close> are the blocks the host has handed out, and freeing anything else is undefined. The variables
  keep their values. The size of a page is that of the system.
\<close>

definition mem_deinit :: "heap_t \<Rightarrow> addr set \<Rightarrow> addr set option" where
  "mem_deinit h B =
     (let p = mem_start_brk h
      in if p = NULL then Some B else if p \<in> B then Some (B - {p}) else None)"

definition mem_pagesize :: "int \<Rightarrow> u64" where
  "mem_pagesize getpagesize = word_of_int getpagesize"

lemma mem_sbrk_start [simp]: "mem_start_brk (snd (mem_sbrk n h)) = mem_start_brk h"
  by (simp add: mem_sbrk_def Let_def)

text \<open>What \<^verbatim>\<open>mem_init\<close> takes from the host \<^verbatim>\<open>mem_deinit\<close> gives back, however the heap has grown.\<close>

lemma mem_init_deinit:
  assumes "mem_init p h = Some h'" "p \<notin> B"
  shows "mem_deinit (fold (\<lambda>n h. snd (mem_sbrk n h)) ns h') (insert p B) = Some B"
proof -
  have "mem_start_brk (fold (\<lambda>n h. snd (mem_sbrk n h)) ns h) = mem_start_brk h" for h
    by (induction ns arbitrary: h) simp_all
  then show ?thesis using assms by (auto simp: mem_init_def mem_deinit_def Let_def split: if_splits)
qed

subsection \<open>Access to memory\<close>

text \<open>A 64-bit word of memory, least significant byte first.\<close>

primrec leer_bytes :: "nat \<Rightarrow> (addr \<Rightarrow> u8) \<Rightarrow> addr \<Rightarrow> u64" where
  "leer_bytes 0 m a = 0"
| "leer_bytes (Suc k) m a = push_bit 8 (leer_bytes k m (a + 1)) OR ucast (m a)"

definition rd64 :: "(addr \<Rightarrow> u8) \<Rightarrow> addr \<Rightarrow> u64" where
  "rd64 m a = leer_bytes 8 m a"

definition wr64 :: "addr \<Rightarrow> u64 \<Rightarrow> (addr \<Rightarrow> u8) \<Rightarrow> addr \<Rightarrow> u8" where
  "wr64 a v m = (\<lambda>x. if a \<le> x \<and> x < a + 8 then ucast (drop_bit (8 * nat (x - a)) v) else m x)"

definition en_area :: "heap_t \<Rightarrow> addr \<Rightarrow> int \<Rightarrow> bool" where
  "en_area h a n \<longleftrightarrow> mem_start_brk h \<le> a \<and> a + n \<le> mem_max_addr h"

definition cargar64 :: "addr \<Rightarrow> heap_t \<Rightarrow> u64 option" where
  "cargar64 a h = (if en_area h a 8 then Some (rd64 (bytes h) a) else None)"

definition guardar64 :: "addr \<Rightarrow> u64 \<Rightarrow> heap_t \<Rightarrow> heap_t option" where
  "guardar64 a v h = (if en_area h a 8 then Some (h\<lparr>bytes := wr64 a v (bytes h)\<rparr>) else None)"

text \<open>\<^verbatim>\<open>memcpy\<close>, undefined on areas that overlap, and \<^verbatim>\<open>memset\<close>.\<close>

definition memcpy :: "addr \<Rightarrow> addr \<Rightarrow> nat \<Rightarrow> heap_t \<Rightarrow> heap_t option" where
  "memcpy dst src n h =
     (if en_area h dst (int n) \<and> en_area h src (int n) \<and>
         (n = 0 \<or> dst + int n \<le> src \<or> src + int n \<le> dst)
      then Some (h\<lparr>bytes := (\<lambda>x. if dst \<le> x \<and> x < dst + int n then bytes h (src + (x - dst)) else bytes h x)\<rparr>)
      else None)"

definition memset :: "addr \<Rightarrow> u8 \<Rightarrow> nat \<Rightarrow> heap_t \<Rightarrow> heap_t option" where
  "memset dst b n h =
     (if en_area h dst (int n)
      then Some (h\<lparr>bytes := (\<lambda>x. if dst \<le> x \<and> x < dst + int n then b else bytes h x)\<rparr>)
      else None)"

subsection \<open>Lemmas\<close>

lemma bit_leer_bytes:
  "k \<le> 8 \<Longrightarrow> bit (leer_bytes k m a) n \<longleftrightarrow> n < 8 * k \<and> bit (m (a + int (n div 8))) (n mod 8)"
proof (induction k arbitrary: a n)
  case (Suc k)
  show ?case
  proof (cases "n < 8")
    case True
    then show ?thesis using Suc.prems by (auto simp: bit_simps)
  next
    case False
    then obtain j where "n = 8 + j" using le_iff_add by (metis not_less)
    moreover have "a + int ((8 + j) div 8) = a + 1 + int (j div 8)" by simp
    moreover have "\<not> bit (m a) (8 + j)" by (auto dest: bit_imp_le_length)
    ultimately show ?thesis using Suc by (auto simp: bit_simps add.assoc)
  qed
qed simp

lemma bit_rd64: "bit (rd64 m a) n \<longleftrightarrow> n < 64 \<and> bit (m (a + int (n div 8))) (n mod 8)"
  by (simp add: rd64_def bit_leer_bytes)

lemma rd64_wr64_same [simp]: "rd64 (wr64 a v m) a = v"
proof (rule bit_word_eqI)
  fix n assume "n < LENGTH(64)"
  then have "n div 8 < 8" by simp
  then have "wr64 a v m (a + int (n div 8)) = ucast (drop_bit (8 * (n div 8)) v)"
    by (simp add: wr64_def)
  then show "bit (rd64 (wr64 a v m) a) n \<longleftrightarrow> bit v n"
    using \<open>n < LENGTH(64)\<close> by (simp add: bit_rd64 bit_simps)
qed

lemma rd64_cong: "(\<And>x. a \<le> x \<Longrightarrow> x < a + 8 \<Longrightarrow> m x = m' x) \<Longrightarrow> rd64 m a = rd64 m' a"
  by (rule bit_word_eqI) (simp add: bit_rd64)

lemma rd64_wr64_other: "b + 8 \<le> a \<or> a + 8 \<le> b \<Longrightarrow> rd64 (wr64 b v m) a = rd64 m a"
  by (rule rd64_cong) (auto simp: wr64_def)

lemma wr64_other: "x < a \<or> a + 8 \<le> x \<Longrightarrow> wr64 a v m x = m x"
  by (auto simp: wr64_def)

lemma cargar64_Some: "en_area h a 8 \<Longrightarrow> cargar64 a h = Some (rd64 (bytes h) a)"
  by (simp add: cargar64_def)

lemma guardar64_Some: "en_area h a 8 \<Longrightarrow> guardar64 a v h = Some (h\<lparr>bytes := wr64 a v (bytes h)\<rparr>)"
  by (simp add: guardar64_def)

lemma en_area_simps [simp]:
  "en_area (h\<lparr>bytes := m\<rparr>) a n = en_area h a n"
  "en_area (h\<lparr>impreso := s\<rparr>) a n = en_area h a n"
  "en_area (h\<lparr>heap_listp := p\<rparr>) a n = en_area h a n"
  "en_area (h\<lparr>mem_brk := p\<rparr>) a n = en_area h a n"
  by (simp_all add: en_area_def)

end
