(* ===== verification/Allocator.thy ===== *)
theory Allocator
  imports Memlib
begin

text \<open>
  The interface between an allocator and its clients: the four functions that \<^verbatim>\<open>mm.h\<close>
  declares, as a locale over the memory of \<^verbatim>\<open>memlib.c\<close>. A map \<open>V\<close> from the address of a
  payload to its capacity says what is allocated; the laws say what each call does to it.
\<close>

subsection \<open>Memory\<close>

text \<open>The area that \<^verbatim>\<open>mem_init\<close> gets: \<^verbatim>\<open>malloc\<close> aligns it to 16 bytes.\<close>

definition area :: "heap_t \<Rightarrow> bool" where
  "area h \<longleftrightarrow> 0 < mem_start_brk h \<and> 16 dvd mem_start_brk h \<and>
     mem_max_addr h = mem_start_brk h + MAX_HEAP \<and> mem_start_brk h < 2 ^ 62"

text \<open>Only bytes from \<open>a\<close> on and before \<open>b\<close> change, and nothing else of the heap.\<close>

definition cambia :: "heap_t \<Rightarrow> heap_t \<Rightarrow> addr \<Rightarrow> addr \<Rightarrow> bool" where
  "cambia h h' a b \<longleftrightarrow> mem_start_brk h' = mem_start_brk h \<and> mem_max_addr h' = mem_max_addr h \<and>
     heap_listp h' = heap_listp h \<and> impreso h' = impreso h \<and>
     (\<forall>x. x < a \<or> b \<le> x \<longrightarrow> bytes h' x = bytes h x)"

lemma cambia_trans:
  "cambia h h1 a b \<Longrightarrow> cambia h1 h2 c d \<Longrightarrow> cambia h h2 (min a c) (max b d)"
  by (auto simp: cambia_def)

lemma cambia_mono: "cambia h h' a b \<Longrightarrow> a' \<le> a \<Longrightarrow> b \<le> b' \<Longrightarrow> cambia h h' a' b'"
  by (auto simp: cambia_def)

lemma cambia_brk: "cambia h h' a b \<Longrightarrow> cambia h (h'\<lparr>mem_brk := q\<rparr>) a b"
  by (simp add: cambia_def)

text \<open>The bytes of a payload.\<close>

definition mismos :: "heap_t \<Rightarrow> heap_t \<Rightarrow> addr \<Rightarrow> int \<Rightarrow> bool" where
  "mismos h h' p n \<longleftrightarrow> (\<forall>x. p \<le> x \<and> x < p + n \<longrightarrow> bytes h' x = bytes h x)"

text \<open>
  What a call that returns the payload \<open>p\<close> of capacity \<open>n\<close> does: the payload is new, the blocks
  allocated before stay where they are with their bytes, and nothing is printed.
\<close>

definition conserva :: "heap_t \<Rightarrow> heap_t \<Rightarrow> (addr \<rightharpoonup> int) \<Rightarrow> bool" where
  "conserva h h' V \<longleftrightarrow> mem_start_brk h' = mem_start_brk h \<and> mem_brk h \<le> mem_brk h' \<and>
     (\<forall>q m. V q = Some m \<longrightarrow> mismos h h' q m)"

lemma mismos_trans: "mismos h h1 q m \<Longrightarrow> mismos h1 h2 q m \<Longrightarrow> mismos h h2 q m"
  by (simp add: mismos_def)

lemma conserva_trans:
  "conserva h h1 V \<Longrightarrow> conserva h1 h2 W \<Longrightarrow> U \<subseteq>\<^sub>m V \<Longrightarrow> U \<subseteq>\<^sub>m W \<Longrightarrow> conserva h h2 U"
  unfolding conserva_def map_le_def
proof (intro conjI allI impI, goal_cases)
  case (3 q m)
  then have "V q = Some m" "W q = Some m" by (metis domI)+
  then show ?case using 3 mismos_trans by blast
qed simp_all

lemma conserva_mismos: "conserva h h' V \<Longrightarrow> V q = Some m \<Longrightarrow> q \<le> x \<Longrightarrow> x < q + m \<Longrightarrow> bytes h' x = bytes h x"
  by (simp add: conserva_def mismos_def)

subsection \<open>The functions of \<^verbatim>\<open>mm.h\<close> and their laws\<close>

record asignador_t =
  init_f :: "heap_t \<Rightarrow> (int \<times> heap_t) option"
  malloc_f :: "u64 \<Rightarrow> heap_t \<Rightarrow> (addr \<times> heap_t) option"
  free_f :: "addr \<Rightarrow> heap_t \<Rightarrow> heap_t option"
  realloc_f :: "addr \<Rightarrow> u64 \<Rightarrow> heap_t \<Rightarrow> (addr \<times> heap_t) option"

text \<open>
  \<open>crece\<close> bounds how much the heap grows for a request, \<open>inicial\<close> its size after \<^verbatim>\<open>mm_init\<close>: an
  allocation fails only when that much does not fit in the area, and then keeps the memory as it is.
\<close>

locale asignador =
  fixes A :: asignador_t
    and inv :: "heap_t \<Rightarrow> (addr \<rightharpoonup> int) \<Rightarrow> bool"
    and crece :: "int \<Rightarrow> int"
    and inicial :: int
  assumes crece_pos: "0 < sz \<Longrightarrow> 0 \<le> crece sz"
    and init: "area h \<Longrightarrow> mem_brk h = mem_start_brk h \<Longrightarrow>
      \<exists>r h'. init_f A h = Some (r, h') \<and> 0 \<le> r \<and> inv h' Map.empty \<and> mem_heapsize h' \<le> inicial"
    and malloc_total: "inv h V \<Longrightarrow> 0 < sz \<Longrightarrow> sz < 2 ^ 31 \<Longrightarrow>
      \<exists>p h'. malloc_f A (word_of_int sz) h = Some (p, h') \<and>
        (if p = NULL then MAX_HEAP < mem_heapsize h + crece sz \<and> inv h' V \<and> conserva h h' V \<and>
           mem_heapsize h' = mem_heapsize h
         else V p = None \<and> (\<exists>n \<ge> sz. inv h' (V(p \<mapsto> n))) \<and> conserva h h' V \<and>
           mem_heapsize h' \<le> mem_heapsize h + crece sz)"
    and free: "inv h V \<Longrightarrow> V p = Some n \<Longrightarrow>
      \<exists>h'. free_f A p h = Some h' \<and> inv h' (V(p := None)) \<and> conserva h h' (V(p := None)) \<and>
        mem_heapsize h' = mem_heapsize h"
    and realloc_total: "inv h V \<Longrightarrow> V p = Some n \<Longrightarrow> 0 < sz \<Longrightarrow> sz < 2 ^ 31 \<Longrightarrow>
      \<exists>q h'. realloc_f A p (word_of_int sz) h = Some (q, h') \<and>
        (if q = NULL then MAX_HEAP < mem_heapsize h + crece sz \<and> inv h' V \<and> conserva h h' V \<and>
           mem_heapsize h' = mem_heapsize h
         else (V(p := None)) q = None \<and> (\<exists>m \<ge> sz. inv h' (V(p := None, q \<mapsto> m))) \<and>
           (\<forall>i. 0 \<le> i \<and> i < min n sz \<longrightarrow> bytes h' (q + i) = bytes h (p + i)) \<and>
           conserva h h' (V(p := None)) \<and> mem_heapsize h' \<le> mem_heapsize h + crece sz)"
    and en_heap: "inv h V \<Longrightarrow> V p = Some n \<Longrightarrow>
      mem_start_brk h \<le> p \<and> p + n \<le> mem_brk h \<and> mem_brk h \<le> mem_max_addr h \<and> 8 dvd p \<and> 0 < n"
    and disjuntas: "inv h V \<Longrightarrow> V p = Some m \<Longrightarrow> V q = Some n \<Longrightarrow> p \<noteq> q \<Longrightarrow> p + m \<le> q \<or> q + n \<le> p"
    and escribir: "inv h V \<Longrightarrow> V q = Some m \<Longrightarrow> cambia h h' q (q + m) \<Longrightarrow> mem_brk h' = mem_brk h \<Longrightarrow> inv h' V"
    and en_area: "inv h V \<Longrightarrow> area h \<and> mem_start_brk h \<le> mem_brk h \<and> mem_brk h \<le> mem_max_addr h"
begin

text \<open>The laws without what a failing call leaves alone.\<close>

lemma malloc:
  assumes "inv h V" "0 < sz" "sz < 2 ^ 31"
  shows "\<exists>p h'. malloc_f A (word_of_int sz) h = Some (p, h') \<and>
    (if p = NULL then MAX_HEAP < mem_heapsize h + crece sz
     else V p = None \<and> (\<exists>n \<ge> sz. inv h' (V(p \<mapsto> n))) \<and> conserva h h' V \<and>
       mem_heapsize h' \<le> mem_heapsize h + crece sz)"
  using malloc_total [OF assms] by (metis (no_types, lifting))

lemma realloc:
  assumes "inv h V" "V p = Some n" "0 < sz" "sz < 2 ^ 31"
  shows "\<exists>q h'. realloc_f A p (word_of_int sz) h = Some (q, h') \<and>
    (if q = NULL then MAX_HEAP < mem_heapsize h + crece sz
     else (V(p := None)) q = None \<and> (\<exists>m \<ge> sz. inv h' (V(p := None, q \<mapsto> m))) \<and>
       (\<forall>i. 0 \<le> i \<and> i < min n sz \<longrightarrow> bytes h' (q + i) = bytes h (p + i)) \<and>
       conserva h h' (V(p := None)) \<and> mem_heapsize h' \<le> mem_heapsize h + crece sz)"
  using realloc_total [OF assms] by (metis (no_types, lifting))

lemma heapsize_acotado: "inv h V \<Longrightarrow> 0 \<le> mem_heapsize h \<and> mem_heapsize h \<le> MAX_HEAP"
  using en_area [of h V] by (simp add: mem_heapsize_def area_def)


text \<open>Filling part of a payload with \<^verbatim>\<open>memset\<close> keeps the rest of the memory.\<close>

lemma llenar:
  assumes "inv h V" "V q = Some m" "0 \<le> k" "k \<le> m"
  obtains h' where "memset q b (nat k) h = Some h'" "inv h' V" "\<And>x. q \<le> x \<Longrightarrow> x < q + k \<Longrightarrow> bytes h' x = b"
    "\<And>x. x < q \<or> q + m \<le> x \<Longrightarrow> bytes h' x = bytes h x" "mem_start_brk h' = mem_start_brk h"
    "mem_heapsize h' = mem_heapsize h"
proof -
  define h' where "h' = h\<lparr>bytes := (\<lambda>x. if q \<le> x \<and> x < q + k then b else bytes h x)\<rparr>"
  have e: "memset q b (nat k) h = Some h'"
    using en_heap [OF assms(1,2)] assms(3,4) by (simp add: memset_def en_area_def h'_def)
  have c: "cambia h h' q (q + m)" using assms(3,4) by (auto simp: cambia_def h'_def)
  have i: "inv h' V" by (rule escribir [OF assms(1,2) c]) (simp add: h'_def)
  show ?thesis by (rule that [OF e i]) (use assms(3,4) in \<open>auto simp: h'_def mem_heapsize_def\<close>)
qed

end

end
