(* ===== verification/Cliente.thy ===== *)
theory Cliente
  imports Allocator
begin

text \<open>
  Any client of an allocator: a transition system whose steps are the calls of \<^verbatim>\<open>mm.h\<close> and the accesses to
  payloads, in any order and number, the abstract allocator that says what a client may see, and
  the simulation between them for every allocator with the laws of the interface.
\<close>

subsection \<open>Events and runs\<close>

text \<open>What the client asks for.\<close>

datatype pedido =
    Pide int
  | Libera addr
  | Cambia addr int
  | Escribe addr int u8
  | Lee addr int

text \<open>What it gets: the address a call returns, or the byte read.\<close>

datatype respuesta = Dir addr | Byte u8 | Nada

type_synonym evento = "pedido \<times> respuesta"

inductive corre :: "('s \<Rightarrow> evento \<Rightarrow> 's \<Rightarrow> bool) \<Rightarrow> 's \<Rightarrow> evento list \<Rightarrow> 's \<Rightarrow> bool" for paso where
  fin: "corre paso s [] s"
| sigue: "paso s e t \<Longrightarrow> corre paso t es u \<Longrightarrow> corre paso s (e # es) u"

inductive_simps corre_Nil [simp]: "corre paso s [] t"
inductive_simps corre_Cons: "corre paso s (e # es) u"

lemma corre_snoc: "corre paso s es t \<Longrightarrow> paso t e u \<Longrightarrow> corre paso s (es @ [e]) u"
  by (induction rule: corre.induct) (auto intro: corre.intros)

subsection \<open>The client over the code\<close>

text \<open>
  The state: the memory and the client's book of the payloads it holds, with the sizes it asked for. It frees and
  reallocates what it holds, and accesses only bytes inside.
\<close>

type_synonym libro = "addr \<rightharpoonup> int"

definition legal :: "libro \<Rightarrow> pedido \<Rightarrow> bool" where
  "legal L q =
     (case q of
        Pide sz \<Rightarrow> 0 < sz \<and> sz < 2 ^ 31
      | Libera p \<Rightarrow> p \<in> dom L
      | Cambia p sz \<Rightarrow> p \<in> dom L \<and> 0 < sz \<and> sz < 2 ^ 31
      | Escribe p i b \<Rightarrow> (\<exists>n. L p = Some n \<and> 0 \<le> i \<and> i < n)
      | Lee p i \<Rightarrow> (\<exists>n. L p = Some n \<and> 0 \<le> i \<and> i < n))"

inductive paso :: "asignador_t \<Rightarrow> heap_t \<times> libro \<Rightarrow> evento \<Rightarrow> heap_t \<times> libro \<Rightarrow> bool" for A where
  pide: "legal L (Pide sz) \<Longrightarrow> malloc_f A (word_of_int sz) h = Some (p, h') \<Longrightarrow>
    paso A (h, L) (Pide sz, Dir p) (h', if p = NULL then L else L(p \<mapsto> sz))"
| libera: "legal L (Libera p) \<Longrightarrow> free_f A p h = Some h' \<Longrightarrow>
    paso A (h, L) (Libera p, Nada) (h', L(p := None))"
| cambia: "legal L (Cambia p sz) \<Longrightarrow> realloc_f A p (word_of_int sz) h = Some (q, h') \<Longrightarrow>
    paso A (h, L) (Cambia p sz, Dir q) (h', if q = NULL then L else L(p := None, q \<mapsto> sz))"
| escribe: "legal L (Escribe p i b) \<Longrightarrow> memset (p + i) b 1 h = Some h' \<Longrightarrow>
    paso A (h, L) (Escribe p i b, Nada) (h', L)"
| lee: "legal L (Lee p i) \<Longrightarrow> en_area h (p + i) 1 \<Longrightarrow>
    paso A (h, L) (Lee p i, Byte (bytes h (p + i))) (h, L)"

inductive_cases paso_elims:
  "paso A s (Pide sz, r) s'" "paso A s (Libera p, r) s'" "paso A s (Cambia p sz, r) s'"
  "paso A s (Escribe p i b, r) s'" "paso A s (Lee p i, r) s'"

subsection \<open>The abstract allocator\<close>

text \<open>
  Its state maps the address of each payload to its bytes; there is no heap. A new payload is aligned, lies apart from
  the others and holds arbitrary bytes; a payload that moves keeps its bytes up to the smaller size; a call may
  fail and then changes nothing.
\<close>

type_synonym almacen = "addr \<rightharpoonup> u8 list"

definition aparte :: "almacen \<Rightarrow> addr \<Rightarrow> int \<Rightarrow> bool" where
  "aparte M p sz \<longleftrightarrow> 8 dvd p \<and> (\<forall>q cs. M q = Some cs \<longrightarrow> p + sz \<le> q \<or> q + int (length cs) \<le> p)"

inductive abstracto :: "almacen \<Rightarrow> evento \<Rightarrow> almacen \<Rightarrow> bool" where
  sin_lugar: "abstracto M (Pide sz, Dir NULL) M"
| nueva: "p \<noteq> NULL \<Longrightarrow> aparte M p sz \<Longrightarrow> int (length cs) = sz \<Longrightarrow>
    abstracto M (Pide sz, Dir p) (M(p \<mapsto> cs))"
| suelta: "p \<in> dom M \<Longrightarrow> abstracto M (Libera p, Nada) (M(p := None))"
| queda: "p \<in> dom M \<Longrightarrow> abstracto M (Cambia p sz, Dir NULL) M"
| muda: "M p = Some cs \<Longrightarrow> q \<noteq> NULL \<Longrightarrow> aparte (M(p := None)) q sz \<Longrightarrow> int (length ds) = sz \<Longrightarrow>
    take (length cs) ds = take (length ds) cs \<Longrightarrow>
    abstracto M (Cambia p sz, Dir q) (M(p := None, q \<mapsto> ds))"
| pone: "M p = Some cs \<Longrightarrow> i < length cs \<Longrightarrow>
    abstracto M (Escribe p (int i) b, Nada) (M(p \<mapsto> cs[i := b]))"
| saca: "M p = Some cs \<Longrightarrow> i < length cs \<Longrightarrow>
    abstracto M (Lee p (int i), Byte (cs ! i)) M"

inductive_simps abstracto_Pide: "abstracto M (Pide sz, r) M'"
inductive_simps abstracto_Libera: "abstracto M (Libera p, r) M'"
inductive_simps abstracto_Cambia: "abstracto M (Cambia p sz, r) M'"
inductive_simps abstracto_Escribe: "abstracto M (Escribe p i b, r) M'"
inductive_simps abstracto_Lee: "abstracto M (Lee p i, r) M'"
lemmas abstracto_simps = abstracto_Pide abstracto_Libera abstracto_Cambia abstracto_Escribe abstracto_Lee

text \<open>The bytes the client can see in the memory.\<close>

definition contenido :: "heap_t \<Rightarrow> addr \<Rightarrow> int \<Rightarrow> u8 list" where
  "contenido h p n = map (\<lambda>i. bytes h (p + int i)) [0..<nat n]"

definition vista :: "heap_t \<times> libro \<Rightarrow> almacen" where
  "vista s = (\<lambda>p. map_option (contenido (fst s) p) (snd s p))"

lemma length_contenido [simp]: "length (contenido h p n) = nat n"
  by (simp add: contenido_def)

lemma vista_Some [simp]: "L p = Some n \<Longrightarrow> vista (h, L) p = Some (contenido h p n)"
  "L p = None \<Longrightarrow> vista (h, L) p = None"
  by (simp_all add: vista_def)

lemma contenido_igual:
  assumes "\<And>x. p \<le> x \<Longrightarrow> x < p + n \<Longrightarrow> bytes h' x = bytes h x"
  shows "contenido h' p n = contenido h p n"
  by (simp add: contenido_def) (use assms in simp)

lemma vista_vacia [simp]: "vista (h, Map.empty) = Map.empty"
  by (simp add: vista_def fun_eq_iff)

text \<open>The payloads of the abstract allocator never overlap.\<close>

definition separados :: "almacen \<Rightarrow> bool" where
  "separados M \<longleftrightarrow> (\<forall>p q cs ds. M p = Some cs \<longrightarrow> M q = Some ds \<longrightarrow> p \<noteq> q \<longrightarrow>
     p + int (length cs) \<le> q \<or> q + int (length ds) \<le> p)"

lemma separadosD:
  "separados M \<Longrightarrow> M p = Some cs \<Longrightarrow> M q = Some ds \<Longrightarrow> p \<noteq> q \<Longrightarrow> p + int (length cs) \<le> q \<or> q + int (length ds) \<le> p"
  by (simp add: separados_def)

lemma separados_nueva: "separados M \<Longrightarrow> aparte M p (int (length cs)) \<Longrightarrow> separados (M(p \<mapsto> cs))"
  unfolding separados_def aparte_def by (intro allI impI) (fastforce split: if_splits)

lemma separados_quita: "separados M \<Longrightarrow> separados (M(p := None))"
  by (auto simp: separados_def split: if_splits)

lemma abstracto_separados: "abstracto M e M' \<Longrightarrow> separados M \<Longrightarrow> separados M'"
proof (induction rule: abstracto.induct)
  case (pone M p cs i b)
  then show ?case unfolding separados_def by (intro allI impI) (fastforce split: if_splits)
qed (auto intro: separados_nueva separados_quita)

lemma corre_separados: "corre abstracto M es M' \<Longrightarrow> separados M \<Longrightarrow> separados M'"
  by (induction rule: corre.induct) (use abstracto_separados in blast)+

text \<open>How much a call can make the heap grow, with the bound \<open>crece\<close> of the allocator.\<close>

definition gasto :: "(int \<Rightarrow> int) \<Rightarrow> evento \<Rightarrow> int" where
  "gasto crece e = (case fst e of Pide sz \<Rightarrow> crece sz | Cambia p sz \<Rightarrow> crece sz | _ \<Rightarrow> 0)"

definition falla :: "evento \<Rightarrow> bool" where
  "falla e \<longleftrightarrow> snd e = Dir NULL"

subsection \<open>The simulation\<close>

text \<open>The allocator knows every payload of the book, with room for the size asked for.\<close>

definition cuadra :: "(heap_t \<Rightarrow> (addr \<rightharpoonup> int) \<Rightarrow> bool) \<Rightarrow> heap_t \<times> libro \<Rightarrow> bool" where
  "cuadra I s \<longleftrightarrow> (\<exists>V. I (fst s) V \<and> dom V = dom (snd s) \<and>
     (\<forall>p n m. snd s p = Some n \<longrightarrow> V p = Some m \<longrightarrow> 0 < n \<and> n \<le> m))"

lemma cuadraI:
  "I h V \<Longrightarrow> dom V = dom L \<Longrightarrow> (\<And>p n m. L p = Some n \<Longrightarrow> V p = Some m \<Longrightarrow> 0 < n \<and> n \<le> m) \<Longrightarrow> cuadra I (h, L)"
  by (auto simp: cuadra_def)

lemma cuadraE:
  assumes "cuadra I (h, L)"
  obtains V where "I h V" "dom V = dom L" "\<And>p n. L p = Some n \<Longrightarrow> \<exists>m. V p = Some m \<and> 0 < n \<and> n \<le> m"
proof -
  obtain V where V: "I h V" "dom V = dom L" "\<forall>p n m. L p = Some n \<longrightarrow> V p = Some m \<longrightarrow> 0 < n \<and> n \<le> m"
    using assms by (auto simp: cuadra_def)
  have "\<exists>m. V p = Some m \<and> 0 < n \<and> n \<le> m" if "L p = Some n" for p n
    using that V(2,3) by (metis domD domI)
  then show ?thesis using that V(1,2) by blast
qed

lemma vista_conserva:
  assumes "conserva h h' W" "\<And>p n. L p = Some n \<Longrightarrow> \<exists>m. W p = Some m \<and> n \<le> m"
  shows "vista (h', L) = vista (h, L)"
proof
  fix p
  show "vista (h', L) p = vista (h, L) p"
  proof (cases "L p")
    case (Some n)
    then obtain m where "W p = Some m" "n \<le> m" using assms(2) by blast
    then have "contenido h' p n = contenido h p n"
      using conserva_mismos [OF assms(1), of p m] by (intro contenido_igual) simp
    then show ?thesis using Some by simp
  qed simp
qed

lemma vista_upd: "vista (h, L(p \<mapsto> n)) = (vista (h, L))(p \<mapsto> contenido h p n)"
  "vista (h, L(p := None)) = (vista (h, L))(p := None)"
  by (simp_all add: vista_def fun_eq_iff)

text \<open>What holds of one step: the abstract allocator makes it too, and a call fails only for want of room.\<close>

definition paso_bien ::
  "(heap_t \<Rightarrow> (addr \<rightharpoonup> int) \<Rightarrow> bool) \<Rightarrow> (int \<Rightarrow> int) \<Rightarrow> heap_t \<times> libro \<Rightarrow> evento \<Rightarrow> heap_t \<times> libro \<Rightarrow> bool" where
  "paso_bien I crece s e s' \<longleftrightarrow> cuadra I s' \<and> abstracto (vista s) e (vista s') \<and>
     mem_heapsize (fst s') \<le> mem_heapsize (fst s) + gasto crece e \<and>
     (falla e \<longrightarrow> MAX_HEAP < mem_heapsize (fst s) + gasto crece e)"

text \<open>A payload that the allocator hands out lies apart from those in the book.\<close>

context asignador
begin

lemma entrega:
  assumes "inv h' (V(p \<mapsto> n))" "sz \<le> n" "V p = None"
    "\<And>q m. L q = Some m \<Longrightarrow> \<exists>k. V q = Some k \<and> 0 < m \<and> m \<le> k"
  shows "aparte (vista (h, L)) p sz"
proof -
  have "p + sz \<le> q \<or> q + int (length cs) \<le> p" if c: "vista (h, L) q = Some cs" for q cs
  proof -
    obtain m where m: "L q = Some m" "cs = contenido h q m" using c by (auto simp: vista_def)
    obtain k where k: "V q = Some k" "0 < m" "m \<le> k" using assms(4) [OF m(1)] by blast
    then have "q \<noteq> p" using assms(3) by auto
    then have "p + n \<le> q \<or> q + k \<le> p"
      using disjuntas [OF assms(1), of p n q k] k(1) by auto
    then show ?thesis using assms(2) k(2,3) m(2) by auto
  qed
  moreover have "8 dvd p" using en_heap [OF assms(1), of p n] by simp
  ultimately show ?thesis by (simp add: aparte_def)
qed

lemma cuadra_nueva:
  assumes "inv h' (V(p \<mapsto> n))" "sz \<le> n" "0 < sz" "dom V = dom L"
    "\<And>q m. L q = Some m \<Longrightarrow> \<exists>k. V q = Some k \<and> 0 < m \<and> m \<le> k"
  shows "cuadra inv (h', L(p \<mapsto> sz))"
proof (rule cuadraI [where I = inv, OF assms(1)])
  fix q m k assume "(L(p \<mapsto> sz)) q = Some m" "(V(p \<mapsto> n)) q = Some k"
  then show "0 < m \<and> m \<le> k" using assms(2,3) assms(5) [of q m] by (auto split: if_splits)
qed (use assms(4) in simp)

lemma paso_pide:
  assumes c: "cuadra inv (h, L)" and l: "legal L (Pide sz)" and m: "malloc_f A (word_of_int sz) h = Some (p, h')"
  shows "paso_bien inv crece (h, L) (Pide sz, Dir p) (h', if p = NULL then L else L(p \<mapsto> sz))"
proof -
  obtain V where V: "inv h V" "dom V = dom L" "\<And>p n. L p = Some n \<Longrightarrow> \<exists>m. V p = Some m \<and> 0 < n \<and> n \<le> m"
    using cuadraE [OF c] by blast
  have sz: "0 < sz" "sz < 2 ^ 31" using l by (simp_all add: legal_def)
  have r: "if p = NULL then MAX_HEAP < mem_heapsize h + crece sz \<and> inv h' V \<and> conserva h h' V \<and>
           mem_heapsize h' = mem_heapsize h
         else V p = None \<and> (\<exists>n \<ge> sz. inv h' (V(p \<mapsto> n))) \<and> conserva h h' V \<and>
           mem_heapsize h' \<le> mem_heapsize h + crece sz"
    using malloc_total [OF V(1) sz] m by auto
  have v: "vista (h', L) = vista (h, L)" if "conserva h h' V" by (rule vista_conserva [OF that]) (use V(3) in blast)
  show ?thesis
  proof (cases "p = NULL")
    case True
    then have f: "MAX_HEAP < mem_heapsize h + crece sz" "inv h' V" "conserva h h' V" "mem_heapsize h' = mem_heapsize h"
      using r by simp_all
    have "cuadra inv (h', L)" by (rule cuadraI [where I = inv, OF f(2) V(2)]) (use V(3) in fastforce)
    then show ?thesis using True f(1,4) crece_pos [OF sz(1)] v [OF f(3)] abstracto.sin_lugar [of "vista (h, L)" sz]
      by (simp add: paso_bien_def gasto_def)
  next
    case False
    then obtain n where n: "V p = None" "sz \<le> n" "inv h' (V(p \<mapsto> n))" "conserva h h' V"
      "mem_heapsize h' \<le> mem_heapsize h + crece sz" using r by auto
    have "aparte (vista (h, L)) p sz" by (rule entrega [OF n(3,2,1) V(3)])
    then have "abstracto (vista (h, L)) (Pide sz, Dir p) ((vista (h, L))(p \<mapsto> contenido h' p sz))"
      using False sz(1) by (intro abstracto.nueva) simp_all
    then have "abstracto (vista (h, L)) (Pide sz, Dir p) (vista (h', L(p \<mapsto> sz)))"
      by (simp add: vista_upd v [OF n(4)])
    moreover have "cuadra inv (h', L(p \<mapsto> sz))" by (rule cuadra_nueva [OF n(3,2) sz(1) V(2,3)])
    ultimately show ?thesis using False n(5) by (simp add: paso_bien_def gasto_def falla_def)
  qed
qed

lemma paso_libera:
  assumes c: "cuadra inv (h, L)" and l: "legal L (Libera p)" and m: "free_f A p h = Some h'"
  shows "paso_bien inv crece (h, L) (Libera p, Nada) (h', L(p := None))"
proof -
  obtain V where V: "inv h V" "dom V = dom L" "\<And>p n. L p = Some n \<Longrightarrow> \<exists>m. V p = Some m \<and> 0 < n \<and> n \<le> m"
    using cuadraE [OF c] by blast
  obtain n where n: "L p = Some n" using l by (auto simp: legal_def)
  then obtain k where "V p = Some k" using V(3) by blast
  then have f: "inv h' (V(p := None))" "conserva h h' (V(p := None))" "mem_heapsize h' = mem_heapsize h"
    using free [OF V(1), of p k] m by auto
  have "vista (h', L(p := None)) = vista (h, L(p := None))"
    by (rule vista_conserva [OF f(2)]) (use V(3) in \<open>auto split: if_splits\<close>)
  then have "abstracto (vista (h, L)) (Libera p, Nada) (vista (h', L(p := None)))"
    using abstracto.suelta [of p "vista (h, L)"] n by (simp add: vista_upd dom_def)
  moreover have "cuadra inv (h', L(p := None))"
    by (rule cuadraI [where I = inv, OF f(1)]) (use V(2,3) in \<open>fastforce split: if_splits\<close>)+
  ultimately show ?thesis using f(3) by (simp add: paso_bien_def gasto_def falla_def)
qed

lemma paso_cambia:
  assumes c: "cuadra inv (h, L)" and l: "legal L (Cambia p sz)" and m: "realloc_f A p (word_of_int sz) h = Some (q, h')"
  shows "paso_bien inv crece (h, L) (Cambia p sz, Dir q) (h', if q = NULL then L else L(p := None, q \<mapsto> sz))"
proof -
  obtain V where V: "inv h V" "dom V = dom L" "\<And>p n. L p = Some n \<Longrightarrow> \<exists>m. V p = Some m \<and> 0 < n \<and> n \<le> m"
    using cuadraE [OF c] by blast
  have sz: "0 < sz" "sz < 2 ^ 31" using l by (simp_all add: legal_def)
  obtain n where n: "L p = Some n" using l by (auto simp: legal_def)
  then obtain k where k: "V p = Some k" "0 < n" "n \<le> k" using V(3) by blast
  have r: "if q = NULL then MAX_HEAP < mem_heapsize h + crece sz \<and> inv h' V \<and> conserva h h' V \<and>
           mem_heapsize h' = mem_heapsize h
         else (V(p := None)) q = None \<and> (\<exists>m \<ge> sz. inv h' (V(p := None, q \<mapsto> m))) \<and>
           (\<forall>i. 0 \<le> i \<and> i < min k sz \<longrightarrow> bytes h' (q + i) = bytes h (p + i)) \<and>
           conserva h h' (V(p := None)) \<and> mem_heapsize h' \<le> mem_heapsize h + crece sz"
    using realloc_total [OF V(1) k(1) sz] m by auto
  show ?thesis
  proof (cases "q = NULL")
    case True
    then have f: "MAX_HEAP < mem_heapsize h + crece sz" "inv h' V" "conserva h h' V" "mem_heapsize h' = mem_heapsize h"
      using r by simp_all
    have "vista (h', L) = vista (h, L)" by (rule vista_conserva [OF f(3)]) (use V(3) in blast)
    moreover have "cuadra inv (h', L)" by (rule cuadraI [where I = inv, OF f(2) V(2)]) (use V(3) in fastforce)
    ultimately show ?thesis
      using True f(1,4) crece_pos [OF sz(1)] abstracto.queda [of p "vista (h, L)" sz] n
      by (simp add: paso_bien_def gasto_def dom_def)
  next
    case False
    let ?V = "V(p := None)" and ?L = "L(p := None)"
    obtain mm where g: "?V q = None" "sz \<le> mm" "inv h' (?V(q \<mapsto> mm))" "conserva h h' ?V"
      "\<forall>i. 0 \<le> i \<and> i < min k sz \<longrightarrow> bytes h' (q + i) = bytes h (p + i)" "mem_heapsize h' \<le> mem_heapsize h + crece sz"
      using r False by auto
    have V': "\<exists>k. ?V r = Some k \<and> 0 < m \<and> m \<le> k" if "?L r = Some m" for r m
      using that V(3) [of r m] by (auto split: if_splits)
    have D: "dom ?V = dom ?L" using V(2) by auto
    have v: "vista (h', ?L) = vista (h, ?L)" by (rule vista_conserva [OF g(4)]) (use V' in blast)
    have "take (nat n) (contenido h' q sz) = take (nat sz) (contenido h p n)"
    proof (rule nth_equalityI)
      fix i assume "i < length (take (nat n) (contenido h' q sz))"
      then show "take (nat n) (contenido h' q sz) ! i = take (nat sz) (contenido h p n) ! i"
        using g(5) [rule_format, of "int i"] k(3) by (simp add: contenido_def zless_nat_eq_int_zless)
    qed simp
    moreover have "aparte (vista (h, ?L)) q sz" by (rule entrega [OF g(3,2,1) V'])
    ultimately have "abstracto (vista (h, L)) (Cambia p sz, Dir q) ((vista (h, L))(p := None, q \<mapsto> contenido h' q sz))"
      using abstracto.muda [of "vista (h, L)" p "contenido h p n" q sz "contenido h' q sz"] False sz(1) n
      by (simp add: vista_upd)
    then have "abstracto (vista (h, L)) (Cambia p sz, Dir q) (vista (h', ?L(q \<mapsto> sz)))"
      by (simp only: vista_upd(1) [of h' ?L] v) (simp only: vista_upd(2))
    moreover have "cuadra inv (h', ?L(q \<mapsto> sz))" by (rule cuadra_nueva [OF g(3,2) sz(1) D V'])
    ultimately show ?thesis using False g(6) by (simp add: paso_bien_def gasto_def falla_def)
  qed
qed

lemma paso_escribe:
  assumes c: "cuadra inv (h, L)" and l: "legal L (Escribe p i b)" and m: "memset (p + i) b 1 h = Some h'"
  shows "paso_bien inv crece (h, L) (Escribe p i b, Nada) (h', L)"
proof -
  obtain V where V: "inv h V" "dom V = dom L" "\<And>p n. L p = Some n \<Longrightarrow> \<exists>m. V p = Some m \<and> 0 < n \<and> n \<le> m"
    using cuadraE [OF c] by blast
  obtain n where n: "L p = Some n" "0 \<le> i" "i < n" using l by (auto simp: legal_def)
  obtain k where k: "V p = Some k" "n \<le> k" using V(3) [OF n(1)] by blast
  have h': "h' = h\<lparr>bytes := (bytes h)(p + i := b)\<rparr>"
    using m by (auto simp: memset_def fun_eq_iff split: if_splits)
  have I: "inv h' V"
    by (rule escribir [OF V(1) k(1)]) (use n k in \<open>auto simp: cambia_def h'\<close>)
  have otra: "contenido h' q m = contenido h q m" if q: "L q = Some m" "q \<noteq> p" for q m
  proof -
    obtain j where j: "V q = Some j" "m \<le> j" using V(3) [OF q(1)] by blast
    then show ?thesis using disjuntas [OF V(1) j(1) k(1) q(2)] n k by (intro contenido_igual) (auto simp: h')
  qed
  have esta: "contenido h' p n = (contenido h p n)[nat i := b]"
    using n by (intro nth_equalityI) (auto simp: contenido_def h' nth_list_update)
  have "vista (h', L) = (vista (h, L))(p \<mapsto> (contenido h p n)[nat i := b])"
  proof
    fix q show "vista (h', L) q = ((vista (h, L))(p \<mapsto> (contenido h p n)[nat i := b])) q"
      by (cases "L q"; cases "q = p") (use n esta otra in simp_all)
  qed
  then have "abstracto (vista (h, L)) (Escribe p i b, Nada) (vista (h', L))"
    using abstracto.pone [of "vista (h, L)" p "contenido h p n" "nat i" b] n by simp
  moreover have "cuadra inv (h', L)" by (rule cuadraI [where I = inv, OF I V(2)]) (use V(3) in fastforce)
  ultimately show ?thesis by (simp add: paso_bien_def gasto_def falla_def mem_heapsize_def h')
qed

lemma paso_lee:
  assumes c: "cuadra inv (h, L)" and l: "legal L (Lee p i)"
  shows "paso_bien inv crece (h, L) (Lee p i, Byte (bytes h (p + i))) (h, L)"
proof -
  obtain n where n: "L p = Some n" "0 \<le> i" "i < n" using l by (auto simp: legal_def)
  then have "abstracto (vista (h, L)) (Lee p i, Byte (bytes h (p + i))) (vista (h, L))"
    using abstracto.saca [of "vista (h, L)" p "contenido h p n" "nat i"] by (simp add: contenido_def)
  then show ?thesis using c by (simp add: paso_bien_def gasto_def falla_def)
qed

lemma paso_simula: "cuadra inv s \<Longrightarrow> paso A s e s' \<Longrightarrow> paso_bien inv crece s e s'"
  by (erule paso.cases) (simp_all add: paso_pide paso_libera paso_cambia paso_escribe paso_lee split del: if_split)

text \<open>No legal request finds the code without an answer.\<close>

lemma paso_avanza:
  assumes c: "cuadra inv (h, L)" and l: "legal L q"
  shows "\<exists>r s'. paso A (h, L) (q, r) s'"
proof -
  obtain V where V0: "inv h V" "dom V = dom L" "\<And>p n. L p = Some n \<Longrightarrow> \<exists>m. V p = Some m \<and> 0 < n \<and> n \<le> m"
    using cuadraE [OF c] by blast
  note V = V0(1,3)
  have dentro: "en_area h (p + i) 1" if i: "L p = Some n" "0 \<le> i" "i < n" for p i n
  proof -
    obtain m where m: "V p = Some m" "n \<le> m" using V(2) [OF i(1)] by blast
    show ?thesis using en_heap [OF V(1) m(1)] m(2) i(2,3) by (simp add: Memlib.en_area_def)
  qed
  show ?thesis
  proof (cases q)
    case (Pide sz)
    then have "0 < sz" "sz < 2 ^ 31" using l by (simp_all add: legal_def)
    then obtain p h' where "malloc_f A (word_of_int sz) h = Some (p, h')" using malloc_total [OF V(1)] by blast
    then show ?thesis using l Pide paso.pide [of L sz A h p h'] by blast
  next
    case (Libera p)
    then obtain k where "V p = Some k" using l V(2) by (auto simp: legal_def)
    then obtain h' where "free_f A p h = Some h'" using free [OF V(1)] by blast
    then show ?thesis using l Libera paso.libera [of L p A h h'] by blast
  next
    case (Cambia p sz)
    then have sz: "0 < sz" "sz < 2 ^ 31" and "\<exists>k. V p = Some k" using l V(2) by (auto simp: legal_def)
    then obtain k where "V p = Some k" by blast
    then obtain r h' where "realloc_f A p (word_of_int sz) h = Some (r, h')"
      using realloc_total [OF V(1) _ sz] by blast
    then show ?thesis using l Cambia paso.cambia [of L p sz A h r h'] by blast
  next
    case (Escribe p i b)
    then have "en_area h (p + i) 1" using l dentro by (auto simp: legal_def)
    then obtain h' where "memset (p + i) b 1 h = Some h'" by (simp add: memset_def)
    then show ?thesis using l Escribe paso.escribe [of L p i b h h' A] by blast
  next
    case (Lee p i)
    then have "en_area h (p + i) 1" using l dentro by (auto simp: legal_def)
    then show ?thesis using l Lee paso.lee [of L p i h A] by blast
  qed
qed

lemma paso_gasto: "paso A s e s' \<Longrightarrow> 0 \<le> gasto crece e"
  by (erule paso.cases) (auto simp: gasto_def legal_def intro: crece_pos)

text \<open>Runs of any length.\<close>

lemma corre_gasto: "corre (paso A) s es s' \<Longrightarrow> 0 \<le> (\<Sum>e\<leftarrow>es. gasto crece e)"
  by (induction rule: corre.induct) (use paso_gasto in fastforce)+

lemma corre_simula:
  assumes "corre (paso A) s es s'" "cuadra inv s"
  shows "cuadra inv s' \<and> corre abstracto (vista s) es (vista s') \<and>
    mem_heapsize (fst s') \<le> mem_heapsize (fst s) + (\<Sum>e\<leftarrow>es. gasto crece e) \<and>
    (list_ex falla es \<longrightarrow> MAX_HEAP < mem_heapsize (fst s) + (\<Sum>e\<leftarrow>es. gasto crece e))"
  using assms
proof (induction rule: corre.induct)
  case (sigue s e t es u)
  have p: "paso_bien inv crece s e t" by (rule paso_simula [OF sigue.prems sigue.hyps(1)])
  have e: "0 \<le> (\<Sum>e\<leftarrow>es. gasto crece e)" by (rule corre_gasto [OF sigue.hyps(2)])
  show ?case using sigue.IH p e by (auto simp: paso_bien_def intro: corre.sigue)
qed simp

text \<open>From the empty area on.\<close>

lemma corre_desde_init:
  assumes "area h" "mem_brk h = mem_start_brk h"
  shows "\<exists>r h0. init_f A h = Some (r, h0) \<and> 0 \<le> r \<and>
    (\<forall>es s. corre (paso A) (h0, Map.empty) es s \<longrightarrow>
      corre abstracto Map.empty es (vista s) \<and>
      (\<forall>q. legal (snd s) q \<longrightarrow> (\<exists>a s'. paso A s (q, a) s')) \<and>
      (list_ex falla es \<longrightarrow> MAX_HEAP < inicial + (\<Sum>e\<leftarrow>es. gasto crece e)))"
proof -
  obtain r h0 where i: "init_f A h = Some (r, h0)" "0 \<le> r" "inv h0 Map.empty" "mem_heapsize h0 \<le> inicial"
    using init [OF assms] by blast
  have c: "cuadra inv (h0, Map.empty)" by (rule cuadraI [where I = inv, OF i(3)]) simp_all
  have "corre abstracto Map.empty es (vista s) \<and> (\<forall>q. legal (snd s) q \<longrightarrow> (\<exists>a s'. paso A s (q, a) s')) \<and>
      (list_ex falla es \<longrightarrow> MAX_HEAP < inicial + (\<Sum>e\<leftarrow>es. gasto crece e))"
    if r: "corre (paso A) (h0, Map.empty) es s" for es s
    using corre_simula [OF r c] paso_avanza [of "fst s" "snd s"] i(4) by auto
  then show ?thesis using i(1,2) by blast
qed

end

end
