(* ===== verification/Mm.thy ===== *)
theory Mm
  imports Memlib
begin

text \<open>
  \<^verbatim>\<open>Labs grupales/malloc/mm.c\<close>: an allocator with boundary tags, first fit and immediate
  coalescing. Names follow the source. Every function of the source that reads or writes the
  heap is a function on the heap with an optional result: \<open>None\<close> is an access outside the area
  or, for \<open>find_fit\<close>, a loop that does not end.
\<close>

unbundle bit_operations_syntax

definition WSIZE :: int where "WSIZE = 8"
definition DSIZE :: int where "DSIZE = 16"
definition CHUNKSIZE :: u64 where "CHUNKSIZE = 4096"

definition max_u64 :: "u64 \<Rightarrow> u64 \<Rightarrow> u64" where
  "max_u64 x y = (if x > y then x else y)"

definition pack_word :: "u64 \<Rightarrow> u64 \<Rightarrow> u64" where
  "pack_word sz alloc = sz OR alloc"

definition obtener_word :: "addr \<Rightarrow> heap_t \<Rightarrow> u64 option" where
  "obtener_word header h = cargar64 header h"

definition escribir_header :: "addr \<Rightarrow> u64 \<Rightarrow> heap_t \<Rightarrow> heap_t option" where
  "escribir_header header val h = guardar64 header val h"

text \<open>\<^verbatim>\<open>~0xF\<close> is an \<^verbatim>\<open>int\<close> that is extended to 64 bits.\<close>

definition block_size :: "addr \<Rightarrow> heap_t \<Rightarrow> u64 option" where
  "block_size p h = do { w \<leftarrow> obtener_word p h; Some (w AND NOT 15) }"

definition is_allocated :: "addr \<Rightarrow> heap_t \<Rightarrow> bool option" where
  "is_allocated p h = do { w \<leftarrow> obtener_word p h; Some (w AND 1 \<noteq> 0) }"

definition obtener_header :: "addr \<Rightarrow> addr" where
  "obtener_header block = block - WSIZE"

definition obtener_footer :: "addr \<Rightarrow> heap_t \<Rightarrow> addr option" where
  "obtener_footer block h = do { s \<leftarrow> block_size (obtener_header block) h; Some (block + uint s - DSIZE) }"

definition proximo_bloque :: "addr \<Rightarrow> heap_t \<Rightarrow> addr option" where
  "proximo_bloque block h = do { s \<leftarrow> block_size (block - WSIZE) h; Some (block + uint s) }"

definition bloque_anterior :: "addr \<Rightarrow> heap_t \<Rightarrow> addr option" where
  "bloque_anterior block h = do { s \<leftarrow> block_size (block - DSIZE) h; Some (block - uint s) }"

subsection \<open>The consistency check\<close>

text \<open>\<^verbatim>\<open>check_heap\<close> writes its complaints about one block to standard output.\<close>

definition check_heap :: "addr \<Rightarrow> heap_t \<Rightarrow> heap_t option" where
  "check_heap line h = do {
     let m1 = (if line mod DSIZE \<noteq> 0 then [Mal_alineado (line mod DSIZE)] else []);
     footer \<leftarrow> obtener_footer line h;
     sh \<leftarrow> block_size (obtener_header line) h;
     sf \<leftarrow> block_size footer h;
     let m2 = (if sh \<noteq> sf then [Tamanos sh sf] else []);
     ah \<leftarrow> is_allocated (obtener_header line) h;
     wf \<leftarrow> obtener_word footer h;
     let m3 = (if ah \<noteq> (wf AND 1 \<noteq> 0) then [Bits_asignado ah (wf AND 1 \<noteq> 0)] else []);
     let ms = m1 @ m2 @ m3;
     Some (h\<lparr>impreso := impreso h @ (if ms = [] then [] else Bloque line # ms)\<rparr>)
   }"

subsection \<open>Coalescing and extending\<close>

definition coalesce :: "addr \<Rightarrow> heap_t \<Rightarrow> (addr \<times> heap_t) option" where
  "coalesce block h = do {
     anterior \<leftarrow> bloque_anterior block h;
     pie \<leftarrow> obtener_footer anterior h;
     prev_alloc \<leftarrow> is_allocated pie h;
     proximo \<leftarrow> proximo_bloque block h;
     next_alloc \<leftarrow> is_allocated (obtener_header proximo) h;
     new_size \<leftarrow> block_size (obtener_header block) h;
     if prev_alloc \<and> next_alloc then Some (block, h)
     else if prev_alloc \<and> \<not> next_alloc then do {
       proximo \<leftarrow> proximo_bloque block h;
       s \<leftarrow> block_size (obtener_header proximo) h;
       let new_size = new_size + s;
       h \<leftarrow> escribir_header (obtener_header block) (pack_word new_size 0) h;
       pie \<leftarrow> obtener_footer block h;
       h \<leftarrow> escribir_header pie (pack_word new_size 0) h;
       Some (block, h)
     }
     else if \<not> prev_alloc \<and> next_alloc then do {
       anterior \<leftarrow> bloque_anterior block h;
       s \<leftarrow> block_size (obtener_header anterior) h;
       let new_size = new_size + s;
       pie \<leftarrow> obtener_footer block h;
       h \<leftarrow> escribir_header pie (pack_word new_size 0) h;
       anterior \<leftarrow> bloque_anterior block h;
       h \<leftarrow> escribir_header (obtener_header anterior) (pack_word new_size 0) h;
       block \<leftarrow> bloque_anterior block h;
       Some (block, h)
     }
     else do {
       anterior \<leftarrow> bloque_anterior block h;
       sa \<leftarrow> block_size (obtener_header anterior) h;
       proximo \<leftarrow> proximo_bloque block h;
       pie \<leftarrow> obtener_footer proximo h;
       sp \<leftarrow> block_size pie h;
       let new_size = new_size + (sa + sp);
       h \<leftarrow> escribir_header (obtener_header anterior) (pack_word new_size 0) h;
       proximo \<leftarrow> proximo_bloque block h;
       pie \<leftarrow> obtener_footer proximo h;
       h \<leftarrow> escribir_header pie (pack_word new_size 0) h;
       block \<leftarrow> bloque_anterior block h;
       Some (block, h)
     }
   }"

text \<open>The sz is a \<^verbatim>\<open>uint64_t\<close>, the parameter of \<^verbatim>\<open>mem_sbrk\<close> an \<^verbatim>\<open>int\<close>.\<close>

definition extend_heap :: "u64 \<Rightarrow> heap_t \<Rightarrow> (addr \<times> heap_t) option" where
  "extend_heap ws h =
     (let sz = (if ws mod 2 \<noteq> 0 then (ws + 1) * 8 else ws * 8)
      in case mem_sbrk (to_int32 (uint sz)) h of (block_pointer, h) \<Rightarrow>
           if block_pointer = SBRK_FAILED then Some (NULL, h)
           else do {
             h \<leftarrow> escribir_header (obtener_header block_pointer) (pack_word sz 0) h;
             pie \<leftarrow> obtener_footer block_pointer h;
             h \<leftarrow> escribir_header pie (pack_word sz 0) h;
             proximo \<leftarrow> proximo_bloque block_pointer h;
             h \<leftarrow> escribir_header (obtener_header proximo) (pack_word 0 1) h;
             h \<leftarrow> check_heap block_pointer h;
             (block_pointer, h) \<leftarrow> coalesce block_pointer h;
             h \<leftarrow> check_heap block_pointer h;
             Some (block_pointer, h)
           })"

definition mm_init :: "heap_t \<Rightarrow> (int \<times> heap_t) option" where
  "mm_init h =
     (case mem_sbrk (4 * WSIZE) h of (p, h) \<Rightarrow>
        let h = h\<lparr>heap_listp := p\<rparr>
        in if p = SBRK_FAILED then Some (0, h)
           else do {
             h \<leftarrow> escribir_header (heap_listp h) 0 h;
             h \<leftarrow> escribir_header (heap_listp h + WSIZE) (pack_word 16 1) h;
             h \<leftarrow> escribir_header (heap_listp h + 2 * WSIZE) (pack_word 16 1) h;
             h \<leftarrow> escribir_header (heap_listp h + 3 * WSIZE) (pack_word 0 1) h;
             let h = h\<lparr>heap_listp := heap_listp h + 2 * WSIZE\<rparr>;
             (p, h) \<leftarrow> extend_heap (CHUNKSIZE div 8) h;
             Some (if p = NULL then (0, h) else (1, h))
           })"

subsection \<open>Allocating and freeing\<close>

definition place :: "addr \<Rightarrow> u64 \<Rightarrow> heap_t \<Rightarrow> heap_t option" where
  "place block_pointer sz h = do {
     size_header \<leftarrow> block_size (obtener_header block_pointer) h;
     if size_header - sz \<ge> 32 then do {
       h \<leftarrow> escribir_header (obtener_header block_pointer) (pack_word sz 1) h;
       pie \<leftarrow> obtener_footer block_pointer h;
       h \<leftarrow> escribir_header pie (pack_word sz 1) h;
       block_pointer \<leftarrow> proximo_bloque block_pointer h;
       h \<leftarrow> escribir_header (obtener_header block_pointer) (pack_word (size_header - sz) 0) h;
       pie \<leftarrow> obtener_footer block_pointer h;
       escribir_header pie (pack_word (size_header - sz) 0) h
     } else do {
       h \<leftarrow> escribir_header (obtener_header block_pointer) (pack_word size_header 1) h;
       pie \<leftarrow> obtener_footer block_pointer h;
       escribir_header pie (pack_word size_header 1) h
     }
   }"

partial_function (option) find_fit_loop :: "u64 \<Rightarrow> addr \<Rightarrow> u64 \<Rightarrow> heap_t \<Rightarrow> (addr \<times> heap_t) option" where
  "find_fit_loop sz block_found size_block h =
     (if size_block > 0 then
        Option.bind (check_heap block_found h) (\<lambda>h.
        Option.bind (is_allocated (obtener_header block_found) h) (\<lambda>alloc.
        Option.bind (block_size (obtener_header block_found) h) (\<lambda>s.
          if \<not> alloc \<and> s \<ge> sz then Some (block_found, h)
          else
            Option.bind (proximo_bloque block_found h) (\<lambda>block_found.
            Option.bind (block_size (obtener_header block_found) h) (\<lambda>size_block.
              find_fit_loop sz block_found size_block h)))))
      else Some (NULL, h))"

definition find_fit :: "u64 \<Rightarrow> heap_t \<Rightarrow> (addr \<times> heap_t) option" where
  "find_fit sz h = do {
     size_block \<leftarrow> block_size (obtener_header (heap_listp h)) h;
     find_fit_loop sz (heap_listp h) size_block h
   }"

definition adjusted_size_of :: "u64 \<Rightarrow> u64" where
  "adjusted_size_of sz = (if sz \<le> 16 then 32 else 16 * ((sz + 16 + 15) div 16))"

definition mm_malloc :: "u64 \<Rightarrow> heap_t \<Rightarrow> (addr \<times> heap_t) option" where
  "mm_malloc sz h =
     (if sz = 0 then Some (NULL, h)
      else do {
        h \<leftarrow> (if heap_listp h = NULL then do { (r, h) \<leftarrow> mm_init h; Some h } else Some h);
        let adjusted_size = adjusted_size_of sz;
        (block_pointer, h) \<leftarrow> find_fit adjusted_size h;
        if block_pointer \<noteq> NULL then do {
          h \<leftarrow> check_heap block_pointer h;
          h \<leftarrow> place block_pointer adjusted_size h;
          Some (block_pointer, h)
        } else do {
          let extendsize = max_u64 adjusted_size CHUNKSIZE;
          (block_pointer, h) \<leftarrow> extend_heap (extendsize div 8) h;
          if block_pointer = NULL then Some (NULL, h)
          else do {
            h \<leftarrow> place block_pointer adjusted_size h;
            h \<leftarrow> check_heap block_pointer h;
            Some (block_pointer, h)
          }
        }
      })"

definition mm_free :: "addr \<Rightarrow> heap_t \<Rightarrow> heap_t option" where
  "mm_free ptr h =
     (if ptr = NULL then Some h
      else do {
        h \<leftarrow> (if heap_listp h = NULL then do { (r, h) \<leftarrow> mm_init h; Some h } else Some h);
        h \<leftarrow> check_heap ptr h;
        sz \<leftarrow> block_size (obtener_header ptr) h;
        h \<leftarrow> escribir_header (obtener_header ptr) (pack_word sz 0) h;
        pie \<leftarrow> obtener_footer ptr h;
        h \<leftarrow> escribir_header pie (pack_word sz 0) h;
        (block, h) \<leftarrow> coalesce ptr h;
        Some h
      })"

definition mm_realloc :: "addr \<Rightarrow> u64 \<Rightarrow> heap_t \<Rightarrow> (addr \<times> heap_t) option" where
  "mm_realloc ptr sz h =
     (if sz = 0 then do { h \<leftarrow> mm_free ptr h; Some (NULL, h) }
      else if ptr = NULL then mm_malloc sz h
      else do {
        h \<leftarrow> check_heap ptr h;
        (newblock, h) \<leftarrow> mm_malloc sz h;
        if newblock = NULL then Some (NULL, h)
        else do {
          h \<leftarrow> check_heap newblock h;
          oldsize \<leftarrow> block_size (obtener_header ptr) h;
          let oldsize = (if oldsize > sz then sz else oldsize);
          h \<leftarrow> memcpy newblock ptr (unat oldsize) h;
          h \<leftarrow> mm_free ptr h;
          Some (newblock, h)
        }
      })"

end
