(* ===== verification/Mm_Inv.thy ===== *)
theory Mm_Inv
  imports Mm Allocator
begin

text \<open>
  The invariant of the allocator: the heap is a sequence of blocks with equal boundary tags.
  The lemmas say what each primitive of \<^verbatim>\<open>mm.c\<close> reads and writes in such a heap; the
  invariant is a segment predicate with append and frame lemmas.
\<close>

unbundle bit_operations_syntax

subsection \<open>Boundary tags\<close>

text \<open>The word that holds the size of a block and whether it is allocated.\<close>

definition marca :: "int \<Rightarrow> bool \<Rightarrow> u64" where
  "marca s al = word_of_int s OR (if al then 1 else 0)"

lemma word16: "16 dvd s \<Longrightarrow> \<exists>k. (word_of_int s :: u64) = push_bit 4 (word_of_int k)"
  by (auto simp: dvd_def push_bit_eq_mult mult.commute)

lemma marca_size [simp]:
  assumes "16 dvd s"
  shows "marca s al AND - 16 = word_of_int s"
proof -
  obtain k where k: "(word_of_int s :: u64) = push_bit 4 (word_of_int k)" using word16 [OF assms] by blast
  have m: "(- 16 :: u64) = NOT (mask 4)" by (simp add: mask_eq_exp_minus_1)
  show ?thesis unfolding m by (rule bit_word_eqI) (auto simp: marca_def k bit_simps)
qed

lemma marca_alloc [simp]: "16 dvd s \<Longrightarrow> (marca s al AND 1 = 0) \<longleftrightarrow> \<not> al"
proof -
  assume "16 dvd s"
  then obtain k where "(word_of_int s :: u64) = push_bit 4 (word_of_int k)" using word16 by blast
  then have "bit (marca s al) 0 \<longleftrightarrow> al" by (simp add: marca_def bit_simps)
  then show ?thesis using and_bit_zero [of "marca s al" 0] by simp
qed

lemma pack_word_marca: "pack_word (word_of_int s) (if al then 1 else 0) = marca s al"
  by (simp add: pack_word_def marca_def)

lemma pack_word_0 [simp]: "pack_word (word_of_int s) 0 = marca s False"
  and pack_word_1 [simp]: "pack_word (word_of_int s) 1 = marca s True"
  by (simp_all add: pack_word_def marca_def)

lemma uint_size [simp]: "0 \<le> s \<Longrightarrow> s < 2 ^ 63 \<Longrightarrow> uint (word_of_int s :: u64) = s"
  by (rule uint_of_small_int) simp_all

subsection \<open>Blocks and segments\<close>

type_synonym bloque = "int \<times> bool"

definition blk :: "heap_t \<Rightarrow> addr \<Rightarrow> bloque \<Rightarrow> bool" where
  "blk h p b \<longleftrightarrow> rd64 (bytes h) (p - 8) = marca (fst b) (snd b) \<and>
     rd64 (bytes h) (p + fst b - 16) = marca (fst b) (snd b) \<and> 16 \<le> fst b \<and> 16 dvd fst b"

text \<open>Consecutive blocks, the first with its payload at \<open>p\<close>, up to where the next one would be.\<close>

fun seg :: "heap_t \<Rightarrow> addr \<Rightarrow> bloque list \<Rightarrow> addr \<Rightarrow> bool" where
  "seg h p [] q \<longleftrightarrow> p = q"
| "seg h p (b # bs) q \<longleftrightarrow> blk h p b \<and> seg h (p + fst b) bs q"

definition tam :: "bloque list \<Rightarrow> int" where
  "tam bs = sum_list (map fst bs)"

lemma tam_simps [simp]:
  "tam [] = 0" "tam (b # bs) = fst b + tam bs" "tam (xs @ ys) = tam xs + tam ys"
  by (simp_all add: tam_def)

lemma seg_end: "seg h p bs q \<Longrightarrow> q = p + tam bs"
  by (induction bs arbitrary: p) fastforce+

lemma seg_append [simp]: "seg h p (xs @ ys) q \<longleftrightarrow> seg h p xs (p + tam xs) \<and> seg h (p + tam xs) ys q"
  by (induction xs arbitrary: p) (auto simp: add.assoc)

lemma seg_sizes: "seg h p bs q \<Longrightarrow> b \<in> set bs \<Longrightarrow> 16 \<le> fst b \<and> 16 dvd fst b"
  by (induction bs arbitrary: p) (auto simp: blk_def)

lemma tam_ge: "(\<And>b. b \<in> set bs \<Longrightarrow> 16 \<le> fst b) \<Longrightarrow> 16 * int (length bs) \<le> tam bs"
  by (induction bs) fastforce+

lemma seg_tam: "seg h p bs q \<Longrightarrow> 0 \<le> tam bs \<and> 16 dvd tam bs"
  by (induction bs arbitrary: p) (auto simp: blk_def)

text \<open>A segment depends on the bytes from its first header to its last footer only.\<close>

lemma blk_cong:
  assumes "\<And>x. p - 8 \<le> x \<Longrightarrow> x < p + fst b - 8 \<Longrightarrow> bytes h' x = bytes h x" "blk h p b"
  shows "blk h' p b"
proof -
  have "rd64 (bytes h') (p - 8) = rd64 (bytes h) (p - 8)"
    "rd64 (bytes h') (p + fst b - 16) = rd64 (bytes h) (p + fst b - 16)"
  proof -
    show "rd64 (bytes h') (p - 8) = rd64 (bytes h) (p - 8)"
      by (rule rd64_cong, rule assms(1)) (use assms(2) in \<open>auto simp: blk_def\<close>)
    show "rd64 (bytes h') (p + fst b - 16) = rd64 (bytes h) (p + fst b - 16)"
      by (rule rd64_cong, rule assms(1)) (use assms(2) in \<open>auto simp: blk_def\<close>)
  qed
  then show ?thesis using assms(2) by (simp add: blk_def)
qed

lemma seg_cong:
  "seg h p bs q \<Longrightarrow> (\<And>x. p - 8 \<le> x \<Longrightarrow> x < q - 8 \<Longrightarrow> bytes h' x = bytes h x) \<Longrightarrow> seg h' p bs q"
proof (induction bs arbitrary: p)
  case (Cons b bs)
  then have b: "blk h p b" "seg h (p + fst b) bs q" by simp_all
  have q: "p + fst b \<le> q" using seg_end [OF b(2)] seg_tam [OF b(2)] by simp
  have "blk h' p b" by (rule blk_cong [OF _ b(1)]) (use Cons.prems(2) q in simp)
  moreover have "seg h' (p + fst b) bs q"
    using Cons.IH [OF b(2)] Cons.prems(2) b(1) by (simp add: blk_def)
  ultimately show ?case by simp
qed simp

subsection \<open>Reading a block\<close>

text \<open>A block that lies in the area with its tags.\<close>

definition dentro :: "heap_t \<Rightarrow> addr \<Rightarrow> int \<Rightarrow> bool" where
  "dentro h p s \<longleftrightarrow> area h \<and> mem_start_brk h + 8 \<le> p \<and> p + s \<le> mem_max_addr h + 8 \<and> 16 \<le> s"

lemma dentro_small: "dentro h p s \<Longrightarrow> 0 \<le> s \<and> s < 2 ^ 63"
  by (simp add: dentro_def area_def MAX_HEAP_def)

named_theorems lee \<comment> \<open>what the primitives return on a block\<close>

lemma leer_bloque [lee]:
  assumes "blk h p (s, al)" "dentro h p s"
  shows "block_size (p - 8) h = Some (word_of_int s)"
    and "block_size (p + s - 16) h = Some (word_of_int s)"
    and "is_allocated (p - 8) h = Some al"
    and "is_allocated (p + s - 16) h = Some al"
    and "obtener_footer p h = Some (p + s - 16)"
    and "proximo_bloque p h = Some (p + s)"
    and "bloque_anterior (p + s) h = Some p"
proof -
  have e: "en_area h (p - 8) 8" "en_area h (p + s - 16) 8"
    using assms(2) by (simp_all add: dentro_def en_area_def)
  have w: "rd64 (bytes h) (p - 8) = marca s al" "rd64 (bytes h) (p + s - 16) = marca s al" "16 dvd s"
    using assms(1) by (simp_all add: blk_def)
  show b: "block_size (p - 8) h = Some (word_of_int s)" "block_size (p + s - 16) h = Some (word_of_int s)"
    "is_allocated (p - 8) h = Some al" "is_allocated (p + s - 16) h = Some al"
    using e w by (simp_all add: block_size_def is_allocated_def obtener_word_def cargar64_Some)
  have "uint (word_of_int s :: u64) = s" using dentro_small [OF assms(2)] by simp
  then show "obtener_footer p h = Some (p + s - 16)" "proximo_bloque p h = Some (p + s)"
    "bloque_anterior (p + s) h = Some p"
    using b by (simp_all add: obtener_footer_def obtener_header_def proximo_bloque_def bloque_anterior_def
        WSIZE_def DSIZE_def)
qed

lemma check_heap_ok:
  assumes "blk h p (s, al)" "dentro h p s" "16 dvd p"
  shows "check_heap p h = Some h"
proof -
  have "obtener_word (p + s - 16) h = Some (marca s al)" "16 dvd s"
    using assms(1,2) by (simp_all add: blk_def dentro_def en_area_def obtener_word_def cargar64_def)
  then show ?thesis
    using assms(3) leer_bloque [OF assms(1,2)]
    by (simp add: check_heap_def obtener_header_def WSIZE_def DSIZE_def dvd_eq_mod_eq_0)
qed

subsection \<open>Writing a block\<close>

definition poner_marcas :: "addr \<Rightarrow> bloque \<Rightarrow> heap_t \<Rightarrow> heap_t" where
  "poner_marcas p b h =
     h\<lparr>bytes := wr64 (p + fst b - 16) (marca (fst b) (snd b)) (wr64 (p - 8) (marca (fst b) (snd b)) (bytes h))\<rparr>"

lemma poner_marcas_simps [simp]:
  "mem_start_brk (poner_marcas p b h) = mem_start_brk h"
  "mem_brk (poner_marcas p b h) = mem_brk h"
  "mem_max_addr (poner_marcas p b h) = mem_max_addr h"
  "heap_listp (poner_marcas p b h) = heap_listp h"
  "impreso (poner_marcas p b h) = impreso h"
  "area (poner_marcas p b h) = area h"
  "dentro (poner_marcas p b h) q s = dentro h q s"
  by (simp_all add: poner_marcas_def area_def dentro_def)

lemma poner_marcas_bytes:
  "x < p - 8 \<or> p + fst b - 8 \<le> x \<Longrightarrow> 16 \<le> fst b \<Longrightarrow> bytes (poner_marcas p b h) x = bytes h x"
  "p \<le> x \<Longrightarrow> x < p + fst b - 16 \<Longrightarrow> bytes (poner_marcas p b h) x = bytes h x"
  by (auto simp: poner_marcas_def wr64_other)

lemma blk_poner_marcas: "16 \<le> fst b \<Longrightarrow> 16 dvd fst b \<Longrightarrow> blk (poner_marcas p b h) p b"
  by (auto simp: blk_def poner_marcas_def rd64_wr64_other)

lemma marcar_header_footer [lee]:
  assumes "dentro h p s" "16 dvd s"
  shows "Option.bind (escribir_header (p - 8) (marca s al) h) (\<lambda>h. Option.bind (obtener_footer p h)
           (\<lambda>pie. Option.bind (escribir_header pie (marca s al) h) f)) = f (poner_marcas p (s, al) h)"
proof -
  have e: "en_area h (p - 8) 8" "en_area h (p + s - 16) 8"
    using assms(1) by (simp_all add: dentro_def en_area_def)
  have "uint (word_of_int s :: u64) = s" using dentro_small [OF assms(1)] by simp
  then have "obtener_footer p (h\<lparr>bytes := wr64 (p - 8) (marca s al) (bytes h)\<rparr>) = Some (p + s - 16)"
    using e assms(2)
    by (simp add: obtener_footer_def obtener_header_def block_size_def obtener_word_def cargar64_Some
        WSIZE_def DSIZE_def)
  then show ?thesis
    using e by (simp add: escribir_header_def guardar64_Some poner_marcas_def)
qed

lemma wr64_commute: "a + 8 \<le> b \<or> b + 8 \<le> a \<Longrightarrow> wr64 a v (wr64 b w m) = wr64 b w (wr64 a v m)"
  by (auto simp: wr64_def fun_eq_iff)

text \<open>
  Some consecutive blocks replaced by one of their total size: the rest of the segment stays, and
  no byte changes outside the space of those blocks.
\<close>

lemma seg_reemplazar:
  assumes "seg h p0 (xs @ mid @ ys) q" "p = p0 + tam xs" "tam mid = s" "16 \<le> s"
  shows "seg (poner_marcas p (s, al) h) p0 (xs @ (s, al) # ys) q"
proof -
  let ?h = "poner_marcas p (s, al) h"
  have m: "seg h p0 xs p" "seg h p mid (p + s)" "seg h (p + s) ys q" using assms by auto
  have s: "16 dvd s" using seg_tam [OF m(2)] assms(3) by simp
  have "seg ?h p0 xs p" by (rule seg_cong [OF m(1)]) (rule poner_marcas_bytes(1), use assms(4) in auto)
  moreover have "seg ?h (p + s) ys q"
    by (rule seg_cong [OF m(3)]) (rule poner_marcas_bytes(1), use assms(4) in auto)
  moreover have "blk ?h p (s, al)" using assms(4) s by (simp add: blk_poner_marcas)
  ultimately show ?thesis using assms(2) by simp
qed

end
