(* ===== verification/Mm_Ops.thy ===== *)
theory Mm_Ops
  imports Mm_Inv
begin

text \<open>
  The internal operations of the allocator on a well-formed heap: \<^verbatim>\<open>coalesce\<close>, \<^verbatim>\<open>place\<close>,
  \<^verbatim>\<open>find_fit\<close> and \<^verbatim>\<open>extend_heap\<close> as operations on the list of blocks.
\<close>

unbundle bit_operations_syntax

subsection \<open>The heap\<close>

definition inicio :: "heap_t \<Rightarrow> addr" where
  "inicio h = mem_start_brk h + 16"

text \<open>The prologue, the other blocks, and the epilogue header in the last word.\<close>

definition heap_ok :: "heap_t \<Rightarrow> bloque list \<Rightarrow> bool" where
  "heap_ok h bs \<longleftrightarrow> area h \<and> seg h (inicio h) ((16, True) # bs) (mem_brk h) \<and>
     rd64 (bytes h) (mem_brk h - 8) = marca 0 True \<and> mem_brk h \<le> mem_max_addr h"

lemma heap_ok_seg:
  assumes "heap_ok h bs" "(16, True) # bs = xs @ b # ys"
  shows "blk h (inicio h + tam xs) b" "dentro h (inicio h + tam xs) (fst b)" "16 dvd inicio h + tam xs"
    "0 < inicio h + tam xs" "seg h (inicio h) xs (inicio h + tam xs)"
    "seg h (inicio h + tam xs + fst b) ys (mem_brk h)"
proof -
  have s: "seg h (inicio h) xs (inicio h + tam xs)" "blk h (inicio h + tam xs) b"
    "seg h (inicio h + tam xs + fst b) ys (mem_brk h)"
    using assms unfolding heap_ok_def assms(2) by simp_all
  then show "blk h (inicio h + tam xs) b" "seg h (inicio h) xs (inicio h + tam xs)"
    "seg h (inicio h + tam xs + fst b) ys (mem_brk h)" by simp_all
  have t: "0 \<le> tam xs" "16 dvd tam xs" "0 \<le> tam ys" using seg_tam [OF s(1)] seg_tam [OF s(3)] by simp_all
  have a: "area h" "mem_brk h \<le> mem_max_addr h" using assms(1) by (simp_all add: heap_ok_def)
  show "dentro h (inicio h + tam xs) (fst b)"
    using s(2) t a seg_end [OF s(3)] by (simp add: dentro_def inicio_def blk_def)
  show "16 dvd inicio h + tam xs" "0 < inicio h + tam xs"
    using t a by (simp_all add: inicio_def area_def)
qed

lemma wr64_rd64 [simp]: "wr64 a (rd64 m a) m = m"
proof
  fix x
  show "wr64 a (rd64 m a) m x = m x"
  proof (cases "a \<le> x \<and> x < a + 8")
    case True
    then have n: "nat (x - a) < 8" "a + int (nat (x - a)) = x" by auto
    have "ucast (drop_bit (8 * nat (x - a)) (rd64 m a)) = m x"
      by (rule bit_word_eqI) (use n in \<open>auto simp: bit_rd64 bit_simps\<close>)
    then show ?thesis using True by (simp add: wr64_def)
  qed (auto simp: wr64_def)
qed

lemma poner_marcas_id: "blk h p b \<Longrightarrow> poner_marcas p b h = h"
  by (cases h) (simp add: poner_marcas_def blk_def, metis wr64_rd64)

subsection \<open>Coalescing\<close>

text \<open>
  A free block of size \<open>s\<close> between \<open>xs\<close> and \<open>ys\<close> joined with its free neighbours: the blocks
  before the result, its size, and the blocks after it.
\<close>

definition fusionar :: "bloque list \<Rightarrow> int \<Rightarrow> bloque list \<Rightarrow> bloque list \<times> int \<times> bloque list" where
  "fusionar xs s ys =
     (let (xs', s') = (if snd (last xs) then (xs, s) else (butlast xs, fst (last xs) + s));
          (s'', ys') = (case ys of [] \<Rightarrow> (s', []) | b # zs \<Rightarrow> if snd b then (s', ys) else (s' + fst b, zs))
      in (xs', s'', ys'))"

lemma word_add: "(word_of_int a :: u64) + word_of_int b = word_of_int (a + b)"
  by simp

lemma next_alloc:
  assumes "heap_ok h bs" "(16, True) # bs = xs @ (s, al) # ys" "p = inicio h + tam xs"
  shows "is_allocated (p + s - 8) h = Some (ys = [] \<or> snd (hd ys))"
proof (cases ys)
  case Nil
  have "mem_brk h = p + s" using heap_ok_seg(6) [OF assms(1,2)] Nil assms(3) by simp
  moreover have "en_area h (mem_brk h - 8) 8"
    using assms(1) heap_ok_seg(2) [OF assms(1,2)] calculation assms(3)
    by (simp add: heap_ok_def en_area_def dentro_def)
  ultimately show ?thesis
    using assms(1) Nil by (simp add: heap_ok_def is_allocated_def obtener_word_def cargar64_Some)
next
  case (Cons b zs)
  obtain sn an where b: "b = (sn, an)" by force
  have e: "(16, True) # bs = (xs @ [(s, al)]) @ (sn, an) # zs" using assms(2) Cons b by simp
  have np: "inicio h + tam (xs @ [(s, al)]) = p + s" using assms(3) by simp
  have "blk h (p + s) (sn, an)" "dentro h (p + s) sn"
    using heap_ok_seg(1,2) [OF assms(1) e] unfolding np by simp_all
  then show ?thesis using leer_bloque(3) Cons b by simp
qed

lemma dentro_en_area: "dentro h p s \<Longrightarrow> en_area h (p - 8) 8 \<and> en_area h (p + s - 16) 8"
  by (simp add: dentro_def en_area_def)

text \<open>Reads that a write elsewhere does not change.\<close>

lemma lee_marco [lee]:
  "x + 8 \<le> p - 16 \<or> p - 8 \<le> x \<Longrightarrow>
     bloque_anterior p (h\<lparr>bytes := wr64 x v m\<rparr>) = bloque_anterior p (h\<lparr>bytes := m\<rparr>)"
  "x + 8 \<le> p - 8 \<or> p \<le> x \<Longrightarrow>
     proximo_bloque p (h\<lparr>bytes := wr64 x v m\<rparr>) = proximo_bloque p (h\<lparr>bytes := m\<rparr>)"
  "x + 8 \<le> p - 8 \<or> p \<le> x \<Longrightarrow>
     obtener_footer p (h\<lparr>bytes := wr64 x v m\<rparr>) = obtener_footer p (h\<lparr>bytes := m\<rparr>)"
  "x + 8 \<le> p \<or> p + 8 \<le> x \<Longrightarrow>
     block_size p (h\<lparr>bytes := wr64 x v m\<rparr>) = block_size p (h\<lparr>bytes := m\<rparr>)"
  by (simp_all add: bloque_anterior_def proximo_bloque_def obtener_footer_def block_size_def obtener_header_def
      obtener_word_def cargar64_def rd64_wr64_other WSIZE_def DSIZE_def)

lemma escribir_en [lee]:
  "en_area h a 8 \<Longrightarrow> escribir_header a v (h\<lparr>bytes := m\<rparr>) = Some (h\<lparr>bytes := wr64 a v m\<rparr>)"
  "en_area h a 8 \<Longrightarrow> escribir_header a v h = Some (h\<lparr>bytes := wr64 a v (bytes h)\<rparr>)"
  by (simp_all add: escribir_header_def guardar64_def)

lemma coalesce_spec:
  assumes ok: "heap_ok h bs" and bs: "(16, True) # bs = xs @ (s, False) # ys"
    and p: "p = inicio h + tam xs" and f: "fusionar xs s ys = (xs', s', ys')"
  shows "coalesce p h = Some (inicio h + tam xs', poner_marcas (inicio h + tam xs') (s', False) h)"
proof -
  have "xs \<noteq> []" using bs by (cases xs) auto
  then obtain vs b where vs: "xs = vs @ [b]" by (metis rev_exhaust)
  obtain sp ap where b: "b = (sp, ap)" by force
  have e1: "(16, True) # bs = vs @ (sp, ap) # (s, False) # ys" using bs vs b by simp
  define q where "q = inicio h + tam vs"
  have pp: "p = q + sp" using p vs b by (simp add: q_def)
  note B = heap_ok_seg(1,2) [OF ok bs, folded p]
  note A = heap_ok_seg(1,2) [OF ok e1, folded q_def]
  note rB = leer_bloque [OF B(1), simplified, OF B(2) [simplified]]
  note rA = leer_bloque [OF A(1), simplified, OF A(2) [simplified], folded pp]
  have an: "is_allocated (p + s - 8) h = Some (ys = [] \<or> snd (hd ys))"
    by (rule next_alloc [OF ok bs p])
  note unf = coalesce_def obtener_header_def WSIZE_def rA rB an
  have sp: "16 \<le> sp" "16 \<le> s" using A(1) B(1) by (simp_all add: blk_def)
  have pq: "q + 16 \<le> p" "q = p - sp" using sp pp by simp_all
  note E = dentro_en_area [OF A(2) [simplified]] dentro_en_area [OF B(2) [simplified]]
  show ?thesis
  proof (cases "ys = [] \<or> snd (hd ys)")
    case sig: True
    show ?thesis
    proof (cases ap)
      case True
      have "xs' = xs" "s' = s"
        using f True sig vs b by (auto simp: fusionar_def split: list.splits if_splits)
      then show ?thesis
        using True sig poner_marcas_id [OF B(1)] by (simp add: unf p [symmetric])
    next
      case False
      have r: "xs' = vs" "s' = s + sp"
        using f False sig vs b by (auto simp: fusionar_def split: list.splits if_splits)
      have c: "wr64 (p + s - 16) m (wr64 (q - 8) m (bytes h)) = wr64 (q - 8) m (wr64 (p + s - 16) m (bytes h))" for m
        using sp pp by (intro wr64_commute) simp
      have e: "q + (s + sp) - 16 = p + s - 16" using pp by simp
      have "poner_marcas q (s + sp, False) h =
          h\<lparr>bytes := wr64 (q - 8) (marca (s + sp) False) (wr64 (p + s - 16) (marca (s + sp) False) (bytes h))\<rparr>"
        unfolding poner_marcas_def fst_conv snd_conv e c ..
      then show ?thesis
        using False sig E sp pq(1) by (simp add: unf r q_def [symmetric] lee Let_def word_add del: of_int_add)
    qed
  next
    case nonext: False
    then obtain sn zs where ys: "ys = (sn, False) # zs" by (cases ys) auto
    have e2: "(16, True) # bs = (xs @ [(s, False)]) @ (sn, False) # zs" using bs ys by simp
    have np: "inicio h + tam (xs @ [(s, False)]) = p + s" using p by simp
    note C = heap_ok_seg(1,2) [OF ok e2, unfolded np]
    note rC = leer_bloque [OF C(1), simplified, OF C(2) [simplified]]
    note EC = dentro_en_area [OF C(2) [simplified]]
    have sn: "16 \<le> sn" "16 dvd sn" "16 dvd s" using C(1) B(1) by (simp_all add: blk_def)
    show ?thesis
    proof (cases ap)
      case True
      have r: "xs' = xs" "s' = s + sn"
        using f True ys vs b by (auto simp: fusionar_def split: list.splits if_splits)
      have d: "dentro h p (s + sn)" using B(2) C(2) sp sn by (simp add: dentro_def)
      then show ?thesis
        using True nonext marcar_header_footer [OF d, of False] sn
        by (simp add: unf rC r p [symmetric] Let_def word_add del: of_int_add)
    next
      case False
      have r: "xs' = vs" "s' = s + (sp + sn)"
        using f False ys vs b by (auto simp: fusionar_def split: list.splits if_splits)
      have e: "q + (s + (sp + sn)) - 16 = p + s + sn - 16" using pp by simp
      have "poner_marcas q (s + (sp + sn), False) h =
          h\<lparr>bytes := wr64 (p + s + sn - 16) (marca (s + (sp + sn)) False) (wr64 (q - 8) (marca (s + (sp + sn)) False) (bytes h))\<rparr>"
        unfolding poner_marcas_def fst_conv snd_conv e ..
      then show ?thesis
        using False nonext E EC sp sn pq(1)
        by (simp add: unf rC r q_def [symmetric] lee Let_def word_add del: of_int_add)
    qed
  qed
qed

subsection \<open>Replacing blocks\<close>

lemma cambia_poner: "16 \<le> s \<Longrightarrow> cambia h (poner_marcas p (s, al) h) (p - 8) (p + s - 8)"
  by (auto simp: cambia_def poner_marcas_bytes)

lemma reemplazar_ok:
  assumes ok: "heap_ok h bs" and bs: "(16, True) # bs = xs @ mid @ ys" "(16, True) # bs' = xs @ (s, al) # ys"
    and s: "tam mid = s" "16 \<le> s"
  shows "heap_ok (poner_marcas (inicio h + tam xs) (s, al) h) bs'"
proof -
  let ?p = "inicio h + tam xs"
  let ?h = "poner_marcas ?p (s, al) h"
  have sg: "seg h (inicio h) (xs @ mid @ ys) (mem_brk h)" using ok bs(1) by (simp add: heap_ok_def)
  have "seg ?h (inicio h) (xs @ (s, al) # ys) (mem_brk h)"
    by (rule seg_reemplazar [OF sg refl s])
  moreover have "rd64 (bytes ?h) (mem_brk h - 8) = rd64 (bytes h) (mem_brk h - 8)"
  proof (rule rd64_cong)
    fix x assume "mem_brk h - 8 \<le> x"
    moreover have "?p + s \<le> mem_brk h"
    proof -
      have "seg h (?p + s) ys (mem_brk h)" using sg s by (simp add: add.assoc)
      then show ?thesis using seg_end seg_tam by fastforce
    qed
    ultimately show "bytes ?h x = bytes h x" using s by (intro poner_marcas_bytes(1)) auto
  qed
  ultimately show ?thesis
    using ok bs(2) by (simp add: heap_ok_def inicio_def)
qed

lemma fusionar_mid:
  assumes "fusionar xs s ys = (xs', s', ys')" "xs \<noteq> []"
  shows "\<exists>mid. xs @ (s, False) # ys = xs' @ mid @ ys' \<and> tam mid = s' \<and> (\<forall>b\<in>set mid. \<not> snd b)"
proof -
  obtain vs sp ap where xs: "xs = vs @ [(sp, ap)]" using assms(2) by (metis rev_exhaust surj_pair)
  let ?pre = "if ap then [] else [(sp, False)]"
  let ?post = "case ys of [] \<Rightarrow> [] | b # zs \<Rightarrow> if snd b then [] else [b]"
  have "xs @ (s, False) # ys = xs' @ (?pre @ (s, False) # ?post) @ ys'" "tam (?pre @ (s, False) # ?post) = s'"
    "\<forall>b\<in>set (?pre @ (s, False) # ?post). \<not> snd b"
    using assms(1) by (auto simp: fusionar_def xs split: list.splits if_splits)
  then show ?thesis by blast
qed

subsection \<open>Splitting\<close>

definition poner :: "int \<Rightarrow> int \<Rightarrow> bloque list" where
  "poner a f = (if f - a \<ge> 32 then [(a, True), (f - a, False)] else [(f, True)])"

lemma word_le_small:
  "0 \<le> a \<Longrightarrow> a < 2 ^ 63 \<Longrightarrow> 0 \<le> b \<Longrightarrow> b < 2 ^ 63 \<Longrightarrow> (word_of_int a :: u64) \<le> word_of_int b \<longleftrightarrow> a \<le> b"
  by (simp add: word_le_def)

lemma word_diff: "(word_of_int a :: u64) - word_of_int b = word_of_int (a - b)"
  by simp

lemma place_spec:
  assumes ok: "heap_ok h bs" and bs: "(16, True) # bs = xs @ (f, False) # ys" "xs \<noteq> []"
    and p: "p = inicio h + tam xs" and a: "16 \<le> a" "a \<le> f" "16 dvd a"
    and bs': "(16, True) # bs' = xs @ poner a f @ ys"
  shows "\<exists>h'. place p (word_of_int a) h = Some h' \<and> heap_ok h' bs' \<and> cambia h h' (p - 8) (p + f - 8) \<and>
           mem_brk h' = mem_brk h"
proof -
  note B = heap_ok_seg(1,2) [OF ok bs(1), folded p]
  note r = leer_bloque [OF B(1), simplified, OF B(2) [simplified]]
  have f: "0 \<le> f" "f < 2 ^ 63" "16 dvd f" using dentro_small [OF B(2)] B(1) by (simp_all add: blk_def)
  have w: "(32 :: u64) \<le> word_of_int f - word_of_int a \<longleftrightarrow> 32 \<le> f - a"
  proof -
    have "(32 :: u64) = word_of_int 32" by simp
    then show ?thesis unfolding word_diff using word_le_small [of 32 "f - a"] a f by simp
  qed
  have bs1: "(16, True) # bs = xs @ [(f, False)] @ ys" using bs(1) by simp
  show ?thesis
  proof (cases "f - a \<ge> 32")
    case True
    let ?h1 = "poner_marcas p (a, True) h" and ?q = "p + a"
    let ?h2 = "poner_marcas ?q (f - a, False) ?h1"
    have d: "dentro h p a" "dentro h ?q (f - a)" using B(2) a True by (simp_all add: dentro_def)
    have b1: "blk ?h1 p (a, True)" using a by (simp add: blk_poner_marcas)
    have q: "proximo_bloque p ?h1 = Some ?q" using leer_bloque(6) [OF b1] d(1) by simp
    have fa: "16 dvd f - a" using a(3) f(3) by (rule dvd_diff [rotated])
    have e: "place p (word_of_int a) h = Some ?h2"
      using marcar_header_footer [of ?h1 ?q "f - a" False Some] d(2) fa q w True
      by (simp add: place_def obtener_header_def WSIZE_def r word_diff marcar_header_footer [OF d(1) a(3)]
          del: of_int_diff)
    have k: "heap_ok ?h2 bs'"
    proof -
      have sg: "seg h (inicio h) (xs @ [(f, False)] @ ys) (mem_brk h)" using ok bs1 by (simp add: heap_ok_def)
      let ?hf = "poner_marcas p (f, False) h"
      have s: "seg h (inicio h) xs p" "seg h (p + f) ys (mem_brk h)" using sg p by simp_all
      have by1: "bytes ?h2 x = bytes h x" if "x < p - 8 \<or> p + f - 8 \<le> x" for x
        using that a True by (auto simp: poner_marcas_bytes)
      have "seg ?h2 (inicio h) xs p" by (rule seg_cong [OF s(1)]) (use by1 in auto)
      moreover have "seg ?h2 (p + f) ys (mem_brk h)" by (rule seg_cong [OF s(2)]) (use by1 in auto)
      moreover have "blk ?h2 p (a, True)"
        by (rule blk_cong [OF _ b1]) (use a True in \<open>auto simp: poner_marcas_bytes\<close>)
      moreover have "blk ?h2 ?q (f - a, False)" using fa True by (simp add: blk_poner_marcas)
      ultimately have "seg ?h2 (inicio h) (xs @ poner a f @ ys) (mem_brk h)"
        using True p by (simp add: poner_def add.assoc)
      moreover have "rd64 (bytes ?h2) (mem_brk h - 8) = rd64 (bytes h) (mem_brk h - 8)"
        by (rule rd64_cong, rule by1) (use seg_end [OF s(2)] seg_tam [OF s(2)] in simp)
      ultimately show ?thesis using ok unfolding heap_ok_def bs' by (simp add: inicio_def)
    qed
    have "cambia h ?h2 (min (p - 8) (?q - 8)) (max (p + a - 8) (?q + (f - a) - 8))"
      by (rule cambia_trans [OF cambia_poner cambia_poner]) (use a True in simp_all)
    then have "cambia h ?h2 (p - 8) (p + f - 8)" by (rule cambia_mono) (use a True in simp_all)
    then show ?thesis using e k by simp
  next
    case False
    let ?h1 = "poner_marcas p (f, True) h"
    have e: "place p (word_of_int a) h = Some ?h1"
      using marcar_header_footer [OF B(2) [simplified] f(3), of True Some] w False
      by (simp add: place_def obtener_header_def WSIZE_def r)
    have "heap_ok ?h1 bs'"
      unfolding p by (rule reemplazar_ok [OF ok bs1]) (use bs' False a in \<open>simp_all add: poner_def\<close>)
    then show ?thesis using e cambia_poner [of f h p True] a by simp
  qed
qed

subsection \<open>Searching\<close>

fun primer_ajuste :: "int \<Rightarrow> bloque list \<Rightarrow> (bloque list \<times> int \<times> bloque list) option" where
  "primer_ajuste a [] = None"
| "primer_ajuste a ((s, al) # bs) =
     (if \<not> al \<and> s \<ge> a then Some ([], s, bs)
      else map_option (\<lambda>(xs, f, ys). ((s, al) # xs, f, ys)) (primer_ajuste a bs))"

lemma primer_ajuste_Some:
  "primer_ajuste a bs = Some (xs, f, ys) \<Longrightarrow> bs = xs @ (f, False) # ys \<and> a \<le> f"
  by (induction a bs arbitrary: xs rule: primer_ajuste.induct) (auto split: if_splits)

lemma primer_ajuste_antes:
  "primer_ajuste a bs = Some (xs, f, ys) \<Longrightarrow> b \<in> set xs \<Longrightarrow> snd b \<or> fst b < a"
proof (induction a bs arbitrary: xs rule: primer_ajuste.induct)
  case (2 a s al bs)
  then show ?case by (cases "\<not> al \<and> a \<le> s") auto
qed simp

lemma next_size:
  assumes ok: "heap_ok h bs" and bs: "(16, True) # bs = xs @ ys"
  shows "block_size (inicio h + tam xs - 8) h = Some (case ys of [] \<Rightarrow> 0 | b # zs \<Rightarrow> word_of_int (fst b))"
proof (cases ys)
  case Nil
  then have "mem_brk h = inicio h + tam xs" using ok seg_end [of h "inicio h" xs "mem_brk h"] bs
    by (simp add: heap_ok_def)
  moreover have "0 \<le> tam bs" using ok seg_tam by (fastforce simp: heap_ok_def)
  then have "en_area h (mem_brk h - 8) 8"
    using ok seg_end [of h "inicio h" "(16, True) # bs" "mem_brk h"]
    by (simp add: heap_ok_def en_area_def inicio_def)
  ultimately show ?thesis
    using ok Nil marca_size [of 0 True]
    by (simp add: heap_ok_def block_size_def obtener_word_def cargar64_Some)
next
  case (Cons b zs)
  then have e: "(16, True) # bs = xs @ (fst b, snd b) # zs" using bs by simp
  note B = heap_ok_seg(1,2) [OF ok e]
  show ?thesis using leer_bloque(1) [OF B(1), simplified, OF B(2) [simplified]] Cons by simp
qed

lemma find_fit_loop_spec:
  assumes ok: "heap_ok h bs" and bs: "(16, True) # bs = xs @ ys" and a: "0 \<le> a" "a < 2 ^ 63"
  shows "find_fit_loop (word_of_int a) (inicio h + tam xs)
           (case ys of [] \<Rightarrow> 0 | b # zs \<Rightarrow> word_of_int (fst b)) h =
         Some (case primer_ajuste a ys of None \<Rightarrow> NULL | Some (us, f, vs) \<Rightarrow> inicio h + tam xs + tam us, h)"
  using bs
proof (induction ys arbitrary: xs)
  case Nil
  then show ?case by (subst find_fit_loop.simps) simp
next
  case (Cons b ys)
  obtain s al where b: "b = (s, al)" by force
  let ?p = "inicio h + tam xs"
  note B = heap_ok_seg(1,2,3) [OF ok Cons.prems [unfolded b]]
  note r = leer_bloque [OF B(1), simplified, OF B(2) [simplified]]
  have s: "16 \<le> s" "s < 2 ^ 63" using dentro_small [OF B(2)] B(1) by (simp_all add: blk_def)
  have pos: "(word_of_int s :: u64) > 0" using s by (simp add: word_less_def)
  have cmp: "(word_of_int a :: u64) \<le> word_of_int s \<longleftrightarrow> a \<le> s" using word_le_small a s by simp
  have c: "check_heap ?p h = Some h" using check_heap_ok B by simp
  have e: "(16, True) # bs = (xs @ [(s, al)]) @ ys" using Cons.prems b by simp
  have np: "inicio h + tam (xs @ [(s, al)]) = inicio h + (tam xs + s)" by simp
  note IH = Cons.IH [OF e, unfolded np]
  note ns = next_size [OF ok e, unfolded np]
  show ?case
    unfolding b
    by (subst find_fit_loop.simps)
      (simp add: pos c r cmp ns IH obtener_header_def WSIZE_def add.assoc split: option.split)
qed

lemma find_fit_spec:
  assumes "heap_ok h bs" "heap_listp h = inicio h" "0 \<le> a" "a < 2 ^ 63"
  shows "find_fit (word_of_int a) h =
           Some (case primer_ajuste a bs of None \<Rightarrow> NULL | Some (us, f, vs) \<Rightarrow> inicio h + 16 + tam us, h)"
  using find_fit_loop_spec [OF assms(1), of "[]" "(16, True) # bs" a] next_size [OF assms(1), of "[]" "(16, True) # bs"] assms
  by (simp add: find_fit_def obtener_header_def WSIZE_def add.assoc split: option.split)

subsection \<open>Extending the heap\<close>

definition ampliar :: "int \<Rightarrow> bloque list \<Rightarrow> bloque list \<times> int" where
  "ampliar e xs = (case fusionar xs e [] of (xs', s', ys') \<Rightarrow> (xs', s'))"

lemma nuevo_bloque_ok:
  assumes ok: "heap_ok h bs" and e: "16 \<le> e" "16 dvd e" "mem_brk h + e \<le> mem_max_addr h"
    and h1: "h1 = (poner_marcas (mem_brk h) (e, False) (h\<lparr>mem_brk := mem_brk h + e\<rparr>))
               \<lparr>bytes := wr64 (mem_brk h + e - 8) (marca 0 True)
                  (bytes (poner_marcas (mem_brk h) (e, False) (h\<lparr>mem_brk := mem_brk h + e\<rparr>)))\<rparr>"
  shows "heap_ok h1 (bs @ [(e, False)])"
proof -
  let ?p = "mem_brk h"
  let ?g = "poner_marcas ?p (e, False) (h\<lparr>mem_brk := ?p + e\<rparr>)"
  have sg: "seg h (inicio h) ((16, True) # bs) ?p" using ok by (simp add: heap_ok_def)
  have same: "bytes h1 x = bytes h x" if "x < ?p - 8" for x
    using that e(1) by (simp add: h1 wr64_other poner_marcas_bytes)
  have g: "blk ?g ?p (e, False)" using e by (simp add: blk_poner_marcas)
  have "seg h1 (inicio h) ((16, True) # bs) ?p" by (rule seg_cong [OF sg]) (use same in auto)
  moreover have "blk h1 ?p (e, False)"
    by (rule blk_cong [OF _ g]) (simp add: h1 wr64_other)
  moreover have "tam ((16, True) # bs) = ?p - inicio h" using seg_end [OF sg] by simp
  ultimately have "seg h1 (inicio h) (((16, True) # bs) @ [(e, False)]) (?p + e)"
    unfolding seg_append by simp
  moreover have "mem_brk h1 = ?p + e" "inicio h1 = inicio h" "area h1" "mem_max_addr h1 = mem_max_addr h"
    using ok by (simp_all add: h1 inicio_def area_def heap_ok_def)
  moreover have "rd64 (bytes h1) (?p + e - 8) = marca 0 True" by (simp add: h1)
  ultimately show ?thesis using e(3) by (simp add: heap_ok_def del: seg_append)
qed

lemma fusionar_final:
  assumes "fusionar xs e [] = (xs', s', ys')" "xs \<noteq> []" "16 \<le> e" "0 \<le> tam xs"
  shows "ys' = []" "tam xs' + s' = tam xs + e"
    "xs' = xs \<and> s' = e \<or> (\<exists>sp. xs = xs' @ [(sp, False)] \<and> s' = sp + e)"
proof -
  show "ys' = []" using assms(1) by (auto simp: fusionar_def split: if_splits)
  show d: "xs' = xs \<and> s' = e \<or> (\<exists>sp. xs = xs' @ [(sp, False)] \<and> s' = sp + e)"
  proof (cases "snd (last xs)")
    case False
    have "xs = butlast xs @ [(fst (last xs), False)]"
      using assms(2) False by (metis append_butlast_last_id prod.collapse)
    then show ?thesis using assms(1) False by (auto simp: fusionar_def)
  qed (use assms(1) in \<open>auto simp: fusionar_def\<close>)
  then show "tam xs' + s' = tam xs + e" by auto
qed

lemma to_int32_small: "0 \<le> e \<Longrightarrow> e < 2 ^ 31 \<Longrightarrow> to_int32 e = e"
  by (rule to_int32_id) (simp add: in_int_def int_min_def int_max_def)

lemma to_int32_neg: "2 ^ 31 \<le> e \<Longrightarrow> e < 2 ^ 32 \<Longrightarrow> to_int32 e < 0"
  using diff_mod_wrap [of "e - 2 ^ 31" "2 ^ 32" 0] by (simp add: to_int32_def mod_pos_geq)

lemma to_int32_mod: "to_int32 e = to_int32 (e mod 2 ^ 32)"
  by (simp add: to_int32_def mod_simps)

text \<open>A multiple of 16 bytes is an even number of words.\<close>

lemma palabras:
  assumes "16 dvd e" "0 \<le> e" "e < 2 ^ 63"
  shows "uint (word_of_int e :: u64) = e" "((word_of_int e :: u64) div 8) mod 2 = 0"
    "(word_of_int e :: u64) div 8 * 8 = word_of_int e"
proof -
  let ?w = "word_of_int e :: u64"
  show u: "uint ?w = e" using assms by simp
  have d: "uint (?w div 8) = e div 8" using u by (simp add: uint_div_distrib)
  moreover have "uint ((?w div 8) mod 2) = uint (?w div 8) mod 2" by (simp add: uint_mod_distrib)
  ultimately have "uint ((?w div 8) mod 2) = 0" using assms(1) by (auto simp: dvd_def)
  then show "(?w div 8) mod 2 = 0" by (simp add: word_uint_eq_iff)
  have "uint (?w div 8 * 8) = e"
    using d assms by (auto simp: uint_word_ariths dvd_def)
  then show "?w div 8 * 8 = ?w" using u by (simp add: word_uint_eq_iff)
qed

lemma heap_ok_brk: "heap_ok h bs \<Longrightarrow> mem_brk h = inicio h + 16 + tam bs \<and> 0 \<le> tam bs \<and> 16 dvd tam bs"
  using seg_end [of h "inicio h" "(16, True) # bs" "mem_brk h"] seg_tam [of h "inicio h + 16" bs "mem_brk h"]
  by (simp add: heap_ok_def)

text \<open>
  With too little room left, \<^verbatim>\<open>extend_heap\<close> reports it and returns \<open>NULL\<close>; else the heap has a
  free block more at its end, joined with the last one when that is free.
\<close>

lemma extend_heap_spec:
  assumes ok: "heap_ok h bs" and e: "16 \<le> e" "16 dvd e" "e < 2 ^ 32"
  shows "mem_brk h + e > mem_max_addr h \<Longrightarrow>
      extend_heap (word_of_int e div 8) h = Some (NULL, h\<lparr>impreso := impreso h @ [Sin_memoria]\<rparr>)"
    and "mem_brk h + e \<le> mem_max_addr h \<Longrightarrow> ampliar e ((16, True) # bs) = ((16, True) # xs, f) \<Longrightarrow>
      \<exists>h'. extend_heap (word_of_int e div 8) h = Some (inicio h + 16 + tam xs, h') \<and>
        heap_ok h' (xs @ [(f, False)]) \<and> cambia h h' (inicio h + 8 + tam xs) (mem_brk h + e) \<and>
        mem_brk h' = mem_brk h + e"
proof -
  let ?w = "word_of_int e :: u64"
  have u: "uint ?w = e" and even: "(?w div 8) mod 2 = 0" and times: "?w div 8 * 8 = ?w"
    using palabras [of e] e by simp_all
  note unf = extend_heap_def even times u mem_sbrk_def Let_def
  show "extend_heap (?w div 8) h = Some (NULL, h\<lparr>impreso := impreso h @ [Sin_memoria]\<rparr>)"
    if "mem_brk h + e > mem_max_addr h"
    using that to_int32_neg [of e] to_int32_small [of e] e by (cases "e < 2 ^ 31") (simp_all add: unf)
  assume room: "mem_brk h + e \<le> mem_max_addr h"
    and am: "ampliar e ((16, True) # bs) = ((16, True) # xs, f)"
  let ?p = "mem_brk h"
  have "e < 2 ^ 31" using room heap_ok_brk [OF ok] ok by (simp add: heap_ok_def area_def inicio_def MAX_HEAP_def)
  then have i: "to_int32 e = e" using e by (intro to_int32_small) simp_all
  let ?g = "h\<lparr>mem_brk := ?p + e\<rparr>"
  let ?g1 = "poner_marcas ?p (e, False) ?g"
  define h1 where "h1 = ?g1\<lparr>bytes := wr64 (?p + e - 8) (marca 0 True) (bytes ?g1)\<rparr>"
  have k1: "heap_ok h1 (bs @ [(e, False)])" by (rule nuevo_bloque_ok [OF ok e(1,2) room]) (simp add: h1_def)
  have sg: "seg h (inicio h) ((16, True) # bs) ?p" using ok by (simp add: heap_ok_def)
  have p: "?p = inicio h + tam ((16, True) # bs)" "0 \<le> tam bs" "inicio h1 = inicio h"
    using seg_end [OF sg] seg_tam [of h "inicio h + 16" bs ?p] sg by (simp_all add: h1_def inicio_def)
  have d: "dentro ?g ?p e" using ok room e p by (simp add: heap_ok_def dentro_def area_def inicio_def)
  have nf: "?p \<noteq> SBRK_FAILED"
    using ok p room by (simp add: heap_ok_def area_def SBRK_FAILED_def MAX_HEAP_def)
  have bs1: "(16, True) # bs @ [(e, False)] = ((16, True) # bs) @ (e, False) # []" by simp
  note B1 = heap_ok_seg(1,2,3) [OF k1 bs1, unfolded p(3), folded p(1)]
  have c1: "check_heap ?p h1 = Some h1" using check_heap_ok B1 by simp
  obtain ys' where fu: "fusionar ((16, True) # bs) e [] = ((16, True) # xs, f, ys')"
    using am by (auto simp: ampliar_def split: prod.splits)
  let ?q = "inicio h + 16 + tam xs"
  let ?h2 = "poner_marcas ?q (f, False) h1"
  have co: "coalesce ?p h1 = Some (?q, ?h2)"
    using coalesce_spec [OF k1 bs1 _ fu] p by (simp add: add.assoc)
  obtain mid where mid: "((16, True) # bs) @ (e, False) # [] = ((16, True) # xs) @ mid @ ys'" "tam mid = f"
    using fusionar_mid [OF fu] by auto
  have ff: "ys' = []" "16 + tam xs + f = 16 + tam bs + e"
    "(16, True) # xs = (16, True) # bs \<and> f = e \<or>
     (\<exists>sp. (16, True) # bs = ((16, True) # xs) @ [(sp, False)] \<and> f = sp + e)"
    using fusionar_final [OF fu _ e(1)] p(2) by auto
  have f16: "16 \<le> f" "e \<le> f"
  proof -
    have "16 \<le> sp" if "(16, True) # bs = ((16, True) # xs) @ [(sp, False)]" for sp
      using seg_sizes [OF sg, of "(sp, False)"] unfolding that by simp
    then show "16 \<le> f" "e \<le> f" using ff(3) e(1) by fastforce+
  qed
  have k2: "heap_ok ?h2 (xs @ [(f, False)])"
  proof -
    have "heap_ok (poner_marcas (inicio h1 + tam ((16, True) # xs)) (f, False) h1) (xs @ [(f, False)])"
      by (rule reemplazar_ok [OF k1 _ _ mid(2) f16(1), of _ ys']) (use mid ff(1) in simp_all)
    then show ?thesis using p(3) by (simp add: add.assoc)
  qed
  have "inicio ?h2 = inicio h" using p(3) by (simp add: inicio_def)
  then have B2: "blk ?h2 ?q (f, False)" "dentro ?h2 ?q f" "16 dvd ?q"
    using heap_ok_seg(1,2,3) [OF k2, of "(16, True) # xs" "(f, False)" "[]"] by (simp_all add: add.assoc)
  have c2: "check_heap ?q ?h2 = Some ?h2" using check_heap_ok B2 by simp
  have "proximo_bloque ?p ?g1 = Some (?p + e)"
    using leer_bloque(6) [of ?g1 ?p e False] d e by (simp add: blk_poner_marcas)
  moreover have "escribir_header (?p + e - 8) (marca 0 True) ?g1 = Some h1"
    using d room by (simp add: escribir_header_def guardar64_def h1_def dentro_def en_area_def)
  moreover have "pack_word 0 1 = marca 0 True" by (simp add: pack_word_def marca_def)
  ultimately have ex: "extend_heap (?w div 8) h = Some (?q, ?h2)"
    using room e(1) nf
    by (simp add: unf i obtener_header_def WSIZE_def marcar_header_footer [OF d e(2)] c1 co c2)
  have cam: "cambia h ?h2 (?q - 8) (?p + e)"
  proof -
    have "cambia h ?g1 (?p - 8) (?p + e - 8)"
      using cambia_poner [of e ?g ?p False] e(1) by (simp add: cambia_def)
    moreover have "cambia ?g1 h1 (?p + e - 8) (?p + e)" by (simp add: cambia_def h1_def wr64_other)
    moreover have "cambia h1 ?h2 (?q - 8) (?q + f - 8)" by (rule cambia_poner [OF f16(1)])
    ultimately have "cambia h ?h2 (min (min (?p - 8) (?p + e - 8)) (?q - 8)) (max (max (?p + e - 8) (?p + e)) (?q + f - 8))"
      by (intro cambia_trans)
    then show ?thesis
      by (rule cambia_mono) (use p ff(1,2) e f16 in auto)
  qed
  have "mem_brk ?h2 = ?p + e" by (simp add: h1_def)
  then show "\<exists>h'. extend_heap (?w div 8) h = Some (inicio h + 16 + tam xs, h') \<and>
        heap_ok h' (xs @ [(f, False)]) \<and> cambia h h' (inicio h + 8 + tam xs) (?p + e) \<and> mem_brk h' = ?p + e"
    using ex k2 cam by (intro exI [of _ ?h2]) (simp add: algebra_simps)
qed

end
