(* ===== verification/Mm_Lista.thy ===== *)
theory Mm_Lista
  imports Mm_Ops
begin

text \<open>
  The allocator on lists: first fit, splitting and coalescing as functions on the list of the blocks
  between prologue and epilogue, with \<open>c\<close> the address of the first payload. It is the
  specification that the functions of \<^verbatim>\<open>mm.c\<close> implement exactly.
\<close>

subsection \<open>The size of a block\<close>

definition ajuste :: "int \<Rightarrow> int" where
  "ajuste sz = (if sz \<le> 16 then 32 else 16 * ((sz + 31) div 16))"

lemma ajuste_props:
  assumes "0 < sz"
  shows "32 \<le> ajuste sz" "16 dvd ajuste sz" "sz + 16 \<le> ajuste sz" "ajuste sz \<le> sz + 31"
proof -
  define q where "q = (sz + 31) div 16"
  have "16 * q \<le> sz + 31" "sz + 31 < 16 * q + 16" unfolding q_def by presburger+
  then show "32 \<le> ajuste sz" "16 dvd ajuste sz" "sz + 16 \<le> ajuste sz" "ajuste sz \<le> sz + 31"
    using assms by (auto simp: ajuste_def q_def [symmetric])
qed

lemma ajuste_minimo: "16 dvd t \<Longrightarrow> sz + 16 \<le> t \<Longrightarrow> 32 \<le> t \<Longrightarrow> ajuste sz \<le> t"
  by (auto simp: ajuste_def dvd_def)

subsection \<open>The operations\<close>

text \<open>
  A request goes to the first free block that is large enough; when there is none, the list grows at its end by at least
  4096 bytes, as long as the area is not full.
\<close>

definition malloc_lista :: "addr \<Rightarrow> int \<Rightarrow> bloque list \<Rightarrow> addr \<times> bloque list" where
  "malloc_lista c sz bs =
     (case primer_ajuste (ajuste sz) bs of
        Some (us, f, vs) \<Rightarrow> (c + tam us, us @ poner (ajuste sz) f @ vs)
      | None \<Rightarrow>
          let e = max (ajuste sz) 4096
          in if MAX_HEAP < 32 + tam bs + e then (NULL, bs)
             else case ampliar e ((16, True) # bs) of
               (us, f) \<Rightarrow> (c + tam (tl us), tl us @ poner (ajuste sz) f))"

text \<open>The allocated block whose payload is at \<open>p\<close>.\<close>

fun buscar :: "addr \<Rightarrow> addr \<Rightarrow> bloque list \<Rightarrow> (bloque list \<times> int \<times> bloque list) option" where
  "buscar c p [] = None"
| "buscar c p ((s, al) # bs) =
     (if c = p then (if al then Some ([], s, bs) else None)
      else map_option (\<lambda>(xs, n, ys). ((s, al) # xs, n, ys)) (buscar (c + s) p bs))"

definition libera_lista :: "addr \<Rightarrow> addr \<Rightarrow> bloque list \<Rightarrow> bloque list option" where
  "libera_lista c p bs =
     (case buscar c p bs of
        None \<Rightarrow> None
      | Some (xs, s, ys) \<Rightarrow>
          case fusionar ((16, True) # xs) s ys of (us, n, vs) \<Rightarrow> Some (tl us @ (n, False) # vs))"

definition cambia_lista :: "addr \<Rightarrow> addr \<Rightarrow> int \<Rightarrow> bloque list \<Rightarrow> (addr \<times> bloque list) option" where
  "cambia_lista c p sz bs =
     (case malloc_lista c sz bs of
        (q, bs) \<Rightarrow> if q = NULL then Some (NULL, bs) else map_option (Pair q) (libera_lista c p bs))"

text \<open>Blocks are found by their address.\<close>

lemma buscar_mitad:
  "(\<And>b. b \<in> set xs \<Longrightarrow> 0 < fst b) \<Longrightarrow> buscar c (c + tam xs) (xs @ (s, True) # ys) = Some (xs, s, ys)"
proof (induction xs arbitrary: c)
  case (Cons b xs)
  have "0 < fst b" using Cons.prems by simp
  moreover have "0 \<le> tam xs" unfolding tam_def by (rule sum_list_nonneg) (use Cons.prems in force)
  ultimately show ?case using Cons.IH [of "c + fst b"] Cons.prems by (cases b) (simp add: add.assoc)
qed simp

end
