(* ===== verification/Mm_Correct.thy ===== *)
theory Mm_Correct
  imports Mm_Lista
begin

text \<open>
  What \<^verbatim>\<open>mm_init\<close>, \<^verbatim>\<open>mm_malloc\<close>, \<^verbatim>\<open>mm_free\<close> and \<^verbatim>\<open>mm_realloc\<close> promise their caller. The
  abstraction \<open>carga\<close> maps the address of each allocated payload to its capacity; the
  invariant \<open>mm_ok\<close> holds between calls.
\<close>

unbundle bit_operations_syntax

subsection \<open>The size of a block\<close>

lemma adjusted_size_of_ajuste:
  assumes "0 \<le> sz" "sz < 2 ^ 62"
  shows "adjusted_size_of (word_of_int sz) = word_of_int (ajuste sz)"
proof -
  have c: "(word_of_int sz :: u64) \<le> 16 \<longleftrightarrow> sz \<le> 16" using assms by (simp add: word_le_def)
  define m where "m = (sz + 31) div 16"
  have m: "0 \<le> m" "16 * m < 2 ^ 63" using assms by (simp_all add: m_def)
  have w: "(word_of_int sz :: u64) + 16 + 15 = word_of_int (sz + 31)" by simp
  have "uint (word_of_int (sz + 31) :: u64) = sz + 31" using assms by (intro uint_size) simp_all
  then have d: "uint (word_of_int (sz + 31) div 16 :: u64) = m" by (simp add: uint_div_distrib m_def)
  have "word_of_int (sz + 31) div 16 = (word_of_int m :: u64)" using d by (metis word_of_int_uint)
  then have "16 * (((word_of_int sz :: u64) + 16 + 15) div 16) = word_of_int (16 * m)" unfolding w by simp
  then show ?thesis using c unfolding adjusted_size_of_def ajuste_def m_def by (simp only: split: if_splits) simp
qed

subsection \<open>Allocated payloads\<close>

fun carga :: "addr \<Rightarrow> bloque list \<Rightarrow> addr \<rightharpoonup> int" where
  "carga p [] = Map.empty"
| "carga p ((s, al) # bs) = (if al then (carga (p + s) bs)(p \<mapsto> s - 16) else carga (p + s) bs)"

definition bloques_ok :: "bloque list \<Rightarrow> bool" where
  "bloques_ok bs \<longleftrightarrow> (\<forall>b \<in> set bs. 32 \<le> fst b \<and> 16 dvd fst b)"

lemma bloques_ok_simps [simp]:
  "bloques_ok []" "bloques_ok (b # bs) \<longleftrightarrow> 32 \<le> fst b \<and> 16 dvd fst b \<and> bloques_ok bs"
  "bloques_ok (xs @ ys) \<longleftrightarrow> bloques_ok xs \<and> bloques_ok ys"
  by (auto simp: bloques_ok_def)

lemma bloques_ok_tam: "bloques_ok bs \<Longrightarrow> 0 \<le> tam bs"
  by (induction bs) auto

lemma bloques_ok_pos: "bloques_ok bs \<Longrightarrow> b \<in> set bs \<Longrightarrow> 0 \<le> fst b"
  by (force simp: bloques_ok_def)

lemma carga_rango:
  "bloques_ok bs \<Longrightarrow> carga p bs q = Some n \<Longrightarrow> p \<le> q \<and> q + n + 16 \<le> p + tam bs \<and> 16 \<le> n"
proof (induction p bs rule: carga.induct)
  case (2 p s al bs)
  then show ?case using bloques_ok_tam [of bs] by (auto split: if_splits)
qed simp

lemma carga_fuera:
  assumes "bloques_ok bs" "q < p \<or> p + tam bs \<le> q"
  shows "carga p bs q = None"
proof (rule ccontr)
  assume "carga p bs q \<noteq> None"
  then obtain n where "carga p bs q = Some n" by blast
  then show False using carga_rango [OF assms(1)] assms(2) by fastforce
qed

lemma carga_append:
  "bloques_ok xs \<Longrightarrow> bloques_ok ys \<Longrightarrow> carga p (xs @ ys) = carga (p + tam xs) ys ++ carga p xs"
proof (induction p xs rule: carga.induct)
  case (2 p s al bs)
  then show ?case by (simp add: add.assoc fun_upd_def map_add_def fun_eq_iff)
qed simp

lemma carga_alineada: "bloques_ok bs \<Longrightarrow> 16 dvd p \<Longrightarrow> carga p bs q = Some n \<Longrightarrow> 16 dvd q \<and> 16 dvd n"
proof (induction p bs rule: carga.induct)
  case (2 p s al bs)
  then show ?case by (auto split: if_splits)
qed simp

lemma carga_disjuntas:
  "bloques_ok bs \<Longrightarrow> carga p bs q = Some m \<Longrightarrow> carga p bs r = Some n \<Longrightarrow> q \<noteq> r \<Longrightarrow>
     q + m + 16 \<le> r \<or> r + n + 16 \<le> q"
proof (induction p bs rule: carga.induct)
  case (2 p s al bs)
  then show ?case
    using carga_rango [of bs "p + s" q m] carga_rango [of bs "p + s" r n] by (auto split: if_splits)
qed simp

text \<open>An allocated block is one of the list, and the other way round.\<close>

lemma carga_mid:
  assumes "bloques_ok (xs @ (s, al) # ys)" "q = p + tam xs"
  shows "carga p (xs @ (s, True) # ys) = (carga p (xs @ (s, False) # ys))(q \<mapsto> s - 16)"
    and "carga p (xs @ (s, False) # ys) q = None"
proof -
  have q: "carga p xs q = None" "carga (q + s) ys q = None"
    using assms carga_fuera by simp_all
  have ok: "bloques_ok (xs @ (s, b) # ys)" for b using assms(1) by simp
  show "carga p (xs @ (s, True) # ys) = (carga p (xs @ (s, False) # ys))(q \<mapsto> s - 16)"
    using q(1) assms(2) ok carga_append [of xs "(s, _) # ys" p]
    by (auto simp: fun_eq_iff map_add_def split: option.splits)
  show "carga p (xs @ (s, False) # ys) q = None"
    using q assms(2) ok carga_append [of xs "(s, False) # ys" p] by simp
qed

lemma carga_split:
  "bloques_ok bs \<Longrightarrow> carga p bs q = Some n \<Longrightarrow>
     \<exists>xs ys. bs = xs @ (n + 16, True) # ys \<and> q = p + tam xs"
proof (induction p bs rule: carga.induct)
  case (2 p s al bs)
  show ?case
  proof (cases "al \<and> q = p")
    case True
    then show ?thesis using 2(4) by (intro exI [of _ "[]"] exI [of _ bs]) simp
  next
    case False
    then have "\<exists>xs ys. bs = xs @ (n + 16, True) # ys \<and> q = p + s + tam xs"
      using 2 by (auto split: if_splits)
    then obtain xs ys where "bs = xs @ (n + 16, True) # ys" "q = p + s + tam xs" by blast
    then show ?thesis by (intro exI [of _ "(s, al) # xs"] exI [of _ ys]) simp
  qed
qed simp

text \<open>Free blocks, joined or split, carry nothing.\<close>

lemma carga_libres: "\<forall>b \<in> set mid. \<not> snd b \<Longrightarrow> carga p mid = Map.empty"
  by (induction mid arbitrary: p) auto

lemma carga_reemplazar:
  assumes "bloques_ok (xs @ mid @ ys)" "bloques_ok (xs @ mid' @ ys)" "tam mid = tam mid'"
    "\<forall>b \<in> set mid. \<not> snd b" "\<forall>b \<in> set mid'. \<not> snd b"
  shows "carga p (xs @ mid @ ys) = carga p (xs @ mid' @ ys)"
  using assms by (simp add: carga_append carga_libres)

subsection \<open>No two neighbours free\<close>

fun fundido :: "bloque list \<Rightarrow> bool" where
  "fundido (b # c # bs) \<longleftrightarrow> (snd b \<or> snd c) \<and> fundido (c # bs)"
| "fundido _ \<longleftrightarrow> True"

lemma fundido_Cons: "fundido (b # bs) \<longleftrightarrow> fundido bs \<and> (bs = [] \<or> snd b \<or> snd (hd bs))"
  by (cases bs) auto

lemma fundido_append:
  "fundido (xs @ ys) \<longleftrightarrow> fundido xs \<and> fundido ys \<and> (xs = [] \<or> ys = [] \<or> snd (last xs) \<or> snd (hd ys))"
  by (induction xs) (auto simp: fundido_Cons hd_append)

lemma fundido_fusionar:
  assumes "fundido xs" "fundido ys" "fusionar xs s ys = (xs', s', ys')" "xs \<noteq> []"
  shows "fundido (xs' @ (s', False) # ys')"
proof -
  obtain vs sp ap where xs: "xs = vs @ [(sp, ap)]" using assms(4) by (metis rev_exhaust surj_pair)
  show ?thesis
    using assms(1-3) by (auto simp: xs fusionar_def fundido_append fundido_Cons split: list.splits if_splits)
qed

lemma fundido_poner: "fundido (xs @ (f, False) # ys) \<Longrightarrow> fundido (xs @ poner a f @ ys)"
  by (auto simp: fundido_append fundido_Cons poner_def)

subsection \<open>The invariant between calls\<close>

definition mm_ok :: "heap_t \<Rightarrow> bloque list \<Rightarrow> bool" where
  "mm_ok h bs \<longleftrightarrow> heap_ok h bs \<and> heap_listp h = inicio h \<and> bloques_ok bs \<and> fundido ((16, True) # bs)"

definition asignados :: "heap_t \<Rightarrow> bloque list \<Rightarrow> addr \<rightharpoonup> int" where
  "asignados h bs = carga (inicio h + 16) bs"

lemma mm_ok_pos: "mm_ok h bs \<Longrightarrow> 0 < inicio h \<and> 16 dvd inicio h"
  by (simp add: mm_ok_def heap_ok_def area_def inicio_def)

lemma cambia_inicio: "cambia h h' a b \<Longrightarrow> inicio h' = inicio h"
  by (simp add: cambia_def inicio_def)

lemma mm_ok_cambia:
  assumes "mm_ok h bs" "cambia h h' a b" "heap_ok h' bs'" "bloques_ok bs'" "fundido ((16, True) # bs')"
  shows "mm_ok h' bs'"
  using assms cambia_inicio [OF assms(2)] by (simp add: mm_ok_def cambia_def)

text \<open>A change within one stretch of free blocks touches no payload of a block outside it.\<close>

lemma mismos_cambia:
  assumes "cambia h h' a b" "bloques_ok xs" "bloques_ok ys" "p + tam xs - 8 \<le> a" "b \<le> r - 8"
    "carga p xs q = Some n \<or> carga r ys q = Some n"
  shows "mismos h h' q n"
  using assms carga_rango [of xs p q n] carga_rango [of ys r q n] by (auto simp: mismos_def cambia_def)

subsection \<open>\<^verbatim>\<open>mm_init\<close>\<close>

definition heap_inicial :: "heap_t \<Rightarrow> heap_t" where
  "heap_inicial h = (let p = mem_start_brk h in
     h\<lparr>mem_brk := p + 32,
       bytes := wr64 (p + 24) (marca 0 True) (wr64 (p + 16) (marca 16 True) (wr64 (p + 8) (marca 16 True)
         (wr64 p 0 (bytes h)))),
       heap_listp := p + 16\<rparr>)"

lemma rd64_wr64_at: "a = b \<Longrightarrow> rd64 (wr64 b v m) a = v"
  by simp

lemma heap_inicial_ok: "area h \<Longrightarrow> heap_ok (heap_inicial h) []"
  by (simp add: heap_ok_def heap_inicial_def Let_def inicio_def blk_def rd64_wr64_other rd64_wr64_at area_def MAX_HEAP_def)

lemma mm_init_ok:
  assumes "area h" "mem_brk h = mem_start_brk h"
  shows "\<exists>h'. mm_init h = Some (1, h') \<and> mm_ok h' [(4096, False)] \<and> mem_start_brk h' = mem_start_brk h \<and>
    impreso h' = impreso h \<and> mem_brk h' = mem_start_brk h + 4128"
proof -
  let ?g = "heap_inicial h"
  have g: "heap_ok ?g []" using heap_inicial_ok assms by simp
  have fits: "mem_start_brk h + 32 + 4096 \<le> mem_max_addr h" "0 < mem_start_brk h"
    "mem_max_addr h < 2 ^ 63" using assms(1) by (simp_all add: area_def MAX_HEAP_def)
  have am: "ampliar 4096 [(16, True)] = ((16, True) # [], 4096)" by (simp add: ampliar_def fusionar_def)
  have "mem_brk ?g + 4096 \<le> mem_max_addr ?g" using fits by (simp add: heap_inicial_def Let_def)
  from extend_heap_spec(2) [OF g _ _ _ this am]
  obtain h' where h': "extend_heap (word_of_int 4096 div 8) ?g = Some (inicio ?g + 16, h')"
    "heap_ok h' [(4096, False)]" "cambia ?g h' (inicio ?g + 8) (mem_brk ?g + 4096)" by auto
  have p: "pack_word 16 1 = marca 16 True" "pack_word 0 1 = marca 0 True" by (simp_all add: pack_word_def marca_def)
  have c: "CHUNKSIZE div 8 = word_of_int 4096 div 8" by (simp only: CHUNKSIZE_def word_of_int_numeral)
  have "mm_init h = do { (p, h) \<leftarrow> extend_heap (CHUNKSIZE div 8) ?g; Some (if p = NULL then (0, h) else (1, h)) }"
    using fits assms
    by (simp add: mm_init_def mem_sbrk_def Let_def WSIZE_def SBRK_FAILED_def p escribir_header_def guardar64_def
        en_area_def heap_inicial_def NULL_def add.commute add.left_commute)
  then have "mm_init h = Some (1, h')"
    unfolding c h'(1) using fits(2) by (simp add: inicio_def heap_inicial_def Let_def NULL_def)
  moreover have "mm_ok h' [(4096, False)]"
    using h'(2,3) cambia_inicio [OF h'(3)]
    by (simp add: mm_ok_def cambia_def heap_inicial_def Let_def inicio_def)
  moreover have "mem_start_brk h' = mem_start_brk h" "impreso h' = impreso h"
    using h'(3) by (simp_all add: cambia_def heap_inicial_def Let_def)
  moreover have "mem_brk h' = mem_start_brk h + 4128"
    using heap_ok_brk [OF h'(2)] calculation(3) by (simp add: inicio_def)
  ultimately show ?thesis by blast
qed

subsection \<open>\<^verbatim>\<open>mm_malloc\<close>\<close>

lemma mm_ok_seg: "mm_ok h bs \<Longrightarrow> heap_ok h bs" by (simp add: mm_ok_def)

lemma colocar_spec:
  assumes ok: "mm_ok h bs" and bs: "bs = xs @ (f, False) # ys"
    and p: "p = inicio h + 16 + tam xs" and a: "32 \<le> a" "a \<le> f" "16 dvd a"
  obtains h' n where "place p (word_of_int a) h = Some h'" "check_heap p h = Some h"
    "check_heap p h' = Some h'" "mm_ok h' (xs @ poner a f @ ys)"
    "asignados h bs p = None" "asignados h' (xs @ poner a f @ ys) = (asignados h bs)(p \<mapsto> n)" "a - 16 \<le> n"
    "conserva h h' (asignados h bs)" "impreso h' = impreso h" "mem_brk h' = mem_brk h"
proof -
  have k: "heap_ok h bs" and bk: "bloques_ok bs" and fu: "fundido ((16, True) # bs)"
    using ok by (simp_all add: mm_ok_def)
  define us where "us = (16, True) # xs"
  have e: "(16, True) # bs = us @ (f, False) # ys" "us \<noteq> []" "p = inicio h + tam us" using bs p by (simp_all add: us_def)
  define bs' where "bs' = xs @ poner a f @ ys"
  have e': "(16, True) # bs' = us @ poner a f @ ys" by (simp add: us_def bs'_def)
  obtain h' where h': "place p (word_of_int a) h = Some h'" "heap_ok h' bs'" "cambia h h' (p - 8) (p + f - 8)"
    "mem_brk h' = mem_brk h"
    using place_spec [OF k e _ a(2,3) e'] a(1) by force
  obtain s zs where s: "poner a f = (s, True) # zs" "a \<le> s" "\<forall>b \<in> set zs. \<not> snd b" "tam ((s, False) # zs) = f"
    "bloques_ok ((s, True) # zs)"
  proof (cases "f - a \<ge> 32")
    case True
    then show ?thesis using that [of a "[(f - a, False)]"] a bk bs by (auto simp: poner_def)
  next
    case False
    then show ?thesis using that [of f "[]"] a bk bs by (auto simp: poner_def)
  qed
  have bk': "bloques_ok bs'" using bk s(1,5) by (simp add: bs bs'_def)
  have "fundido (us @ poner a f @ ys)" by (rule fundido_poner) (use fu in \<open>simp add: e(1)\<close>)
  then have ok': "mm_ok h' bs'" using mm_ok_cambia [OF ok h'(3,2) bk'] by (simp add: e')
  have in': "inicio h' = inicio h" by (rule cambia_inicio [OF h'(3)])
  let ?q = "inicio h + 16"
  have c: "carga ?q (xs @ (s, True) # zs @ ys) = (carga ?q (xs @ (s, False) # zs @ ys))(p \<mapsto> s - 16)"
    and n: "carga ?q (xs @ (s, False) # zs @ ys) p = None"
    by (rule carga_mid, use bk' s(1) p in \<open>simp_all add: bs'_def\<close>)+
  have r: "carga ?q (xs @ ((s, False) # zs) @ ys) = carga ?q (xs @ [(f, False)] @ ys)"
    by (rule carga_reemplazar) (use s(3,4,5) bk bs in auto)
  have V: "asignados h' bs' = (asignados h bs)(p \<mapsto> s - 16)" "asignados h bs p = None"
    using c n r s(1) by (simp_all add: asignados_def in' bs bs'_def)
  have ck: "check_heap p h = Some h"
    using check_heap_ok heap_ok_seg(1,2,3) [OF k e(1)] e(3) by simp
  have "(16, True) # bs' = us @ (s, True) # zs @ ys" using e' s(1) by simp
  note B = heap_ok_seg(1,2,3) [OF h'(2) this, unfolded in', folded e(3)]
  have ck': "check_heap p h' = Some h'" using check_heap_ok B by simp
  have "mismos h h' q m" if "asignados h bs q = Some m" for q m
  proof (rule mismos_cambia [OF h'(3), of xs ys ?q "p + f"])
    show "carga ?q xs q = Some m \<or> carga (p + f) ys q = Some m"
      using that bk bs p carga_append [of xs "(f, False) # ys" ?q]
      by (auto simp: asignados_def map_add_Some_iff algebra_simps)
  qed (use bk bs p in auto)
  then have "conserva h h' (asignados h bs)" using h'(3,4) by (simp add: conserva_def cambia_def)
  then show ?thesis using that [OF h'(1) ck ck' ok' [unfolded bs'_def] V(2) V(1) [unfolded bs'_def]] s(2) h'(3,4) by (simp add: cambia_def)
qed

definition sin_lugar :: "int \<Rightarrow> heap_t \<Rightarrow> bloque list \<Rightarrow> bool" where
  "sin_lugar sz h bs \<longleftrightarrow> primer_ajuste (ajuste sz) bs = None \<and> mem_brk h + max (ajuste sz) 4096 > mem_max_addr h"

lemma sin_lugar_lista:
  assumes "mm_ok h bs"
  shows "sin_lugar sz h bs \<longleftrightarrow> primer_ajuste (ajuste sz) bs = None \<and> MAX_HEAP < 32 + tam bs + max (ajuste sz) 4096"
proof -
  have k: "heap_ok h bs" using assms by (rule mm_ok_seg)
  then have "area h" by (simp add: heap_ok_def)
  then have "mem_max_addr h = mem_start_brk h + MAX_HEAP" by (simp add: area_def)
  moreover have "mem_brk h = mem_start_brk h + 32 + tam bs" using heap_ok_brk [OF k] unfolding inicio_def by linarith
  ultimately show ?thesis unfolding sin_lugar_def by linarith
qed

lemma max_u64_CHUNKSIZE:
  assumes "0 \<le> a" "a < 2 ^ 63"
  shows "max_u64 (word_of_int a) CHUNKSIZE = word_of_int (max a 4096)"
proof -
  have "(word_of_int a :: u64) > 4096 \<longleftrightarrow> a > 4096" using assms by (simp add: word_less_def)
  then show ?thesis by (simp add: max_u64_def CHUNKSIZE_def max_def)
qed

lemma ampliar_spec:
  assumes "ampliar e ((16, True) # bs) = (zs, f)" "bloques_ok bs" "fundido ((16, True) # bs)" "32 \<le> e" "16 dvd e"
  shows "\<exists>xs. zs = (16, True) # xs \<and> e \<le> f \<and> bloques_ok (xs @ [(f, False)]) \<and>
    fundido ((16, True) # xs @ [(f, False)]) \<and> carga p (xs @ [(f, False)]) = carga p bs"
proof -
  obtain ys where fu: "fusionar ((16, True) # bs) e [] = (zs, f, ys)"
    using assms(1) by (auto simp: ampliar_def split: prod.splits)
  have ff: "ys = []" "zs = (16, True) # bs \<and> f = e \<or> (\<exists>sp. (16, True) # bs = zs @ [(sp, False)] \<and> f = sp + e)"
    using fusionar_final [OF fu] assms(4) bloques_ok_tam [OF assms(2)] by auto
  have "fundido (zs @ (f, False) # ys)" by (rule fundido_fusionar [OF assms(3) _ fu]) simp_all
  moreover have "\<exists>xs. zs = (16, True) # xs" using ff(2) by (cases zs) auto
  ultimately show ?thesis using ff assms(2,4,5) by (auto simp: carga_append)
qed

lemma mm_malloc_unfold:
  assumes ok: "mm_ok h bs" and sz: "0 < sz" "sz < 2 ^ 62"
  shows "mm_malloc (word_of_int sz) h =
    do { (block_pointer, h) \<leftarrow> find_fit (word_of_int (ajuste sz)) h;
         if block_pointer \<noteq> NULL then do {
           h \<leftarrow> check_heap block_pointer h;
           h \<leftarrow> place block_pointer (word_of_int (ajuste sz)) h;
           Some (block_pointer, h)
         } else do {
           (block_pointer, h) \<leftarrow> extend_heap (word_of_int (max (ajuste sz) 4096) div 8) h;
           if block_pointer = NULL then Some (NULL, h)
           else do {
             h \<leftarrow> place block_pointer (word_of_int (ajuste sz)) h;
             h \<leftarrow> check_heap block_pointer h;
             Some (block_pointer, h)
           }
         } }"
proof -
  have "uint (word_of_int sz :: u64) = sz" using sz by simp
  then have nz: "(word_of_int sz :: u64) \<noteq> 0" using sz by (metis less_irrefl uint_0_eq)
  have a: "0 \<le> ajuste sz" "ajuste sz < 2 ^ 63" using ajuste_props [OF sz(1)] sz(2) by simp_all
  show ?thesis
    using nz ok mm_ok_pos [OF ok] sz
    unfolding mm_malloc_def Let_def
    by (simp add: mm_ok_def adjusted_size_of_ajuste max_u64_CHUNKSIZE [OF a] NULL_def cong: if_cong)
qed

lemma mm_malloc_spec:
  assumes ok: "mm_ok h bs" and sz: "0 < sz" "sz \<le> 2 ^ 32 - 32"
  shows "sin_lugar sz h bs \<Longrightarrow>
      mm_malloc (word_of_int sz) h = Some (NULL, h\<lparr>impreso := impreso h @ [Sin_memoria]\<rparr>) \<and>
      malloc_lista (inicio h + 16) sz bs = (NULL, bs)"
    and "\<not> sin_lugar sz h bs \<Longrightarrow> \<exists>p h' bs' n. mm_malloc (word_of_int sz) h = Some (p, h') \<and> p \<noteq> NULL \<and>
      malloc_lista (inicio h + 16) sz bs = (p, bs') \<and> mm_ok h' bs' \<and> asignados h bs p = None \<and> asignados h' bs' = (asignados h bs)(p \<mapsto> n) \<and>
      ajuste sz - 16 \<le> n \<and> conserva h h' (asignados h bs) \<and> impreso h' = impreso h \<and>
      mem_brk h' \<le> mem_brk h + max (ajuste sz) 4096"
proof -
  define a where "a = ajuste sz"
  have a: "32 \<le> a" "16 dvd a" "a < 2 ^ 32" using ajuste_props [OF sz(1)] sz(2) by (simp_all add: a_def)
  have k: "heap_ok h bs" "heap_listp h = inicio h" "bloques_ok bs" "fundido ((16, True) # bs)"
    using ok by (simp_all add: mm_ok_def)
  note u = mm_malloc_unfold [OF ok sz(1)]
  have sz': "sz < 2 ^ 62" using sz by simp
  note ff = find_fit_spec [OF k(1,2), of a]
  define e where "e = max a 4096"
  have e: "16 \<le> e" "32 \<le> e" "16 dvd e" "e < 2 ^ 32" "a \<le> e" using a by (auto simp: e_def max_def)
  note ex = extend_heap_spec [OF k(1) e(1,3,4)]
  note sll = sin_lugar_lista [OF ok, of sz]
  show "mm_malloc (word_of_int sz) h = Some (NULL, h\<lparr>impreso := impreso h @ [Sin_memoria]\<rparr>) \<and>
      malloc_lista (inicio h + 16) sz bs = (NULL, bs)"
    if sl: "sin_lugar sz h bs"
    using sl [unfolded sll] sl ff a ex(1)
    by (simp add: u [OF sz'] a_def [symmetric] e_def [symmetric] sin_lugar_def malloc_lista_def)
  assume n: "\<not> sin_lugar sz h bs"
  show "\<exists>p h' bs' n. mm_malloc (word_of_int sz) h = Some (p, h') \<and> p \<noteq> NULL \<and>
      malloc_lista (inicio h + 16) sz bs = (p, bs') \<and> mm_ok h' bs' \<and> asignados h bs p = None \<and> asignados h' bs' = (asignados h bs)(p \<mapsto> n) \<and>
      ajuste sz - 16 \<le> n \<and> conserva h h' (asignados h bs) \<and> impreso h' = impreso h \<and>
      mem_brk h' \<le> mem_brk h + max (ajuste sz) 4096"
  proof (cases "primer_ajuste a bs")
    case (Some r)
    then obtain us f vs where r: "primer_ajuste a bs = Some (us, f, vs)" by (metis prod_cases3)
    let ?p = "inicio h + 16 + tam us"
    have bs: "bs = us @ (f, False) # vs" "a \<le> f" using primer_ajuste_Some [OF r] by simp_all
    have p: "?p \<noteq> NULL" using mm_ok_pos [OF ok] bloques_ok_tam [of us] k(3) by (simp add: bs NULL_def)
    let ?bs = "us @ poner a f @ vs"
    have L: "malloc_lista (inicio h + 16) sz bs = (?p, ?bs)" using r by (simp add: malloc_lista_def a_def)
    obtain h' n where "place ?p (word_of_int a) h = Some h'" "check_heap ?p h = Some h"
      "mm_ok h' ?bs" "asignados h bs ?p = None" "asignados h' ?bs = (asignados h bs)(?p \<mapsto> n)" "a - 16 \<le> n"
      "conserva h h' (asignados h bs)" "impreso h' = impreso h" "mem_brk h' = mem_brk h"
      by (rule colocar_spec [OF ok bs(1) refl a(1) bs(2) a(2)])
    then show ?thesis
      using ff r p a L by (simp add: u [OF sz'] a_def [symmetric]) (metis add_increasing2 le_max_iff_disj order_refl zero_le_numeral)
  next
    case None
    then have room: "mem_brk h + e \<le> mem_max_addr h" using n by (simp add: sin_lugar_def a_def e_def)
    obtain zs f where am0: "ampliar e ((16, True) # bs) = (zs, f)" by force
    then obtain xs where am: "ampliar e ((16, True) # bs) = ((16, True) # xs, f)" "e \<le> f"
      "bloques_ok (xs @ [(f, False)])" "fundido ((16, True) # xs @ [(f, False)])"
      "carga (inicio h + 16) (xs @ [(f, False)]) = carga (inicio h + 16) bs"
      using ampliar_spec [OF am0 k(3,4) e(2,3), of "inicio h + 16"] by blast
    let ?p = "inicio h + 16 + tam xs"
    obtain g where g: "extend_heap (word_of_int e div 8) h = Some (?p, g)" "heap_ok g (xs @ [(f, False)])"
      "cambia h g (inicio h + 8 + tam xs) (mem_brk h + e)" "mem_brk g = mem_brk h + e"
      using ex(2) [OF room am(1)] by blast
    have okg: "mm_ok g (xs @ [(f, False)])" by (rule mm_ok_cambia [OF ok g(3,2) am(3)]) (use am(4) in simp)
    have ig: "inicio g = inicio h" by (rule cambia_inicio [OF g(3)])
    have p: "?p \<noteq> NULL" using mm_ok_pos [OF ok] bloques_ok_tam [of xs] am(3) by (simp add: NULL_def)
    have V: "asignados g (xs @ [(f, False)]) = asignados h bs" using am(5) by (simp add: asignados_def ig)
    have af: "a \<le> f" using am(2) e(5) by simp
    let ?bs = "xs @ poner a f"
    have L: "malloc_lista (inicio h + 16) sz bs = (?p, ?bs)"
      using None am(1) n [unfolded sll] by (simp add: malloc_lista_def a_def e_def)
    obtain h' n where h': "place ?p (word_of_int a) g = Some h'" "check_heap ?p h' = Some h'"
      "mm_ok h' ?bs" "asignados h bs ?p = None" "asignados h' ?bs = (asignados h bs)(?p \<mapsto> n)" "a - 16 \<le> n"
      "conserva g h' (asignados h bs)" "impreso h' = impreso g" "mem_brk h' = mem_brk g"
      using colocar_spec [OF okg, of xs f "[]" ?p a] a af unfolding ig V append_Nil2 by blast
    have "mismos h g q m" if "asignados h bs q = Some m" for q m
    proof (rule mismos_cambia [OF g(3), of xs "[]" "inicio h + 16" "mem_brk h + e + 8"])
      show "carga (inicio h + 16) xs q = Some m \<or> carga (mem_brk h + e + 8) [] q = Some m"
        using that am(3) unfolding V [symmetric] by (simp add: asignados_def ig carga_append)
    qed (use am in auto)
    then have "conserva h h' (asignados h bs)"
      using h'(7) g(3,4) e(1) mismos_trans unfolding conserva_def cambia_def by fastforce
    then show ?thesis
      using ff None p a h' g L by (simp add: u [OF sz'] a_def [symmetric] e_def [symmetric] cambia_def) blast
  qed
qed

subsection \<open>\<^verbatim>\<open>mm_free\<close>\<close>

lemma fusionar_bloques:
  assumes "fusionar ((16, True) # xs) s ys = (xs', s', ys')" "bloques_ok (xs @ (s, b) # ys)"
  shows "\<exists>vs. xs' = (16, True) # vs \<and> bloques_ok (vs @ (s', False) # ys')"
proof (cases xs rule: rev_cases)
  case Nil
  then show ?thesis using assms by (auto simp: fusionar_def split: list.splits if_splits)
next
  case (snoc us c)
  then show ?thesis using assms by (auto simp: fusionar_def Let_def butlast_append split: list.splits if_splits)
qed

lemma liberar_spec:
  assumes ok: "mm_ok h bs" and V: "asignados h bs p = Some n"
  obtains h' bs' where "mm_free p h = Some h'" "libera_lista (inicio h + 16) p bs = Some bs'" "mm_ok h' bs'" "asignados h' bs' = (asignados h bs)(p := None)"
    "conserva h h' ((asignados h bs)(p := None))" "impreso h' = impreso h" "mem_brk h' = mem_brk h"
proof -
  have k: "heap_ok h bs" and bk: "bloques_ok bs" and fu: "fundido ((16, True) # bs)"
    using ok by (simp_all add: mm_ok_def)
  obtain xs ys where bs: "bs = xs @ (n + 16, True) # ys" "p = inicio h + 16 + tam xs"
    using carga_split [OF bk V [unfolded asignados_def]] by blast
  define s where "s = n + 16"
  define us where "us = (16, True) # xs"
  define bsF where "bsF = xs @ (s, False) # ys"
  have e: "(16, True) # bs = us @ (s, True) # ys" "p = inicio h + tam us" using bs by (simp_all add: us_def s_def)
  have eF: "(16, True) # bsF = us @ (s, False) # ys" by (simp add: us_def bsF_def)
  have s: "16 \<le> s" "16 dvd s" using bk by (simp_all add: bs s_def)
  note B = heap_ok_seg(1,2,3) [OF k e(1), folded e(2)]
  note r = leer_bloque [OF B(1), simplified, OF B(2) [simplified]]
  define h1 where "h1 = poner_marcas p (s, False) h"
  have k1: "heap_ok h1 bsF" unfolding h1_def e(2)
    by (rule reemplazar_ok [OF k _ eF, of "[(s, True)]"]) (use e(1) s in simp_all)
  have i1: "inicio h1 = inicio h" by (simp add: h1_def inicio_def)
  obtain xs' s' ys' where f: "fusionar us s ys = (xs', s', ys')" by (metis prod_cases3)
  obtain vs where vs: "xs' = (16, True) # vs" "bloques_ok (vs @ (s', False) # ys')"
    using fusionar_bloques [OF f [unfolded us_def]] bk by (auto simp: bs s_def)
  define q where "q = inicio h + tam xs'"
  define h2 where "h2 = poner_marcas q (s', False) h1"
  have co: "coalesce p h1 = Some (q, h2)"
    using coalesce_spec [OF k1 eF _ f] e(2) by (simp add: i1 q_def h2_def)
  have ch: "check_heap p h = Some h" using check_heap_ok B by simp
  have "p \<noteq> NULL" using heap_ok_seg(4) [OF k e(1)] e(2) by (simp add: NULL_def)
  moreover have "heap_listp h \<noteq> NULL" using ok mm_ok_pos [OF ok] by (simp add: mm_ok_def NULL_def)
  ultimately have run: "mm_free p h = Some h2"
    using marcar_header_footer [of h p s False "\<lambda>h. do { (block, h) \<leftarrow> coalesce p h; Some h }"] B(2) s co
    by (simp add: mm_free_def ch r obtener_header_def WSIZE_def h1_def)
  obtain mid where mid: "us @ (s, False) # ys = xs' @ mid @ ys'" "tam mid = s'" "\<forall>b\<in>set mid. \<not> snd b"
    using fusionar_mid [OF f] by (auto simp: us_def)
  define bs' where "bs' = vs @ (s', False) # ys'"
  have "buscar (inicio h + 16) p bs = Some (xs, s, ys)"
    using buscar_mitad [of xs "inicio h + 16" s ys] bk bs by (force simp: s_def bloques_ok_def)
  then have L: "libera_lista (inicio h + 16) p bs = Some bs'"
    using f vs(1) by (simp add: libera_lista_def us_def bs'_def)
  have k2: "heap_ok h2 bs'"
    unfolding h2_def q_def i1 [symmetric]
    by (rule reemplazar_ok [OF k1 _ _ mid(2)]) (use eF mid(1) vs in \<open>simp_all add: bs'_def\<close>)
  have b': "bsF = vs @ mid @ ys'" using mid(1) eF vs(1) by simp
  have okF: "bloques_ok bsF" using bk by (simp add: bs bsF_def s_def)
  have sizes: "16 \<le> s'" "0 \<le> tam vs" "0 \<le> tam ys'" using vs(2) bloques_ok_tam [of vs] bloques_ok_tam [of ys'] by simp_all
  have pq: "q \<le> p" "p + s \<le> q + s'"
  proof -
    obtain pre post where "xs' @ pre = us" "ys = post @ ys'" "tam pre + s + tam post = s'"
      "0 \<le> tam pre" "0 \<le> tam post"
    proof (rule that)
      let ?pre = "if snd (last us) then [] else [last us]"
      let ?post = "case ys of [] \<Rightarrow> [] | b # zs \<Rightarrow> if snd b then [] else [b]"
      have ne: "us \<noteq> []" by (simp add: us_def)
      show "xs' @ ?pre = us" "ys = ?post @ ys'" "tam ?pre + s + tam ?post = s'"
        using f ne by (auto simp: fusionar_def split: list.splits if_splits)
      have "last us = (16, True) \<or> last us \<in> set bs" by (auto simp: us_def bs)
      then show "0 \<le> tam ?pre" "0 \<le> tam ?post"
        using bloques_ok_pos [OF bk, of "last us"] bk by (auto simp: bs split: list.splits)
    qed
    then show "q \<le> p" "p + s \<le> q + s'" using e(2) by (auto simp: q_def)
  qed
  have "fundido us" "fundido ys" using fu unfolding e(1) by (auto simp: fundido_append fundido_Cons)
  then have "fundido (xs' @ (s', False) # ys')" using fundido_fusionar [OF _ _ f] by (simp add: us_def)
  moreover have c1: "cambia h h1 (p - 8) (p + s - 8)" unfolding h1_def by (rule cambia_poner [OF s(1)])
  moreover have c2: "cambia h1 h2 (q - 8) (q + s' - 8)" unfolding h2_def by (rule cambia_poner [OF sizes(1)])
  moreover have cam: "cambia h h2 (q - 8) (q + s' - 8)"
    by (rule cambia_mono [OF cambia_trans [OF c1 c2]]) (use pq in simp_all)
  ultimately have ok2: "mm_ok h2 bs'" using mm_ok_cambia [OF ok cam k2] vs by (simp add: bs'_def)
  have i2: "inicio h2 = inicio h" by (rule cambia_inicio [OF cam])
  have "carga (inicio h + 16) bs' = carga (inicio h + 16) bsF"
    using carga_reemplazar [of vs mid ys' "[(s', False)]"] okF b' vs(2) mid(2,3) by (simp add: bs'_def)
  moreover have "carga (inicio h + 16) bs = (carga (inicio h + 16) bsF)(p \<mapsto> s - 16)" "carga (inicio h + 16) bsF p = None"
    using carga_mid [of xs s True ys p "inicio h + 16"] bk bs(2) by (simp_all add: bs(1) bsF_def s_def)
  ultimately have V2: "asignados h2 bs' = (asignados h bs)(p := None)"
    by (auto simp: asignados_def i2)
  have "mismos h h2 r m" if "((asignados h bs)(p := None)) r = Some m" for r m
  proof (rule mismos_cambia [OF cam, of vs ys' "inicio h + 16" "q + s'"])
    have "carga (inicio h + 16) (vs @ (s', False) # ys') r = Some m"
      using that unfolding V2 [symmetric] unfolding asignados_def bs'_def i2 .
    then show "carga (inicio h + 16) vs r = Some m \<or> carga (q + s') ys' r = Some m"
      using vs by (auto simp: carga_append q_def algebra_simps)
  qed (use vs in \<open>auto simp: q_def\<close>)
  then have "conserva h h2 ((asignados h bs)(p := None))" using cam by (simp add: conserva_def cambia_def h2_def h1_def)
  moreover have "impreso h2 = impreso h" "mem_brk h2 = mem_brk h" by (simp_all add: h2_def h1_def)
  ultimately show ?thesis using that [OF run L ok2 V2] by blast
qed

subsection \<open>Writing to a payload\<close>

lemma asignados_rango:
  assumes "mm_ok h bs" "asignados h bs q = Some m"
  shows "inicio h + 16 \<le> q" "q + m + 16 \<le> mem_brk h" "16 dvd q" "16 \<le> m" "16 dvd m" "q \<noteq> NULL"
    "mem_start_brk h \<le> q" "mem_brk h \<le> mem_max_addr h" "mem_brk h < 2 ^ 63"
proof -
  have V: "carga (inicio h + 16) bs q = Some m" and k: "heap_ok h bs" "bloques_ok bs"
    using assms by (simp_all add: asignados_def mm_ok_def)
  have a: "area h" "mem_brk h \<le> mem_max_addr h" using k(1) by (simp_all add: heap_ok_def)
  note i = mm_ok_pos [OF assms(1)]
  note r = carga_rango [OF k(2) V]
  have "16 dvd inicio h + 16" using i by simp
  note al = carga_alineada [OF k(2) this V]
  show q: "inicio h + 16 \<le> q" "q + m + 16 \<le> mem_brk h" "16 dvd q" "16 \<le> m" "16 dvd m"
    using r al heap_ok_brk [OF k(1)] by simp_all
  show "q \<noteq> NULL" "mem_start_brk h \<le> q" using q(1) i by (simp_all add: NULL_def inicio_def)
  show "mem_brk h \<le> mem_max_addr h" "mem_brk h < 2 ^ 63" using a by (simp_all add: area_def MAX_HEAP_def)
qed

lemma asignados_disjuntas:
  assumes "mm_ok h bs" "asignados h bs q = Some m" "asignados h bs r = Some n" "q \<noteq> r"
  shows "q + m + 16 \<le> r \<or> r + n + 16 \<le> q"
  using carga_disjuntas [OF _ assms(2,3) [unfolded asignados_def] assms(4)] assms(1) by (simp add: mm_ok_def)

lemma asignados_bloque:
  assumes "mm_ok h bs" "asignados h bs q = Some m"
  shows "blk h q (m + 16, True)" "dentro h q (m + 16)" "check_heap q h = Some h"
    "block_size (q - 8) h = Some (word_of_int (m + 16))"
proof -
  obtain xs ys where "bs = xs @ (m + 16, True) # ys" "q = inicio h + 16 + tam xs"
    using carga_split [of bs "inicio h + 16" q m] assms by (auto simp: mm_ok_def asignados_def)
  then have e: "(16, True) # bs = ((16, True) # xs) @ (m + 16, True) # ys" "q = inicio h + tam ((16, True) # xs)"
    by simp_all
  have "heap_ok h bs" using assms(1) by (simp add: mm_ok_def)
  note B = heap_ok_seg(1,2,3) [OF this e(1), folded e(2)]
  show "blk h q (m + 16, True)" "dentro h q (m + 16)" "check_heap q h = Some h"
    "block_size (q - 8) h = Some (word_of_int (m + 16))"
    using B check_heap_ok leer_bloque(1) by simp_all
qed

lemma mm_ok_escribir:
  assumes ok: "mm_ok h bs" and V: "asignados h bs q = Some m"
    and c: "cambia h h' q (q + m)" "mem_brk h' = mem_brk h"
  shows "mm_ok h' bs" "asignados h' bs = asignados h bs" "conserva h h' ((asignados h bs)(q := None))"
proof -
  have i: "inicio h' = inicio h" by (rule cambia_inicio [OF c(1)])
  have by1: "bytes h' x = bytes h x" if "x < q \<or> q + m \<le> x" for x using that c(1) by (auto simp: cambia_def)
  obtain xs ys where bs: "bs = xs @ (m + 16, True) # ys" "q = inicio h + 16 + tam xs"
    using carga_split [of bs "inicio h + 16" q m] ok V by (auto simp: mm_ok_def asignados_def)
  have sg: "seg h (inicio h) ((16, True) # xs) q" "seg h (q + (m + 16)) ys (mem_brk h)"
    using ok bs by (simp_all add: mm_ok_def heap_ok_def add.assoc)
  have "seg h' (inicio h) ((16, True) # xs) q" by (rule seg_cong [OF sg(1)]) (use by1 in auto)
  moreover have "seg h' (q + (m + 16)) ys (mem_brk h)" by (rule seg_cong [OF sg(2)]) (use by1 in auto)
  moreover have "blk h' q (m + 16, True)"
  proof -
    have "rd64 (bytes h') (q - 8) = rd64 (bytes h) (q - 8)" by (rule rd64_cong) (use by1 in auto)
    moreover have "rd64 (bytes h') (q + m) = rd64 (bytes h) (q + m)" by (rule rd64_cong) (use by1 in auto)
    ultimately show ?thesis using asignados_bloque(1) [OF ok V] by (simp add: blk_def)
  qed
  moreover have "rd64 (bytes h') (mem_brk h - 8) = rd64 (bytes h) (mem_brk h - 8)"
    by (rule rd64_cong) (use by1 asignados_rango(2) [OF ok V] in auto)
  ultimately have "heap_ok h' bs"
    using ok c bs by (simp add: mm_ok_def heap_ok_def i area_def cambia_def add.assoc)
  then show "mm_ok h' bs" using ok c(1) i by (simp add: mm_ok_def cambia_def)
  show "asignados h' bs = asignados h bs" by (simp add: asignados_def i)
  have "mismos h h' r n" if "asignados h bs r = Some n" "r \<noteq> q" for r n
    using asignados_disjuntas [OF ok that(1) V that(2)] by (auto simp: mismos_def intro!: by1)
  then show "conserva h h' ((asignados h bs)(q := None))" using c by (simp add: conserva_def cambia_def)
qed

subsection \<open>\<^verbatim>\<open>mm_realloc\<close>\<close>

lemma mm_realloc_spec:
  assumes ok: "mm_ok h bs" and V: "asignados h bs p = Some n" and sz: "0 < sz" "sz \<le> 2 ^ 32 - 32"
  shows "sin_lugar sz h bs \<Longrightarrow>
      mm_realloc p (word_of_int sz) h = Some (NULL, h\<lparr>impreso := impreso h @ [Sin_memoria]\<rparr>) \<and>
      cambia_lista (inicio h + 16) p sz bs = Some (NULL, bs)"
    and "\<not> sin_lugar sz h bs \<Longrightarrow> \<exists>q h' bs' m. mm_realloc p (word_of_int sz) h = Some (q, h') \<and> q \<noteq> NULL \<and>
      cambia_lista (inicio h + 16) p sz bs = Some (q, bs') \<and> mm_ok h' bs' \<and> asignados h bs q = None \<and> asignados h' bs' = (asignados h bs)(p := None, q \<mapsto> m) \<and>
      ajuste sz - 16 \<le> m \<and> (\<forall>i. 0 \<le> i \<and> i < min n sz \<longrightarrow> bytes h' (q + i) = bytes h (p + i)) \<and>
      conserva h h' ((asignados h bs)(p := None)) \<and> impreso h' = impreso h \<and>
      mem_brk h' \<le> mem_brk h + max (ajuste sz) 4096"
proof -
  have us: "uint (word_of_int sz :: u64) = sz" using sz by simp
  then have nz: "(word_of_int sz :: u64) \<noteq> 0" using sz(1) by (metis less_irrefl uint_0_eq)
  note pr = asignados_rango [OF ok V]
  have u: "mm_realloc p (word_of_int sz) h =
    do { (newblock, h) \<leftarrow> mm_malloc (word_of_int sz) h;
         if newblock = NULL then Some (NULL, h)
         else do {
           h \<leftarrow> check_heap newblock h;
           oldsize \<leftarrow> block_size (obtener_header p) h;
           let oldsize = (if oldsize > word_of_int sz then word_of_int sz else oldsize);
           h \<leftarrow> memcpy newblock p (unat oldsize) h;
           h \<leftarrow> mm_free p h;
           Some (newblock, h) } }"
    using nz pr(6) asignados_bloque(3) [OF ok V] by (simp add: mm_realloc_def)
  show "mm_realloc p (word_of_int sz) h = Some (NULL, h\<lparr>impreso := impreso h @ [Sin_memoria]\<rparr>) \<and>
      cambia_lista (inicio h + 16) p sz bs = Some (NULL, bs)"
    if "sin_lugar sz h bs"
    using mm_malloc_spec(1) [OF ok sz that] by (simp add: u cambia_lista_def)
  assume "\<not> sin_lugar sz h bs"
  then obtain q h1 bs1 m where m: "mm_malloc (word_of_int sz) h = Some (q, h1)" "q \<noteq> NULL" "mm_ok h1 bs1"
    "asignados h bs q = None" "asignados h1 bs1 = (asignados h bs)(q \<mapsto> m)" "ajuste sz - 16 \<le> m"
    "conserva h h1 (asignados h bs)" "impreso h1 = impreso h" "mem_brk h1 \<le> mem_brk h + max (ajuste sz) 4096"
    "malloc_lista (inicio h + 16) sz bs = (q, bs1)"
    using mm_malloc_spec(2) [OF ok sz] by blast
  have qp: "q \<noteq> p" using m(4) V by auto
  have V1: "asignados h1 bs1 q = Some m" "asignados h1 bs1 p = Some n" using m(5) V qp by simp_all
  define k where "k = min (n + 16) sz"
  have k: "0 \<le> k" "k \<le> n + 16" "k \<le> sz" "k \<le> m" "min n sz \<le> k"
    using ajuste_props(3) [OF sz(1)] m(6) sz(1) pr(4) by (auto simp: k_def)
  have ks: "n + 16 < 2 ^ 63" using pr mm_ok_pos [OF ok] by simp
  have old: "unat (if (word_of_int (n + 16) :: u64) > word_of_int sz
      then word_of_int sz else (word_of_int (n + 16) :: u64)) = nat k"
  proof -
    have v: "uint (word_of_int (n + 16) :: u64) = n + 16" using ks pr(4) by (intro uint_size) simp_all
    have "unat (word_of_int sz :: u64) = nat sz" "unat (word_of_int (n + 16) :: u64) = nat (n + 16)"
      by (simp_all only: unat_eq_nat_uint us v)
    then show ?thesis using us v by (auto simp: word_less_def k_def simp del: of_int_add)
  qed
  define h2 where "h2 = h1\<lparr>bytes := (\<lambda>x. if q \<le> x \<and> x < q + k then bytes h1 (p + (x - q)) else bytes h1 x)\<rparr>"
  note qr = asignados_rango [OF m(3) V1(1)] and pr1 = asignados_rango [OF m(3) V1(2)]
  have mc: "memcpy q p (nat k) h1 = Some h2"
    using qr pr1 k asignados_disjuntas [OF m(3) V1 qp] by (auto simp: memcpy_def h2_def en_area_def)
  have c2: "cambia h1 h2 q (q + m)" "mem_brk h2 = mem_brk h1"
    using k by (auto simp: cambia_def h2_def)
  note w = mm_ok_escribir [OF m(3) V1(1) c2]
  have c02: "conserva h h2 ((asignados h bs)(p := None))"
    by (rule conserva_trans [OF m(7) w(3)]) (use m(4,5) in \<open>auto simp: map_le_def\<close>)
  then have i2: "inicio h2 = inicio h" by (simp add: conserva_def inicio_def)
  obtain h3 bs3 where f: "mm_free p h2 = Some h3" "mm_ok h3 bs3" "asignados h3 bs3 = (asignados h1 bs1)(p := None)"
    "conserva h2 h3 ((asignados h1 bs1)(p := None))" "impreso h3 = impreso h2" "mem_brk h3 = mem_brk h2"
    "libera_lista (inicio h + 16) p bs1 = Some bs3"
    by (rule liberar_spec [OF w(1), of p n, unfolded i2]) (use V1(2) w(2) in auto)
  have run: "mm_realloc p (word_of_int sz) h = Some (q, h3)"
    by (simp only: u m(1,2) Let_def obtener_header_def WSIZE_def bind.bind_lunit prod.case if_False old mc f(1)
        asignados_bloque(3) [OF m(3) V1(1)] asignados_bloque(4) [OF m(3) V1(2)])
  have data: "bytes h3 (q + i) = bytes h (p + i)" if "0 \<le> i" "i < min n sz" for i
  proof -
    note ik = less_le_trans [OF that(2) k(5)]
    have "bytes h3 (q + i) = bytes h2 (q + i)"
      by (rule conserva_mismos [OF f(4), of q m]) (use V1(1) qp that(1) ik k(4) in simp_all)
    also have "\<dots> = bytes h1 (p + i)" using that(1) ik by (simp add: h2_def)
    also have "\<dots> = bytes h (p + i)"
      by (rule conserva_mismos [OF m(7) V]) (use that in simp_all)
    finally show ?thesis .
  qed
  have "conserva h h3 ((asignados h bs)(p := None))"
    by (rule conserva_trans [OF c02 f(4)]) (use m(4,5) in \<open>auto simp: map_le_def\<close>)
  moreover have "asignados h3 bs3 = (asignados h bs)(p := None, q \<mapsto> m)" using f(3) m(5) qp by (simp add: fun_upd_twist)
  moreover have "impreso h3 = impreso h" using f(5) m(8) by (simp add: h2_def)
  moreover have "cambia_lista (inicio h + 16) p sz bs = Some (q, bs3)"
    using m(2,10) f(7) by (simp add: cambia_lista_def)
  ultimately show "\<exists>q h' bs' m. mm_realloc p (word_of_int sz) h = Some (q, h') \<and> q \<noteq> NULL \<and>
      cambia_lista (inicio h + 16) p sz bs = Some (q, bs') \<and> mm_ok h' bs' \<and> asignados h bs q = None \<and> asignados h' bs' = (asignados h bs)(p := None, q \<mapsto> m) \<and>
      ajuste sz - 16 \<le> m \<and> (\<forall>i. 0 \<le> i \<and> i < min n sz \<longrightarrow> bytes h' (q + i) = bytes h (p + i)) \<and>
      conserva h h' ((asignados h bs)(p := None)) \<and> impreso h' = impreso h \<and>
      mem_brk h' \<le> mem_brk h + max (ajuste sz) 4096"
    using run m(2,4,6) f(2) data m(9) f(6) c2(2) by (metis (no_types, lifting))
qed

end
