(* ===== verification/Mdriver.thy ===== *)
theory Mdriver
  imports Allocator
begin

text \<open>
  \<^verbatim>\<open>Labs grupales/malloc/mdriver.c\<close>: the driver that runs an allocator on the requests of a
  trace file. The allocator is a parameter; the C functions that end the process are errors of the
  model. What the driver prints about an error is a list of messages, one for each increment of the
  counter \<open>errors\<close>.
\<close>

unbundle bit_operations_syntax

definition ALIGNMENT :: int where "ALIGNMENT = 8"

definition is_aligned :: "addr \<Rightarrow> bool" where
  "is_aligned p \<longleftrightarrow> (p mod 2 ^ 32) mod ALIGNMENT = 0"

definition linenum :: "int \<Rightarrow> int" where
  "linenum i = i + 5"

record range_t =
  lo :: addr
  hi :: addr

datatype tipo_op = ALLOC | FREE | REALLOC

record traceop_t =
  op_type :: tipo_op
  op_index :: int
  op_size :: int

record trace_t =
  sugg_heapsize :: int
  num_ids :: int
  num_ops :: int
  weight :: int
  ops :: "traceop_t list"
  blocks :: "addr list"
  block_sizes :: "u64 list"

datatype error_t =
    No_alineado addr
  | Fuera_del_heap addr addr addr addr
  | Solapado addr addr addr addr
  | Init_fallo
  | Malloc_fallo
  | Realloc_fallo
  | Datos_perdidos
  | Libc_fallo

text \<open>
  The ways in which the driver does not go on: undefined behaviour, a failed \<^verbatim>\<open>assert\<close>, and
  \<^verbatim>\<open>exit(1)\<close> after a message of \<^verbatim>\<open>unix_error\<close> or \<^verbatim>\<open>app_error\<close>.
\<close>

datatype fallo = Indefinido | Aborta | Unix_error string | App_error string

definition luego :: "fallo + 'a \<Rightarrow> ('a \<Rightarrow> fallo + 'b) \<Rightarrow> fallo + 'b" where
  "luego m f = (case m of Inl e \<Rightarrow> Inl e | Inr x \<Rightarrow> f x)"

definition desde :: "'a option \<Rightarrow> fallo + 'a" where
  "desde m = (case m of None \<Rightarrow> Inl Indefinido | Some x \<Rightarrow> Inr x)"

lemma luego_simps [simp]: "luego (Inr x) f = f x" "luego (Inl e) f = Inl e" "desde (Some x) = Inr x"
  "desde None = Inl Indefinido"
  by (simp_all add: luego_def desde_def)

text \<open>\<open>memoria\<close>: how many calls of the host's \<^verbatim>\<open>malloc\<close> still succeed.\<close>

record driver_t =
  heap :: heap_t
  ranges :: "range_t list"
  traza :: trace_t
  errores :: "(int \<times> int \<times> error_t) list"
  memoria :: nat

definition malloc_error :: "int \<Rightarrow> int \<Rightarrow> error_t \<Rightarrow> driver_t \<Rightarrow> driver_t" where
  "malloc_error tracenum opnum msg d = d\<lparr>errores := errores d @ [(tracenum, linenum opnum, msg)]\<rparr>"

subsection \<open>The range list\<close>

definition add_range :: "addr \<Rightarrow> int \<Rightarrow> int \<Rightarrow> int \<Rightarrow> driver_t \<Rightarrow> fallo + (bool \<times> driver_t)" where
  "add_range l sz tracenum opnum d =
     (let h = l + sz - 1; bottom = mem_heap_lo (heap d); top = mem_heap_hi (heap d)
      in if \<not> sz > 0 then Inl Aborta
         else if \<not> is_aligned l then Inr (False, malloc_error tracenum opnum (No_alineado l) d)
         else if l < bottom \<or> l > top \<or> h < bottom \<or> h > top
           then Inr (False, malloc_error tracenum opnum (Fuera_del_heap l h bottom top) d)
         else case find (\<lambda>p. l \<ge> lo p \<and> l \<le> hi p \<or> h \<ge> lo p \<and> h \<le> hi p) (ranges d) of
           Some p \<Rightarrow> Inr (False, malloc_error tracenum opnum (Solapado l h (lo p) (hi p)) d)
         | None \<Rightarrow>
             if memoria d = 0 then Inl (Unix_error ''malloc error in add_range'')
             else Inr (True, d\<lparr>ranges := \<lparr>lo = l, hi = h\<rparr> # ranges d, memoria := memoria d - 1\<rparr>))"

primrec quitar :: "addr \<Rightarrow> range_t list \<Rightarrow> range_t list" where
  "quitar l [] = []"
| "quitar l (p # ps) = (if lo p = l then ps else p # quitar l ps)"

definition remove_range :: "addr \<Rightarrow> driver_t \<Rightarrow> driver_t" where
  "remove_range l d = d\<lparr>ranges := quitar l (ranges d)\<rparr>"

definition clear_ranges :: "driver_t \<Rightarrow> driver_t" where
  "clear_ranges d = d\<lparr>ranges := []\<rparr>"

subsection \<open>The arrays of a trace\<close>

definition leer_bloque_id :: "int \<Rightarrow> driver_t \<Rightarrow> fallo + addr" where
  "leer_bloque_id i d = desde (elem (blocks (traza d)) i)"

definition leer_tamano_id :: "int \<Rightarrow> driver_t \<Rightarrow> fallo + u64" where
  "leer_tamano_id i d = desde (elem (block_sizes (traza d)) i)"

definition anotar_bloque :: "int \<Rightarrow> addr \<Rightarrow> driver_t \<Rightarrow> fallo + driver_t" where
  "anotar_bloque i p d =
     (if 0 \<le> i \<and> nat i < length (blocks (traza d))
      then Inr (d\<lparr>traza := (traza d)\<lparr>blocks := (blocks (traza d))[nat i := p]\<rparr>\<rparr>)
      else Inl Indefinido)"

definition anotar_tamano :: "int \<Rightarrow> int \<Rightarrow> driver_t \<Rightarrow> fallo + driver_t" where
  "anotar_tamano i sz d =
     (if 0 \<le> i \<and> nat i < length (block_sizes (traza d))
      then Inr (d\<lparr>traza := (traza d)\<lparr>block_sizes := (block_sizes (traza d))[nat i := word_of_int sz]\<rparr>\<rparr>)
      else Inl Indefinido)"

text \<open>The request number \<open>i\<close> of the trace.\<close>

definition leer_op :: "nat \<Rightarrow> driver_t \<Rightarrow> fallo + traceop_t" where
  "leer_op i d = desde (at (ops (traza d)) i)"

subsection \<open>Correctness of an allocator on a trace\<close>

text \<open>
  The \<open>k\<close> bytes from \<open>p\<close> on are compared with \<open>c\<close> as values of type \<^verbatim>\<open>char\<close>, which is signed
  on the x86 machines the course uses.
\<close>

primrec comprobar_datos :: "nat \<Rightarrow> addr \<Rightarrow> int \<Rightarrow> heap_t \<Rightarrow> fallo + bool" where
  "comprobar_datos 0 p c h = Inr True"
| "comprobar_datos (Suc k) p c h =
     (if \<not> en_area h p 1 then Inl Indefinido
      else if sint (bytes h p) \<noteq> c then Inr False
      else comprobar_datos k (p + 1) c h)"

definition valid_alloc :: "asignador_t \<Rightarrow> int \<Rightarrow> nat \<Rightarrow> int \<Rightarrow> int \<Rightarrow> driver_t \<Rightarrow> fallo + (bool \<times> driver_t)" where
  "valid_alloc A tracenum i index sz d =
     luego (desde (malloc_f A (word_of_int sz) (heap d))) (\<lambda>(p, h).
     let d = d\<lparr>heap := h\<rparr>
     in if p = NULL then Inr (False, malloc_error tracenum (int i) Malloc_fallo d)
        else luego (add_range p sz tracenum (int i) d) (\<lambda>(ok, d).
          if \<not> ok then Inr (False, d)
          else
            luego (desde (memset p (word_of_int (index AND 255)) (unat (word_of_int sz :: u64)) (heap d))) (\<lambda>h.
            luego (anotar_bloque index p (d\<lparr>heap := h\<rparr>)) (\<lambda>d.
            luego (anotar_tamano index sz d) (\<lambda>d.
            Inr (True, d))))))"

definition valid_realloc :: "asignador_t \<Rightarrow> int \<Rightarrow> nat \<Rightarrow> int \<Rightarrow> int \<Rightarrow> driver_t \<Rightarrow> fallo + (bool \<times> driver_t)" where
  "valid_realloc A tracenum i index sz d =
     luego (leer_bloque_id index d) (\<lambda>oldp.
     luego (desde (realloc_f A oldp (word_of_int sz) (heap d))) (\<lambda>(newp, h).
     let d = d\<lparr>heap := h\<rparr>
     in if newp = NULL then Inr (False, malloc_error tracenum (int i) Realloc_fallo d)
        else luego (add_range newp sz tracenum (int i) (remove_range oldp d)) (\<lambda>(ok, d).
          if \<not> ok then Inr (False, d)
          else
            luego (leer_tamano_id index d) (\<lambda>old.
            let oldsize = to_int32 (uint old); oldsize = (if sz < oldsize then sz else oldsize)
            in luego (comprobar_datos (nat oldsize) newp (index AND 255) (heap d)) (\<lambda>igual.
              if \<not> igual then Inr (False, malloc_error tracenum (int i) Datos_perdidos d)
              else
                luego (desde (memset newp (word_of_int (index AND 255)) (unat (word_of_int sz :: u64)) (heap d))) (\<lambda>h.
                luego (anotar_bloque index newp (d\<lparr>heap := h\<rparr>)) (\<lambda>d.
                luego (anotar_tamano index sz d) (\<lambda>d.
                Inr (True, d)))))))))"

definition valid_free :: "asignador_t \<Rightarrow> int \<Rightarrow> driver_t \<Rightarrow> fallo + (bool \<times> driver_t)" where
  "valid_free A index d =
     luego (leer_bloque_id index d) (\<lambda>p.
     let d = remove_range p d
     in luego (desde (free_f A p (heap d))) (\<lambda>h.
        Inr (True, d\<lparr>heap := h\<rparr>)))"

definition valid_op :: "asignador_t \<Rightarrow> int \<Rightarrow> nat \<Rightarrow> driver_t \<Rightarrow> fallo + (bool \<times> driver_t)" where
  "valid_op A tracenum i d =
     luego (leer_op i d) (\<lambda>r.
     case op_type r of
       ALLOC \<Rightarrow> valid_alloc A tracenum i (op_index r) (op_size r) d
     | REALLOC \<Rightarrow> valid_realloc A tracenum i (op_index r) (op_size r) d
     | FREE \<Rightarrow> valid_free A (op_index r) d)"

text \<open>The last \<open>k\<close> requests, from number \<open>i\<close> on.\<close>

primrec valid_loop :: "asignador_t \<Rightarrow> int \<Rightarrow> nat \<Rightarrow> nat \<Rightarrow> driver_t \<Rightarrow> fallo + (int \<times> driver_t)" where
  "valid_loop A tracenum 0 i d = Inr (1, d)"
| "valid_loop A tracenum (Suc k) i d =
     luego (valid_op A tracenum i d) (\<lambda>(ok, d).
     if \<not> ok then Inr (0, d) else valid_loop A tracenum k (Suc i) d)"

definition eval_mm_valid :: "asignador_t \<Rightarrow> int \<Rightarrow> driver_t \<Rightarrow> fallo + (int \<times> driver_t)" where
  "eval_mm_valid A tracenum d =
     (let d = clear_ranges (d\<lparr>heap := mem_reset_brk (heap d)\<rparr>)
      in luego (desde (init_f A (heap d))) (\<lambda>(r, h).
         let d = d\<lparr>heap := h\<rparr>
         in if r < 0 then Inr (0, malloc_error tracenum 0 Init_fallo d)
            else valid_loop A tracenum (nat (num_ops (traza d))) 0 d))"

subsection \<open>Space utilization\<close>

text \<open>The counters \<open>total_size\<close> and \<open>max_total_size\<close> are \<^verbatim>\<open>int\<close>s; their overflow is undefined.\<close>

definition sumar_total :: "int \<Rightarrow> int \<Rightarrow> int \<Rightarrow> driver_t \<Rightarrow> fallo + (driver_t \<times> int \<times> int)" where
  "sumar_total n tot maxt d =
     (if \<not> in_int (tot + n) then Inl Indefinido
      else Inr (d, tot + n, (if tot + n > maxt then tot + n else maxt)))"

definition util_op :: "asignador_t \<Rightarrow> traceop_t \<Rightarrow> driver_t \<Rightarrow> int \<Rightarrow> int \<Rightarrow> fallo + (driver_t \<times> int \<times> int)" where
  "util_op A r d tot maxt =
     (case op_type r of
        ALLOC \<Rightarrow>
          (let index = op_index r; sz = op_size r
           in luego (desde (malloc_f A (word_of_int sz) (heap d))) (\<lambda>(p, h).
              if p = NULL then Inl (App_error ''mm_malloc failed in eval_mm_util'')
              else luego (anotar_bloque index p (d\<lparr>heap := h\<rparr>)) (\<lambda>d.
                luego (anotar_tamano index sz d) (\<lambda>d.
                sumar_total sz tot maxt d))))
      | REALLOC \<Rightarrow>
          (let index = op_index r; newsize = op_size r
           in luego (leer_tamano_id index d) (\<lambda>old.
              let oldsize = to_int32 (uint old)
              in luego (leer_bloque_id index d) (\<lambda>oldp.
              luego (desde (realloc_f A oldp (word_of_int newsize) (heap d))) (\<lambda>(newp, h).
              if newp = NULL then Inl (App_error ''mm_realloc failed in eval_mm_util'')
              else luego (anotar_bloque index newp (d\<lparr>heap := h\<rparr>)) (\<lambda>d.
                luego (anotar_tamano index newsize d) (\<lambda>d.
                if \<not> in_int (newsize - oldsize) then Inl Indefinido
                else sumar_total (newsize - oldsize) tot maxt d))))))
      | FREE \<Rightarrow>
          (let index = op_index r
           in luego (leer_tamano_id index d) (\<lambda>s.
              let sz = to_int32 (uint s)
              in luego (leer_bloque_id index d) (\<lambda>p.
              luego (desde (free_f A p (heap d))) (\<lambda>h.
              if \<not> in_int (tot - sz) then Inl Indefinido
              else Inr (d\<lparr>heap := h\<rparr>, tot - sz, maxt))))))"

primrec util_loop :: "asignador_t \<Rightarrow> nat \<Rightarrow> nat \<Rightarrow> driver_t \<Rightarrow> int \<Rightarrow> int \<Rightarrow> fallo + (driver_t \<times> int \<times> int)" where
  "util_loop A 0 i d tot maxt = Inr (d, tot, maxt)"
| "util_loop A (Suc k) i d tot maxt =
     luego (leer_op i d) (\<lambda>r.
     luego (util_op A r d tot maxt) (\<lambda>(d, tot, maxt).
     util_loop A k (Suc i) d tot maxt))"

text \<open>The two integers whose quotient \<^verbatim>\<open>eval_mm_util\<close> returns, and the state it leaves.\<close>

definition eval_mm_util :: "asignador_t \<Rightarrow> driver_t \<Rightarrow> fallo + (int \<times> int \<times> driver_t)" where
  "eval_mm_util A d =
     luego (desde (init_f A (mem_reset_brk (heap d)))) (\<lambda>(r, h).
     if r < 0 then Inl (App_error ''mm_init failed in eval_mm_util'')
     else
       luego (util_loop A (nat (num_ops (traza d))) 0 (d\<lparr>heap := h\<rparr>) 0 0) (\<lambda>(d, tot, maxt).
       Inr (maxt, mem_heapsize (heap d), d)))"

subsection \<open>Running a trace for its time\<close>

definition speed_op :: "asignador_t \<Rightarrow> traceop_t \<Rightarrow> driver_t \<Rightarrow> fallo + driver_t" where
  "speed_op A r d =
     (let index = op_index r
      in case op_type r of
        ALLOC \<Rightarrow>
          luego (desde (malloc_f A (word_of_int (op_size r)) (heap d))) (\<lambda>(p, h).
          if p = NULL then Inl (App_error ''mm_malloc error in eval_mm_speed'')
          else anotar_bloque index p (d\<lparr>heap := h\<rparr>))
      | REALLOC \<Rightarrow>
          luego (leer_bloque_id index d) (\<lambda>oldp.
          luego (desde (realloc_f A oldp (word_of_int (op_size r)) (heap d))) (\<lambda>(newp, h).
          if newp = NULL then Inl (App_error ''mm_realloc error in eval_mm_speed'')
          else anotar_bloque index newp (d\<lparr>heap := h\<rparr>)))
      | FREE \<Rightarrow>
          luego (leer_bloque_id index d) (\<lambda>block.
          luego (desde (free_f A block (heap d))) (\<lambda>h.
          Inr (d\<lparr>heap := h\<rparr>))))"

primrec speed_loop :: "asignador_t \<Rightarrow> nat \<Rightarrow> nat \<Rightarrow> driver_t \<Rightarrow> fallo + driver_t" where
  "speed_loop A 0 i d = Inr d"
| "speed_loop A (Suc k) i d =
     luego (leer_op i d) (\<lambda>r. luego (speed_op A r d) (\<lambda>d. speed_loop A k (Suc i) d))"

definition eval_mm_speed :: "asignador_t \<Rightarrow> driver_t \<Rightarrow> fallo + driver_t" where
  "eval_mm_speed A d =
     luego (desde (init_f A (mem_reset_brk (heap d)))) (\<lambda>(r, h).
     if r < 0 then Inl (App_error ''mm_init failed in eval_mm_speed'')
     else speed_loop A (nat (num_ops (traza d))) 0 (d\<lparr>heap := h\<rparr>))"

subsection \<open>The allocator of the C library\<close>

text \<open>
  \<^verbatim>\<open>eval_libc_valid\<close> and \<^verbatim>\<open>eval_libc_speed\<close> run the same requests on the \<^verbatim>\<open>malloc\<close>,
  \<^verbatim>\<open>realloc\<close> and \<^verbatim>\<open>free\<close> of the C library, which are parameters here, on a memory of any type.
\<close>

definition libc_op ::
    "(u64 \<Rightarrow> 'm \<Rightarrow> addr \<times> 'm) \<Rightarrow> (addr \<Rightarrow> u64 \<Rightarrow> 'm \<Rightarrow> addr \<times> 'm) \<Rightarrow> (addr \<Rightarrow> 'm \<Rightarrow> 'm) \<Rightarrow>
       string \<Rightarrow> string \<Rightarrow> traceop_t \<Rightarrow> 'm \<Rightarrow> driver_t \<Rightarrow> fallo + ('m \<times> driver_t)" where
  "libc_op mal rea lib e1 e2 r m d =
     (case op_type r of
        ALLOC \<Rightarrow>
          (case mal (word_of_int (op_size r)) m of (p, m) \<Rightarrow>
             if p = NULL then Inl (Unix_error e1)
             else luego (anotar_bloque (op_index r) p d) (\<lambda>d. Inr (m, d)))
      | REALLOC \<Rightarrow>
          luego (leer_bloque_id (op_index r) d) (\<lambda>oldp.
          case rea oldp (word_of_int (op_size r)) m of (newp, m) \<Rightarrow>
            if newp = NULL then Inl (Unix_error e2)
            else luego (anotar_bloque (op_index r) newp d) (\<lambda>d. Inr (m, d)))
      | FREE \<Rightarrow> luego (leer_bloque_id (op_index r) d) (\<lambda>block. Inr (lib block m, d)))"

primrec libc_loop ::
    "(u64 \<Rightarrow> 'm \<Rightarrow> addr \<times> 'm) \<Rightarrow> (addr \<Rightarrow> u64 \<Rightarrow> 'm \<Rightarrow> addr \<times> 'm) \<Rightarrow> (addr \<Rightarrow> 'm \<Rightarrow> 'm) \<Rightarrow>
       string \<Rightarrow> string \<Rightarrow> nat \<Rightarrow> nat \<Rightarrow> 'm \<Rightarrow> driver_t \<Rightarrow> fallo + ('m \<times> driver_t)" where
  "libc_loop mal rea lib e1 e2 0 i m d = Inr (m, d)"
| "libc_loop mal rea lib e1 e2 (Suc k) i m d =
     luego (leer_op i d) (\<lambda>r. luego (libc_op mal rea lib e1 e2 r m d) (\<lambda>(m, d).
     libc_loop mal rea lib e1 e2 k (Suc i) m d))"

definition eval_libc_valid ::
    "(u64 \<Rightarrow> 'm \<Rightarrow> addr \<times> 'm) \<Rightarrow> (addr \<Rightarrow> u64 \<Rightarrow> 'm \<Rightarrow> addr \<times> 'm) \<Rightarrow> (addr \<Rightarrow> 'm \<Rightarrow> 'm) \<Rightarrow>
       'm \<Rightarrow> driver_t \<Rightarrow> fallo + (int \<times> 'm \<times> driver_t)" where
  "eval_libc_valid mal rea lib m d =
     luego (libc_loop mal rea lib ''System message'' ''System message'' (nat (num_ops (traza d))) 0 m d)
       (\<lambda>(m, d). Inr (1, m, d))"

definition eval_libc_speed ::
    "(u64 \<Rightarrow> 'm \<Rightarrow> addr \<times> 'm) \<Rightarrow> (addr \<Rightarrow> u64 \<Rightarrow> 'm \<Rightarrow> addr \<times> 'm) \<Rightarrow> (addr \<Rightarrow> 'm \<Rightarrow> 'm) \<Rightarrow>
       'm \<Rightarrow> driver_t \<Rightarrow> fallo + ('m \<times> driver_t)" where
  "eval_libc_speed mal rea lib m d =
     libc_loop mal rea lib ''malloc failed in eval_libc_speed'' ''realloc failed in eval_libc_speed''
       (nat (num_ops (traza d))) 0 m d"

end
