(* ===== verification/Mdriver_Valid.thy ===== *)
theory Mdriver_Valid
  imports Mdriver
begin

text \<open>
  The driver on an allocator that keeps the laws of the interface: which requests \<^verbatim>\<open>add_range\<close>
  accepts, and what \<^verbatim>\<open>eval_mm_valid\<close> reports about a well-formed trace.
\<close>

unbundle bit_operations_syntax

subsection \<open>Well-formed traces\<close>

text \<open>
  Every index has a slot, sizes are positive \<^verbatim>\<open>int\<close>s, and only payloads that are allocated (whose
  indices are in \<open>S\<close>) are reallocated or freed.
\<close>

fun traza_ok :: "int \<Rightarrow> int set \<Rightarrow> traceop_t list \<Rightarrow> bool" where
  "traza_ok n S [] \<longleftrightarrow> True"
| "traza_ok n S (r # rs) \<longleftrightarrow> 0 \<le> op_index r \<and> op_index r < n \<and>
     (case op_type r of
        ALLOC \<Rightarrow> 0 < op_size r \<and> op_size r < 2 ^ 31 \<and> traza_ok n (insert (op_index r) S) rs
      | REALLOC \<Rightarrow> op_index r \<in> S \<and> 0 < op_size r \<and> op_size r < 2 ^ 31 \<and> traza_ok n S rs
      | FREE \<Rightarrow> op_index r \<in> S \<and> traza_ok n (S - {op_index r}) rs)"

text \<open>The indices of reallocations whose fill byte is not negative as a \<^verbatim>\<open>char\<close>.\<close>

definition legible :: "traceop_t \<Rightarrow> bool" where
  "legible r \<longleftrightarrow> (op_type r = REALLOC \<longrightarrow> op_index r mod 256 < 128)"

subsection \<open>The invariant of the driver\<close>

definition rangos :: "(addr \<rightharpoonup> int) \<Rightarrow> range_t list \<Rightarrow> bool" where
  "rangos V rs \<longleftrightarrow> distinct (map lo rs) \<and>
     (\<forall>r \<in> set rs. lo r \<le> hi r \<and> (\<exists>n. V (lo r) = Some n \<and> hi r - lo r + 1 \<le> n))"

lemma rangos_Nil [simp]: "rangos V []"
  by (simp add: rangos_def)

lemma quitar_filter: "distinct (map lo rs) \<Longrightarrow> quitar p rs = filter (\<lambda>r. lo r \<noteq> p) rs"
proof (induction rs)
  case (Cons r rs)
  have "filter (\<lambda>r. lo r \<noteq> p) rs = rs" if "lo r = p" using Cons.prems that by (auto simp: filter_id_conv image_iff)
  then show ?case using Cons by simp
qed simp

lemma rangos_quitar: "rangos V rs \<Longrightarrow> rangos (V(p := None)) (quitar p rs)"
  by (auto simp: rangos_def quitar_filter distinct_map inj_on_def)

lemma rangos_agregar:
  "rangos V rs \<Longrightarrow> V p = None \<Longrightarrow> 0 < sz \<Longrightarrow> sz \<le> n \<Longrightarrow> rangos (V(p \<mapsto> n)) (\<lparr>lo = p, hi = p + sz - 1\<rparr> # rs)"
  by (fastforce simp: rangos_def)

text \<open>The payload of index \<open>i\<close> is allocated and filled with the low byte of \<open>i\<close>.\<close>

definition byte_de :: "int \<Rightarrow> u8" where
  "byte_de i = word_of_int (i AND 255)"

definition vivo :: "(addr \<rightharpoonup> int) \<Rightarrow> heap_t \<Rightarrow> int \<Rightarrow> addr \<Rightarrow> u64 \<Rightarrow> bool" where
  "vivo V h i p s \<longleftrightarrow> (\<exists>n. V p = Some n \<and> uint s \<le> n) \<and> 0 < uint s \<and> uint s < 2 ^ 31 \<and>
     (\<forall>x. p \<le> x \<and> x < p + uint s \<longrightarrow> bytes h x = byte_de i)"

lemma vivo_conserva:
  assumes "vivo V h i p s" "conserva h h' W" "W p = V p"
  shows "vivo W h' i p s"
proof -
  obtain n where n: "V p = Some n" "uint s \<le> n" using assms(1) by (auto simp: vivo_def)
  then have "bytes h' x = bytes h x" if "p \<le> x" "x < p + uint s" for x
    using conserva_mismos [OF assms(2), of p n x] that assms(3) by simp
  then show ?thesis using assms(1,3) by (simp add: vivo_def)
qed

definition slots :: "driver_t \<Rightarrow> int \<Rightarrow> addr \<times> u64" where
  "slots d i = (blocks (traza d) ! nat i, block_sizes (traza d) ! nat i)"

lemma slots_simps [simp]:
  "slots (d\<lparr>heap := h\<rparr>) i = slots d i" "slots (d\<lparr>ranges := rs\<rparr>) i = slots d i"
  "slots (d\<lparr>memoria := m\<rparr>) i = slots d i" "slots (remove_range p d) i = slots d i"
  by (simp_all add: slots_def remove_range_def)

lemma remove_range_simps [simp]:
  "heap (remove_range p d) = heap d" "traza (remove_range p d) = traza d" "errores (remove_range p d) = errores d"
  "memoria (remove_range p d) = memoria d" "ranges (remove_range p d) = quitar p (ranges d)"
  by (simp_all add: remove_range_def)

definition tamanos_ok :: "driver_t \<Rightarrow> bool" where
  "tamanos_ok d \<longleftrightarrow> int (length (blocks (traza d))) = num_ids (traza d) \<and>
     int (length (block_sizes (traza d))) = num_ids (traza d)"

definition estado :: "int set \<Rightarrow> (addr \<rightharpoonup> int) \<Rightarrow> driver_t \<Rightarrow> bool" where
  "estado S V d \<longleftrightarrow> tamanos_ok d \<and> S \<subseteq> {0..<num_ids (traza d)} \<and> rangos V (ranges d) \<and>
     (\<forall>i \<in> S. vivo V (heap d) i (fst (slots d i)) (snd (slots d i))) \<and> inj_on (\<lambda>i. fst (slots d i)) S"

text \<open>What one request leaves alone.\<close>

definition igual_traza :: "driver_t \<Rightarrow> driver_t \<Rightarrow> bool" where
  "igual_traza d d' \<longleftrightarrow> ops (traza d') = ops (traza d) \<and> num_ops (traza d') = num_ops (traza d) \<and>
     num_ids (traza d') = num_ids (traza d)"

lemma leer_id:
  assumes "tamanos_ok d" "0 \<le> i" "i < num_ids (traza d)"
  shows "leer_bloque_id i d = Inr (fst (slots d i))" "leer_tamano_id i d = Inr (snd (slots d i))"
proof -
  have "nat i < length (blocks (traza d))" "nat i < length (block_sizes (traza d))"
    using assms by (simp_all add: tamanos_ok_def nat_less_iff)
  then show "leer_bloque_id i d = Inr (fst (slots d i))" "leer_tamano_id i d = Inr (snd (slots d i))"
    using assms(2) by (simp_all add: leer_bloque_id_def leer_tamano_id_def slots_def)
qed

lemma anotar:
  assumes "tamanos_ok d" "0 \<le> i" "i < num_ids (traza d)"
  obtains d' where "luego (anotar_bloque i p d) (\<lambda>d. luego (anotar_tamano i sz d) f) = f d'"
    "heap d' = heap d" "ranges d' = ranges d" "errores d' = errores d" "memoria d' = memoria d"
    "tamanos_ok d'" "igual_traza d d'" "slots d' i = (p, word_of_int sz)"
    "\<And>j. 0 \<le> j \<Longrightarrow> j \<noteq> i \<Longrightarrow> slots d' j = slots d j"
proof -
  let ?t = "(traza d)\<lparr>blocks := (blocks (traza d))[nat i := p], block_sizes := (block_sizes (traza d))[nat i := word_of_int sz]\<rparr>"
  let ?d = "d\<lparr>traza := ?t\<rparr>"
  have n: "nat i < length (blocks (traza d))" "nat i < length (block_sizes (traza d))"
    using assms by (simp_all add: tamanos_ok_def nat_less_iff)
  show ?thesis
    by (rule that [of ?d])
      (use n assms in \<open>auto simp: anotar_bloque_def anotar_tamano_def tamanos_ok_def igual_traza_def slots_def\<close>)
qed

lemma igual_traza_trans: "igual_traza d d1 \<Longrightarrow> igual_traza d1 d2 \<Longrightarrow> igual_traza d d2"
  by (simp add: igual_traza_def)

subsection \<open>The check of the data\<close>

lemma byte_de_mod: "byte_de i = word_of_int i" "(i AND 255 :: int) = i mod 256"
proof -
  have m: "(255 :: int) = mask 8" by (simp add: mask_eq_exp_minus_1)
  show a: "(i AND 255 :: int) = i mod 256" unfolding m take_bit_eq_mask [symmetric] by (simp add: take_bit_eq_mod)
  show "byte_de i = word_of_int i"
    unfolding byte_de_def a by (simp add: word_uint_eq_iff uint_word_of_int)
qed

lemma sint_byte_de: "sint (byte_de i) = (if i mod 256 < 128 then i mod 256 else i mod 256 - 256)"
proof -
  define m where "m = i mod 256"
  have m: "0 \<le> m" "m < 256" by (simp_all add: m_def)
  have "sint (byte_de i) = (m + 128) mod 256 - 128"
    unfolding byte_de_def byte_de_mod(2) m_def [symmetric] by (simp add: int_word_sint)
  also have "(m + 128) mod 256 = (if m < 128 then m + 128 else m - 128)"
    using m diff_mod_wrap [of "m - 128" 256 0] mod_pos_geq [of 256 "m + 128"] by auto
  finally show ?thesis by (simp add: m_def)
qed

lemma comprobar_igual:
  "(\<And>x. p \<le> x \<Longrightarrow> x < p + int k \<Longrightarrow> en_area h x 1 \<and> sint (bytes h x) = c) \<Longrightarrow> comprobar_datos k p c h = Inr True"
  by (induction k arbitrary: p) simp_all

lemma comprobar_distinto:
  "en_area h p 1 \<Longrightarrow> sint (bytes h p) \<noteq> c \<Longrightarrow> 0 < k \<Longrightarrow> comprobar_datos k p c h = Inr False"
  by (cases k) simp_all

subsection \<open>\<^verbatim>\<open>add_range\<close>\<close>

lemma add_range_correcto:
  assumes "0 < sz" "is_aligned l" "mem_heap_lo (heap d) \<le> l" "l + sz - 1 \<le> mem_heap_hi (heap d)"
    "\<And>r. r \<in> set (ranges d) \<Longrightarrow> lo r \<le> hi r \<and> (l + sz \<le> lo r \<or> hi r < l)" "0 < memoria d"
  shows "add_range l sz t i d = Inr (True, d\<lparr>ranges := \<lparr>lo = l, hi = l + sz - 1\<rparr> # ranges d, memoria := memoria d - 1\<rparr>)"
proof -
  have "find (\<lambda>p. l \<ge> lo p \<and> l \<le> hi p \<or> l + sz - 1 \<ge> lo p \<and> l + sz - 1 \<le> hi p) (ranges d) = None"
    unfolding find_None_iff using assms(1,5) by force
  then show ?thesis using assms(1-4,6) by (simp add: add_range_def Let_def)
qed

lemma is_aligned_dvd: "is_aligned p \<longleftrightarrow> 8 dvd p"
proof -
  have "(p mod 2 ^ 32) mod 8 = p mod 8" by (rule mod_mod_cancel) simp
  then show ?thesis by (simp add: is_aligned_def ALIGNMENT_def dvd_eq_mod_eq_0)
qed

lemma unat_size: "0 < sz \<Longrightarrow> sz < 2 ^ 31 \<Longrightarrow> unat (word_of_int sz :: u64) = nat sz"
  by (simp add: unat_eq_nat_uint uint_of_small_int del: nat_uint_eq)

subsection \<open>One request\<close>

text \<open>How much the heap may grow for requests that each need at most \<open>crece\<close> of their size.\<close>

definition costo :: "(int \<Rightarrow> int) \<Rightarrow> traceop_t \<Rightarrow> int" where
  "costo crece r = (case op_type r of FREE \<Rightarrow> 0 | _ \<Rightarrow> crece (op_size r))"

definition costo_total :: "(int \<Rightarrow> int) \<Rightarrow> traceop_t list \<Rightarrow> int" where
  "costo_total crece rs = sum_list (map (costo crece) rs)"

text \<open>
  What a request on a good state leads to: a good state, or the report that the allocator had no
  memory.
\<close>

definition sin_mas_errores :: "int \<Rightarrow> nat \<Rightarrow> driver_t \<Rightarrow> driver_t \<Rightarrow> bool" where
  "sin_mas_errores t i d d' \<longleftrightarrow>
     (\<exists>msg \<in> {Malloc_fallo, Realloc_fallo}. errores d' = errores d @ [(t, linenum (int i), msg)])"

text \<open>What a whole pass over the trace leaves for the next one.\<close>

definition bien :: "driver_t \<Rightarrow> driver_t \<Rightarrow> bool" where
  "bien d d' \<longleftrightarrow> area (heap d') \<and> tamanos_ok d' \<and> igual_traza d d'"

lemma bien_trans: "igual_traza d d1 \<Longrightarrow> bien d1 d2 \<Longrightarrow> bien d d2"
  by (auto simp: bien_def igual_traza_def)

context asignador
begin

lemma agregar:
  assumes "inv (heap d) (V(p \<mapsto> n))" "V p = None" "rangos V (ranges d)" "0 < sz" "sz \<le> n" "0 < memoria d"
  shows "add_range p sz t i d =
    Inr (True, d\<lparr>ranges := \<lparr>lo = p, hi = p + sz - 1\<rparr> # ranges d, memoria := memoria d - 1\<rparr>)"
proof (rule add_range_correcto [OF assms(4)])
  have V: "(V(p \<mapsto> n)) p = Some n" by simp
  note h = en_heap [OF assms(1) V]
  show "is_aligned p" using h by (simp add: is_aligned_dvd)
  show "mem_heap_lo (heap d) \<le> p" "p + sz - 1 \<le> mem_heap_hi (heap d)"
    using h assms(4,5) by (simp_all add: mem_heap_lo_def mem_heap_hi_def)
  show "lo r \<le> hi r \<and> (p + sz \<le> lo r \<or> hi r < p)" if r: "r \<in> set (ranges d)" for r
  proof -
    obtain m where m: "lo r \<le> hi r" "V (lo r) = Some m" "hi r - lo r + 1 \<le> m"
      using assms(3) r by (auto simp: rangos_def)
    then have "lo r \<noteq> p" "(V(p \<mapsto> n)) (lo r) = Some m" using assms(2) by auto
    then show ?thesis using disjuntas [OF assms(1) V, of "lo r" m] m assms(5) by fastforce
  qed
qed fact

text \<open>The new payload of index \<open>i\<close> is filled and noted.\<close>

lemma terminar:
  assumes inv: "inv (heap d) V" "V p = Some n" and sz: "0 < sz" "sz \<le> n" "sz < 2 ^ 31"
    and t: "tamanos_ok d" "S \<subseteq> {0..<num_ids (traza d)}" "0 \<le> i" "i < num_ids (traza d)"
    and r: "rangos V (ranges d)"
    and v: "\<And>j. j \<in> S \<Longrightarrow> j \<noteq> i \<Longrightarrow> vivo V (heap d) j (fst (slots d j)) (snd (slots d j)) \<and> fst (slots d j) \<noteq> p"
    and inj: "inj_on (\<lambda>j. fst (slots d j)) (S - {i})"
  obtains d' where "luego (desde (memset p (word_of_int (i AND 255)) (unat (word_of_int sz :: u64)) (heap d))) (\<lambda>h.
      luego (anotar_bloque i p (d\<lparr>heap := h\<rparr>)) (\<lambda>d. luego (anotar_tamano i sz d) (\<lambda>d. Inr (True, d)))) = Inr (True, d')"
    "inv (heap d') V" "estado (insert i S) V d'" "errores d' = errores d" "memoria d' = memoria d" "igual_traza d d'"
    "mem_heapsize (heap d') = mem_heapsize (heap d)"
proof -
  obtain h' where h': "memset p (byte_de i) (nat sz) (heap d) = Some h'" "inv h' V"
    "\<And>x. p \<le> x \<Longrightarrow> x < p + sz \<Longrightarrow> bytes h' x = byte_de i" "\<And>x. x < p \<or> p + n \<le> x \<Longrightarrow> bytes h' x = bytes (heap d) x"
    "mem_heapsize h' = mem_heapsize (heap d)"
    by (rule llenar [OF inv, of sz "byte_de i"]) (use sz in auto)
  let ?d = "d\<lparr>heap := h'\<rparr>"
  have t': "tamanos_ok ?d" "i < num_ids (traza ?d)" using t by (simp_all add: tamanos_ok_def)
  obtain d' where d': "luego (anotar_bloque i p ?d) (\<lambda>d. luego (anotar_tamano i sz d) (\<lambda>d. Inr (True, d))) = Inr (True, d')"
    "heap d' = h'" "ranges d' = ranges d" "errores d' = errores d" "memoria d' = memoria d"
    "tamanos_ok d'" "igual_traza ?d d'" "slots d' i = (p, word_of_int sz)"
    "\<And>j. 0 \<le> j \<Longrightarrow> j \<noteq> i \<Longrightarrow> slots d' j = slots ?d j"
    by (rule anotar [OF t'(1) t(3) t'(2), of p sz "\<lambda>d. Inr (True, d)"]) auto
  have run: "luego (desde (memset p (word_of_int (i AND 255)) (unat (word_of_int sz :: u64)) (heap d))) (\<lambda>h.
      luego (anotar_bloque i p (d\<lparr>heap := h\<rparr>)) (\<lambda>d. luego (anotar_tamano i sz d) (\<lambda>d. Inr (True, d)))) = Inr (True, d')"
    using h'(1) d'(1) unfolding byte_de_def unat_size [OF sz(1,3)] by simp
  have ig: "igual_traza d d'" using d'(7) by (simp add: igual_traza_def)
  have sl: "slots d' j = slots d j" if "j \<in> S" "j \<noteq> i" for j
    using that t(2) d'(9) [of j] by (auto simp: slots_def)
  have us: "uint (word_of_int sz :: u64) = sz" using sz by (simp add: uint_of_small_int)
  have "vivo V h' j (fst (slots d' j)) (snd (slots d' j))" if j: "j \<in> insert i S" for j
  proof (cases "j = i")
    case True
    then show ?thesis using d'(8) h'(3) inv(2) sz us by (simp add: vivo_def)
  next
    case False
    then have J: "j \<in> S" using j by simp
    let ?q = "fst (slots d j)" and ?s = "snd (slots d j)"
    have w: "vivo V (heap d) j ?q ?s" "?q \<noteq> p" using v [OF J False] by simp_all
    then obtain m where m: "V ?q = Some m" "uint ?s \<le> m" by (auto simp: vivo_def)
    have "bytes h' x = bytes (heap d) x" if "?q \<le> x" "x < ?q + uint ?s" for x
      using disjuntas [OF inv(1) m(1) inv(2) w(2)] m(2) that by (intro h'(4)) auto
    then show ?thesis using w(1) by (simp add: vivo_def sl [OF J False])
  qed
  moreover have "inj_on (\<lambda>j. fst (slots d' j)) (insert i S)"
  proof -
    have "fst (slots d' j) = fst (slots d j)" if "j \<in> S - {i}" for j using sl that by simp
    then have "inj_on (\<lambda>j. fst (slots d' j)) (S - {i})" using inj by (simp add: inj_on_def)
    moreover have "p \<notin> (\<lambda>j. fst (slots d' j)) ` (S - {i})" using v sl by auto
    ultimately have "inj_on (\<lambda>j. fst (slots d' j)) (insert i (S - {i}))" using d'(8) by (simp only: inj_on_insert) simp
    then show ?thesis by simp
  qed
  moreover have "insert i S \<subseteq> {0..<num_ids (traza d')}" using ig t by (auto simp: igual_traza_def)
  ultimately have "estado (insert i S) V d'" using d'(2,3,6) r by (simp add: estado_def)
  then show ?thesis using that [OF run] d'(2,4,5) h'(2,5) ig by simp
qed

definition paso_bueno ::
    "int \<Rightarrow> nat \<Rightarrow> driver_t \<Rightarrow> int set \<Rightarrow> int \<Rightarrow> fallo + (bool \<times> driver_t) \<Rightarrow> bool" where
  "paso_bueno t i d S c r \<longleftrightarrow>
     (\<exists>d' V. r = Inr (True, d') \<and> inv (heap d') V \<and> estado S V d' \<and> errores d' = errores d \<and>
        memoria d \<le> memoria d' + 1 \<and> igual_traza d d' \<and>
        mem_heapsize (heap d') \<le> mem_heapsize (heap d) + c) \<or>
     (\<exists>d'. r = Inr (False, d') \<and> sin_mas_errores t i d d' \<and> MAX_HEAP < mem_heapsize (heap d) + c)"

lemma valid_alloc_bueno:
  assumes inv: "inv (heap d) V" and st: "estado S V d" and i: "0 \<le> i" "i < num_ids (traza d)"
    and sz: "0 < sz" "sz < 2 ^ 31" and mem: "0 < memoria d"
  shows "paso_bueno t k d (insert i S) (crece sz) (valid_alloc A t k i sz d)"
proof -
  obtain p h where m: "malloc_f A (word_of_int sz) (heap d) = Some (p, h)"
    "if p = NULL then MAX_HEAP < mem_heapsize (heap d) + crece sz
     else V p = None \<and> (\<exists>n \<ge> sz. inv h (V(p \<mapsto> n))) \<and> conserva (heap d) h V \<and>
       mem_heapsize h \<le> mem_heapsize (heap d) + crece sz"
    using malloc [OF inv sz] by blast
  let ?d = "d\<lparr>heap := h\<rparr>"
  show ?thesis
  proof (cases "p = NULL")
    case True
    then have "valid_alloc A t k i sz d = Inr (False, malloc_error t (int k) Malloc_fallo ?d)"
      using m(1) by (simp add: valid_alloc_def)
    then show ?thesis using m(2) True by (simp add: paso_bueno_def sin_mas_errores_def malloc_error_def)
  next
    case False
    then obtain n where n: "V p = None" "sz \<le> n" "inv h (V(p \<mapsto> n))" "conserva (heap d) h V"
      "mem_heapsize h \<le> mem_heapsize (heap d) + crece sz" using m(2) by auto
    let ?e = "?d\<lparr>ranges := \<lparr>lo = p, hi = p + sz - 1\<rparr> # ranges d, memoria := memoria d - 1\<rparr>"
    have st': "tamanos_ok d" "S \<subseteq> {0..<num_ids (traza d)}" "rangos V (ranges d)"
      "\<forall>i \<in> S. vivo V (heap d) i (fst (slots d i)) (snd (slots d i))" "inj_on (\<lambda>i. fst (slots d i)) S"
      using st by (simp_all add: estado_def)
    have ar: "add_range p sz t (int k) ?d = Inr (True, ?e)"
      using agregar [of ?d V p n sz t "int k"] n st'(3) sz mem by simp
    obtain d' where d': "luego (desde (memset p (word_of_int (i AND 255)) (unat (word_of_int sz :: u64)) (heap ?e))) (\<lambda>h.
        luego (anotar_bloque i p (?e\<lparr>heap := h\<rparr>)) (\<lambda>d. luego (anotar_tamano i sz d) (\<lambda>d. Inr (True, d)))) = Inr (True, d')"
      "inv (heap d') (V(p \<mapsto> n))" "estado (insert i S) (V(p \<mapsto> n)) d'" "errores d' = errores ?e"
      "memoria d' = memoria ?e" "igual_traza ?e d'" "mem_heapsize (heap d') = mem_heapsize (heap ?e)"
    proof (rule terminar [of ?e "V(p \<mapsto> n)" p n sz S i])
      show "rangos (V(p \<mapsto> n)) (ranges ?e)" using rangos_agregar [OF st'(3) n(1) sz(1) n(2)] by simp
      show "tamanos_ok ?e" using st'(1) by (simp add: tamanos_ok_def)
      show "inj_on (\<lambda>j. fst (slots ?e j)) (S - {i})" using st'(5) by (simp add: inj_on_diff)
      show "vivo (V(p \<mapsto> n)) (heap ?e) j (fst (slots ?e j)) (snd (slots ?e j)) \<and> fst (slots ?e j) \<noteq> p"
        if "j \<in> S" for j
      proof -
        have v: "vivo V (heap d) j (fst (slots d j)) (snd (slots d j))" using st'(4) that by blast
        then have ne: "fst (slots d j) \<noteq> p" using n(1) by (auto simp: vivo_def)
        have "vivo V h j (fst (slots d j)) (snd (slots d j))" by (rule vivo_conserva [OF v n(4)]) simp
        then show ?thesis using ne by (simp add: vivo_def)
      qed
    qed (use n sz st' i in auto)
    have "valid_alloc A t k i sz d = Inr (True, d')"
      using m(1) False ar d'(1) by (simp add: valid_alloc_def Let_def)
    then show ?thesis using d'(2-7) n(5) by (auto simp: paso_bueno_def igual_traza_def)
  qed
qed

text \<open>
  A reallocation: on a payload whose fill byte reads back as it was written the step is good, and
  on any other one the driver reports that the data was lost, although it was not.
\<close>

lemma valid_realloc_casos:
  assumes inv: "inv (heap d) V" and st: "estado S V d" and iS: "i \<in> S"
    and sz: "0 < sz" "sz < 2 ^ 31" and mem: "0 < memoria d"
  shows "if i mod 256 < 128 then paso_bueno t k d S (crece sz) (valid_realloc A t k i sz d)
    else \<exists>d'. valid_realloc A t k i sz d = Inr (False, d') \<and>
      (\<exists>msg. errores d' = errores d @ [(t, linenum (int k), msg)] \<and>
        (msg = Datos_perdidos \<or> msg = Realloc_fallo \<and> MAX_HEAP < mem_heapsize (heap d) + crece sz))"
proof -
  have st': "tamanos_ok d" "S \<subseteq> {0..<num_ids (traza d)}" "rangos V (ranges d)"
    "\<forall>i \<in> S. vivo V (heap d) i (fst (slots d i)) (snd (slots d i))" "inj_on (\<lambda>i. fst (slots d i)) S"
    using st by (simp_all add: estado_def)
  have i: "0 \<le> i" "i < num_ids (traza d)" using st'(2) iS by auto
  define oldp where "oldp = fst (slots d i)"
  define s where "s = snd (slots d i)"
  have vi: "vivo V (heap d) i oldp s" using st'(4) iS by (simp add: oldp_def s_def)
  then obtain n where n: "V oldp = Some n" "uint s \<le> n" "0 < uint s" "uint s < 2 ^ 31"
    "\<And>x. oldp \<le> x \<Longrightarrow> x < oldp + uint s \<Longrightarrow> bytes (heap d) x = byte_de i" by (auto simp: vivo_def)
  define V1 where "V1 = V(oldp := None)"
  obtain q h where r: "realloc_f A oldp (word_of_int sz) (heap d) = Some (q, h)"
    "if q = NULL then MAX_HEAP < mem_heapsize (heap d) + crece sz
     else V1 q = None \<and> (\<exists>m \<ge> sz. inv h (V1(q \<mapsto> m))) \<and>
       (\<forall>j. 0 \<le> j \<and> j < min n sz \<longrightarrow> bytes h (q + j) = bytes (heap d) (oldp + j)) \<and> conserva (heap d) h V1 \<and>
       mem_heapsize h \<le> mem_heapsize (heap d) + crece sz"
    using realloc [OF inv n(1) sz] unfolding V1_def by blast
  let ?d = "d\<lparr>heap := h\<rparr>"
  have lo: "leer_bloque_id i d = Inr oldp" using leer_id(1) [OF st'(1) i] by (simp add: oldp_def)
  show ?thesis
  proof (cases "q = NULL")
    case True
    then have "valid_realloc A t k i sz d = Inr (False, malloc_error t (int k) Realloc_fallo ?d)"
      using r(1) lo by (simp add: valid_realloc_def)
    then show ?thesis using r(2) True by (simp add: paso_bueno_def sin_mas_errores_def malloc_error_def)
  next
    case False
    then obtain m where m: "V1 q = None" "sz \<le> m" "inv h (V1(q \<mapsto> m))" "conserva (heap d) h V1"
      "\<And>j. 0 \<le> j \<Longrightarrow> j < min n sz \<Longrightarrow> bytes h (q + j) = bytes (heap d) (oldp + j)"
      "mem_heapsize h \<le> mem_heapsize (heap d) + crece sz" using r(2) by auto
    let ?V = "V1(q \<mapsto> m)"
    let ?r = "remove_range oldp ?d"
    let ?e = "?r\<lparr>ranges := \<lparr>lo = q, hi = q + sz - 1\<rparr> # ranges ?r, memoria := memoria d - 1\<rparr>"
    have rg: "rangos V1 (ranges ?r)" using rangos_quitar [OF st'(3)] by (simp add: V1_def remove_range_def)
    have ar: "add_range q sz t (int k) ?r = Inr (True, ?e)"
      using agregar [of ?r V1 q m sz t "int k"] m rg sz mem by (simp add: remove_range_def)
    have te: "tamanos_ok ?e" "num_ids (traza ?e) = num_ids (traza d)"
      using st'(1) by (simp_all add: tamanos_ok_def remove_range_def)
    have sl: "slots ?e j = slots d j" for j by simp
    have ls: "leer_tamano_id i ?e = Inr s"
      using leer_id(2) [OF te(1) i(1)] i(2) te(2) by (simp only: sl s_def)
    define old where "old = (if sz < uint s then sz else uint s)"
    have old: "0 < old" "old \<le> sz" "old \<le> uint s" "old \<le> min n sz" "old \<le> m"
      using n sz m(2) by (auto simp: old_def)
    have i32: "to_int32 (uint s) = uint s" using n(3,4) by (intro to_int32_id) (simp add: in_int_def int_min_def int_max_def)
    have dat: "en_area h x 1 \<and> sint (bytes h x) = sint (byte_de i)" if x: "q \<le> x" "x < q + old" for x
    proof -
      have "bytes h (q + (x - q)) = bytes (heap d) (oldp + (x - q))" by (rule m(5)) (use x old in auto)
      also have "\<dots> = byte_de i" by (rule n(5)) (use x old in auto)
      finally have "bytes h x = byte_de i" by simp
      moreover have "en_area h x 1" using en_heap [OF m(3), of q m] x old by (simp add: en_area_def)
      ultimately show ?thesis by simp
    qed
    let ?resto = "luego (desde (memset q (word_of_int (i AND 255)) (unat (word_of_int sz :: u64)) (heap ?e))) (\<lambda>h.
      luego (anotar_bloque i q (?e\<lparr>heap := h\<rparr>)) (\<lambda>d. luego (anotar_tamano i sz d) (\<lambda>d. Inr (True, d))))"
    have he: "heap ?e = h" by (simp add: remove_range_def)
    have run: "valid_realloc A t k i sz d = luego (comprobar_datos (nat old) q (i AND 255) h) (\<lambda>igual.
        if \<not> igual then Inr (False, malloc_error t (int k) Datos_perdidos ?e) else ?resto)"
      unfolding valid_realloc_def lo luego_simps r(1) prod.case Let_def if_not_P [OF False] ar ls i32 he
        old_def [symmetric] not_True_eq_False if_False ..
    show ?thesis
    proof (cases "i mod 256 < 128")
      case True
      have "comprobar_datos (nat old) q (i AND 255) h = Inr True"
        by (rule comprobar_igual) (use dat old True in \<open>simp add: sint_byte_de byte_de_mod(2)\<close>)
      then have run': "valid_realloc A t k i sz d = ?resto" using run by simp
      obtain d' where d': "?resto = Inr (True, d')" "inv (heap d') ?V" "estado (insert i S) ?V d'"
        "errores d' = errores ?e" "memoria d' = memoria ?e" "igual_traza ?e d'"
        "mem_heapsize (heap d') = mem_heapsize (heap ?e)"
      proof (rule terminar [of ?e ?V q m sz S i])
        show "rangos ?V (ranges ?e)" using rangos_agregar [OF rg m(1) sz(1) m(2)] by simp
        show "inj_on (\<lambda>j. fst (slots ?e j)) (S - {i})" using st'(5) by (simp add: sl inj_on_diff)
        show "vivo ?V (heap ?e) j (fst (slots ?e j)) (snd (slots ?e j)) \<and> fst (slots ?e j) \<noteq> q"
          if j: "j \<in> S" "j \<noteq> i" for j
        proof -
          have v: "vivo V (heap d) j (fst (slots d j)) (snd (slots d j))" using st'(4) j by blast
          have ne: "fst (slots d j) \<noteq> oldp" using st'(5) j iS by (auto simp: inj_on_def oldp_def)
          have w: "vivo V1 h j (fst (slots d j)) (snd (slots d j))"
            by (rule vivo_conserva [OF v m(4)]) (use ne in \<open>simp add: V1_def\<close>)
          then have "fst (slots d j) \<noteq> q" using m(1) by (auto simp: vivo_def)
          then show ?thesis using w by (simp add: sl he vivo_def)
        qed
      qed (use m sz te st' i he in auto)
      have "insert i S = S" using iS by blast
      then show ?thesis using True run' d' m(6) by (auto simp: paso_bueno_def igual_traza_def)
    next
      case no: False
      have "comprobar_datos (nat old) q (i AND 255) h = Inr False"
        by (rule comprobar_distinto)
          (use dat [of q] old no in \<open>simp_all add: sint_byte_de byte_de_mod(2)\<close>)
      then have "valid_realloc A t k i sz d = Inr (False, malloc_error t (int k) Datos_perdidos ?e)"
        using run by simp
      then show ?thesis using no by (simp add: malloc_error_def remove_range_def)
    qed
  qed
qed

lemma valid_free_bueno:
  assumes inv: "inv (heap d) V" and st: "estado S V d" and iS: "i \<in> S"
  shows "paso_bueno t k d (S - {i}) 0 (valid_free A i d)"
proof -
  have st': "tamanos_ok d" "S \<subseteq> {0..<num_ids (traza d)}" "rangos V (ranges d)"
    "\<forall>i \<in> S. vivo V (heap d) i (fst (slots d i)) (snd (slots d i))" "inj_on (\<lambda>i. fst (slots d i)) S"
    using st by (simp_all add: estado_def)
  have i: "0 \<le> i" "i < num_ids (traza d)" using st'(2) iS by auto
  define p where "p = fst (slots d i)"
  obtain n where n: "V p = Some n" using st'(4) iS by (auto simp: p_def vivo_def)
  obtain h where h: "free_f A p (heap d) = Some h" "inv h (V(p := None))" "conserva (heap d) h (V(p := None))"
    "mem_heapsize h = mem_heapsize (heap d)"
    using free [OF inv n] by blast
  let ?d = "(remove_range p d)\<lparr>heap := h\<rparr>"
  have lo: "leer_bloque_id i d = Inr p" using leer_id(1) [OF st'(1) i] by (simp add: p_def)
  have run: "valid_free A i d = Inr (True, ?d)" using h(1) lo by (simp add: valid_free_def remove_range_def)
  have "vivo (V(p := None)) h j (fst (slots d j)) (snd (slots d j))" if j: "j \<in> S - {i}" for j
  proof (rule vivo_conserva [OF _ h(3)])
    show "vivo V (heap d) j (fst (slots d j)) (snd (slots d j))" using st'(4) j by blast
    show "(V(p := None)) (fst (slots d j)) = V (fst (slots d j))"
      using st'(5) j iS by (auto simp: inj_on_def p_def)
  qed
  moreover have "rangos (V(p := None)) (quitar p (ranges d))" by (rule rangos_quitar [OF st'(3)])
  ultimately have "estado (S - {i}) (V(p := None)) ?d"
    using st' by (auto simp: estado_def remove_range_def tamanos_ok_def slots_def inj_on_diff)
  then show ?thesis using run h(2,4) by (auto simp: paso_bueno_def igual_traza_def)
qed

subsection \<open>The whole trace\<close>

lemma costo_total_pos: "traza_ok n S rs \<Longrightarrow> 0 \<le> costo_total crece rs"
  using crece_pos
  by (induction n S rs rule: traza_ok.induct) (auto simp: costo_total_def costo_def split: tipo_op.splits)

text \<open>
  The verdict on a trace whose requests need at most \<open>B\<close> bytes: valid without a report when every
  reallocation is legible, else one report, that the data was lost or, only when \<open>B\<close> does not fit
  in the area, that there was no memory.
\<close>

definition veredicto :: "int \<Rightarrow> driver_t \<Rightarrow> bool \<Rightarrow> int \<Rightarrow> fallo + (int \<times> driver_t) \<Rightarrow> bool" where
  "veredicto t d leg B r \<longleftrightarrow>
     (\<exists>d'. r = Inr (1, d') \<and> errores d' = errores d \<and> leg \<and> bien d d') \<or>
     (\<exists>d' j msg. r = Inr (0, d') \<and> errores d' = errores d @ [(t, linenum j, msg)] \<and>
        (msg \<in> {Malloc_fallo, Realloc_fallo} \<and> MAX_HEAP < B \<or> msg = Datos_perdidos \<and> \<not> leg))"

lemma valid_loop_veredicto:
  assumes "inv (heap d) V" "estado S V d" "traza_ok (num_ids (traza d)) S (drop i (ops (traza d)))"
    "i + k = length (ops (traza d))" "k \<le> memoria d"
    "mem_heapsize (heap d) + costo_total crece (drop i (ops (traza d))) \<le> B"
  shows "veredicto t d (\<forall>r \<in> set (drop i (ops (traza d))). legible r) B (valid_loop A t k i d)"
  using assms
proof (induction k arbitrary: i d S V)
  case 0
  then show ?case using en_area [OF 0(1)] by (simp add: veredicto_def bien_def estado_def igual_traza_def)
next
  case (Suc k)
  let ?os = "ops (traza d)" and ?N = "num_ids (traza d)"
  have i: "i < length ?os" using Suc.prems(4) by simp
  define r where "r = ?os ! i"
  have dr: "drop i ?os = r # drop (Suc i) ?os" using i by (simp add: r_def Cons_nth_drop_Suc)
  have op: "leer_op i d = Inr r" using i by (simp add: leer_op_def r_def)
  have mem: "0 < memoria d" using Suc.prems(5) by simp
  have ri: "0 \<le> op_index r" "op_index r < ?N" using Suc.prems(3) unfolding dr by simp_all
  define S' where "S' = (case op_type r of ALLOC \<Rightarrow> insert (op_index r) S | REALLOC \<Rightarrow> S | FREE \<Rightarrow> S - {op_index r})"
  have tr: "traza_ok ?N S' (drop (Suc i) ?os)"
    using Suc.prems(3) unfolding dr by (auto simp: S'_def split: tipo_op.splits)
  have B: "mem_heapsize (heap d) + costo crece r + costo_total crece (drop (Suc i) ?os) \<le> B"
    using Suc.prems(6) by (simp add: dr costo_total_def)
  then have Br: "mem_heapsize (heap d) + costo crece r \<le> B" using costo_total_pos [OF tr] by simp
  have paso: "if legible r then paso_bueno t i d S' (costo crece r) (valid_op A t i d)
    else \<exists>d'. valid_op A t i d = Inr (False, d') \<and>
      (\<exists>msg. errores d' = errores d @ [(t, linenum (int i), msg)] \<and>
        (msg = Datos_perdidos \<or> msg = Realloc_fallo \<and> MAX_HEAP < mem_heapsize (heap d) + costo crece r))"
    using valid_alloc_bueno [OF Suc.prems(1,2) ri, of "op_size r" t i]
      valid_realloc_casos [OF Suc.prems(1,2), of "op_index r" "op_size r" t i]
      valid_free_bueno [OF Suc.prems(1,2), of "op_index r" t i] mem Suc.prems(3)
    unfolding dr by (auto simp: S'_def legible_def valid_op_def op costo_def split: tipo_op.splits)
  show ?case
  proof (cases "legible r")
    case False
    with paso obtain d' msg where e: "valid_op A t i d = Inr (False, d')"
      "errores d' = errores d @ [(t, linenum (int i), msg)]"
      "msg = Datos_perdidos \<or> msg = Realloc_fallo \<and> MAX_HEAP < mem_heapsize (heap d) + costo crece r" by auto
    have "msg \<in> {Malloc_fallo, Realloc_fallo} \<and> MAX_HEAP < B \<or> msg = Datos_perdidos" using e(3) Br by auto
    then show ?thesis using e(1,2) False unfolding dr veredicto_def by (intro disjI2) auto
  next
    case True
    with paso consider (sigue) d' V' where "valid_op A t i d = Inr (True, d')" "inv (heap d') V'" "estado S' V' d'"
        "errores d' = errores d" "memoria d \<le> memoria d' + 1" "igual_traza d d'"
        "mem_heapsize (heap d') \<le> mem_heapsize (heap d) + costo crece r"
      | (para) d' where "valid_op A t i d = Inr (False, d')" "sin_mas_errores t i d d'"
        "MAX_HEAP < mem_heapsize (heap d) + costo crece r"
      by (auto simp: paso_bueno_def)
    then show ?thesis
    proof cases
      case sigue
      have ig: "ops (traza d') = ?os" "num_ids (traza d') = ?N" using sigue(6) by (simp_all add: igual_traza_def)
      have "veredicto t d' (\<forall>r \<in> set (drop (Suc i) (ops (traza d'))). legible r) B (valid_loop A t k (Suc i) d')"
        by (rule Suc.IH [OF sigue(2,3)]) (use ig tr Suc.prems(4,5) sigue(5,7) B in simp_all)
      then show ?thesis using sigue(1,4) True bien_trans [OF sigue(6)] by (auto simp: dr ig veredicto_def)
    next
      case para
      then show ?thesis using Br by (auto simp: sin_mas_errores_def veredicto_def)
    qed
  qed
qed

lemma eval_mm_valid_veredicto:
  assumes "area (heap d)" "tamanos_ok d" "num_ops (traza d) = int (length (ops (traza d)))"
    "traza_ok (num_ids (traza d)) {} (ops (traza d))" "length (ops (traza d)) \<le> memoria d"
  shows "veredicto t d (\<forall>r \<in> set (ops (traza d)). legible r) (inicial + costo_total crece (ops (traza d))) (eval_mm_valid A t d)"
proof -
  let ?d = "clear_ranges (d\<lparr>heap := mem_reset_brk (heap d)\<rparr>)"
  have "area (heap ?d)" "mem_brk (heap ?d) = mem_start_brk (heap ?d)"
    using assms(1) by (simp_all add: area_def mem_reset_brk_def clear_ranges_def)
  then obtain r h where r: "init_f A (heap ?d) = Some (r, h)" "0 \<le> r" "inv h Map.empty" "mem_heapsize h \<le> inicial"
    using init by blast
  let ?e = "?d\<lparr>heap := h\<rparr>"
  have td: "traza ?d = traza d" by (simp add: clear_ranges_def)
  have t: "traza ?e = traza d" "memoria ?e = memoria d" "errores ?e = errores d" by (simp_all add: clear_ranges_def)
  have "estado {} Map.empty ?e" using assms(2) by (simp add: estado_def tamanos_ok_def clear_ranges_def)
  then have "veredicto t ?e (\<forall>r \<in> set (drop 0 (ops (traza ?e))). legible r) (inicial + costo_total crece (ops (traza d)))
      (valid_loop A t (length (ops (traza d))) 0 ?e)"
    by (intro valid_loop_veredicto [of ?e Map.empty "{}"]) (use r assms t in simp_all)
  then show ?thesis using r assms(3) by (simp add: eval_mm_valid_def Let_def t td veredicto_def bien_def igual_traza_def)
qed

end

end
