(* ===== verification/Mdriver_Util.thy ===== *)
theory Mdriver_Util
  imports Mdriver_Valid
begin

text \<open>
  The measure of space utilization of the driver: what \<^verbatim>\<open>eval_mm_util\<close> computes on an allocator that
  keeps the laws of the interface.
\<close>

subsection \<open>Disjoint intervals\<close>

lemma suma_disjuntas:
  fixes p n :: "'i \<Rightarrow> int"
  assumes "finite S" "\<And>i. i \<in> S \<Longrightarrow> a \<le> p i \<and> p i + n i \<le> b \<and> 0 \<le> n i"
    "\<And>i j. i \<in> S \<Longrightarrow> j \<in> S \<Longrightarrow> i \<noteq> j \<Longrightarrow> p i + n i \<le> p j \<or> p j + n j \<le> p i" "a \<le> b"
  shows "(\<Sum>i\<in>S. n i) \<le> b - a"
proof -
  let ?I = "\<lambda>i. {p i..<p i + n i}"
  have "card (\<Union>i\<in>S. ?I i) = (\<Sum>i\<in>S. card (?I i))"
  proof (rule card_UN_disjoint [OF assms(1)])
    show "\<forall>i\<in>S. \<forall>j\<in>S. i \<noteq> j \<longrightarrow> ?I i \<inter> ?I j = {}" using assms(3) by fastforce
  qed simp
  also have "int \<dots> = (\<Sum>i\<in>S. n i)" using assms(2) by simp
  finally have "(\<Sum>i\<in>S. n i) = int (card (\<Union>i\<in>S. ?I i))" by simp
  also have "\<dots> \<le> int (card {a..<b})"
    using assms(2) by (intro zle_int [THEN iffD2] card_mono) fastforce+
  finally show ?thesis using assms(4) by simp
qed

subsection \<open>The peak of a trace\<close>

text \<open>
  The sizes of the payloads that are allocated, indexed by their identifiers (0 for the others),
  after a request, and the largest sum of them at any moment of a trace.
\<close>

definition tras :: "traceop_t \<Rightarrow> int list \<Rightarrow> int list" where
  "tras r xs = xs[nat (op_index r) := (case op_type r of FREE \<Rightarrow> 0 | _ \<Rightarrow> op_size r)]"

fun pico :: "int list \<Rightarrow> traceop_t list \<Rightarrow> int" where
  "pico xs [] = sum_list xs"
| "pico xs (r # rs) = max (sum_list xs) (pico (tras r xs) rs)"

text \<open>An index is not allocated twice.\<close>

fun fresca :: "int set \<Rightarrow> traceop_t list \<Rightarrow> bool" where
  "fresca S [] \<longleftrightarrow> True"
| "fresca S (r # rs) \<longleftrightarrow>
     (case op_type r of
        ALLOC \<Rightarrow> op_index r \<notin> S \<and> fresca (insert (op_index r) S) rs
      | REALLOC \<Rightarrow> fresca S rs
      | FREE \<Rightarrow> fresca (S - {op_index r}) rs)"

definition usados :: "int set \<Rightarrow> (addr \<rightharpoonup> int) \<Rightarrow> driver_t \<Rightarrow> int list \<Rightarrow> bool" where
  "usados S V d xs \<longleftrightarrow> tamanos_ok d \<and> int (length xs) = num_ids (traza d) \<and> S \<subseteq> {0..<num_ids (traza d)} \<and>
     (\<forall>i \<in> S. (\<exists>n. V (fst (slots d i)) = Some n \<and> xs ! nat i \<le> n) \<and> 0 < xs ! nat i \<and> xs ! nat i < 2 ^ 31 \<and>
        snd (slots d i) = word_of_int (xs ! nat i)) \<and>
     (\<forall>i < length xs. int i \<notin> S \<longrightarrow> xs ! i = 0) \<and> inj_on (\<lambda>i. fst (slots d i)) S"

lemma suma_usados:
  assumes "usados S V d xs"
  shows "sum_list xs = (\<Sum>i\<in>S. xs ! nat i)"
proof -
  let ?N = "num_ids (traza d)"
  have N: "int (length xs) = ?N" "S \<subseteq> {0..<?N}" "\<And>i. i < length xs \<Longrightarrow> int i \<notin> S \<Longrightarrow> xs ! i = 0"
    using assms by (auto simp: usados_def)
  have "sum_list xs = (\<Sum>i = 0..<length xs. xs ! i)" by (rule sum_list_sum_nth)
  also have "\<dots> = (\<Sum>i\<in>{0..<?N}. xs ! nat i)"
    by (rule sum.reindex_bij_witness [where i = nat and j = int]) (use N in \<open>auto simp: nat_less_iff\<close>)
  also have "\<dots> = (\<Sum>i\<in>S. xs ! nat i)"
    by (rule sum.mono_neutral_right) (use N in \<open>auto simp: nat_less_iff\<close>)
  finally show ?thesis .
qed

context asignador
begin

lemma suma_en_heap:
  assumes "inv (heap d) V" "usados S V d xs"
  shows "0 \<le> sum_list xs" "sum_list xs \<le> mem_heapsize (heap d)"
proof -
  have u: "finite S" "\<And>i. i \<in> S \<Longrightarrow> 0 < xs ! nat i"
    using assms(2) finite_subset by (auto simp: usados_def)
  show "0 \<le> sum_list xs" unfolding suma_usados [OF assms(2)] using u(2) by (intro sum_nonneg) force
  have "(\<Sum>i\<in>S. xs ! nat i) \<le> mem_brk (heap d) - mem_start_brk (heap d)"
  proof (rule suma_disjuntas [OF u(1)])
    show "mem_start_brk (heap d) \<le> fst (slots d i) \<and> fst (slots d i) + xs ! nat i \<le> mem_brk (heap d) \<and> 0 \<le> xs ! nat i"
      if i: "i \<in> S" for i
    proof -
      obtain n where "V (fst (slots d i)) = Some n" "xs ! nat i \<le> n" using assms(2) i by (auto simp: usados_def)
      then show ?thesis using en_heap [OF assms(1)] u(2) [OF i] by fastforce
    qed
    show "fst (slots d i) + xs ! nat i \<le> fst (slots d j) \<or> fst (slots d j) + xs ! nat j \<le> fst (slots d i)"
      if ij: "i \<in> S" "j \<in> S" "i \<noteq> j" for i j
    proof -
      obtain m where m: "V (fst (slots d i)) = Some m" "xs ! nat i \<le> m" using assms(2) ij by (auto simp: usados_def)
      obtain n where n: "V (fst (slots d j)) = Some n" "xs ! nat j \<le> n" using assms(2) ij by (auto simp: usados_def)
      have "fst (slots d i) \<noteq> fst (slots d j)" using assms(2) ij by (auto simp: usados_def inj_on_def)
      then show ?thesis using disjuntas [OF assms(1) m(1) n(1)] m(2) n(2) by auto
    qed
    show "mem_start_brk (heap d) \<le> mem_brk (heap d)" using en_area [OF assms(1)] by simp
  qed
  then show "sum_list xs \<le> mem_heapsize (heap d)" by (simp add: suma_usados [OF assms(2)] mem_heapsize_def)
qed

text \<open>The payload of index \<open>i\<close> is now \<open>p\<close>, with room for \<open>sz\<close> bytes.\<close>

lemma usados_nuevo:
  assumes u: "usados S V d xs" and i: "0 \<le> i" "i < num_ids (traza d)" and sz: "0 < sz" "sz < 2 ^ 31" "sz \<le> n"
    and W: "W p = Some n" "\<And>j. j \<in> S \<Longrightarrow> j \<noteq> i \<Longrightarrow> W (fst (slots d j)) = V (fst (slots d j)) \<and> fst (slots d j) \<noteq> p"
    and d': "tamanos_ok d'" "igual_traza d d'" "slots d' i = (p, word_of_int sz)"
      "\<And>j. 0 \<le> j \<Longrightarrow> j \<noteq> i \<Longrightarrow> slots d' j = slots d j"
  shows "usados (insert i S) W d' (xs[nat i := sz])"
proof -
  have N: "num_ids (traza d') = num_ids (traza d)" using d'(2) by (simp add: igual_traza_def)
  have L: "int (length xs) = num_ids (traza d)" "S \<subseteq> {0..<num_ids (traza d)}" using u by (simp_all add: usados_def)
  have ni: "nat i < length xs" using i L(1) by (simp add: nat_less_iff)
  have sl: "slots d' j = slots d j" if "j \<in> S" "j \<noteq> i" for j using d'(4) [of j] that L(2) by auto
  have ne: "nat j \<noteq> nat i" if "j \<in> S" "j \<noteq> i" for j
    using that L(2) i(1) by (metis atLeastLessThan_iff eq_nat_nat_iff subsetD)
  have "(\<exists>n. W (fst (slots d' j)) = Some n \<and> xs[nat i := sz] ! nat j \<le> n) \<and> 0 < xs[nat i := sz] ! nat j \<and>
      xs[nat i := sz] ! nat j < 2 ^ 31 \<and> snd (slots d' j) = word_of_int (xs[nat i := sz] ! nat j)"
    if j: "j \<in> insert i S" for j
  proof (cases "j = i")
    case True
    then show ?thesis using d'(3) W(1) sz ni by simp
  next
    case False
    then have J: "j \<in> S" using j by simp
    then show ?thesis using u W(2) [OF J False] sl [OF J False] ne [OF J False] by (auto simp: usados_def)
  qed
  moreover have "xs[nat i := sz] ! j = 0" if "j < length xs" "int j \<notin> insert i S" for j
  proof -
    have "j \<noteq> nat i" using that(2) i(1) by auto
    then show ?thesis using that u by (simp add: usados_def)
  qed
  moreover have "inj_on (\<lambda>j. fst (slots d' j)) (insert i S)"
  proof -
    have "inj_on (\<lambda>j. fst (slots d' j)) (S - {i})" using u sl by (simp add: usados_def inj_on_def)
    moreover have "p \<notin> (\<lambda>j. fst (slots d' j)) ` (S - {i})" using W(2) sl by auto
    ultimately have "inj_on (\<lambda>j. fst (slots d' j)) (insert i (S - {i}))" using d'(3) by (simp only: inj_on_insert) simp
    then show ?thesis by simp
  qed
  ultimately show ?thesis using d'(1) L i by (simp add: usados_def N)
qed

text \<open>One request either finds no memory or adds what it should.\<close>

definition paso_util ::
    "driver_t \<Rightarrow> int set \<Rightarrow> int list \<Rightarrow> int \<Rightarrow> int \<Rightarrow> fallo + (driver_t \<times> int \<times> int) \<Rightarrow> bool" where
  "paso_util d S xs maxt c r \<longleftrightarrow>
     (\<exists>d' V. r = Inr (d', sum_list xs, max maxt (sum_list xs)) \<and> inv (heap d') V \<and> usados S V d' xs \<and>
        igual_traza d d' \<and> mem_heapsize (heap d) \<le> mem_heapsize (heap d') \<and>
        mem_heapsize (heap d') \<le> mem_heapsize (heap d) + c) \<or>
     (\<exists>e. r = Inl (App_error e)) \<and> MAX_HEAP < mem_heapsize (heap d) + c"

lemma heapsize_conserva: "conserva h h' V \<Longrightarrow> mem_heapsize h \<le> mem_heapsize h'"
  by (simp add: conserva_def mem_heapsize_def)

lemma sum_list_update:
  "i < length xs \<Longrightarrow> sum_list (xs[i := (x :: int)]) = sum_list xs + (x - xs ! i)"
  by (induction xs arbitrary: i) (auto split: nat.splits)

lemma sumar_total_ok:
  assumes "inv (heap d) V" "usados S V d xs" "tot + n = sum_list xs"
  shows "sumar_total n tot maxt d = Inr (d, sum_list xs, max maxt (sum_list xs))"
proof -
  have "in_int (sum_list xs)"
    using suma_en_heap [OF assms(1,2)] heapsize_acotado [OF assms(1)]
    by (simp add: in_int_def int_min_def int_max_def MAX_HEAP_def)
  then show ?thesis using assms(3) by (simp add: sumar_total_def max_def)
qed

lemma util_alloc:
  assumes inv: "inv (heap d) V" and u: "usados S V d xs" and r: "op_type r = ALLOC" "op_index r = i" "op_size r = sz"
    and i: "0 \<le> i" "i < num_ids (traza d)" "i \<notin> S" and sz: "0 < sz" "sz < 2 ^ 31"
  shows "paso_util d (insert i S) (tras r xs) maxt (crece sz) (util_op A r d (sum_list xs) maxt)"
proof -
  obtain p h where m: "malloc_f A (word_of_int sz) (heap d) = Some (p, h)"
    "if p = NULL then MAX_HEAP < mem_heapsize (heap d) + crece sz
     else V p = None \<and> (\<exists>n \<ge> sz. inv h (V(p \<mapsto> n))) \<and> conserva (heap d) h V \<and>
       mem_heapsize h \<le> mem_heapsize (heap d) + crece sz"
    using malloc [OF inv sz] by blast
  show ?thesis
  proof (cases "p = NULL")
    case True
    then show ?thesis using m r by (simp add: paso_util_def util_op_def)
  next
    case False
    then obtain n where n: "V p = None" "sz \<le> n" "inv h (V(p \<mapsto> n))" "conserva (heap d) h V"
      "mem_heapsize h \<le> mem_heapsize (heap d) + crece sz" using m(2) by auto
    let ?d = "d\<lparr>heap := h\<rparr>"
    have t: "tamanos_ok ?d" "i < num_ids (traza ?d)" using u i by (simp_all add: usados_def tamanos_ok_def)
    obtain d' where d': "luego (anotar_bloque i p ?d) (\<lambda>d. luego (anotar_tamano i sz d) (\<lambda>d. sumar_total sz (sum_list xs) maxt d)) =
        sumar_total sz (sum_list xs) maxt d'"
      "heap d' = heap ?d" "tamanos_ok d'" "igual_traza ?d d'" "slots d' i = (p, word_of_int sz)"
      "\<And>j. 0 \<le> j \<Longrightarrow> j \<noteq> i \<Longrightarrow> slots d' j = slots ?d j"
      by (rule anotar [OF t(1) i(1) t(2), of p sz "\<lambda>d. sumar_total sz (sum_list xs) maxt d"]) auto
    have ig: "igual_traza d d'" using d'(4) by (simp add: igual_traza_def)
    have us: "usados (insert i S) (V(p \<mapsto> n)) d' (tras r xs)"
      unfolding tras_def r tipo_op.case
    proof (rule usados_nuevo [OF u i(1,2) sz n(2) _ _ d'(3) ig d'(5)])
      show "(V(p \<mapsto> n)) (fst (slots d j)) = V (fst (slots d j)) \<and> fst (slots d j) \<noteq> p" if "j \<in> S" for j
        using u that n(1) by (auto simp: usados_def)
    qed (use d'(6) in auto)
    have "sum_list (tras r xs) = sum_list xs + sz"
    proof -
      have "nat i < length xs" "xs ! nat i = 0" using u i by (auto simp: usados_def nat_less_iff)
      then show ?thesis using r by (simp add: tras_def sum_list_update)
    qed
    then have "util_op A r d (sum_list xs) maxt = Inr (d', sum_list (tras r xs), max maxt (sum_list (tras r xs)))"
      using m(1) False d'(1,2) r n(3) sumar_total_ok [OF _ us] by (simp add: util_op_def)
    then show ?thesis
      using us n(3,5) d'(2) ig heapsize_conserva [OF n(4)] by (auto simp: paso_util_def)
  qed
qed

lemma util_realloc:
  assumes inv: "inv (heap d) V" and u: "usados S V d xs" and r: "op_type r = REALLOC" "op_index r = i" "op_size r = sz"
    and i: "i \<in> S" and sz: "0 < sz" "sz < 2 ^ 31"
  shows "paso_util d S (tras r xs) maxt (crece sz) (util_op A r d (sum_list xs) maxt)"
proof -
  have iN: "0 \<le> i" "i < num_ids (traza d)" "nat i < length xs" using u i by (auto simp: usados_def nat_less_iff)
  define oldp where "oldp = fst (slots d i)"
  define x where "x = xs ! nat i"
  have old: "snd (slots d i) = word_of_int x" "0 < x" "x < 2 ^ 31" using u i by (auto simp: usados_def x_def)
  obtain k where k: "V oldp = Some k" using u i by (auto simp: usados_def oldp_def)
  define V1 where "V1 = V(oldp := None)"
  obtain q h where m: "realloc_f A oldp (word_of_int sz) (heap d) = Some (q, h)"
    "if q = NULL then MAX_HEAP < mem_heapsize (heap d) + crece sz
     else V1 q = None \<and> (\<exists>n \<ge> sz. inv h (V1(q \<mapsto> n))) \<and>
       (\<forall>j. 0 \<le> j \<and> j < min k sz \<longrightarrow> bytes h (q + j) = bytes (heap d) (oldp + j)) \<and> conserva (heap d) h V1 \<and>
       mem_heapsize h \<le> mem_heapsize (heap d) + crece sz"
    using realloc [OF inv k sz] unfolding V1_def by blast
  have td: "tamanos_ok d" using u by (simp add: usados_def)
  note le = leer_id [OF td iN(1,2), unfolded old(1), folded oldp_def]
  have i32: "to_int32 (uint (word_of_int x :: u64)) = x"
  proof -
    have "uint (word_of_int x :: u64) = x" using old by (simp add: uint_of_small_int)
    then show ?thesis using old to_int32_id [of x] by (simp only:) (simp add: in_int_def int_min_def int_max_def)
  qed
  show ?thesis
  proof (cases "q = NULL")
    case True
    then show ?thesis using m r le by (simp add: paso_util_def util_op_def)
  next
    case False
    then obtain n where n: "V1 q = None" "sz \<le> n" "inv h (V1(q \<mapsto> n))" "conserva (heap d) h V1"
      "mem_heapsize h \<le> mem_heapsize (heap d) + crece sz" using m(2) by auto
    let ?d = "d\<lparr>heap := h\<rparr>"
    let ?f = "\<lambda>d. if \<not> in_int (sz - x) then Inl Indefinido else sumar_total (sz - x) (sum_list xs) maxt d"
    have t: "tamanos_ok ?d" "i < num_ids (traza ?d)" using td iN by (simp_all add: tamanos_ok_def)
    obtain d' where d': "luego (anotar_bloque i q ?d) (\<lambda>d. luego (anotar_tamano i sz d) ?f) = ?f d'"
      "heap d' = heap ?d" "tamanos_ok d'" "igual_traza ?d d'" "slots d' i = (q, word_of_int sz)"
      "\<And>j. 0 \<le> j \<Longrightarrow> j \<noteq> i \<Longrightarrow> slots d' j = slots ?d j"
      by (rule anotar [OF t(1) iN(1) t(2), of q sz ?f]) auto
    have ig: "igual_traza d d'" using d'(4) by (simp add: igual_traza_def)
    have "usados (insert i S) (V1(q \<mapsto> n)) d' (tras r xs)"
      unfolding tras_def r tipo_op.case
    proof (rule usados_nuevo [OF u iN(1,2) sz n(2) _ _ d'(3) ig d'(5)])
      show "(V1(q \<mapsto> n)) (fst (slots d j)) = V (fst (slots d j)) \<and> fst (slots d j) \<noteq> q"
        if j: "j \<in> S" "j \<noteq> i" for j
      proof -
        have ne: "fst (slots d j) \<noteq> oldp" using u j i by (auto simp: usados_def inj_on_def oldp_def)
        have "V (fst (slots d j)) \<noteq> None" using u j by (auto simp: usados_def)
        then show ?thesis using ne n(1) by (auto simp: V1_def split: if_splits)
      qed
    qed (use d'(6) in auto)
    then have us: "usados S (V1(q \<mapsto> n)) d' (tras r xs)" using i by (simp add: insert_absorb)
    have sm: "sum_list xs + (sz - x) = sum_list (tras r xs)"
      using r iN(3) by (simp add: tras_def sum_list_update x_def)
    have "in_int (sz - x)" using sz old by (simp add: in_int_def int_min_def int_max_def)
    then have "util_op A r d (sum_list xs) maxt = Inr (d', sum_list (tras r xs), max maxt (sum_list (tras r xs)))"
      using m(1) False d'(1,2) r n(3) le i32 sumar_total_ok [OF _ us sm] by (simp add: util_op_def)
    then show ?thesis
      using us n(3,5) d'(2) ig heapsize_conserva [OF n(4)] by (auto simp: paso_util_def)
  qed
qed

lemma util_free:
  assumes inv: "inv (heap d) V" and u: "usados S V d xs" and r: "op_type r = FREE" "op_index r = i"
    and i: "i \<in> S" and mx: "sum_list xs \<le> maxt"
  shows "paso_util d (S - {i}) (tras r xs) maxt 0 (util_op A r d (sum_list xs) maxt)"
proof -
  have iN: "0 \<le> i" "i < num_ids (traza d)" "nat i < length xs" using u i by (auto simp: usados_def nat_less_iff)
  define p where "p = fst (slots d i)"
  define x where "x = xs ! nat i"
  have old: "snd (slots d i) = word_of_int x" "0 < x" "x < 2 ^ 31" using u i by (auto simp: usados_def x_def)
  obtain k where k: "V p = Some k" using u i by (auto simp: usados_def p_def)
  obtain h where h: "free_f A p (heap d) = Some h" "inv h (V(p := None))" "conserva (heap d) h (V(p := None))"
    "mem_heapsize h = mem_heapsize (heap d)"
    using free [OF inv k] by blast
  have td: "tamanos_ok d" using u by (simp add: usados_def)
  note le = leer_id [OF td iN(1,2), unfolded old(1), folded p_def]
  have i32: "to_int32 (uint (word_of_int x :: u64)) = x"
  proof -
    have "uint (word_of_int x :: u64) = x" using old by (simp add: uint_of_small_int)
    then show ?thesis using old to_int32_id [of x] by (simp only:) (simp add: in_int_def int_min_def int_max_def)
  qed
  let ?d = "d\<lparr>heap := h\<rparr>"
  have sm: "sum_list xs - x = sum_list (tras r xs)"
    using r iN(3) by (simp add: tras_def sum_list_update x_def)
  have us: "usados (S - {i}) (V(p := None)) ?d (tras r xs)"
  proof -
    have ne: "nat j \<noteq> nat i" "fst (slots d j) \<noteq> p" if "j \<in> S" "j \<noteq> i" for j
    proof -
      have "0 \<le> j" using u that(1) by (auto simp: usados_def)
      then show "nat j \<noteq> nat i" using iN(1) that(2) by (simp add: eq_nat_nat_iff)
      show "fst (slots d j) \<noteq> p" using u that i by (auto simp: usados_def inj_on_def p_def)
    qed
    have "xs[nat i := 0] ! j = 0" if "j < length xs" "int j \<notin> S - {i}" for j
      using that u iN by (cases "j = nat i") (auto simp: usados_def)
    moreover have "xs[nat i := 0] ! nat j = xs ! nat j" if "j \<in> S" "j \<noteq> i" for j using ne(1) [OF that] by simp
    ultimately show ?thesis
      using u ne(2) unfolding tras_def r tipo_op.case usados_def by (auto simp: tamanos_ok_def inj_on_diff)
  qed
  have "in_int (sum_list xs - x)"
    using suma_en_heap [of ?d, OF _ us] heapsize_acotado [OF inv] h(2,4) unfolding sm
    by (simp add: in_int_def int_min_def int_max_def MAX_HEAP_def)
  moreover have "max maxt (sum_list (tras r xs)) = maxt" using mx old(2) sm by simp
  ultimately have "util_op A r d (sum_list xs) maxt = Inr (?d, sum_list (tras r xs), max maxt (sum_list (tras r xs)))"
    using r le i32 h(1) sm by (simp add: util_op_def)
  then show ?thesis using us h(2,4) by (auto simp: paso_util_def igual_traza_def)
qed

subsection \<open>The whole trace\<close>

lemma util_loop_pico:
  assumes "inv (heap d) V" "usados S V d xs" "traza_ok (num_ids (traza d)) S (drop i (ops (traza d)))"
    "fresca S (drop i (ops (traza d)))" "i + k = length (ops (traza d))"
    "mem_heapsize (heap d) + costo_total crece (drop i (ops (traza d))) \<le> MAX_HEAP"
    "sum_list xs \<le> maxt" "maxt \<le> mem_heapsize (heap d)"
  shows "\<exists>d' tot. util_loop A k i d (sum_list xs) maxt = Inr (d', tot, max maxt (pico xs (drop i (ops (traza d))))) \<and>
    max maxt (pico xs (drop i (ops (traza d)))) \<le> mem_heapsize (heap d') \<and> mem_heapsize (heap d') \<le> MAX_HEAP \<and> bien d d'"
  using assms
proof (induction k arbitrary: i d S V xs maxt)
  case 0
  then show ?case using heapsize_acotado [OF 0(1)] en_area [OF 0(1)] by (auto simp: bien_def usados_def igual_traza_def)
next
  case (Suc k)
  let ?os = "ops (traza d)" and ?N = "num_ids (traza d)"
  have i: "i < length ?os" using Suc.prems(5) by simp
  define r where "r = ?os ! i"
  have dr: "drop i ?os = r # drop (Suc i) ?os" using i by (simp add: r_def Cons_nth_drop_Suc)
  have op: "leer_op i d = Inr r" using i by (simp add: leer_op_def r_def)
  have ri: "0 \<le> op_index r" "op_index r < ?N" using Suc.prems(3) unfolding dr by simp_all
  define S' where "S' = (case op_type r of ALLOC \<Rightarrow> insert (op_index r) S | REALLOC \<Rightarrow> S | FREE \<Rightarrow> S - {op_index r})"
  have tr: "traza_ok ?N S' (drop (Suc i) ?os)" "fresca S' (drop (Suc i) ?os)"
    using Suc.prems(3,4) unfolding dr by (auto simp: S'_def split: tipo_op.splits)
  have B: "mem_heapsize (heap d) + costo crece r + costo_total crece (drop (Suc i) ?os) \<le> MAX_HEAP"
    using Suc.prems(6) by (simp add: dr costo_total_def)
  then have Br: "mem_heapsize (heap d) + costo crece r \<le> MAX_HEAP" using costo_total_pos [OF tr(1)] by simp
  have "paso_util d S' (tras r xs) maxt (costo crece r) (util_op A r d (sum_list xs) maxt)"
    using util_alloc [OF Suc.prems(1,2) _ refl refl ri, of maxt] util_realloc [OF Suc.prems(1,2) _ refl refl, of r maxt]
      util_free [OF Suc.prems(1,2) _ refl, of r maxt] Suc.prems(3,4,7)
    unfolding dr by (auto simp: S'_def costo_def split: tipo_op.splits)
  then obtain d' V' where d': "util_op A r d (sum_list xs) maxt = Inr (d', sum_list (tras r xs), max maxt (sum_list (tras r xs)))"
    "inv (heap d') V'" "usados S' V' d' (tras r xs)" "igual_traza d d'" "mem_heapsize (heap d) \<le> mem_heapsize (heap d')"
    "mem_heapsize (heap d') \<le> mem_heapsize (heap d) + costo crece r"
    using Br by (auto simp: paso_util_def)
  have ig: "ops (traza d') = ?os" "num_ids (traza d') = ?N" using d'(4) by (simp_all add: igual_traza_def)
  let ?m = "max maxt (sum_list (tras r xs))"
  have "\<exists>d'' tot. util_loop A k (Suc i) d' (sum_list (tras r xs)) ?m =
      Inr (d'', tot, max ?m (pico (tras r xs) (drop (Suc i) (ops (traza d'))))) \<and>
    max ?m (pico (tras r xs) (drop (Suc i) (ops (traza d')))) \<le> mem_heapsize (heap d'') \<and> mem_heapsize (heap d'') \<le> MAX_HEAP \<and> bien d' d''"
  proof (rule Suc.IH [OF d'(2,3)])
    show "?m \<le> mem_heapsize (heap d')" using suma_en_heap(2) [OF d'(2,3)] Suc.prems(8) d'(5) by simp
  qed (use ig tr Suc.prems(5) d'(6) B in simp_all)
  moreover have "max ?m (pico (tras r xs) (drop (Suc i) ?os)) = max maxt (pico xs (drop i ?os))"
  proof -
    have "sum_list (tras r xs) \<le> pico (tras r xs) (drop (Suc i) ?os)" by (cases "drop (Suc i) ?os") simp_all
    then show ?thesis using Suc.prems(7) by (simp add: dr)
  qed
  ultimately show ?case using op d'(1) bien_trans [OF d'(4)] by (auto simp: ig)
qed

lemma eval_mm_util_pico:
  assumes "area (heap d)" "tamanos_ok d" "num_ops (traza d) = int (length (ops (traza d)))"
    "traza_ok (num_ids (traza d)) {} (ops (traza d))" "fresca {} (ops (traza d))"
    "inicial + costo_total crece (ops (traza d)) \<le> MAX_HEAP"
  shows "\<exists>sz d'. eval_mm_util A d = Inr (pico (replicate (nat (num_ids (traza d))) 0) (ops (traza d)), sz, d') \<and>
    pico (replicate (nat (num_ids (traza d))) 0) (ops (traza d)) \<le> sz \<and> sz \<le> MAX_HEAP \<and> bien d d'"
proof -
  let ?h = "mem_reset_brk (heap d)" and ?xs = "replicate (nat (num_ids (traza d))) (0 :: int)"
  have "area ?h" "mem_brk ?h = mem_start_brk ?h" using assms(1) by (simp_all add: area_def mem_reset_brk_def)
  then obtain r h where r: "init_f A ?h = Some (r, h)" "0 \<le> r" "inv h Map.empty" "mem_heapsize h \<le> inicial"
    using init by blast
  let ?e = "d\<lparr>heap := h\<rparr>"
  have u: "usados {} Map.empty ?e ?xs" using assms(2) by (auto simp: usados_def tamanos_ok_def)
  have "\<exists>d' tot. util_loop A (length (ops (traza d))) 0 ?e (sum_list ?xs) 0 =
      Inr (d', tot, max 0 (pico ?xs (drop 0 (ops (traza ?e))))) \<and>
    max 0 (pico ?xs (drop 0 (ops (traza ?e)))) \<le> mem_heapsize (heap d') \<and> mem_heapsize (heap d') \<le> MAX_HEAP \<and> bien ?e d'"
    by (rule util_loop_pico [of ?e Map.empty "{}" ?xs])
      (use r u assms heapsize_acotado [OF r(3)] in \<open>simp_all add: sum_list_replicate\<close>)
  moreover have "0 \<le> pico ?xs (ops (traza d))"
    by (cases "ops (traza d)") (simp_all add: sum_list_replicate le_max_iff_disj)
  ultimately show ?thesis using r assms(3) by (auto simp: eval_mm_util_def sum_list_replicate max_def bien_def igual_traza_def)
qed

end

end
