(* ===== verification/Mdriver_Speed.thy ===== *)
theory Mdriver_Speed
  imports Mdriver_Util
begin

text \<open>
  The runs that \<^verbatim>\<open>mdriver\<close> times: on an allocator that keeps the laws of the interface, \<^verbatim>\<open>eval_mm_speed\<close>
  ends normally on a well-formed trace that fits in the area.
\<close>

text \<open>The indices in \<open>S\<close> have allocated payloads.\<close>

definition asignadas :: "int set \<Rightarrow> (addr \<rightharpoonup> int) \<Rightarrow> driver_t \<Rightarrow> bool" where
  "asignadas S V d \<longleftrightarrow> tamanos_ok d \<and> S \<subseteq> {0..<num_ids (traza d)} \<and>
     (\<forall>i \<in> S. V (fst (slots d i)) \<noteq> None) \<and> inj_on (\<lambda>i. fst (slots d i)) S"

lemma anotar_bloque_bien:
  assumes "tamanos_ok d" "0 \<le> i" "i < num_ids (traza d)"
  obtains d' where "anotar_bloque i p d = Inr d'" "heap d' = heap d" "tamanos_ok d'" "igual_traza d d'"
    "fst (slots d' i) = p" "\<And>j. 0 \<le> j \<Longrightarrow> j \<noteq> i \<Longrightarrow> fst (slots d' j) = fst (slots d j)"
proof -
  have n: "nat i < length (blocks (traza d))" using assms by (simp add: tamanos_ok_def nat_less_iff)
  show ?thesis
    by (rule that [of "d\<lparr>traza := (traza d)\<lparr>blocks := (blocks (traza d))[nat i := p]\<rparr>\<rparr>"])
      (use n assms in \<open>auto simp: anotar_bloque_def tamanos_ok_def igual_traza_def slots_def nat_eq_iff2\<close>)
qed

lemma asignadas_nueva:
  assumes "asignadas S V d" "V0 p = None" "W = V0(p \<mapsto> n)" "0 \<le> i" "i < num_ids (traza d)"
    "\<And>j. j \<in> S \<Longrightarrow> j \<noteq> i \<Longrightarrow> V0 (fst (slots d j)) = V (fst (slots d j))"
    "tamanos_ok d'" "igual_traza d d'" "fst (slots d' i) = p"
    "\<And>j. 0 \<le> j \<Longrightarrow> j \<noteq> i \<Longrightarrow> fst (slots d' j) = fst (slots d j)"
  shows "asignadas (insert i S) W d'"
proof -
  have S: "S \<subseteq> {0..<num_ids (traza d)}" "inj_on (\<lambda>j. fst (slots d j)) S" using assms(1) by (simp_all add: asignadas_def)
  have sl: "fst (slots d' j) = fst (slots d j)" "fst (slots d j) \<noteq> p" "W (fst (slots d j)) \<noteq> None"
    if "j \<in> S" "j \<noteq> i" for j
  proof -
    have v: "V0 (fst (slots d j)) \<noteq> None" using assms(1,6) that by (auto simp: asignadas_def)
    then show "fst (slots d j) \<noteq> p" using assms(2) by metis
    then show "W (fst (slots d j)) \<noteq> None" using v assms(3) by simp
    show "fst (slots d' j) = fst (slots d j)" using that S(1) by (intro assms(10)) auto
  qed
  have "inj_on (\<lambda>j. fst (slots d' j)) (insert i S)"
    using S(2) sl assms(9) unfolding inj_on_def by (metis insert_iff)
  moreover have "insert i S \<subseteq> {0..<num_ids (traza d')}" using S(1) assms(4,5,8) by (auto simp: igual_traza_def)
  ultimately show ?thesis using assms(3,7,9) sl unfolding asignadas_def by (metis fun_upd_same insert_iff option.distinct(1))
qed

context asignador
begin

text \<open>One request succeeds when the memory it needs is there.\<close>

lemma speed_op_bien:
  assumes inv: "inv (heap d) V" and a: "asignadas S V d" and ok: "traza_ok (num_ids (traza d)) S (r # rs)"
    and cabe: "mem_heapsize (heap d) + costo crece r \<le> MAX_HEAP"
  shows "\<exists>d' S' V'. speed_op A r d = Inr d' \<and> inv (heap d') V' \<and> asignadas S' V' d' \<and> igual_traza d d' \<and>
    traza_ok (num_ids (traza d)) S' rs \<and> mem_heapsize (heap d') \<le> mem_heapsize (heap d) + costo crece r"
proof -
  define i where "i = op_index r"
  have i: "0 \<le> i" "i < num_ids (traza d)" using ok by (simp_all add: i_def)
  have t: "tamanos_ok d" using a by (simp add: asignadas_def)
  have t': "tamanos_ok (d\<lparr>heap := h\<rparr>)" "i < num_ids (traza (d\<lparr>heap := h\<rparr>))" for h
    using t i by (simp_all add: tamanos_ok_def)
  note le = leer_id [OF t i]
  show ?thesis
  proof (cases "op_type r")
    case ALLOC
    then have sz: "0 < op_size r" "op_size r < 2 ^ 31" and rs: "traza_ok (num_ids (traza d)) (insert i S) rs"
      using ok by (simp_all add: i_def)
    obtain p h where m: "malloc_f A (word_of_int (op_size r)) (heap d) = Some (p, h)"
      "if p = NULL then MAX_HEAP < mem_heapsize (heap d) + crece (op_size r)
       else V p = None \<and> (\<exists>n \<ge> op_size r. inv h (V(p \<mapsto> n))) \<and> conserva (heap d) h V \<and>
         mem_heapsize h \<le> mem_heapsize (heap d) + crece (op_size r)"
      using malloc [OF inv sz] by blast
    have p: "p \<noteq> NULL" using m(2) cabe ALLOC by (auto simp: costo_def)
    then obtain n where n: "V p = None" "inv h (V(p \<mapsto> n))" "mem_heapsize h \<le> mem_heapsize (heap d) + crece (op_size r)"
      using m(2) by auto
    obtain d' where d': "anotar_bloque i p (d\<lparr>heap := h\<rparr>) = Inr d'" "heap d' = h" "tamanos_ok d'" "igual_traza (d\<lparr>heap := h\<rparr>) d'"
      "fst (slots d' i) = p" "\<And>j. 0 \<le> j \<Longrightarrow> j \<noteq> i \<Longrightarrow> fst (slots d' j) = fst (slots d j)"
      by (rule anotar_bloque_bien [OF t'(1) [of h] i(1) t'(2) [of h], of p]) auto
    have "igual_traza d d'" using d'(4) by (simp add: igual_traza_def)
    then have "asignadas (insert i S) (V(p \<mapsto> n)) d'"
      using d' asignadas_nueva [where ?V0.0 = V and W = "V(p \<mapsto> n)" and n = n, OF a n(1) _ i, of d'] by auto
    then show ?thesis using ALLOC m(1) p n d' rs \<open>igual_traza d d'\<close>
      by (intro exI conjI) (auto simp: speed_op_def i_def costo_def)
  next
    case REALLOC
    then have sz: "0 < op_size r" "op_size r < 2 ^ 31" and rs: "traza_ok (num_ids (traza d)) S rs" and iS: "i \<in> S"
      using ok by (simp_all add: i_def)
    obtain q k where q: "fst (slots d i) = q" "V q = Some k" using a iS by (auto simp: asignadas_def)
    obtain p h where m: "realloc_f A q (word_of_int (op_size r)) (heap d) = Some (p, h)"
      "if p = NULL then MAX_HEAP < mem_heapsize (heap d) + crece (op_size r)
       else (V(q := None)) p = None \<and> (\<exists>m \<ge> op_size r. inv h (V(q := None, p \<mapsto> m))) \<and>
         (\<forall>i. 0 \<le> i \<and> i < min k (op_size r) \<longrightarrow> bytes h (p + i) = bytes (heap d) (q + i)) \<and>
         conserva (heap d) h (V(q := None)) \<and> mem_heapsize h \<le> mem_heapsize (heap d) + crece (op_size r)"
      using realloc [OF inv q(2) sz] by blast
    have p: "p \<noteq> NULL" using m(2) cabe REALLOC by (auto simp: costo_def)
    then obtain n where n: "(V(q := None)) p = None" "inv h (V(q := None, p \<mapsto> n))"
      "mem_heapsize h \<le> mem_heapsize (heap d) + crece (op_size r)"
      using m(2) by auto
    obtain d' where d': "anotar_bloque i p (d\<lparr>heap := h\<rparr>) = Inr d'" "heap d' = h" "tamanos_ok d'" "igual_traza (d\<lparr>heap := h\<rparr>) d'"
      "fst (slots d' i) = p" "\<And>j. 0 \<le> j \<Longrightarrow> j \<noteq> i \<Longrightarrow> fst (slots d' j) = fst (slots d j)"
      by (rule anotar_bloque_bien [OF t'(1) [of h] i(1) t'(2) [of h], of p]) auto
    have "igual_traza d d'" using d'(4) by (simp add: igual_traza_def)
    moreover have "fst (slots d j) \<noteq> q" if "j \<in> S" "j \<noteq> i" for j
      using a that iS q(1) by (auto simp: asignadas_def inj_on_def)
    ultimately have "asignadas (insert i S) (V(q := None, p \<mapsto> n)) d'"
      using d' asignadas_nueva [where ?V0.0 = "V(q := None)" and W = "V(q := None, p \<mapsto> n)" and n = n, OF a n(1) _ i, of d']
      by auto
    then have "asignadas S (V(q := None, p \<mapsto> n)) d'" using iS by (simp add: insert_absorb)
    then show ?thesis using REALLOC m(1) p n d' rs \<open>igual_traza d d'\<close> le q
      by (intro exI conjI) (auto simp: speed_op_def i_def costo_def)
  next
    case FREE
    then have rs: "traza_ok (num_ids (traza d)) (S - {i}) rs" and iS: "i \<in> S" using ok by (simp_all add: i_def)
    obtain q k where q: "fst (slots d i) = q" "V q = Some k" using a iS by (auto simp: asignadas_def)
    obtain h where h: "free_f A q (heap d) = Some h" "inv h (V(q := None))" "mem_heapsize h = mem_heapsize (heap d)"
      using free [OF inv q(2)] by blast
    have "fst (slots d j) \<noteq> q" if "j \<in> S" "j \<noteq> i" for j
      using a that iS q(1) by (auto simp: asignadas_def inj_on_def)
    then have "asignadas (S - {i}) (V(q := None)) (d\<lparr>heap := h\<rparr>)"
      using a by (auto simp: asignadas_def tamanos_ok_def inj_on_def)
    moreover have "igual_traza d (d\<lparr>heap := h\<rparr>)" by (simp add: igual_traza_def)
    ultimately show ?thesis using FREE h rs le q
      by (intro exI [of _ "d\<lparr>heap := h\<rparr>"] exI conjI) (auto simp: speed_op_def i_def costo_def)
  qed
qed

lemma speed_loop_bien:
  assumes "inv (heap d) V" "asignadas S V d" "traza_ok (num_ids (traza d)) S (drop i (ops (traza d)))"
    "i + k = length (ops (traza d))"
    "mem_heapsize (heap d) + costo_total crece (drop i (ops (traza d))) \<le> MAX_HEAP"
  shows "\<exists>d'. speed_loop A k i d = Inr d' \<and> bien d d'"
  using assms
proof (induction k arbitrary: i d S V)
  case 0
  then show ?case using en_area [OF 0(1)] by (simp add: bien_def asignadas_def igual_traza_def)
next
  case (Suc k)
  let ?os = "ops (traza d)"
  have i: "i < length ?os" using Suc.prems(4) by simp
  have dr: "drop i ?os = ?os ! i # drop (Suc i) ?os" using i by (simp add: Cons_nth_drop_Suc)
  have op: "leer_op i d = Inr (?os ! i)" using i by (simp add: leer_op_def)
  have c: "mem_heapsize (heap d) + costo crece (?os ! i) + costo_total crece (drop (Suc i) ?os) \<le> MAX_HEAP"
    using Suc.prems(5) by (simp add: dr costo_total_def)
  have "\<exists>S. traza_ok (num_ids (traza d)) S (drop (Suc i) ?os)"
    using Suc.prems(3) unfolding dr by (auto split: tipo_op.splits)
  then have "mem_heapsize (heap d) + costo crece (?os ! i) \<le> MAX_HEAP" using c costo_total_pos by fastforce
  then obtain d1 S' V' where d1: "speed_op A (?os ! i) d = Inr d1" "inv (heap d1) V'" "asignadas S' V' d1" "igual_traza d d1"
    "traza_ok (num_ids (traza d)) S' (drop (Suc i) ?os)"
    "mem_heapsize (heap d1) \<le> mem_heapsize (heap d) + costo crece (?os ! i)"
    using speed_op_bien [OF Suc.prems(1,2), of "?os ! i" "drop (Suc i) ?os"] Suc.prems(3) dr by auto
  have ig: "ops (traza d1) = ?os" "num_ids (traza d1) = num_ids (traza d)" using d1(4) by (simp_all add: igual_traza_def)
  have "\<exists>d'. speed_loop A k (Suc i) d1 = Inr d' \<and> bien d1 d'"
    by (rule Suc.IH [OF d1(2,3)]) (use ig d1 Suc.prems(4) c in simp_all)
  then show ?case using op d1(1,4) bien_trans by auto
qed

lemma eval_mm_speed_bien:
  assumes "area (heap d)" "tamanos_ok d" "num_ops (traza d) = int (length (ops (traza d)))"
    "traza_ok (num_ids (traza d)) {} (ops (traza d))" "inicial + costo_total crece (ops (traza d)) \<le> MAX_HEAP"
  shows "\<exists>d'. eval_mm_speed A d = Inr d' \<and> bien d d'"
proof -
  let ?h = "mem_reset_brk (heap d)"
  have "area ?h" "mem_brk ?h = mem_start_brk ?h" using assms(1) by (simp_all add: area_def mem_reset_brk_def)
  then obtain r h where r: "init_f A ?h = Some (r, h)" "0 \<le> r" "inv h Map.empty" "mem_heapsize h \<le> inicial"
    using init by blast
  let ?e = "d\<lparr>heap := h\<rparr>"
  have "asignadas {} Map.empty ?e" using assms(2) by (simp add: asignadas_def tamanos_ok_def)
  then have "\<exists>d'. speed_loop A (length (ops (traza d))) 0 ?e = Inr d' \<and> bien ?e d'"
    using r assms(4,5) by (intro speed_loop_bien [of ?e Map.empty "{}"]) simp_all
  then show ?thesis using r assms(3) by (auto simp: eval_mm_speed_def bien_def igual_traza_def)
qed

end

end
