(* ===== verification/Mm_Props.thy ===== *)
theory Mm_Props
  imports Mm_Correct Mdriver_Speed Cliente
begin

text \<open>
  The properties of the allocator of \<^verbatim>\<open>mm.c\<close> as its caller sees them, and the requests on which
  it does not do what it means to.
\<close>

subsection \<open>A concrete area\<close>

definition heap_ejemplo :: heap_t where
  "heap_ejemplo = \<lparr>bytes = (\<lambda>_. 0), mem_start_brk = 4096, mem_brk = 4096, mem_max_addr = 4096 + MAX_HEAP,
     heap_listp = NULL, impreso = []\<rparr>"

lemma area_ejemplo: "area heap_ejemplo" "mem_brk heap_ejemplo = mem_start_brk heap_ejemplo"
  by (simp_all add: heap_ejemplo_def area_def)

lemma asignados_nada [simp]: "asignados h [(s, False)] = Map.empty"
  by (simp add: asignados_def)

text \<open>A heap with one allocated block of 100 bytes.\<close>

lemma ejemplo_malloc:
  obtains h0 p h bs n where "mm_init heap_ejemplo = Some (1, h0)" "mm_ok h0 [(4096, False)]"
    "mm_malloc 100 h0 = Some (p, h)" "mm_ok h bs" "asignados h bs = [p \<mapsto> n]" "100 \<le> n"
    "mem_brk h0 = mem_brk h" "mem_brk h0 = 4096 + 32 + 4096" "mem_max_addr h0 = 4096 + MAX_HEAP"
    "mem_max_addr h = 4096 + MAX_HEAP"
proof -
  obtain h0 where h0: "mm_init heap_ejemplo = Some (1, h0)" "mm_ok h0 [(4096, False)]" "mem_start_brk h0 = 4096"
    using mm_init_ok [OF area_ejemplo] by (auto simp: heap_ejemplo_def)
  have k: "heap_ok h0 [(4096, False)]" "heap_listp h0 = inicio h0" using h0(2) by (simp_all add: mm_ok_def)
  have i: "inicio h0 = 4112" "mem_max_addr h0 = 4096 + MAX_HEAP"
    using h0(3) k(1) by (simp_all add: inicio_def heap_ok_def area_def)
  have brk: "mem_brk h0 = 4096 + 32 + 4096" using heap_ok_brk [OF k(1)] i by simp
  have "\<not> sin_lugar 100 h0 [(4096, False)]" by (simp add: sin_lugar_def ajuste_def)
  then obtain p h bs n where m: "mm_malloc 100 h0 = Some (p, h)" "malloc_lista 4128 100 [(4096, False)] = (p, bs)"
    "mm_ok h bs" "asignados h bs = [p \<mapsto> n]" "ajuste 100 - 16 \<le> n" "conserva h0 h (asignados h0 [(4096, False)])"
    using mm_malloc_spec(2) [OF h0(2), of 100] i(1) by auto
  have "bs = [(128, True), (3968, False)]" using m(2) by (simp add: malloc_lista_def ajuste_def poner_def)
  moreover have h: "mem_start_brk h = 4096" using m(6) h0(3) by (simp add: conserva_def)
  ultimately have "mem_brk h0 = mem_brk h" using heap_ok_brk [OF mm_ok_seg [OF m(3)]] brk by (simp add: inicio_def)
  moreover have "mem_max_addr h = 4096 + MAX_HEAP" using m(3) h by (simp add: mm_ok_def heap_ok_def area_def)
  ultimately show ?thesis using that [OF h0(1,2) m(1,3,4)] m(5) brk i(2) by (simp add: ajuste_def)
qed

subsection \<open>The calls\<close>

text \<open>
  \<^verbatim>\<open>mm_init\<close> on an empty area returns 1 and makes a heap with the invariant of the allocator
  in which nothing is allocated: a prologue, one free block of \<^verbatim>\<open>CHUNKSIZE\<close> bytes and an epilogue.
  Nothing is printed.
\<close>

theorem mm_init_correct:
  assumes "area h" "mem_brk h = mem_start_brk h"
  shows "\<exists>h'. mm_init h = Some (1, h') \<and> mm_ok h' [(4096, False)] \<and> asignados h' [(4096, False)] = Map.empty \<and>
    impreso h' = impreso h"
  using mm_init_ok [OF assms] asignados_nada by metis

theorem mm_init_correct_witness:
  "\<exists>h'. mm_init heap_ejemplo = Some (1, h') \<and> mm_ok h' [(4096, False)] \<and> impreso h' = []"
  using mm_init_correct [of heap_ejemplo] area_ejemplo by (simp add: heap_ejemplo_def)

text \<open>
  C3. \<^verbatim>\<open>mm_malloc\<close> of a positive size of at most \<open>2 ^ 32 - 32\<close> bytes. When no free block is large
  enough and the area has no room for a new one it returns \<open>NULL\<close> and only \<^verbatim>\<open>mem_sbrk\<close> prints
  anything. Otherwise the payload it returns is aligned to 16 bytes, has room for the request, lies in
  the heap and overlaps no other payload, the blocks allocated before keep their place and their
  bytes, the consistency check finds nothing to print and the invariant still holds: matching
  boundary tags, sizes that are multiples of 16 from 32 on, no two free neighbours. Address and blocks are those of
  \<open>malloc_lista\<close>, first fit on the list of blocks.
\<close>

theorem mm_malloc_correct:
  assumes "mm_ok h bs" "0 < sz" "sz \<le> 2 ^ 32 - 32"
  shows "if sin_lugar sz h bs
    then mm_malloc (word_of_int sz) h = Some (NULL, h\<lparr>impreso := impreso h @ [Sin_memoria]\<rparr>)
    else \<exists>p h' bs' n. mm_malloc (word_of_int sz) h = Some (p, h') \<and> p \<noteq> NULL \<and> mm_ok h' bs' \<and>
      malloc_lista (inicio h + 16) sz bs = (p, bs') \<and> asignados h bs p = None \<and> asignados h' bs' = (asignados h bs)(p \<mapsto> n) \<and>
      sz \<le> n \<and> 16 dvd p \<and> mem_start_brk h \<le> p \<and> p + n \<le> mem_brk h' \<and>
      (\<forall>q m. asignados h bs q = Some m \<longrightarrow> q + m \<le> p \<or> p + n \<le> q) \<and>
      conserva h h' (asignados h bs) \<and> impreso h' = impreso h"
proof (cases "sin_lugar sz h bs")
  case True
  then show ?thesis using mm_malloc_spec(1) [OF assms] by simp
next
  case False
  from mm_malloc_spec(2) [OF assms False] obtain p h' bs' n
    where m: "mm_malloc (word_of_int sz) h = Some (p, h')" "p \<noteq> NULL" "mm_ok h' bs'"
      "asignados h bs p = None" "asignados h' bs' = (asignados h bs)(p \<mapsto> n)" "ajuste sz - 16 \<le> n"
      "conserva h h' (asignados h bs)" "impreso h' = impreso h" "malloc_lista (inicio h + 16) sz bs = (p, bs')"
    by blast
  have V: "asignados h' bs' p = Some n" using m(5) by simp
  have d: "q + l \<le> p \<or> p + n \<le> q" if "asignados h bs q = Some l" for q l
    using asignados_disjuntas [OF m(3) _ V, of q l] that m(4,5) by (cases "q = p") auto
  have "mem_start_brk h' = mem_start_brk h" using m(7) by (simp add: conserva_def)
  then have "sz \<le> n \<and> 16 dvd p \<and> mem_start_brk h \<le> p \<and> p + n \<le> mem_brk h'"
    using asignados_rango [OF m(3) V] ajuste_props(3) [OF assms(2)] m(6) by simp
  then show ?thesis using False m d by (simp (no_asm_use)) blast
qed

theorem mm_malloc_correct_witness:
  "\<exists>h0 p h1 bs n. mm_init heap_ejemplo = Some (1, h0) \<and> mm_malloc 100 h0 = Some (p, h1) \<and> p \<noteq> NULL \<and>
     mm_ok h1 bs \<and> asignados h1 bs = [p \<mapsto> n] \<and> 100 \<le> n \<and> 16 dvd p"
proof -
  obtain h0 where h0: "mm_init heap_ejemplo = Some (1, h0)" "mm_ok h0 [(4096, False)]" by (rule ejemplo_malloc)
  have "\<not> sin_lugar 100 h0 [(4096, False)]" by (simp add: sin_lugar_def ajuste_def)
  then show ?thesis using mm_malloc_correct [OF h0(2), of 100] h0(1) by (simp; blast)
qed

lemma malloc_primer_ajuste:
  assumes "mm_ok h bs" "0 < sz" "sz < 2 ^ 62" "primer_ajuste (ajuste sz) bs = Some (us, f, vs)"
  shows "\<exists>h'. mm_malloc (word_of_int sz) h = Some (inicio h + 16 + tam us, h') \<and> mem_brk h' = mem_brk h \<and>
    heap_ok h' (us @ poner (ajuste sz) f @ vs) \<and>
    bs = us @ (f, False) # vs \<and> ajuste sz \<le> f \<and> (\<forall>b \<in> set us. snd b \<or> fst b < ajuste sz)"
proof -
  have a: "32 \<le> ajuste sz" "16 dvd ajuste sz" "ajuste sz < 2 ^ 63"
    using ajuste_props [OF assms(2)] assms(3) by simp_all
  have k: "heap_ok h bs" "heap_listp h = inicio h" "bloques_ok bs" using assms(1) by (simp_all add: mm_ok_def)
  have bs: "bs = us @ (f, False) # vs" "ajuste sz \<le> f" using primer_ajuste_Some [OF assms(4)] by simp_all
  have pre: "\<forall>b \<in> set us. snd b \<or> fst b < ajuste sz" using primer_ajuste_antes [OF assms(4)] by blast
  let ?p = "inicio h + 16 + tam us"
  have e: "(16, True) # bs = ((16, True) # us) @ (f, False) # vs" using bs(1) by simp
  have p: "?p = inicio h + tam ((16, True) # us)" by simp
  obtain h' where "place ?p (word_of_int (ajuste sz)) h = Some h'" "heap_ok h' (us @ poner (ajuste sz) f @ vs)"
    "mem_brk h' = mem_brk h"
    using place_spec [OF k(1) e _ p _ bs(2) a(2), of "us @ poner (ajuste sz) f @ vs"] a(1) by auto
  moreover have "check_heap ?p h = Some h"
    using check_heap_ok heap_ok_seg(1,2,3) [OF k(1) e, folded p] by simp
  moreover have "?p \<noteq> NULL" using mm_ok_pos [OF assms(1)] bloques_ok_tam [of us] k(3) bs(1) by (simp add: NULL_def)
  moreover have "find_fit (word_of_int (ajuste sz)) h = Some (?p, h)"
    using find_fit_spec [OF k(1,2), of "ajuste sz"] a assms(4) by simp
  ultimately show ?thesis using mm_malloc_unfold [OF assms(1-3)] pre bs by simp
qed

text \<open>
  \<^verbatim>\<open>mm_malloc\<close> takes the free block of the lowest address that is large enough, without
  growing the heap; it splits the block when at least 32 bytes are left over.
\<close>

theorem mm_malloc_primer_ajuste:
  assumes "mm_ok h bs" "0 < sz" "sz < 2 ^ 62" "primer_ajuste (ajuste sz) bs = Some (us, f, vs)"
  shows "\<exists>h'. mm_malloc (word_of_int sz) h = Some (inicio h + 16 + tam us, h') \<and> mem_brk h' = mem_brk h \<and>
    heap_ok h' (us @ poner (ajuste sz) f @ vs) \<and>
    bs = us @ (f, False) # vs \<and> ajuste sz \<le> f \<and> (\<forall>b \<in> set us. snd b \<or> fst b < ajuste sz)"
  by (rule malloc_primer_ajuste [OF assms])

theorem mm_malloc_primer_ajuste_witness:
  "\<exists>h0 h1. mm_init heap_ejemplo = Some (1, h0) \<and> mm_malloc 100 h0 = Some (inicio h0 + 16, h1) \<and>
     heap_ok h1 [(128, True), (3968, False)]"
proof -
  obtain h0 where h0: "mm_init heap_ejemplo = Some (1, h0)" "mm_ok h0 [(4096, False)]" by (rule ejemplo_malloc)
  have "primer_ajuste (ajuste 100) [(4096, False)] = Some ([], 4096, [])" by (simp add: ajuste_def)
  from mm_malloc_primer_ajuste [OF h0(2) _ _ this] show ?thesis
    using h0(1) by (auto simp: poner_def ajuste_def)
qed

text \<open>
  \<^verbatim>\<open>mm_free\<close> of an allocated payload takes exactly that one out: it ends, every other payload
  keeps its place and its bytes, the free block is joined with its free neighbours (the invariant
  has no two of them side by side, and the blocks are those of \<open>libera_lista\<close>), the heap does not grow and nothing is printed.
\<close>

theorem mm_free_correct:
  assumes "mm_ok h bs" "asignados h bs p = Some n"
  shows "\<exists>h' bs'. mm_free p h = Some h' \<and> mm_ok h' bs' \<and> libera_lista (inicio h + 16) p bs = Some bs' \<and> asignados h' bs' = (asignados h bs)(p := None) \<and>
    conserva h h' ((asignados h bs)(p := None)) \<and> mem_brk h' = mem_brk h \<and> impreso h' = impreso h"
  using liberar_spec [OF assms] by metis

theorem mm_free_correct_witness:
  "\<exists>h0 p h1 h2 bs. mm_init heap_ejemplo = Some (1, h0) \<and> mm_malloc 100 h0 = Some (p, h1) \<and>
     mm_free p h1 = Some h2 \<and> mm_ok h2 bs \<and> asignados h2 bs = Map.empty"
proof -
  obtain h0 p h bs n where m: "mm_init heap_ejemplo = Some (1, h0)" "mm_malloc 100 h0 = Some (p, h)"
    "mm_ok h bs" "asignados h bs = [p \<mapsto> n]" by (rule ejemplo_malloc)
  then have "asignados h bs p = Some n" by simp
  from mm_free_correct [OF m(3) this] show ?thesis using m by auto
qed

text \<open>
  C4. \<^verbatim>\<open>mm_realloc\<close> of an allocated payload. Without memory for the new size it returns \<open>NULL\<close> and
  the old payload stays as it was. Otherwise the new payload replaces the old one, holds the bytes of
  the old one up to the smaller of the old capacity and the new size, and all other payloads keep
  their bytes. Address and blocks are those of \<open>cambia_lista\<close>.
\<close>

theorem mm_realloc_correct:
  assumes "mm_ok h bs" "asignados h bs p = Some n" "0 < sz" "sz \<le> 2 ^ 32 - 32"
  shows "if sin_lugar sz h bs
    then mm_realloc p (word_of_int sz) h = Some (NULL, h\<lparr>impreso := impreso h @ [Sin_memoria]\<rparr>)
    else \<exists>q h' bs' m. mm_realloc p (word_of_int sz) h = Some (q, h') \<and> q \<noteq> NULL \<and> mm_ok h' bs' \<and>
      cambia_lista (inicio h + 16) p sz bs = Some (q, bs') \<and> asignados h' bs' = (asignados h bs)(p := None, q \<mapsto> m) \<and> sz \<le> m \<and>
      (\<forall>i. 0 \<le> i \<and> i < min n sz \<longrightarrow> bytes h' (q + i) = bytes h (p + i)) \<and>
      conserva h h' ((asignados h bs)(p := None)) \<and> impreso h' = impreso h"
proof (cases "sin_lugar sz h bs")
  case True
  then show ?thesis using mm_realloc_spec(1) [OF assms] by simp
next
  case False
  have "sz \<le> m" if "ajuste sz - 16 \<le> m" for m using ajuste_props(3) [OF assms(3)] that by simp
  with mm_realloc_spec(2) [OF assms False] False show ?thesis by (simp (no_asm_use)) metis
qed

theorem mm_realloc_correct_witness:
  "\<exists>h0 p h1 q h2 bs m. mm_init heap_ejemplo = Some (1, h0) \<and> mm_malloc 100 h0 = Some (p, h1) \<and>
     mm_realloc p 3000 h1 = Some (q, h2) \<and> mm_ok h2 bs \<and> asignados h2 bs = [q \<mapsto> m] \<and> 3000 \<le> m \<and>
     (\<forall>i. 0 \<le> i \<and> i < 100 \<longrightarrow> bytes h2 (q + i) = bytes h1 (p + i))"
proof -
  obtain h0 p h bs n where m: "mm_init heap_ejemplo = Some (1, h0)" "mm_malloc 100 h0 = Some (p, h)"
    "mm_ok h bs" "asignados h bs = [p \<mapsto> n]" "100 \<le> n" "mem_brk h = 8224" "mem_max_addr h = 4096 + MAX_HEAP"
    by (rule ejemplo_malloc) auto
  then have "asignados h bs p = Some n" "\<not> sin_lugar 3000 h bs"
    by (simp_all add: sin_lugar_def ajuste_def MAX_HEAP_def)
  from mm_realloc_correct [OF m(3) this(1), of 3000] this(2) m(4)
  obtain q h' bs' k where "mm_realloc p 3000 h = Some (q, h')" "mm_ok h' bs'"
    "asignados h' bs' = [q \<mapsto> k]" "3000 \<le> k" "\<forall>i. 0 \<le> i \<and> i < min n 3000 \<longrightarrow> bytes h' (q + i) = bytes h (p + i)"
    by auto
  then show ?thesis using m by force
qed

subsection \<open>Requests it does not handle\<close>

text \<open>
  When the area has no room for the first 32 bytes, \<^verbatim>\<open>mm_init\<close> returns 0, which the driver does
  not take for a failure (it tests for a negative value), and leaves \<^verbatim>\<open>(void *) -1\<close> in
  \<^verbatim>\<open>heap_listp\<close>: the next \<^verbatim>\<open>mm_malloc\<close> does not initialise the heap again and reads through that
  pointer.
\<close>

theorem mm_init_sin_lugar:
  assumes "area h" "mem_brk h + 32 > mem_max_addr h" "sz \<noteq> 0"
  shows "\<exists>h'. mm_init h = Some (0, h') \<and> heap_listp h' = SBRK_FAILED \<and> mm_malloc sz h' = None"
proof -
  let ?h = "h\<lparr>impreso := impreso h @ [Sin_memoria], heap_listp := SBRK_FAILED\<rparr>"
  have i: "mm_init h = Some (0, ?h)"
    using assms(2) by (simp add: mm_init_def mem_sbrk_def WSIZE_def)
  have "\<not> en_area h (SBRK_FAILED - 8) 8"
    using assms(1) by (simp add: en_area_def area_def SBRK_FAILED_def MAX_HEAP_def)
  then have "find_fit a ?h = None" for a
    by (simp add: find_fit_def block_size_def obtener_word_def cargar64_def obtener_header_def WSIZE_def)
  moreover have "heap_listp ?h \<noteq> NULL" by (simp add: SBRK_FAILED_def NULL_def)
  ultimately have "mm_malloc sz ?h = None" using assms(3) by (simp add: mm_malloc_def Let_def)
  then show ?thesis using i by simp
qed

theorem mm_init_sin_lugar_witness:
  "\<exists>h h'. mem_brk h = mem_max_addr h \<and> mm_init h = Some (0, h') \<and> mm_malloc 1 h' = None"
proof -
  let ?h = "heap_ejemplo\<lparr>mem_brk := 4096 + MAX_HEAP\<rparr>"
  have "area ?h" using area_ejemplo(1) by (simp add: area_def)
  moreover have "mem_brk ?h + 32 > mem_max_addr ?h" "mem_brk ?h = mem_max_addr ?h" by (simp_all add: heap_ejemplo_def)
  moreover obtain h' where "mm_init ?h = Some (0, h')" "mm_malloc 1 h' = None"
    using mm_init_sin_lugar [OF calculation(1,2), of 1] by auto
  ultimately show ?thesis by blast
qed

text \<open>
  C36. The rounding of \<^verbatim>\<open>mm_malloc\<close> wraps for the 31 largest sizes. A request of \<open>2 ^ 64 - k\<close> bytes
  with \<open>k\<close> at most 15 is served with a block of 16 bytes, whose payload is empty, when a block of at
  least 48 bytes comes first among the free ones.
\<close>

theorem mm_malloc_desborda:
  assumes "mm_ok h bs" "0 < k" "k \<le> 15" "primer_ajuste 16 bs = Some (us, f, vs)" "48 \<le> f"
  shows "\<exists>h'. mm_malloc (- word_of_int k) h = Some (inicio h + 16 + tam us, h') \<and>
    heap_ok h' (us @ (16, True) # (f - 16, False) # vs)"
proof -
  have ad: "adjusted_size_of (- word_of_int k) = (word_of_int 16 :: u64)"
  proof -
    have "k = 1 \<or> k = 2 \<or> k = 3 \<or> k = 4 \<or> k = 5 \<or> k = 6 \<or> k = 7 \<or> k = 8 \<or> k = 9 \<or> k = 10 \<or> k = 11 \<or>
      k = 12 \<or> k = 13 \<or> k = 14 \<or> k = 15" using assms(2,3) by arith
    moreover have "(- word_of_int k :: u64) = word_of_int (2 ^ 64 - k)" by simp
    moreover have "\<not> (- 1 :: u64) \<le> 16" by (simp add: word_le_def unsigned_minus_1_eq_mask mask_eq_exp_minus_1)
    ultimately show ?thesis unfolding adjusted_size_of_def by (elim disjE) simp_all
  qed
  have nz: "(- word_of_int k :: u64) \<noteq> 0"
  proof
    assume "(- word_of_int k :: u64) = 0"
    then have "uint (word_of_int k :: u64) = 0" by simp
    then show False using assms(2,3) by simp
  qed
  have k: "heap_ok h bs" "heap_listp h = inicio h" "bloques_ok bs" using assms(1) by (simp_all add: mm_ok_def)
  have bs: "bs = us @ (f, False) # vs" "16 \<le> f" using primer_ajuste_Some [OF assms(4)] by simp_all
  let ?p = "inicio h + 16 + tam us"
  have e: "(16, True) # bs = ((16, True) # us) @ (f, False) # vs" using bs(1) by simp
  have p: "?p = inicio h + tam ((16, True) # us)" by simp
  obtain h' where "place ?p (word_of_int 16) h = Some h'" "heap_ok h' (us @ poner 16 f @ vs)"
    using place_spec [OF k(1) e _ p _ bs(2), of "us @ poner 16 f @ vs"] by auto
  moreover have "check_heap ?p h = Some h"
    using check_heap_ok heap_ok_seg(1,2,3) [OF k(1) e, folded p] by simp
  moreover have "?p \<noteq> NULL" using mm_ok_pos [OF assms(1)] bloques_ok_tam [of us] k(3) bs(1) by (simp add: NULL_def)
  moreover have "find_fit (word_of_int 16) h = Some (?p, h)"
    using find_fit_spec [OF k(1,2), of 16] assms(4) by simp
  ultimately show ?thesis
    using nz k(2) mm_ok_pos [OF assms(1)] assms(5)
    by (simp add: mm_malloc_def Let_def ad NULL_def poner_def del: word_of_int_numeral)
qed

theorem mm_malloc_desborda_witness:
  "\<exists>h0 h1. mm_init heap_ejemplo = Some (1, h0) \<and> mm_malloc (- 1) h0 = Some (inicio h0 + 16, h1) \<and>
     heap_ok h1 [(16, True), (4080, False)]"
proof -
  obtain h0 where h0: "mm_init heap_ejemplo = Some (1, h0)" "mm_ok h0 [(4096, False)]" by (rule ejemplo_malloc)
  show ?thesis using mm_malloc_desborda [OF h0(2), of 1 "[]" 4096 "[]"] h0(1) by simp
qed

text \<open>
  C37. \<^verbatim>\<open>mem_sbrk\<close> takes an \<^verbatim>\<open>int\<close>: of a request of \<open>2 ^ 32\<close> bytes and more only the low 32 bits of the
  size arrive. When the area has room for that much, \<^verbatim>\<open>extend_heap\<close> goes on with the full size and
  writes the footer of the new block outside the area.
\<close>

theorem mm_malloc_trunca:
  assumes "mm_ok h bs" "2 ^ 32 \<le> sz" "sz < 2 ^ 62" "mem_brk h + ajuste sz mod 2 ^ 32 \<le> mem_max_addr h"
  shows "mm_malloc (word_of_int sz) h = None"
proof -
  define e where "e = ajuste sz"
  have e: "2 ^ 32 \<le> e" "16 dvd e" "e < 2 ^ 63" "0 \<le> e" using ajuste_props [of sz] assms(2,3) by (simp_all add: e_def)
  have k: "heap_ok h bs" "heap_listp h = inicio h" "bloques_ok bs" using assms(1) by (simp_all add: mm_ok_def)
  have a: "area h" "mem_brk h \<le> mem_max_addr h" using k(1) by (simp_all add: heap_ok_def)
  note b = heap_ok_brk [OF k(1)]
  have "primer_ajuste e bs = None"
  proof (rule ccontr)
    assume "primer_ajuste e bs \<noteq> None"
    then obtain us f vs where "primer_ajuste e bs = Some (us, f, vs)" by (metis not_None_eq prod_cases3)
    then have "bs = us @ (f, False) # vs" "e \<le> f" using primer_ajuste_Some by auto
    then have "e \<le> tam bs" using bloques_ok_tam [of us] bloques_ok_tam [of vs] k(3) by simp
    then show False using b a e(1) by (simp add: area_def inicio_def MAX_HEAP_def)
  qed
  then have ff: "find_fit (word_of_int e) h = Some (NULL, h)" using find_fit_spec [OF k(1,2) e(4,3)] by simp
  have mx: "max e 4096 = e" using e(1) by simp
  have r: "to_int32 e = e mod 2 ^ 32" "0 \<le> e mod 2 ^ 32" "mem_brk h + e mod 2 ^ 32 \<le> mem_max_addr h"
  proof -
    show "0 \<le> e mod 2 ^ 32" "mem_brk h + e mod 2 ^ 32 \<le> mem_max_addr h" using assms(4) by (simp_all add: e_def)
    then have "e mod 2 ^ 32 < 2 ^ 31" using b a by (simp add: area_def inicio_def MAX_HEAP_def)
    then show "to_int32 e = e mod 2 ^ 32"
      using to_int32_small [of "e mod 2 ^ 32"] to_int32_mod [of e] by simp
  qed
  define h1 where "h1 = h\<lparr>mem_brk := mem_brk h + e mod 2 ^ 32\<rparr>"
  have s: "mem_sbrk (to_int32 (uint (word_of_int e :: u64))) h = (mem_brk h, h1)"
    using r e pos_mod_sign [of "4294967296" e] by (simp add: mem_sbrk_def h1_def not_less [symmetric] del: uint_word_of_int)
  have nf: "mem_brk h \<noteq> SBRK_FAILED"
    using a b by (simp add: area_def inicio_def SBRK_FAILED_def MAX_HEAP_def)
  have w: "escribir_header (mem_brk h - 8) (marca e False) h1 = Some (h1\<lparr>bytes := wr64 (mem_brk h - 8) (marca e False) (bytes h1)\<rparr>)"
    using a b by (simp add: escribir_header_def guardar64_def h1_def en_area_def inicio_def)
  have "obtener_footer (mem_brk h) (h1\<lparr>bytes := wr64 (mem_brk h - 8) (marca e False) (bytes h1)\<rparr>) =
      Some (mem_brk h + e - 16)"
    using a b e
    by (simp add: obtener_footer_def obtener_header_def block_size_def obtener_word_def cargar64_def h1_def en_area_def
        inicio_def WSIZE_def DSIZE_def del: uint_word_of_int)
  moreover have "escribir_header (mem_brk h + e - 16) v (h1\<lparr>bytes := m\<rparr>) = None" for v m
    using a b e(1) by (simp add: escribir_header_def guardar64_def h1_def en_area_def inicio_def area_def MAX_HEAP_def)
  ultimately have "extend_heap (word_of_int e div 8) h = None"
    using palabras [OF e(2,4,3)] s nf w
    by (simp add: extend_heap_def Let_def obtener_header_def WSIZE_def del: uint_word_of_int)
  then show ?thesis
    using mm_malloc_unfold [OF assms(1) _ assms(3)] assms(2) ff mx
    by (simp add: e_def [symmetric])
qed

theorem mm_malloc_trunca_witness:
  "\<exists>h0. mm_init heap_ejemplo = Some (1, h0) \<and> mm_malloc (2 ^ 32) h0 = None"
proof -
  obtain h0 where h0: "mm_init heap_ejemplo = Some (1, h0)" "mm_ok h0 [(4096, False)]" "mem_brk h0 = 8224"
    "mem_max_addr h0 = 4096 + MAX_HEAP" by (rule ejemplo_malloc) auto
  have "mm_malloc (word_of_int (2 ^ 32)) h0 = None"
    by (rule mm_malloc_trunca [OF h0(2)]) (simp_all add: h0 ajuste_def MAX_HEAP_def)
  then show ?thesis using h0(1) by simp
qed

subsection \<open>The allocator keeps the laws of the interface\<close>

definition mm_asignador :: asignador_t where
  "mm_asignador = \<lparr>init_f = mm_init, malloc_f = mm_malloc, free_f = mm_free, realloc_f = mm_realloc\<rparr>"

definition mm_crece :: "int \<Rightarrow> int" where
  "mm_crece sz = max (ajuste sz) 4096"

lemma sin_lugar_crece:
  assumes "mm_ok h bs" "sin_lugar sz h bs"
  shows "MAX_HEAP < mem_heapsize h + mm_crece sz"
  using assms by (simp add: sin_lugar_def mm_ok_def heap_ok_def area_def mem_heapsize_def mm_crece_def)

definition mm_inv :: "heap_t \<Rightarrow> (addr \<rightharpoonup> int) \<Rightarrow> bool" where
  "mm_inv h V \<longleftrightarrow> (\<exists>bs. mm_ok h bs \<and> V = asignados h bs)"

text \<open>A message on standard error changes nothing.\<close>

lemma mm_inv_impreso:
  "mm_inv h V \<Longrightarrow> mm_inv (h\<lparr>impreso := ms\<rparr>) V"
  "conserva h (h\<lparr>impreso := ms\<rparr>) V" "mem_heapsize (h\<lparr>impreso := ms\<rparr>) = mem_heapsize h"
proof -
  have s: "seg h p bs q \<Longrightarrow> seg (h\<lparr>impreso := ms\<rparr>) p bs q" for p bs q by (erule seg_cong) simp
  have "mm_ok h bs \<Longrightarrow> mm_ok (h\<lparr>impreso := ms\<rparr>) bs" for bs
    using s [of "inicio h" "(16, True) # bs" "mem_brk h"]
    by (simp add: mm_ok_def heap_ok_def area_def inicio_def del: seg.simps)
  moreover have "asignados (h\<lparr>impreso := ms\<rparr>) bs = asignados h bs" for bs by (simp add: asignados_def inicio_def)
  ultimately show "mm_inv h V \<Longrightarrow> mm_inv (h\<lparr>impreso := ms\<rparr>) V" by (metis mm_inv_def)
qed (simp_all add: conserva_def mismos_def mem_heapsize_def)

interpretation mm: asignador mm_asignador mm_inv mm_crece 4128
proof (standard, goal_cases)
  case (1 sz)
  then show ?case by (simp add: mm_crece_def)
next
  case (2 h)
  obtain h' where h': "mm_init h = Some (1, h')" "mm_ok h' [(4096, False)]" "mem_heapsize h' \<le> 4128"
    using mm_init_ok [OF 2] by (auto simp: mem_heapsize_def)
  then have "mm_inv h' Map.empty" unfolding mm_inv_def by (intro exI [of _ "[(4096, False)]"]) simp
  then show ?case using h'(1,3) by (simp add: mm_asignador_def)
next
  case (3 h V sz)
  then obtain bs where ok: "mm_ok h bs" "V = asignados h bs" by (auto simp: mm_inv_def)
  show ?case
  proof (cases "sin_lugar sz h bs")
    case True
    then show ?thesis
      using mm_malloc_spec(1) [OF ok(1) 3(2)] 3(1,3) sin_lugar_crece [OF ok(1) True] mm_inv_impreso by (simp add: mm_asignador_def)
  next
    case False
    with mm_malloc_spec(2) [OF ok(1) 3(2)] 3(3) obtain p h' bs' n
      where m: "mm_malloc (word_of_int sz) h = Some (p, h')" "mm_ok h' bs'" "V p = None"
        "asignados h' bs' = V(p \<mapsto> n)" "ajuste sz - 16 \<le> n" "conserva h h' V" "p \<noteq> NULL"
        "mem_brk h' \<le> mem_brk h + mm_crece sz" using ok(2) by (auto simp: mm_crece_def)
    have "sz \<le> n" using ajuste_props(3) [OF 3(2)] m(5) by simp
    moreover have "mm_inv h' (V(p \<mapsto> n))" using m(2,4) by (auto simp: mm_inv_def)
    moreover have "mem_heapsize h' \<le> mem_heapsize h + mm_crece sz"
      using m(6,8) by (simp add: mem_heapsize_def conserva_def)
    ultimately show ?thesis using m by (auto simp: mm_asignador_def)
  qed
next
  case (4 h V p n)
  then obtain bs where ok: "mm_ok h bs" "V = asignados h bs" by (auto simp: mm_inv_def)
  obtain h' bs' where f: "mm_free p h = Some h'" "mm_ok h' bs'" "asignados h' bs' = V(p := None)"
    "conserva h h' (V(p := None))" "mem_brk h' = mem_brk h"
    using liberar_spec [OF ok(1), of p n] 4(2) ok(2) by metis
  then have "mm_inv h' (V(p := None))" by (metis mm_inv_def)
  moreover have "mem_heapsize h' = mem_heapsize h" using f(4,5) by (simp add: mem_heapsize_def conserva_def)
  ultimately show ?case using f by (simp add: mm_asignador_def)
next
  case (5 h V p n sz)
  then obtain bs where ok: "mm_ok h bs" "V = asignados h bs" by (auto simp: mm_inv_def)
  then have V: "asignados h bs p = Some n" using 5(2) by simp
  show ?case
  proof (cases "sin_lugar sz h bs")
    case True
    then show ?thesis
      using mm_realloc_spec(1) [OF ok(1) V 5(3)] 5(1,4) sin_lugar_crece [OF ok(1) True] mm_inv_impreso by (simp add: mm_asignador_def)
  next
    case False
    with mm_realloc_spec(2) [OF ok(1) V 5(3)] 5(4) obtain q h' bs' m
      where m: "mm_realloc p (word_of_int sz) h = Some (q, h')" "mm_ok h' bs'" "V q = None"
        "asignados h' bs' = V(p := None, q \<mapsto> m)" "ajuste sz - 16 \<le> m"
        "\<forall>i. 0 \<le> i \<and> i < min n sz \<longrightarrow> bytes h' (q + i) = bytes h (p + i)" "conserva h h' (V(p := None))" "q \<noteq> NULL"
        "mem_brk h' \<le> mem_brk h + mm_crece sz" using ok(2) by (auto simp: mm_crece_def)
    have "sz \<le> m" using ajuste_props(3) [OF 5(3)] m(5) by simp
    moreover have "mm_inv h' (V(p := None, q \<mapsto> m))" using m(2,4) by (metis mm_inv_def)
    moreover have "(V(p := None)) q = None" using m(3) by simp
    moreover have "mem_heapsize h' \<le> mem_heapsize h + mm_crece sz"
      using m(7,9) by (simp add: mem_heapsize_def conserva_def)
    ultimately show ?thesis using m(1,6-8) by (simp add: mm_asignador_def) blast
  qed
next
  case (6 h V p n)
  then obtain bs where ok: "mm_ok h bs" "asignados h bs p = Some n" by (auto simp: mm_inv_def)
  note r = asignados_rango [OF ok]
  have "8 dvd p" using r(3) by (rule dvd_trans [rotated]) simp
  then show ?case using r by simp
next
  case (7 h V p m q n)
  then obtain bs where "mm_ok h bs" "asignados h bs p = Some m" "asignados h bs q = Some n" by (auto simp: mm_inv_def)
  from asignados_disjuntas [OF this 7(4)] show ?case by auto
next
  case (8 h V q m h')
  then obtain bs where "mm_ok h bs" "asignados h bs q = Some m" "V = asignados h bs" by (auto simp: mm_inv_def)
  with mm_ok_escribir(1,2) [OF this(1,2) 8(3,4)] show ?case by (metis mm_inv_def)
next
  case (9 h V)
  then obtain bs where "heap_ok h bs" by (auto simp: mm_inv_def mm_ok_def)
  with heap_ok_brk [OF this] show ?case by (simp add: heap_ok_def inicio_def)
qed

subsection \<open>A client that frees everything\<close>

lemma carga_vacia: "carga p bs = Map.empty \<Longrightarrow> \<forall>b \<in> set bs. \<not> snd b"
  by (induction p bs rule: carga.induct) (auto split: if_splits)

text \<open>With nothing allocated, the heap is one free block: no two free blocks are neighbours.\<close>

lemma mm_ok_vacia:
  assumes "mm_ok h bs" "asignados h bs = Map.empty"
  shows "bs = [] \<or> bs = [(mem_heapsize h - 32, False)]"
proof -
  have free: "\<forall>b \<in> set bs. \<not> snd b" using assms(2) by (auto simp: asignados_def dest: carga_vacia)
  have f: "fundido bs" using assms(1) by (simp add: mm_ok_def fundido_Cons)
  have t: "mem_heapsize h = 32 + tam bs"
    using assms(1) seg_end [of h "inicio h" "(16, True) # bs" "mem_brk h"]
    by (simp add: mm_ok_def heap_ok_def mem_heapsize_def inicio_def)
  show ?thesis
  proof (cases bs)
    case (Cons b cs)
    then have "cs = []" using f free by (cases cs) (auto simp: fundido_Cons)
    then show ?thesis using Cons t free by (cases b) auto
  qed simp
qed

lemma mm_malloc_vacia:
  assumes "mm_inv h Map.empty" "0 < sz" "sz \<le> mem_heapsize h - 48"
  shows "\<exists>p h'. mm_malloc (word_of_int sz) h = Some (p, h') \<and> p \<noteq> NULL \<and> mem_heapsize h' = mem_heapsize h"
proof -
  obtain bs where ok: "mm_ok h bs" "asignados h bs = Map.empty" using assms(1) by (metis mm_inv_def)
  let ?n = "mem_heapsize h - 32"
  have t: "mem_heapsize h = 32 + tam bs" "area h" "mem_brk h \<le> mem_max_addr h" "bloques_ok bs"
    using ok(1) seg_end [of h "inicio h" "(16, True) # bs" "mem_brk h"]
    by (simp_all add: mm_ok_def heap_ok_def mem_heapsize_def inicio_def)
  then have bs: "bs = [(?n, False)]" using mm_ok_vacia [OF ok] assms(2,3) by auto
  then have "16 dvd ?n" using t(4) by (metis bloques_ok_simps(2) fst_conv)
  moreover have "32 \<le> ?n" using t(4) bs by (metis bloques_ok_simps(2) fst_conv)
  ultimately have "ajuste sz \<le> ?n" using assms(3) by (intro ajuste_minimo) simp_all
  then have "primer_ajuste (ajuste sz) bs = Some ([], ?n, [])" by (subst bs) simp
  moreover have small: "sz < 2 ^ 31" using t(2,3) assms(3) by (simp add: area_def mem_heapsize_def MAX_HEAP_def)
  ultimately obtain h' where h': "mm_malloc (word_of_int sz) h = Some (inicio h + 16, h')" "mem_brk h' = mem_brk h"
    using malloc_primer_ajuste [OF ok(1) assms(2), of "[]" ?n "[]"] by auto
  have p: "inicio h + 16 \<noteq> NULL" using mm_ok_pos [OF ok(1)] by (simp add: NULL_def)
  then have "conserva h h' Map.empty"
    using mm.malloc_total [OF assms(1,2) small] h'(1) by (auto simp: mm_asignador_def)
  then have "mem_heapsize h' = mem_heapsize h" using h'(2) by (simp add: conserva_def mem_heapsize_def)
  then show ?thesis using h'(1) p by blast
qed

text \<open>
  C9. Nothing is lost to fragmentation. Whatever a client of \<^verbatim>\<open>mm.c\<close> has done before, once it has freed all its payloads
  the heap is a single free block again, so a request for any number of bytes up to the whole heap without the
  48 bytes of the tags succeeds, and without growing the heap.
\<close>

theorem mm_libera_todo:
  assumes "area h0" "mem_brk h0 = mem_start_brk h0" "mm_init h0 = Some (r, h1)"
    "corre (paso mm_asignador) (h1, Map.empty) es (h, Map.empty)" "0 < sz" "sz \<le> mem_heapsize h - 48"
  shows "\<exists>p h'. mm_malloc (word_of_int sz) h = Some (p, h') \<and> p \<noteq> NULL \<and> mem_heapsize h' = mem_heapsize h"
proof -
  have "mm_inv h1 Map.empty" using mm.init [OF assms(1,2)] assms(3) by (auto simp: mm_asignador_def)
  then have "cuadra mm_inv (h1, Map.empty)" by (intro cuadraI [where V = Map.empty]) simp_all
  then have "cuadra mm_inv (h, Map.empty)" using mm.corre_simula [OF assms(4)] by blast
  then have "mm_inv h Map.empty" by (auto simp: cuadra_def)
  then show ?thesis using assms(5,6) by (rule mm_malloc_vacia)
qed

text \<open>The heap after \<^verbatim>\<open>mm_init\<close> has 4128 bytes, of which a payload can take 4080.\<close>

theorem mm_libera_todo_witness:
  "\<exists>h0 p h'. mm_init heap_ejemplo = Some (1, h0) \<and> mm_malloc 4080 h0 = Some (p, h') \<and> p \<noteq> NULL \<and> mem_heapsize h' = 4128"
proof -
  obtain h0 where h0: "mm_init heap_ejemplo = Some (1, h0)" "mm_ok h0 [(4096, False)]" "mem_brk h0 = 8224"
    "mem_max_addr h0 = 4096 + MAX_HEAP" by (rule ejemplo_malloc) auto
  then have "mem_heapsize h0 = 4128" by (simp add: mem_heapsize_def mm_ok_def heap_ok_def area_def)
  then show ?thesis using mm_libera_todo [OF area_ejemplo h0(1), of "[]" h0 4080] h0(1) by simp
qed

end
