(* ===== verification/Mdriver_Medida.thy ===== *)
theory Mdriver_Medida
  imports Mdriver_Util
begin

text \<open>
  The size of the heap that the driver divides by, exactly: for an allocator that a model without memory
  describes, \<^verbatim>\<open>eval_mm_util\<close> ends with the size that the model has after the requests of the trace.
\<close>

subsection \<open>Models\<close>

text \<open>
  A model has a state instead of a heap and addresses counted from the start of the area. A call that has no answer
  fails.
\<close>

record 'e modelo =
  ini_m :: 'e
  pide_m :: "int \<Rightarrow> 'e \<Rightarrow> (int \<times> 'e) option"
  libera_m :: "int \<Rightarrow> 'e \<Rightarrow> 'e option"
  cambia_m :: "int \<Rightarrow> int \<Rightarrow> 'e \<Rightarrow> (int \<times> 'e) option"
  mide_m :: "'e \<Rightarrow> int"

text \<open>The requests of a trace, with the table of the addresses of the indices.\<close>

definition atiende_op :: "'e modelo \<Rightarrow> traceop_t \<Rightarrow> (int \<Rightarrow> int) \<times> 'e \<Rightarrow> ((int \<Rightarrow> int) \<times> 'e) option" where
  "atiende_op M r s =
     (case s of (tab, e) \<Rightarrow>
        case op_type r of
          ALLOC \<Rightarrow> map_option (\<lambda>(p, e). (tab(op_index r := p), e)) (pide_m M (op_size r) e)
        | REALLOC \<Rightarrow> map_option (\<lambda>(p, e). (tab(op_index r := p), e)) (cambia_m M (tab (op_index r)) (op_size r) e)
        | FREE \<Rightarrow> map_option (Pair tab) (libera_m M (tab (op_index r)) e))"

fun recorre :: "'e modelo \<Rightarrow> traceop_t list \<Rightarrow> (int \<Rightarrow> int) \<times> 'e \<Rightarrow> ((int \<Rightarrow> int) \<times> 'e) option" where
  "recorre M [] s = Some s"
| "recorre M (r # rs) s = (case atiende_op M r s of None \<Rightarrow> None | Some s \<Rightarrow> recorre M rs s)"

definition medida :: "'e modelo \<Rightarrow> traceop_t list \<Rightarrow> int" where
  "medida M rs = (case recorre M rs (\<lambda>_. 0, ini_m M) of None \<Rightarrow> 0 | Some (tab, e) \<Rightarrow> mide_m M e)"

subsection \<open>The interface\<close>

text \<open>
  \<open>rep e h V\<close>: the state \<open>e\<close> describes the heap \<open>h\<close> with the payloads \<open>V\<close>. Each call that succeeds is answered by the model with the
  same address, and the size of the heap is the one of the model.
\<close>

locale asignador_medido = asignador +
  fixes M :: "'e modelo" and rep :: "'e \<Rightarrow> heap_t \<Rightarrow> (addr \<rightharpoonup> int) \<Rightarrow> bool"
  assumes rep_init: "area h \<Longrightarrow> mem_brk h = mem_start_brk h \<Longrightarrow> init_f A h = Some (r, h') \<Longrightarrow> rep (ini_m M) h' Map.empty"
    and rep_malloc: "rep e h V \<Longrightarrow> 0 < sz \<Longrightarrow> sz < 2 ^ 31 \<Longrightarrow> malloc_f A (word_of_int sz) h = Some (p, h') \<Longrightarrow> p \<noteq> NULL \<Longrightarrow>
      \<exists>e' n. pide_m M sz e = Some (p - mem_start_brk h, e') \<and> V p = None \<and> rep e' h' (V(p \<mapsto> n)) \<and>
        mem_start_brk h' = mem_start_brk h"
    and rep_free: "rep e h V \<Longrightarrow> V p = Some n \<Longrightarrow> free_f A p h = Some h' \<Longrightarrow>
      \<exists>e'. libera_m M (p - mem_start_brk h) e = Some e' \<and> rep e' h' (V(p := None)) \<and> mem_start_brk h' = mem_start_brk h"
    and rep_realloc: "rep e h V \<Longrightarrow> V p = Some n \<Longrightarrow> 0 < sz \<Longrightarrow> sz < 2 ^ 31 \<Longrightarrow>
      realloc_f A p (word_of_int sz) h = Some (q, h') \<Longrightarrow> q \<noteq> NULL \<Longrightarrow>
      \<exists>e' m. cambia_m M (p - mem_start_brk h) sz e = Some (q - mem_start_brk h, e') \<and> (V(p := None)) q = None \<and>
        rep e' h' (V(p := None, q \<mapsto> m)) \<and> mem_start_brk h' = mem_start_brk h"
    and rep_mide: "rep e h V \<Longrightarrow> mem_heapsize h = mide_m M e"
begin

text \<open>The table of the model is the array of the driver.\<close>

definition sigue_a :: "int set \<Rightarrow> (int \<Rightarrow> int) \<times> 'e \<Rightarrow> driver_t \<Rightarrow> bool" where
  "sigue_a S s d \<longleftrightarrow> (case s of (tab, e) \<Rightarrow> tamanos_ok d \<and> (\<exists>V. rep e (heap d) V \<and>
     (\<forall>i \<in> S. 0 \<le> i \<and> fst (slots d i) = mem_start_brk (heap d) + tab i \<and> V (fst (slots d i)) \<noteq> None) \<and>
     inj_on (\<lambda>i. fst (slots d i)) S))"

lemma sigue_aI:
  "tamanos_ok d \<Longrightarrow> rep e (heap d) V \<Longrightarrow>
     (\<And>i. i \<in> S \<Longrightarrow> 0 \<le> i \<and> fst (slots d i) = mem_start_brk (heap d) + tab i \<and> V (fst (slots d i)) \<noteq> None) \<Longrightarrow>
     inj_on (\<lambda>i. fst (slots d i)) S \<Longrightarrow> sigue_a S (tab, e) d"
  unfolding sigue_a_def by blast

lemma sumar_total_d: "sumar_total n tot maxt d = Inr (d', tot', maxt') \<Longrightarrow> d' = d"
  by (auto simp: sumar_total_def Let_def split: if_splits)

text \<open>The payload of index \<open>i\<close> is now \<open>p\<close>; those of the other indices in \<open>S\<close> stay.\<close>

lemma sigue_nuevo:
  assumes s: "\<And>j. j \<in> S \<Longrightarrow> j \<noteq> i \<Longrightarrow> 0 \<le> j \<and> fst (slots d j) = mem_start_brk h + tab j \<and> W (fst (slots d j)) \<noteq> None"
    and inj: "inj_on (\<lambda>j. fst (slots d j)) (S - {i})" and W: "W p = None" "rep e' h' (W(p \<mapsto> n))"
    and i: "0 \<le> i" and d': "heap d' = h'" "tamanos_ok d'" "fst (slots d' i) = p"
      "\<And>j. 0 \<le> j \<Longrightarrow> j \<noteq> i \<Longrightarrow> slots d' j = slots d j" and h': "mem_start_brk h' = mem_start_brk h"
  shows "sigue_a (insert i S) (tab(i := p - mem_start_brk h), e') d'"
proof -
  have sl: "slots d' j = slots d j" if "j \<in> S" "j \<noteq> i" for j using d'(4) s that by blast
  have "inj_on (\<lambda>j. fst (slots d' j)) (S - {i})" using inj sl by (simp add: inj_on_def)
  moreover have "p \<notin> (\<lambda>j. fst (slots d' j)) ` (S - {i})" using s sl W(1) by fastforce
  ultimately have "inj_on (\<lambda>j. fst (slots d' j)) (insert i (S - {i}))" using d'(3) by (simp only: inj_on_insert) simp
  then have I: "inj_on (\<lambda>j. fst (slots d' j)) (insert i S)" by simp
  have J: "0 \<le> j \<and> fst (slots d' j) = mem_start_brk (heap d') + (tab(i := p - mem_start_brk h)) j \<and>
      (W(p \<mapsto> n)) (fst (slots d' j)) \<noteq> None" if "j \<in> insert i S" for j
    using that s [of j] sl [of j] d'(1,3) h' i by (cases "j = i") auto
  show ?thesis by (rule sigue_aI [where V = "W(p \<mapsto> n)", OF d'(2) _ J I]) (use W(2) d'(1) in simp_all)
qed

lemma util_op_sigue:
  assumes st: "sigue_a S s d" and ok: "traza_ok (num_ids (traza d)) S (r # rs)" "fresca S (r # rs)"
    and u: "util_op A r d tot maxt = Inr (d', tot', maxt')"
  defines "S' \<equiv> (case op_type r of ALLOC \<Rightarrow> insert (op_index r) S | REALLOC \<Rightarrow> S | FREE \<Rightarrow> S - {op_index r})"
  shows "\<exists>s'. atiende_op M r s = Some s' \<and> sigue_a S' s' d' \<and> igual_traza d d'"
proof -
  obtain tab e where s: "s = (tab, e)" by force
  let ?i = "op_index r" and ?b = "mem_start_brk (heap d)"
  obtain V where V: "tamanos_ok d" "rep e (heap d) V"
    "\<And>j. j \<in> S \<Longrightarrow> 0 \<le> j \<and> fst (slots d j) = ?b + tab j \<and> V (fst (slots d j)) \<noteq> None"
    "inj_on (\<lambda>j. fst (slots d j)) S"
    using st unfolding s sigue_a_def by auto
  have i: "0 \<le> ?i" "?i < num_ids (traza d)" using ok(1) by simp_all
  show ?thesis
  proof (cases "op_type r")
    case ALLOC
    have sz: "0 < op_size r" "op_size r < 2 ^ 31" "?i \<notin> S" using ok ALLOC by simp_all
    obtain p h where m: "malloc_f A (word_of_int (op_size r)) (heap d) = Some (p, h)" "p \<noteq> NULL"
      using u ALLOC by (auto simp: util_op_def Let_def luego_def desde_def split: option.splits if_splits)
    obtain e' n where e': "pide_m M (op_size r) e = Some (p - ?b, e')" "V p = None" "rep e' h (V(p \<mapsto> n))" "mem_start_brk h = ?b"
      using rep_malloc [OF V(2) sz(1,2) m] by blast
    have t: "tamanos_ok (d\<lparr>heap := h\<rparr>)" "?i < num_ids (traza (d\<lparr>heap := h\<rparr>))" using V(1) i by (simp_all add: tamanos_ok_def)
    obtain d1 where d1: "luego (anotar_bloque ?i p (d\<lparr>heap := h\<rparr>)) (\<lambda>d. luego (anotar_tamano ?i (op_size r) d) (\<lambda>d. sumar_total (op_size r) tot maxt d)) =
        sumar_total (op_size r) tot maxt d1"
      "heap d1 = heap (d\<lparr>heap := h\<rparr>)" "tamanos_ok d1" "igual_traza (d\<lparr>heap := h\<rparr>) d1" "slots d1 ?i = (p, word_of_int (op_size r))"
      "\<And>j. 0 \<le> j \<Longrightarrow> j \<noteq> ?i \<Longrightarrow> slots d1 j = slots (d\<lparr>heap := h\<rparr>) j"
      by (rule anotar [OF t(1) i(1) t(2), of p "op_size r" "\<lambda>d. sumar_total (op_size r) tot maxt d"]) auto
    have "d' = d1" using u ALLOC m d1(1) by (auto simp: util_op_def dest: sumar_total_d)
    moreover have "sigue_a (insert ?i S) (tab(?i := p - ?b), e') d1"
    proof (rule sigue_nuevo [of S ?i d _ _ V p e' h n])
      show "0 \<le> j \<and> fst (slots d j) = ?b + tab j \<and> V (fst (slots d j)) \<noteq> None" if "j \<in> S" for j using V(3) [OF that] .
    qed (use V(4) e' d1 i in \<open>auto simp: inj_on_diff\<close>)
    ultimately show ?thesis using ALLOC e'(1) d1(4) by (auto simp: s atiende_op_def S'_def igual_traza_def)
  next
    case REALLOC
    have sz: "0 < op_size r" "op_size r < 2 ^ 31" "?i \<in> S" using ok REALLOC by simp_all
    note le = leer_id [OF V(1) i]
    let ?p = "fst (slots d ?i)"
    obtain k where k: "V ?p = Some k" "?p - ?b = tab ?i" using V(3) [OF sz(3)] by auto
    obtain q h where m: "realloc_f A ?p (word_of_int (op_size r)) (heap d) = Some (q, h)" "q \<noteq> NULL"
      using u REALLOC le by (auto simp: util_op_def Let_def luego_def desde_def split: option.splits if_splits)
    obtain e' n where e': "cambia_m M (tab ?i) (op_size r) e = Some (q - ?b, e')" "(V(?p := None)) q = None"
      "rep e' h (V(?p := None, q \<mapsto> n))" "mem_start_brk h = ?b"
      using rep_realloc [OF V(2) k(1) sz(1,2) m] unfolding k(2) by blast
    have t: "tamanos_ok (d\<lparr>heap := h\<rparr>)" "?i < num_ids (traza (d\<lparr>heap := h\<rparr>))" using V(1) i by (simp_all add: tamanos_ok_def)
    let ?f = "\<lambda>x. if \<not> in_int (op_size r - to_int32 (uint (snd (slots d ?i)))) then Inl Indefinido
      else sumar_total (op_size r - to_int32 (uint (snd (slots d ?i)))) tot maxt x"
    obtain d1 where d1: "luego (anotar_bloque ?i q (d\<lparr>heap := h\<rparr>)) (\<lambda>x. luego (anotar_tamano ?i (op_size r) x) ?f) = ?f d1"
      "heap d1 = heap (d\<lparr>heap := h\<rparr>)" "tamanos_ok d1" "igual_traza (d\<lparr>heap := h\<rparr>) d1" "slots d1 ?i = (q, word_of_int (op_size r))"
      "\<And>j. 0 \<le> j \<Longrightarrow> j \<noteq> ?i \<Longrightarrow> slots d1 j = slots (d\<lparr>heap := h\<rparr>) j"
      by (rule anotar [OF t(1) i(1) t(2), of q "op_size r" ?f]) auto
    have "d' = d1" using u REALLOC m le d1(1) by (auto simp: util_op_def Let_def split: if_splits dest: sumar_total_d)
    moreover have "sigue_a (insert ?i S) (tab(?i := q - ?b), e') d1"
    proof (rule sigue_nuevo [of S ?i d _ _ "V(?p := None)" q e' h n])
      show "0 \<le> j \<and> fst (slots d j) = ?b + tab j \<and> (V(?p := None)) (fst (slots d j)) \<noteq> None" if "j \<in> S" "j \<noteq> ?i" for j
        using V(3) [OF that(1)] inj_onD [OF V(4) _ that(1) sz(3)] that(2) by auto
    qed (use V(4) e' d1 i in \<open>auto simp: inj_on_diff\<close>)
    moreover have "insert ?i S = S" using sz(3) by blast
    ultimately show ?thesis using REALLOC e'(1) d1(4) by (auto simp: s atiende_op_def S'_def igual_traza_def)
  next
    case FREE
    have iS: "?i \<in> S" using ok FREE by simp
    note le = leer_id [OF V(1) i]
    let ?p = "fst (slots d ?i)"
    obtain k where k: "V ?p = Some k" "?p - ?b = tab ?i" using V(3) [OF iS] by auto
    obtain h where m: "free_f A ?p (heap d) = Some h" "d' = d\<lparr>heap := h\<rparr>"
      using u FREE le by (auto simp: util_op_def Let_def luego_def desde_def split: option.splits if_splits)
    obtain e' where e': "libera_m M (tab ?i) e = Some e'" "rep e' h (V(?p := None))" "mem_start_brk h = ?b"
      using rep_free [OF V(2) k(1) m(1)] unfolding k(2) by blast
    have "sigue_a (S - {?i}) (tab, e') d'"
    proof (rule sigue_aI [where V = "V(?p := None)"])
      fix j assume j: "j \<in> S - {?i}"
      then have "fst (slots d j) \<noteq> ?p" using inj_onD [OF V(4), of j ?i] iS by auto
      then show "0 \<le> j \<and> fst (slots d' j) = mem_start_brk (heap d') + tab j \<and> (V(?p := None)) (fst (slots d' j)) \<noteq> None"
        using V(3) [of j] j e'(3) m(2) by auto
    qed (use V(1,4) e'(2) m(2) in \<open>auto simp: tamanos_ok_def inj_on_diff\<close>)
    then show ?thesis using FREE e'(1) m(2) by (simp add: s atiende_op_def S'_def igual_traza_def)
  qed
qed

lemma util_loop_sigue:
  assumes "sigue_a S s d" "traza_ok (num_ids (traza d)) S (drop i (ops (traza d)))"
    "fresca S (drop i (ops (traza d)))" "i + k = length (ops (traza d))"
    "util_loop A k i d tot maxt = Inr (d', tot', maxt')"
  shows "\<exists>s' S'. recorre M (drop i (ops (traza d))) s = Some s' \<and> sigue_a S' s' d'"
  using assms
proof (induction k arbitrary: i d S s tot maxt)
  case (Suc k)
  let ?os = "ops (traza d)"
  have i: "i < length ?os" using Suc.prems(4) by simp
  define r where "r = ?os ! i"
  have dr: "drop i ?os = r # drop (Suc i) ?os" using i by (simp add: r_def Cons_nth_drop_Suc)
  have op: "leer_op i d = Inr r" using i by (simp add: leer_op_def r_def)
  obtain d1 tot1 m1 where d1: "util_op A r d tot maxt = Inr (d1, tot1, m1)" "util_loop A k (Suc i) d1 tot1 m1 = Inr (d', tot', maxt')"
    using Suc.prems(5) op by (auto simp: luego_def split: sum.splits)
  define S' where "S' = (case op_type r of ALLOC \<Rightarrow> insert (op_index r) S | REALLOC \<Rightarrow> S | FREE \<Rightarrow> S - {op_index r})"
  have tr: "traza_ok (num_ids (traza d)) S' (drop (Suc i) ?os)" "fresca S' (drop (Suc i) ?os)"
    using Suc.prems(2,3) unfolding dr by (auto simp: S'_def split: tipo_op.splits)
  obtain s1 where s1: "atiende_op M r s = Some s1" "sigue_a S' s1 d1" "igual_traza d d1"
    using util_op_sigue [OF Suc.prems(1) Suc.prems(2,3) [unfolded dr] d1(1)] unfolding S'_def by blast
  have ig: "ops (traza d1) = ?os" "num_ids (traza d1) = num_ids (traza d)" using s1(3) by (simp_all add: igual_traza_def)
  show ?case
    using Suc.IH [OF s1(2) _ _ _ d1(2)] tr Suc.prems(4) s1(1) by (simp add: ig dr)
qed auto

lemma eval_mm_util_mide:
  assumes "area (heap d)" "tamanos_ok d" "num_ops (traza d) = int (length (ops (traza d)))"
    "traza_ok (num_ids (traza d)) {} (ops (traza d))" "fresca {} (ops (traza d))"
    "eval_mm_util A d = Inr (m, sz, d')"
  shows "sz = medida M (ops (traza d))"
proof -
  let ?h = "mem_reset_brk (heap d)"
  have h: "area ?h" "mem_brk ?h = mem_start_brk ?h" using assms(1) by (simp_all add: area_def mem_reset_brk_def)
  obtain r h where r: "init_f A ?h = Some (r, h)" "\<not> r < 0" using init [OF h] by auto
  let ?e = "d\<lparr>heap := h\<rparr>"
  obtain d1 tot where d1: "util_loop A (length (ops (traza d))) 0 ?e 0 0 = Inr (d1, tot, m)" "sz = mem_heapsize (heap d1)"
    using assms(3,6) r by (auto simp: eval_mm_util_def luego_def split: sum.splits)
  have "sigue_a {} (\<lambda>_. 0, ini_m M) ?e"
    using rep_init [OF h r(1)] assms(2) unfolding sigue_a_def by (auto simp: tamanos_ok_def)
  from util_loop_sigue [OF this _ _ _ d1(1)] assms(4,5) obtain s' S'
    where "recorre M (ops (traza d)) (\<lambda>_. 0, ini_m M) = Some s'" "sigue_a S' s' d1" by auto
  then show ?thesis using d1(2) rep_mide unfolding medida_def sigue_a_def by (auto split: prod.splits)
qed

end

end
