(* ===== verification/Mm_Refina.thy ===== *)
theory Mm_Refina
  imports Mm_Props Mdriver_Medida
begin

text \<open>
  Whole runs: a client of \<^verbatim>\<open>mm.c\<close> gets from it exactly the answers of the allocator on lists of theory
  Mm\_Lista. Which addresses it gets and how large the heap becomes depends on its calls alone, and not on what it
  writes into its payloads.
\<close>

subsection \<open>The answers of the allocator on lists\<close>

fun responde :: "addr \<Rightarrow> pedido \<Rightarrow> bloque list \<Rightarrow> (respuesta \<times> bloque list) option" where
  "responde c (Pide sz) bs = (case malloc_lista c sz bs of (p, bs) \<Rightarrow> Some (Dir p, bs))"
| "responde c (Libera p) bs = map_option (Pair Nada) (libera_lista c p bs)"
| "responde c (Cambia p sz) bs = map_option (\<lambda>(q, bs). (Dir q, bs)) (cambia_lista c p sz bs)"
| "responde c (Escribe p i b) bs = Some (Nada, bs)"
| "responde c (Lee p i) bs = Some (Nada, bs)"

fun atiende :: "addr \<Rightarrow> pedido list \<Rightarrow> bloque list \<Rightarrow> (respuesta list \<times> bloque list) option" where
  "atiende c [] bs = Some ([], bs)"
| "atiende c (q # qs) bs =
     (case responde c q bs of
        None \<Rightarrow> None
      | Some (r, bs) \<Rightarrow> map_option (\<lambda>(rs, bs). (r # rs, bs)) (atiende c qs bs))"

text \<open>The answer of an event without the byte a read delivers.\<close>

definition sin_byte :: "evento \<Rightarrow> respuesta" where
  "sin_byte e = (case snd e of Byte b \<Rightarrow> Nada | r \<Rightarrow> r)"

subsection \<open>One step\<close>

text \<open>The heap holds the blocks of the list, and the allocated ones are those in the book of the client.\<close>

definition lista_ok :: "addr \<Rightarrow> bloque list \<Rightarrow> heap_t \<Rightarrow> (addr \<rightharpoonup> int) \<Rightarrow> bool" where
  "lista_ok c bs h V \<longleftrightarrow> mm_ok h bs \<and> inicio h + 16 = c \<and> V = asignados h bs"

lemma lista_ok_inv: "lista_ok c bs h V \<Longrightarrow> mm_inv h V"
  by (auto simp: lista_ok_def mm_inv_def)

lemma conserva_lista:
  "lista_ok c bs h V \<Longrightarrow> conserva h h' W \<Longrightarrow> mm_ok h' bs' \<Longrightarrow> lista_ok c bs' h' (asignados h' bs')"
  by (simp add: lista_ok_def conserva_def inicio_def)

lemma lista_impreso: "lista_ok c bs h V \<Longrightarrow> lista_ok c bs (h\<lparr>impreso := ms\<rparr>) V"
proof -
  have s: "seg h p bs q \<Longrightarrow> seg (h\<lparr>impreso := ms\<rparr>) p bs q" for p bs q by (erule seg_cong) simp
  assume "lista_ok c bs h V"
  then show ?thesis
    using s [of "inicio h" "(16, True) # bs" "mem_brk h"]
    by (simp add: lista_ok_def mm_ok_def heap_ok_def area_def inicio_def asignados_def del: seg.simps)
qed

lemma lista_pide:
  assumes "cuadra (lista_ok c bs) (h, L)" "legal L (Pide sz)" "mm_malloc (word_of_int sz) h = Some (p, h')"
  shows "\<exists>bs'. malloc_lista c sz bs = (p, bs') \<and> cuadra (lista_ok c bs') (h', if p = NULL then L else L(p \<mapsto> sz))"
proof -
  obtain V where V: "lista_ok c bs h V" "dom V = dom L" "\<And>p n. L p = Some n \<Longrightarrow> \<exists>m. V p = Some m \<and> 0 < n \<and> n \<le> m"
    using cuadraE [OF assms(1)] by blast
  have ok: "mm_ok h bs" "inicio h + 16 = c" "V = asignados h bs" using V(1) by (simp_all add: lista_ok_def)
  have sz: "0 < sz" "sz \<le> 2 ^ 32 - 32" using assms(2) by (simp_all add: legal_def)
  show ?thesis
  proof (cases "sin_lugar sz h bs")
    case True
    have "p = NULL" "malloc_lista c sz bs = (NULL, bs)" "lista_ok c bs h' V"
      using mm_malloc_spec(1) [OF ok(1) sz True] assms(3) ok(2) lista_impreso [OF V(1)] by simp_all
    moreover from this(3) have "cuadra (lista_ok c bs) (h', L)"
      by (rule cuadraI [where I = "lista_ok c bs"]) (use V(2,3) in fastforce)+
    ultimately show ?thesis by simp
  next
    case False
    obtain bs' n where m: "p \<noteq> NULL" "malloc_lista c sz bs = (p, bs')" "mm_ok h' bs'"
      "asignados h' bs' = V(p \<mapsto> n)" "ajuste sz - 16 \<le> n" "conserva h h' V"
      using mm_malloc_spec(2) [OF ok(1) sz False] assms(3) ok(2,3) by auto
    have "lista_ok c bs' h' (V(p \<mapsto> n))" using conserva_lista [OF V(1) m(6,3)] m(4) by simp
    moreover have "sz \<le> n" using ajuste_props(3) [OF sz(1)] m(5) by simp
    ultimately have "cuadra (lista_ok c bs') (h', L(p \<mapsto> sz))"
      by (intro cuadraI [where I = "lista_ok c bs'" and V = "V(p \<mapsto> n)"])
        (use V(2,3) sz(1) in \<open>fastforce split: if_splits\<close>)+
    then show ?thesis using m(1,2) by simp
  qed
qed

lemma lista_libera:
  assumes "cuadra (lista_ok c bs) (h, L)" "legal L (Libera p)" "mm_free p h = Some h'"
  shows "\<exists>bs'. libera_lista c p bs = Some bs' \<and> cuadra (lista_ok c bs') (h', L(p := None))"
proof -
  obtain V where V: "lista_ok c bs h V" "dom V = dom L" "\<And>p n. L p = Some n \<Longrightarrow> \<exists>m. V p = Some m \<and> 0 < n \<and> n \<le> m"
    using cuadraE [OF assms(1)] by blast
  have ok: "mm_ok h bs" "inicio h + 16 = c" "V = asignados h bs" using V(1) by (simp_all add: lista_ok_def)
  obtain n where "asignados h bs p = Some n" using assms(2) V(3) ok(3) by (auto simp: legal_def)
  from liberar_spec [OF ok(1) this] obtain bs' where f: "libera_lista c p bs = Some bs'" "mm_ok h' bs'"
    "asignados h' bs' = V(p := None)" "conserva h h' (V(p := None))"
    using assms(3) ok(2,3) by (metis option.inject)
  have "lista_ok c bs' h' (V(p := None))" using conserva_lista [OF V(1) f(4,2)] f(3) by simp
  then have "cuadra (lista_ok c bs') (h', L(p := None))"
    by (rule cuadraI [where I = "lista_ok c bs'"]) (use V(2,3) in \<open>fastforce split: if_splits\<close>)+
  then show ?thesis using f(1) by blast
qed

lemma lista_cambia:
  assumes "cuadra (lista_ok c bs) (h, L)" "legal L (Cambia p sz)" "mm_realloc p (word_of_int sz) h = Some (q, h')"
  shows "\<exists>bs'. cambia_lista c p sz bs = Some (q, bs') \<and>
    cuadra (lista_ok c bs') (h', if q = NULL then L else L(p := None, q \<mapsto> sz))"
proof -
  obtain V where V: "lista_ok c bs h V" "dom V = dom L" "\<And>p n. L p = Some n \<Longrightarrow> \<exists>m. V p = Some m \<and> 0 < n \<and> n \<le> m"
    using cuadraE [OF assms(1)] by blast
  have ok: "mm_ok h bs" "inicio h + 16 = c" "V = asignados h bs" using V(1) by (simp_all add: lista_ok_def)
  have sz: "0 < sz" "sz \<le> 2 ^ 32 - 32" using assms(2) by (simp_all add: legal_def)
  obtain k where k: "asignados h bs p = Some k" using assms(2) V(3) ok(3) by (auto simp: legal_def)
  show ?thesis
  proof (cases "sin_lugar sz h bs")
    case True
    have "q = NULL" "cambia_lista c p sz bs = Some (NULL, bs)" "lista_ok c bs h' V"
      using mm_realloc_spec(1) [OF ok(1) k sz True] assms(3) ok(2) lista_impreso [OF V(1)] by simp_all
    moreover from this(3) have "cuadra (lista_ok c bs) (h', L)"
      by (rule cuadraI [where I = "lista_ok c bs"]) (use V(2,3) in fastforce)+
    ultimately show ?thesis by simp
  next
    case False
    obtain bs' n where m: "q \<noteq> NULL" "cambia_lista c p sz bs = Some (q, bs')" "mm_ok h' bs'"
      "asignados h' bs' = V(p := None, q \<mapsto> n)" "ajuste sz - 16 \<le> n" "conserva h h' (V(p := None))"
      using mm_realloc_spec(2) [OF ok(1) k sz False] assms(3) ok(2,3) by auto
    have "lista_ok c bs' h' (V(p := None, q \<mapsto> n))" using conserva_lista [OF V(1) m(6,3)] m(4) by simp
    moreover have "sz \<le> n" using ajuste_props(3) [OF sz(1)] m(5) by simp
    ultimately have "cuadra (lista_ok c bs') (h', L(p := None, q \<mapsto> sz))"
      by (intro cuadraI [where I = "lista_ok c bs'" and V = "V(p := None, q \<mapsto> n)"])
        (use V(2,3) sz(1) in \<open>fastforce split: if_splits\<close>)+
    then show ?thesis using m(1,2) by simp
  qed
qed

lemma lista_escribe:
  assumes "cuadra (lista_ok c bs) (h, L)" "legal L (Escribe p i b)" "memset (p + i) b 1 h = Some h'"
  shows "cuadra (lista_ok c bs) (h', L)"
proof -
  obtain V where V: "lista_ok c bs h V" "dom V = dom L" "\<And>p n. L p = Some n \<Longrightarrow> \<exists>m. V p = Some m \<and> 0 < n \<and> n \<le> m"
    using cuadraE [OF assms(1)] by blast
  have ok: "mm_ok h bs" "V = asignados h bs" using V(1) by (simp_all add: lista_ok_def)
  obtain n where n: "L p = Some n" "0 \<le> i" "i < n" using assms(2) by (auto simp: legal_def)
  obtain k where k: "asignados h bs p = Some k" "n \<le> k" using V(3) [OF n(1)] ok(2) by blast
  have h': "h' = h\<lparr>bytes := (bytes h)(p + i := b)\<rparr>"
    using assms(3) by (auto simp: memset_def fun_eq_iff split: if_splits)
  have "cambia h h' p (p + k)" "mem_brk h' = mem_brk h" using n k by (auto simp: cambia_def h')
  from mm_ok_escribir [OF ok(1) k(1) this] have "lista_ok c bs h' V"
    using V(1) by (simp add: lista_ok_def h' inicio_def)
  then show ?thesis by (rule cuadraI [where I = "lista_ok c bs"]) (use V(2,3) in fastforce)+
qed

lemma lista_paso:
  assumes "cuadra (lista_ok c bs) s" "paso mm_asignador s e s'"
  shows "\<exists>bs'. responde c (fst e) bs = Some (sin_byte e, bs') \<and> cuadra (lista_ok c bs') s'"
  using assms(2,1)
proof (cases rule: paso.cases)
  case (pide L sz h p h')
  with lista_pide [of c bs h L sz p h'] assms(1) show ?thesis by (auto simp: mm_asignador_def sin_byte_def)
next
  case (libera L p h h')
  with lista_libera [of c bs h L p h'] assms(1) show ?thesis by (auto simp: mm_asignador_def sin_byte_def)
next
  case (cambia L p sz h q h')
  with lista_cambia [of c bs h L p sz q h'] assms(1) show ?thesis by (auto simp: mm_asignador_def sin_byte_def)
next
  case (escribe L p i b h h')
  with lista_escribe [of c bs h L p i b h'] assms(1) show ?thesis by (auto simp: sin_byte_def)
qed (use assms(1) in \<open>simp add: sin_byte_def\<close>)

lemma lista_corre:
  "corre (paso mm_asignador) s es s' \<Longrightarrow> cuadra (lista_ok c bs) s \<Longrightarrow>
     \<exists>bs'. atiende c (map fst es) bs = Some (map sin_byte es, bs') \<and> cuadra (lista_ok c bs') s'"
proof (induction arbitrary: bs rule: corre.induct)
  case (sigue s e t es u)
  then show ?case using lista_paso [OF sigue.prems sigue.hyps(1)] by fastforce
qed auto

subsection \<open>From the list to a run\<close>

text \<open>
  The other way round, whatever legal requests the allocator on lists answers, \<^verbatim>\<open>mm.c\<close> answers. The book
  of the client follows from requests and answers; reads, whose answer is a byte, are left out.
\<close>

definition anota :: "pedido \<Rightarrow> respuesta \<Rightarrow> libro \<Rightarrow> libro" where
  "anota q r L =
     (case (q, r) of
        (Pide sz, Dir p) \<Rightarrow> if p = NULL then L else L(p \<mapsto> sz)
      | (Libera p, _) \<Rightarrow> L(p := None)
      | (Cambia p sz, Dir q) \<Rightarrow> if q = NULL then L else L(p := None, q \<mapsto> sz)
      | _ \<Rightarrow> L)"

definition lee :: "pedido \<Rightarrow> bool" where
  "lee q \<longleftrightarrow> (case q of Lee p i \<Rightarrow> True | _ \<Rightarrow> False)"

fun legales :: "pedido list \<Rightarrow> respuesta list \<Rightarrow> libro \<Rightarrow> bool" where
  "legales (q # qs) (r # rs) L \<longleftrightarrow> legal L q \<and> \<not> lee q \<and> legales qs rs (anota q r L)"
| "legales _ _ L \<longleftrightarrow> True"

lemma paso_anota: "paso A (h, L) (q, r) s' \<Longrightarrow> \<not> lee q \<Longrightarrow> snd s' = anota q r L \<and> sin_byte (q, r) = r"
  by (erule paso.cases) (auto simp: anota_def sin_byte_def lee_def)

lemma lista_avanza:
  assumes "cuadra (lista_ok c bs) (h, L)" "legal L q" "\<not> lee q" "responde c q bs = Some (r, bs')"
  shows "\<exists>h'. paso mm_asignador (h, L) (q, r) (h', anota q r L) \<and> cuadra (lista_ok c bs') (h', anota q r L)"
proof -
  have "cuadra mm_inv (h, L)" using assms(1) lista_ok_inv unfolding cuadra_def by blast
  then obtain r' s' where s': "paso mm_asignador (h, L) (q, r') s'" using mm.paso_avanza assms(2) by blast
  have a: "snd s' = anota q r' L" "sin_byte (q, r') = r'" using paso_anota [OF s' assms(3)] by simp_all
  have "r' = r" "cuadra (lista_ok c bs') s'" using lista_paso [OF assms(1) s'] assms(4) a(2) by auto
  then show ?thesis using s' a(1) by (metis prod.collapse)
qed

lemma lista_corre_total:
  "atiende c qs bs = Some (rs, bs') \<Longrightarrow> legales qs rs L \<Longrightarrow> cuadra (lista_ok c bs) (h, L) \<Longrightarrow>
     \<exists>h' L'. corre (paso mm_asignador) (h, L) (zip qs rs) (h', L')"
proof (induction qs arbitrary: bs rs L h)
  case (Cons q qs)
  obtain r bs1 rs1 where r: "responde c q bs = Some (r, bs1)" "atiende c qs bs1 = Some (rs1, bs')" "rs = r # rs1"
    using Cons.prems(1) by (auto split: option.splits)
  have l: "legal L q" "\<not> lee q" "legales qs rs1 (anota q r L)" using Cons.prems(2) r(3) by simp_all
  from lista_avanza [OF Cons.prems(3) l(1,2) r(1)] obtain h1
    where h1: "paso mm_asignador (h, L) (q, r) (h1, anota q r L)" "cuadra (lista_ok c bs1) (h1, anota q r L)" by blast
  then show ?case using Cons.IH [OF r(2) l(3) h1(2)] r(3) corre.sigue [where paso = "paso mm_asignador", OF h1(1)] by fastforce
qed (auto intro: corre.fin)

lemma lista_ok_inicial:
  assumes "area h0" "mem_brk h0 = mem_start_brk h0" "mm_init h0 = Some (r, h1)"
  shows "cuadra (lista_ok (mem_start_brk h0 + 32) [(4096, False)]) (h1, Map.empty)"
proof -
  let ?I = "lista_ok (mem_start_brk h0 + 32) [(4096, False)]"
  have "mm_ok h1 [(4096, False)]" "inicio h1 + 16 = mem_start_brk h0 + 32"
    using mm_init_ok [OF assms(1,2)] assms(3) by (auto simp: inicio_def)
  then have "?I h1 Map.empty" by (simp add: lista_ok_def)
  then show ?thesis by (rule cuadraI [where I = ?I]) simp_all
qed

subsection \<open>The property\<close>

text \<open>
  C2. \<^verbatim>\<open>mm.c\<close> is the allocator on lists. In every run of every client from \<^verbatim>\<open>mm_init\<close> on, each call returns the
  address that first fit with splitting and immediate coalescing gives on the list of the blocks, which starts as one
  free block of 4096 bytes, the invariant holds for that list at the end, and the heap has its size and 32 bytes
  more. So the answers are a function of the requests alone.
\<close>

theorem mm_refina_lista:
  assumes "area h0" "mem_brk h0 = mem_start_brk h0" "mm_init h0 = Some (r, h1)"
    "corre (paso mm_asignador) (h1, Map.empty) es (h, L)"
  shows "\<exists>bs. atiende (mem_start_brk h0 + 32) (map fst es) [(4096, False)] = Some (map sin_byte es, bs) \<and>
    mm_ok h bs \<and> mem_heapsize h = 32 + tam bs"
proof -
  let ?c = "mem_start_brk h0 + 32"
  from lista_corre [OF assms(4) lista_ok_inicial [OF assms(1-3)]] obtain bs
    where bs: "atiende ?c (map fst es) [(4096, False)] = Some (map sin_byte es, bs)" "mm_ok h bs"
    by (auto simp: cuadra_def lista_ok_def)
  have "mem_heapsize h = 32 + tam bs"
    using heap_ok_brk [OF mm_ok_seg [OF bs(2)]] by (simp add: mem_heapsize_def inicio_def)
  then show ?thesis using bs by blast
qed

text \<open>
  Two payloads, the first freed and its block taken again in part; the second is moved to the end, and its block
  joins the free neighbours. The heap grows by what the last request needs.
\<close>

theorem mm_refina_lista_witness:
  "\<exists>h0 h L. mm_init heap_ejemplo = Some (1, h0) \<and>
     corre (paso mm_asignador) (h0, Map.empty)
       [(Pide 100, Dir 4128), (Pide 100, Dir 4256), (Libera 4128, Nada), (Pide 50, Dir 4128),
        (Escribe 4128 49 255, Nada), (Cambia 4256 5000, Dir 4384)] (h, L) \<and>
     mm_ok h [(80, True), (176, False), (5024, True), (3840, False)] \<and> mem_heapsize h = 9152"
proof -
  let ?qs = "[Pide 100, Pide 100, Libera 4128, Pide 50, Escribe 4128 49 255, Cambia 4256 5000]"
  let ?rs = "[Dir 4128, Dir 4256, Nada, Dir 4128, Nada, Dir 4384]"
  let ?bs = "[(80, True), (176, False), (5024, True), (3840, False)] :: bloque list"
  obtain h0 where h0: "mm_init heap_ejemplo = Some (1, h0)" by (rule ejemplo_malloc)
  have s: "mem_start_brk heap_ejemplo + 32 = 4128" by (simp add: heap_ejemplo_def)
  have "atiende 4128 ?qs [(4096, False)] = Some (?rs, ?bs)"
    by (simp add: malloc_lista_def ajuste_def poner_def libera_lista_def cambia_lista_def ampliar_def fusionar_def
        MAX_HEAP_def NULL_def tam_def)
  moreover have "legales ?qs ?rs Map.empty" by (simp add: legal_def lee_def anota_def NULL_def)
  moreover note lista_ok_inicial [OF area_ejemplo h0, unfolded s]
  ultimately obtain h L where r: "corre (paso mm_asignador) (h0, Map.empty) (zip ?qs ?rs) (h, L)"
    using lista_corre_total by blast
  have "mm_ok h ?bs \<and> mem_heapsize h = 9152"
    using mm_refina_lista [OF area_ejemplo h0 r, unfolded s] \<open>atiende 4128 ?qs _ = _\<close> by auto
  then show ?thesis using h0 r by auto
qed

subsection \<open>The model of the allocator for the measure of the driver\<close>

definition con_exito :: "(addr \<times> 'e) \<Rightarrow> (addr \<times> 'e) option" where
  "con_exito r = (if fst r = NULL then None else Some r)"

definition mm_modelo :: "bloque list modelo" where
  "mm_modelo = \<lparr>ini_m = [(4096, False)], pide_m = (\<lambda>sz bs. con_exito (malloc_lista 32 sz bs)),
     libera_m = libera_lista 32, cambia_m = (\<lambda>p sz bs. Option.bind (cambia_lista 32 p sz bs) con_exito),
     mide_m = (\<lambda>bs. 32 + tam bs)\<rparr>"

text \<open>The allocator on lists does not depend on where the area is.\<close>

lemma malloc_lista_mueve:
  assumes "malloc_lista (k + c) sz bs = (p, bs')" "p \<noteq> NULL" "bloques_ok bs" "0 < sz" "0 < c"
  shows "malloc_lista c sz bs = (p - k, bs')" "p - k \<noteq> NULL"
proof -
  have "malloc_lista c sz bs = (p - k, bs') \<and> p - k \<noteq> NULL"
  proof (cases "primer_ajuste (ajuste sz) bs")
    case (Some r)
    obtain us f vs where r: "r = (us, f, vs)" by (metis prod_cases3)
    then have "0 \<le> tam us" using primer_ajuste_Some [of "ajuste sz" bs us f vs] Some assms(3) bloques_ok_tam [of us] by auto
    then show ?thesis using assms(1,5) Some r by (auto simp: malloc_lista_def NULL_def)
  next
    case None
    let ?e = "max (ajuste sz) 4096"
    obtain us f ys where us: "fusionar ((16, True) # bs) ?e [] = (us, f, ys)" by (metis prod_cases3)
    have "16 dvd ?e" "32 \<le> ?e" using ajuste_props [OF assms(4)] by (auto simp: max_def)
    then have "0 \<le> tam (tl us)"
      using fusionar_bloques [OF us, of False] assms(3) bloques_ok_tam by fastforce
    then show ?thesis using assms(1,2,5) None us by (auto simp: malloc_lista_def ampliar_def Let_def NULL_def split: if_splits)
  qed
  then show "malloc_lista c sz bs = (p - k, bs')" "p - k \<noteq> NULL" by simp_all
qed

lemma buscar_mueve: "buscar (k + c) p bs = buscar c (p - k) bs"
proof (induction c "p - k" bs rule: buscar.induct)
  case (2 c s al bs)
  have "k + c = p \<longleftrightarrow> c = p - k" by linarith
  then show ?case using 2 by (simp add: add.assoc)
qed simp

lemma libera_lista_mueve: "libera_lista (k + c) p bs = libera_lista c (p - k) bs"
  by (simp add: libera_lista_def buscar_mueve)

lemma cambia_lista_mueve:
  assumes "cambia_lista (k + c) p sz bs = Some (q, bs')" "q \<noteq> NULL" "bloques_ok bs" "0 < sz" "0 < c"
  shows "cambia_lista c (p - k) sz bs = Some (q - k, bs') \<and> q - k \<noteq> NULL"
proof -
  obtain bs1 where m: "malloc_lista (k + c) sz bs = (q, bs1)" "libera_lista (k + c) p bs1 = Some bs'"
    using assms(1,2) by (auto simp: cambia_lista_def split: prod.splits if_splits)
  note n = malloc_lista_mueve [OF m(1) assms(2-5)]
  show ?thesis using n m(2) by (simp add: cambia_lista_def libera_lista_mueve)
qed

definition mm_rep :: "bloque list \<Rightarrow> heap_t \<Rightarrow> (addr \<rightharpoonup> int) \<Rightarrow> bool" where
  "mm_rep bs h V \<longleftrightarrow> mm_ok h bs \<and> V = asignados h bs"

lemma mm_rep_inicio: "inicio h + 16 = mem_start_brk h + 32"
  by (simp add: inicio_def)

interpretation mmm: asignador_medido mm_asignador mm_inv mm_crece 4128 mm_modelo mm_rep
proof (standard, goal_cases)
  case (1 h r h')
  then show ?case using mm_init_ok [OF 1(1,2)] by (auto simp: mm_asignador_def mm_modelo_def mm_rep_def)
next
  case (2 e h V sz p h')
  then have ok: "mm_ok h e" "V = asignados h e" and m: "mm_malloc (word_of_int sz) h = Some (p, h')"
    by (simp_all add: mm_rep_def mm_asignador_def)
  have sz: "0 < sz" "sz \<le> 2 ^ 32 - 32" using 2(2,3) by simp_all
  have nl: "\<not> sin_lugar sz h e" using mm_malloc_spec(1) [OF ok(1) sz] m 2(5) by auto
  obtain bs' n where s: "malloc_lista (mem_start_brk h + 32) sz e = (p, bs')" "mm_ok h' bs'" "V p = None"
    "asignados h' bs' = V(p \<mapsto> n)" "conserva h h' V"
    using mm_malloc_spec(2) [OF ok(1) sz nl] m ok(2) unfolding mm_rep_inicio by auto
  have "bloques_ok e" using ok(1) by (simp add: mm_ok_def)
  note n = malloc_lista_mueve [OF s(1) 2(5) this sz(1)]
  show ?case using n s by (simp add: mm_modelo_def con_exito_def mm_rep_def conserva_def) metis
next
  case (3 e h V p n h')
  then have ok: "mm_ok h e" "asignados h e p = Some n" and m: "mm_free p h = Some h'"
    by (simp_all add: mm_rep_def mm_asignador_def)
  from liberar_spec [OF ok] obtain bs' where f: "libera_lista (mem_start_brk h + 32) p e = Some bs'" "mm_ok h' bs'"
    "asignados h' bs' = (asignados h e)(p := None)" "conserva h h' ((asignados h e)(p := None))"
    using m unfolding mm_rep_inicio by (metis option.inject)
  then show ?case using 3(1) libera_lista_mueve [of "mem_start_brk h" 32 p e] by (simp add: mm_modelo_def mm_rep_def conserva_def)
next
  case (4 e h V p n sz q h')
  then have ok: "mm_ok h e" "V = asignados h e" "asignados h e p = Some n" and m: "mm_realloc p (word_of_int sz) h = Some (q, h')"
    by (simp_all add: mm_rep_def mm_asignador_def)
  have sz: "0 < sz" "sz \<le> 2 ^ 32 - 32" using 4(3,4) by simp_all
  have nl: "\<not> sin_lugar sz h e" using mm_realloc_spec(1) [OF ok(1,3) sz] m 4(6) by auto
  obtain bs' k where s: "cambia_lista (mem_start_brk h + 32) p sz e = Some (q, bs')" "mm_ok h' bs'" "V q = None"
    "asignados h' bs' = V(p := None, q \<mapsto> k)" "conserva h h' (V(p := None))"
    using mm_realloc_spec(2) [OF ok(1,3) sz nl] m ok(2) unfolding mm_rep_inicio by auto
  have "bloques_ok e" using ok(1) by (simp add: mm_ok_def)
  note n = cambia_lista_mueve [OF s(1) 4(6) this sz(1)]
  show ?case using n s by (simp add: mm_modelo_def con_exito_def mm_rep_def conserva_def) metis
next
  case (5 e h V)
  then have "heap_ok h e" by (simp add: mm_rep_def mm_ok_def)
  with heap_ok_brk [OF this] show ?case by (simp add: mm_modelo_def mem_heapsize_def inicio_def)
qed

end
