(* ===== verification/Mm_Naive.thy ===== *)
theory Mm_Naive
  imports Mdriver_Speed Mdriver_Medida Cliente
begin

text \<open>
  \<^verbatim>\<open>Labs grupales/malloc/mm-naive.c\<close>: the allocator the course hands out, which only ever grows the
  heap. It keeps the laws of the interface too.
\<close>

unbundle bit_operations_syntax

definition ALIGN :: "u64 \<Rightarrow> u64" where
  "ALIGN sz = (sz + 7) AND NOT 7"

definition SIZE_T_SIZE :: u64 where
  "SIZE_T_SIZE = ALIGN 8"

definition naive_init :: "heap_t \<Rightarrow> (int \<times> heap_t) option" where
  "naive_init h = Some (0, h)"

definition naive_malloc :: "u64 \<Rightarrow> heap_t \<Rightarrow> (addr \<times> heap_t) option" where
  "naive_malloc sz h =
     (let newsize = to_int32 (uint (ALIGN (sz + SIZE_T_SIZE)))
      in case mem_sbrk newsize h of (p, h) \<Rightarrow>
           if p = SBRK_FAILED then Some (NULL, h)
           else do { h \<leftarrow> guardar64 p sz h; Some (p + uint SIZE_T_SIZE, h) })"

definition naive_free :: "addr \<Rightarrow> heap_t \<Rightarrow> heap_t option" where
  "naive_free ptr h = Some h"

definition naive_realloc :: "addr \<Rightarrow> u64 \<Rightarrow> heap_t \<Rightarrow> (addr \<times> heap_t) option" where
  "naive_realloc ptr sz h = do {
     let oldptr = ptr;
     (newptr, h) \<leftarrow> naive_malloc sz h;
     if newptr = NULL then Some (NULL, h)
     else do {
       copySize \<leftarrow> cargar64 (oldptr - uint SIZE_T_SIZE) h;
       let copySize = (if sz < copySize then sz else copySize);
       h \<leftarrow> memcpy newptr oldptr (unat copySize) h;
       h \<leftarrow> naive_free oldptr h;
       Some (newptr, h)
     }
   }"

definition naive_asignador :: asignador_t where
  "naive_asignador = \<lparr>init_f = naive_init, malloc_f = naive_malloc, free_f = naive_free, realloc_f = naive_realloc\<rparr>"

subsection \<open>Rounding\<close>

lemma SIZE_T_SIZE_8 [simp]: "SIZE_T_SIZE = 8"
  by (simp add: SIZE_T_SIZE_def ALIGN_def)

definition redondeo :: "int \<Rightarrow> int" where
  "redondeo n = 8 * ((n + 7) div 8)"

lemma redondeo_props: "n \<le> redondeo n" "redondeo n \<le> n + 7" "8 dvd redondeo n"
proof -
  have "8 * ((n + 7) div 8) \<le> n + 7" "n + 7 < 8 * ((n + 7) div 8) + 8" by presburger+
  then show "n \<le> redondeo n" "redondeo n \<le> n + 7" "8 dvd redondeo n" by (simp_all add: redondeo_def)
qed

lemma ALIGN_redondeo:
  assumes "0 \<le> n" "n < 2 ^ 62"
  shows "uint (ALIGN (word_of_int n)) = redondeo n"
proof -
  have m: "(7 :: u64) = mask 3" by (simp add: mask_eq_exp_minus_1)
  have al: "ALIGN w = push_bit 3 (drop_bit 3 (w + 7))" for w
    unfolding ALIGN_def m by (rule bit_word_eqI) (auto simp: bit_simps)
  define k where "k = (n + 7) div 8"
  have k: "0 \<le> k" "8 * k < 2 ^ 64" using assms redondeo_props(2) [of n] by (simp_all add: redondeo_def k_def)
  have u: "uint (word_of_int (n + 7) :: u64) = n + 7" using assms by (intro uint_of_small_int) simp_all
  have "uint (drop_bit 3 (word_of_int (n + 7) :: u64)) = k"
    by (simp add: drop_bit_eq_div uint_div_distrib u k_def del: of_int_add)
  then have "drop_bit 3 (word_of_int (n + 7) :: u64) = word_of_int k" by (metis word_of_int_uint)
  then have "ALIGN (word_of_int n) = word_of_int (8 * k)"
    unfolding al by (simp add: push_bit_eq_mult mult.commute)
  moreover have "uint (word_of_int (8 * k) :: u64) = 8 * k" using k by (intro uint_of_small_int) simp_all
  ultimately show ?thesis by (simp only: redondeo_def k_def)
qed

subsection \<open>The invariant\<close>

text \<open>Each payload follows a word with the size that was asked for.\<close>

definition naive_inv :: "heap_t \<Rightarrow> (addr \<rightharpoonup> int) \<Rightarrow> bool" where
  "naive_inv h V \<longleftrightarrow> area h \<and> 8 dvd mem_brk h \<and> mem_start_brk h \<le> mem_brk h \<and> mem_brk h \<le> mem_max_addr h \<and>
     (\<forall>p n. V p = Some n \<longrightarrow> mem_start_brk h + 8 \<le> p \<and> p + n \<le> mem_brk h \<and> 8 dvd p \<and> 0 < n \<and>
        rd64 (bytes h) (p - 8) = word_of_int n) \<and>
     (\<forall>p q m n. V p = Some m \<and> V q = Some n \<and> p \<noteq> q \<longrightarrow> p + m \<le> q - 8 \<or> q + n \<le> p - 8)"

lemma naive_payload:
  "naive_inv h V \<Longrightarrow> V p = Some n \<Longrightarrow> mem_start_brk h + 8 \<le> p \<and> p + n \<le> mem_brk h \<and> 8 dvd p \<and> 0 < n \<and>
     rd64 (bytes h) (p - 8) = word_of_int n"
  unfolding naive_inv_def by blast

lemma naive_disjuntas:
  "naive_inv h V \<Longrightarrow> V p = Some m \<Longrightarrow> V q = Some n \<Longrightarrow> p \<noteq> q \<Longrightarrow> p + m \<le> q - 8 \<or> q + n \<le> p - 8"
  unfolding naive_inv_def by blast

lemma naive_area:
  "naive_inv h V \<Longrightarrow> area h \<and> 8 dvd mem_brk h \<and> mem_start_brk h \<le> mem_brk h \<and> mem_brk h \<le> mem_max_addr h"
  unfolding naive_inv_def by blast

lemma naive_malloc_spec:
  assumes inv: "naive_inv h V" and sz: "0 < sz" "sz < 2 ^ 31"
  shows "(\<exists>ms. naive_malloc (word_of_int sz) h = Some (NULL, h\<lparr>impreso := ms\<rparr>) \<and> MAX_HEAP < mem_heapsize h + redondeo (sz + 8)) \<or>
    (\<exists>p h'. naive_malloc (word_of_int sz) h = Some (p, h') \<and> p \<noteq> NULL \<and> p = mem_brk h + 8 \<and> V p = None \<and> naive_inv h' (V(p \<mapsto> sz)) \<and>
       conserva h h' V \<and> (\<forall>q n. V q = Some n \<longrightarrow> q + n \<le> p) \<and>
       mem_heapsize h' = mem_heapsize h + redondeo (sz + 8))"
proof -
  define e where "e = redondeo (sz + 8)"
  have e: "sz + 8 \<le> e" "e \<le> sz + 15" "8 dvd e" using redondeo_props [of "sz + 8"] by (simp_all add: e_def)
  have a: "uint (ALIGN (word_of_int sz + 8)) = e"
    using ALIGN_redondeo [of "sz + 8"] sz by (simp add: e_def)
  have I: "area h" "8 dvd mem_brk h" "mem_start_brk h \<le> mem_brk h" "mem_brk h \<le> mem_max_addr h"
    using naive_area [OF inv] by simp_all
  note P = naive_payload [OF inv] and D = naive_disjuntas [OF inv]
  show ?thesis
  proof (cases "to_int32 e < 0 \<or> mem_brk h + to_int32 e > mem_max_addr h")
    case True
    have "MAX_HEAP < mem_heapsize h + e"
    proof (cases "e < 2 ^ 31")
      case small: True
      then have "to_int32 e = e" using e sz by (intro to_int32_id) (simp add: in_int_def int_min_def int_max_def)
      then show ?thesis using True I(1) e sz by (simp add: area_def mem_heapsize_def)
    next
      case False
      then show ?thesis using I by (simp add: MAX_HEAP_def mem_heapsize_def)
    qed
    then show ?thesis using True by (auto simp: naive_malloc_def Let_def a mem_sbrk_def e_def [symmetric])
  next
    case False
    have e31: "e < 2 ^ 31"
    proof (rule ccontr)
      assume "\<not> e < 2 ^ 31"
      then have "to_int32 e = e - 2 ^ 32"
        using e sz mod_pos_geq [of "2 ^ 32" "e + 2 ^ 31"] by (simp add: to_int32_def)
      then show False using False e sz by simp
    qed
    then have i: "to_int32 e = e" using e sz by (intro to_int32_id) (simp add: in_int_def int_min_def int_max_def)
    let ?b = "mem_brk h"
    let ?p = "?b + 8"
    define h1 where "h1 = h\<lparr>mem_brk := ?b + e, bytes := wr64 ?b (word_of_int sz) (bytes h)\<rparr>"
    have room: "?b + e \<le> mem_max_addr h" using False i by simp
    have pos: "0 < mem_start_brk h" "?b \<noteq> SBRK_FAILED"
      using I room e sz by (simp_all add: area_def SBRK_FAILED_def MAX_HEAP_def)
    have run: "naive_malloc (word_of_int sz) h = Some (?p, h1)"
      using False pos I e sz room
      by (simp add: naive_malloc_def Let_def a i mem_sbrk_def guardar64_def en_area_def h1_def)
    have by1: "bytes h1 x = bytes h x" if "x < ?b" for x using that by (simp add: h1_def wr64_other)
    have Vp: "V ?p = None" using P [of ?p] by (cases "V ?p") auto
    have rd: "rd64 (bytes h1) (q - 8) = word_of_int n" if "V q = Some n" for q n
    proof -
      have "rd64 (bytes h1) (q - 8) = rd64 (bytes h) (q - 8)"
        by (rule rd64_cong, rule by1) (use P [OF that] in auto)
      then show ?thesis using P [OF that] by simp
    qed
    have "naive_inv h1 (V(?p \<mapsto> sz))"
    proof -
      have "area h1" using I(1) by (simp add: area_def h1_def)
      moreover have "8 dvd mem_brk h1" "mem_start_brk h1 \<le> mem_brk h1" "mem_brk h1 \<le> mem_max_addr h1"
        using I e room sz by (simp_all add: h1_def)
      moreover have "mem_start_brk h1 + 8 \<le> p \<and> p + n \<le> mem_brk h1 \<and> 8 dvd p \<and> 0 < n \<and>
          rd64 (bytes h1) (p - 8) = word_of_int n" if "(V(?p \<mapsto> sz)) p = Some n" for p n
        using that P [of p n] rd [of p n] I e sz by (cases "p = ?p") (auto simp: h1_def)
      moreover have "p + m \<le> q - 8 \<or> q + n \<le> p - 8"
        if "(V(?p \<mapsto> sz)) p = Some m" "(V(?p \<mapsto> sz)) q = Some n" "p \<noteq> q" for p q m n
        using that D [of p m q n] P [of p m] P [of q n] by (auto split: if_splits)
      ultimately show ?thesis unfolding naive_inv_def by blast
    qed
    moreover have "conserva h h1 V"
      using P e sz by (force simp: conserva_def mismos_def h1_def wr64_other)
    moreover have "q + n \<le> ?p" if "V q = Some n" for q n using P [OF that] by simp
    moreover have "?p \<noteq> NULL" using pos I by (simp add: NULL_def)
    moreover have "mem_heapsize h1 = mem_heapsize h + e" by (simp add: mem_heapsize_def h1_def)
    ultimately show ?thesis using run Vp unfolding e_def by blast
  qed
qed

lemma naive_escribir:
  assumes inv: "naive_inv h V" "V q = Some m" and c: "cambia h h' q (q + m)" "mem_brk h' = mem_brk h"
  shows "naive_inv h' V"
proof -
  have "rd64 (bytes h') (p - 8) = rd64 (bytes h) (p - 8)" if "V p = Some n" for p n
  proof (rule rd64_cong)
    fix x assume "p - 8 \<le> x" "x < p - 8 + 8"
    moreover have "p = q \<or> p + n \<le> q - 8 \<or> q + m \<le> p - 8" using naive_disjuntas [OF inv(1) that inv(2)] by blast
    moreover have "0 < n" using naive_payload [OF inv(1) that] by simp
    ultimately show "bytes h' x = bytes h x" using c(1) by (auto simp: cambia_def)
  qed
  moreover have "area h' = area h" "mem_start_brk h' = mem_start_brk h" "mem_max_addr h' = mem_max_addr h"
    using c(1) by (simp_all add: cambia_def area_def)
  ultimately show ?thesis using inv(1) c(2) by (auto simp: naive_inv_def)
qed

lemma naive_olvidar: "naive_inv h V \<Longrightarrow> naive_inv h (V(p := None))"
  by (auto simp: naive_inv_def)

lemma naive_realloc_spec:
  assumes inv: "naive_inv h V" "V p = Some n" and sz: "0 < sz" "sz < 2 ^ 31"
  shows "(\<exists>ms. naive_realloc p (word_of_int sz) h = Some (NULL, h\<lparr>impreso := ms\<rparr>) \<and> MAX_HEAP < mem_heapsize h + redondeo (sz + 8)) \<or>
    (\<exists>q h'. naive_realloc p (word_of_int sz) h = Some (q, h') \<and> q \<noteq> p \<and> V q = None \<and> q \<noteq> NULL \<and> q = mem_brk h + 8 \<and>
       naive_inv h' (V(p := None, q \<mapsto> sz)) \<and> (\<forall>i. 0 \<le> i \<and> i < min n sz \<longrightarrow> bytes h' (q + i) = bytes h (p + i)) \<and>
       conserva h h' (V(p := None)) \<and> mem_heapsize h' = mem_heapsize h + redondeo (sz + 8))"
  using naive_malloc_spec [OF inv(1) sz]
proof (elim disjE exE conjE)
  fix ms assume "naive_malloc (word_of_int sz) h = Some (NULL, h\<lparr>impreso := ms\<rparr>)" "MAX_HEAP < mem_heapsize h + redondeo (sz + 8)"
  then show ?thesis by (auto simp: naive_realloc_def)
next
  fix q h1 assume m: "naive_malloc (word_of_int sz) h = Some (q, h1)" "q \<noteq> NULL" "q = mem_brk h + 8" "V q = None"
    "naive_inv h1 (V(q \<mapsto> sz))" "conserva h h1 V" "\<forall>r n. V r = Some n \<longrightarrow> r + n \<le> q"
    "mem_heapsize h1 = mem_heapsize h + redondeo (sz + 8)"
  have qp: "q \<noteq> p" using m(4) inv(2) by auto
  let ?W = "V(q \<mapsto> sz)"
  have V1: "?W q = Some sz" "?W p = Some n" using qp inv(2) by simp_all
  have P: "mem_start_brk h1 + 8 \<le> p \<and> p + n \<le> mem_brk h1 \<and> 0 < n \<and> rd64 (bytes h1) (p - 8) = word_of_int n"
    and Q: "mem_start_brk h1 \<le> q \<and> q + sz \<le> mem_brk h1"
    and B: "mem_brk h1 \<le> mem_max_addr h1" "area h1"
    using naive_payload [OF m(5) V1(2)] naive_payload [OF m(5) V1(1)] naive_area [OF m(5)] by simp_all
  define k where "k = min n sz"
  have k: "0 \<le> k" "k \<le> n" "k \<le> sz" using P sz by (simp_all add: k_def)
  have us: "uint (word_of_int sz :: u64) = sz" "uint (word_of_int n :: u64) = n"
    using sz P B by (simp_all add: uint_of_small_int area_def MAX_HEAP_def)
  have un: "unat (word_of_int sz :: u64) = nat sz" "unat (word_of_int n :: u64) = nat n"
    by (simp_all only: unat_eq_nat_uint us)
  have ck: "unat (if (word_of_int sz :: u64) < word_of_int n then word_of_int sz else (word_of_int n :: u64)) = nat k"
    using us un by (simp add: word_less_def k_def)
  define h2 where "h2 = h1\<lparr>bytes := (\<lambda>x. if q \<le> x \<and> x < q + k then bytes h1 (p + (x - q)) else bytes h1 x)\<rparr>"
  have pq: "p + n \<le> q" using m(7) inv(2) by blast
  have mc: "memcpy q p (nat k) h1 = Some h2"
    using P Q B k pq by (simp add: memcpy_def h2_def en_area_def)
  have "cargar64 (p - 8) h1 = Some (word_of_int n)" using P B by (simp add: cargar64_def en_area_def)
  then have run: "naive_realloc p (word_of_int sz) h = Some (q, h2)"
    using m(1,2) ck mc by (simp add: naive_realloc_def naive_free_def Let_def)
  have c: "cambia h1 h2 q (q + sz)" "mem_brk h2 = mem_brk h1" using k by (auto simp: cambia_def h2_def)
  have i2: "naive_inv h2 ?W" by (rule naive_escribir [OF m(5) V1(1) c])
  have "V(p := None, q \<mapsto> sz) = ?W(p := None)" using qp by (simp add: fun_upd_twist)
  then have "naive_inv h2 (V(p := None, q \<mapsto> sz))" using naive_olvidar [OF i2] by simp
  moreover have "bytes h2 (q + i) = bytes h (p + i)" if "0 \<le> i" "i < min n sz" for i
    using that conserva_mismos [OF m(6) inv(2), of "p + i"] by (simp add: h2_def k_def)
  moreover have "conserva h h2 (V(p := None))"
  proof -
    have "mismos h h2 r l" if r: "V r = Some l" for r l
    proof -
      have "r + l \<le> q" using m(7) r by blast
      then show ?thesis using conserva_mismos [OF m(6) r] by (simp add: mismos_def h2_def)
    qed
    then show ?thesis using m(6) c by (simp add: conserva_def cambia_def)
  qed
  moreover have "mem_heapsize h2 = mem_heapsize h + redondeo (sz + 8)"
    using m(8) c by (simp add: mem_heapsize_def h2_def)
  ultimately show ?thesis using run m(2,3,4) qp by blast
qed

lemma naive_inv_impreso:
  "naive_inv (h\<lparr>impreso := ms\<rparr>) V = naive_inv h V"
  "conserva h (h\<lparr>impreso := ms\<rparr>) V" "mem_heapsize (h\<lparr>impreso := ms\<rparr>) = mem_heapsize h"
  by (simp_all add: naive_inv_def area_def conserva_def mismos_def mem_heapsize_def)

definition naive_crece :: "int \<Rightarrow> int" where
  "naive_crece sz = redondeo (sz + 8)"

interpretation naive: asignador naive_asignador naive_inv naive_crece 0
proof (standard, goal_cases)
  case (1 sz)
  then show ?case using redondeo_props(1) [of "sz + 8"] by (simp add: naive_crece_def)
next
  case (2 h)
  then have "naive_inv h Map.empty" by (auto simp: naive_inv_def area_def MAX_HEAP_def)
  then show ?case using 2(2) by (simp add: naive_asignador_def naive_init_def mem_heapsize_def)
next
  case (3 h V sz)
  from naive_malloc_spec [OF this] show ?case
  proof (elim disjE exE conjE, goal_cases)
    case (1 ms)
    then show ?case using 3(1) by (auto simp: naive_asignador_def naive_crece_def naive_inv_impreso)
  next
    case (2 p h')
    then show ?case by (intro exI [of _ p] exI [of _ h']) (auto simp: naive_asignador_def naive_crece_def)
  qed
next
  case (4 h V p n)
  then show ?case using naive_olvidar by (simp add: naive_asignador_def naive_free_def conserva_def mismos_def)
next
  case (5 h V p n sz)
  from naive_realloc_spec [OF this] show ?case
  proof (elim disjE exE conjE, goal_cases)
    case (1 ms)
    then show ?case using 5(1)
      by (intro exI [of _ NULL] exI [of _ "h\<lparr>impreso := ms\<rparr>"])
        (simp add: naive_asignador_def naive_crece_def naive_inv_impreso)
  next
    case (2 q h')
    then show ?case by (intro exI [of _ q] exI [of _ h']) (auto simp: naive_asignador_def naive_crece_def)
  qed
next
  case (6 h V p n)
  then show ?case using naive_payload [OF 6] naive_area [OF 6(1)] by simp
next
  case (7 h V p m q n)
  then show ?case using naive_disjuntas [OF 7] by auto
next
  case (8 h V q m h')
  then show ?case by (rule naive_escribir)
next
  case (9 h V)
  then show ?case using naive_area by blast
qed

text \<open>Its model is the size of the heap: every request adds to it, and no block is used again.\<close>

definition naive_modelo :: "int modelo" where
  "naive_modelo = \<lparr>ini_m = 0, pide_m = (\<lambda>sz e. Some (e + 8, e + redondeo (sz + 8))), libera_m = (\<lambda>p. Some),
     cambia_m = (\<lambda>p sz e. Some (e + 8, e + redondeo (sz + 8))), mide_m = (\<lambda>e. e)\<rparr>"

definition naive_rep :: "int \<Rightarrow> heap_t \<Rightarrow> (addr \<rightharpoonup> int) \<Rightarrow> bool" where
  "naive_rep e h V \<longleftrightarrow> naive_inv h V \<and> e = mem_heapsize h"

interpretation naivem: asignador_medido naive_asignador naive_inv naive_crece 0 naive_modelo naive_rep
proof (standard, goal_cases)
  case (1 h r h')
  then show ?case by (auto simp: naive_asignador_def naive_init_def naive_rep_def naive_modelo_def naive_inv_def area_def
        mem_heapsize_def MAX_HEAP_def)
next
  case (2 e h V sz p h')
  then have i: "naive_inv h V" "e = mem_heapsize h" by (simp_all add: naive_rep_def)
  from naive_malloc_spec [OF i(1) 2(2,3)] 2(4,5) have m: "p = mem_brk h + 8" "V p = None" "naive_inv h' (V(p \<mapsto> sz))"
    "conserva h h' V" "mem_heapsize h' = e + redondeo (sz + 8)" by (auto simp: naive_asignador_def i(2))
  then show ?case using i(2) by (simp add: naive_modelo_def naive_rep_def conserva_def mem_heapsize_def) blast
next
  case (3 e h V p n h')
  then show ?case using naive_olvidar by (simp add: naive_asignador_def naive_free_def naive_modelo_def naive_rep_def)
next
  case (4 e h V p n sz q h')
  then have i: "naive_inv h V" "e = mem_heapsize h" by (simp_all add: naive_rep_def)
  from naive_realloc_spec [OF i(1) 4(2-4)] 4(5,6) have m: "q = mem_brk h + 8" "q \<noteq> p" "V q = None" "naive_inv h' (V(p := None, q \<mapsto> sz))"
    "conserva h h' (V(p := None))" "mem_heapsize h' = e + redondeo (sz + 8)" by (auto simp: naive_asignador_def i(2))
  then show ?case using i(2) by (auto simp: naive_modelo_def naive_rep_def conserva_def mem_heapsize_def)
qed (simp add: naive_rep_def naive_modelo_def)

end
