(* ===== verification/Mdriver_Trace.thy ===== *)
theory Mdriver_Trace
  imports Mdriver Decimal
begin

text \<open>
  Reading a trace file: \<^verbatim>\<open>read_trace\<close> of \<^verbatim>\<open>mdriver.c\<close> on the text of the file, with the
  conversions of \<^verbatim>\<open>fscanf\<close> it uses, and the round trip with the text of a trace.
\<close>

subsection \<open>The conversions of \<^verbatim>\<open>fscanf\<close>\<close>

text \<open>
  A number for \<open>%d\<close> or \<open>%u\<close>: white space, an optional sign, digits. Without a digit nothing is
  assigned. The value of a number that does not fit the type is undefined.
\<close>

definition scan_num :: "string \<Rightarrow> int option \<times> string" where
  "scan_num s =
     (case parse_sign (dropWhile is_space s) of (sg, t) \<Rightarrow>
        if takeWhile is_digit t = [] then (None, t)
        else (Some (sg * parse_digits t), dropWhile is_digit t))"

definition scan_d :: "string \<Rightarrow> fallo + (int option \<times> string)" where
  "scan_d s =
     (case scan_num s of
        (None, t) \<Rightarrow> Inr (None, t)
      | (Some v, t) \<Rightarrow> if in_int v then Inr (Some v, t) else Inl Indefinido)"

definition scan_u :: "string \<Rightarrow> fallo + (int option \<times> string)" where
  "scan_u s =
     (case scan_num s of
        (None, t) \<Rightarrow> Inr (None, t)
      | (Some v, t) \<Rightarrow> if \<bar>v\<bar> < 2 ^ 32 then Inr (Some (v mod 2 ^ 32), t) else Inl Indefinido)"

text \<open>\<open>%s\<close> into a buffer of \<^verbatim>\<open>MAXLINE\<close> characters; the word is empty at the end of the file.\<close>

definition MAXLINE :: nat where "MAXLINE = 1024"

definition scan_s :: "string \<Rightarrow> fallo + (string \<times> string)" where
  "scan_s s =
     (let t = dropWhile is_space s; w = takeWhile (\<lambda>c. \<not> is_space c) t
      in if length w \<ge> MAXLINE then Inl Indefinido
         else Inr (w, dropWhile (\<lambda>c. \<not> is_space c) t))"

subsection \<open>The requests\<close>

text \<open>
  The variables of the loop. \<open>tam\<close> is the variable \<^verbatim>\<open>size\<close>, which has no value before the first
  conversion that assigns it.
\<close>

record lectura_t =
  texto :: string
  indice :: int
  tam :: "int option"
  max_index :: int
  leidas :: "traceop_t list"

text \<open>A conversion that fails leaves the variable as it was.\<close>

definition asignar :: "'a option \<Rightarrow> 'a \<Rightarrow> 'a" where
  "asignar v x = (case v of None \<Rightarrow> x | Some y \<Rightarrow> y)"

text \<open>\<open>"%u %u"\<close>: the second conversion is tried only after the first one.\<close>

definition leer_indice_tam :: "lectura_t \<Rightarrow> fallo + lectura_t" where
  "leer_indice_tam l =
     luego (scan_u (texto l)) (\<lambda>(v, t).
     case v of
       None \<Rightarrow> Inr (l\<lparr>texto := t\<rparr>)
     | Some i \<Rightarrow>
         luego (scan_u t) (\<lambda>(w, t).
         Inr (l\<lparr>texto := t, indice := i, tam := (case w of None \<Rightarrow> tam l | Some s \<Rightarrow> Some s)\<rparr>)))"

definition anotar_op :: "int \<Rightarrow> tipo_op \<Rightarrow> int \<Rightarrow> lectura_t \<Rightarrow> fallo + lectura_t" where
  "anotar_op n t s l =
     (if int (length (leidas l)) < n
      then Inr (l\<lparr>leidas := leidas l @ [\<lparr>op_type = t, op_index = to_int32 (indice l), op_size = to_int32 s\<rparr>]\<rparr>)
      else Inl Indefinido)"

definition anotar_max :: "lectura_t \<Rightarrow> lectura_t" where
  "anotar_max l = l\<lparr>max_index := (if indice l > max_index l then indice l else max_index l)\<rparr>"

text \<open>
  One request of the file, whose type is the first letter of the word \<open>w\<close>. The size of a request
  to free stays as it is in the fresh memory and is never used; it is 0 here.
\<close>

definition leer_peticion :: "int \<Rightarrow> char \<Rightarrow> lectura_t \<Rightarrow> fallo + lectura_t" where
  "leer_peticion n c l =
     (if c = CHR ''a'' \<or> c = CHR ''r'' then
        luego (leer_indice_tam l) (\<lambda>l.
        case tam l of
          None \<Rightarrow> Inl Indefinido
        | Some s \<Rightarrow>
            luego (anotar_op n (if c = CHR ''a'' then ALLOC else REALLOC) s l) (\<lambda>l. Inr (anotar_max l)))
      else if c = CHR ''f'' then
        luego (scan_u (texto l)) (\<lambda>(v, t).
        let t = (case v of None \<Rightarrow> t | Some _ \<Rightarrow> (case t of [] \<Rightarrow> t | c # cs \<Rightarrow> if c = CHR ''d'' then cs else t))
        in anotar_op n FREE 0 (l\<lparr>texto := t, indice := asignar v (indice l)\<rparr>))
      else Inl (App_error ''Bogus type character''))"

text \<open>
  The loop reads at most one word for each character that is left; the argument \<open>k\<close> bounds the
  number of iterations and \<open>length\<close> of the text is enough.
\<close>

primrec leer_peticiones :: "nat \<Rightarrow> int \<Rightarrow> lectura_t \<Rightarrow> (fallo + lectura_t) option" where
  "leer_peticiones 0 n l = None"
| "leer_peticiones (Suc k) n l =
     (case scan_s (texto l) of
        Inl e \<Rightarrow> Some (Inl e)
      | Inr (w, t) \<Rightarrow>
          (case w of
             [] \<Rightarrow> Some (Inr l)
           | c # cs \<Rightarrow>
               (case leer_peticion n c (l\<lparr>texto := t\<rparr>) of
                  Inl e \<Rightarrow> Some (Inl e)
                | Inr l \<Rightarrow> leer_peticiones k n l)))"

subsection \<open>\<^verbatim>\<open>read_trace\<close>\<close>

text \<open>
  \<open>archivo\<close> is the text of the file, \<open>None\<close> when it cannot be opened, \<open>b\<close> and \<open>s\<close> what the fresh
  arrays hold, \<open>m\<close> how many calls of \<^verbatim>\<open>malloc\<close> succeed. A header without its four numbers is undefined.
\<close>

definition leer_cabecera :: "string \<Rightarrow> fallo + (int \<times> string)" where
  "leer_cabecera s =
     luego (scan_d s) (\<lambda>(v, t). case v of None \<Rightarrow> Inl Indefinido | Some x \<Rightarrow> Inr (x, t))"

definition read_trace ::
    "string option \<Rightarrow> (nat \<Rightarrow> addr) \<Rightarrow> (nat \<Rightarrow> u64) \<Rightarrow> nat \<Rightarrow> fallo + trace_t" where
  "read_trace archivo b s m =
     (if m < 1 then Inl (Unix_error ''malloc 1 failed in read_trance'')
      else case archivo of
        None \<Rightarrow> Inl (Unix_error ''Could not open the file in read_trace'')
      | Some t \<Rightarrow>
          luego (leer_cabecera t) (\<lambda>(sugg, t).
          luego (leer_cabecera t) (\<lambda>(ids, t).
          luego (leer_cabecera t) (\<lambda>(nops, t).
          luego (leer_cabecera t) (\<lambda>(wt, t).
          if m < 2 \<or> nops < 0 then Inl (Unix_error ''malloc 2 failed in read_trace'')
          else if m < 3 \<or> ids < 0 then Inl (Unix_error ''malloc 3 failed in read_trace'')
          else if m < 4 then Inl (Unix_error ''malloc 4 failed in read_trace'')
          else
            luego (case leer_peticiones (Suc (length t)) nops
                     \<lparr>texto = t, indice = 0, tam = None, max_index = 0, leidas = []\<rparr> of
                     None \<Rightarrow> Inl Indefinido | Some r \<Rightarrow> r) (\<lambda>l.
            if max_index l \<noteq> (ids - 1) mod 2 ^ 32 then Inl Aborta
            else if nops \<noteq> int (length (leidas l)) then Inl Aborta
            else Inr \<lparr>sugg_heapsize = sugg, num_ids = ids, num_ops = nops, weight = wt, ops = leidas l,
                   blocks = map b [0..<nat ids], block_sizes = map s [0..<nat ids]\<rparr>))))))"

text \<open>
  The arrays go back to the host, which can give that memory again; an access to one of them afterwards is
  out of bounds, so undefined.
\<close>

definition free_trace :: "driver_t \<Rightarrow> driver_t" where
  "free_trace d =
     d\<lparr>traza := (traza d)\<lparr>ops := [], blocks := [], block_sizes := []\<rparr>, memoria := memoria d + 4\<rparr>"

lemma free_trace_simps [simp]:
  "heap (free_trace d) = heap d" "errores (free_trace d) = errores d" "ranges (free_trace d) = ranges d"
  by (simp_all add: free_trace_def)

subsection \<open>The text of a trace\<close>

text \<open>
  The trace files of the repository: the four numbers of the header and the requests, one per line.
\<close>

definition salto :: char where "salto = CHR 0x0A"

definition texto_op :: "traceop_t \<Rightarrow> string" where
  "texto_op op =
     (case op_type op of
        ALLOC \<Rightarrow> ''a '' @ decimal (nat (op_index op)) @ '' '' @ decimal (nat (op_size op))
      | REALLOC \<Rightarrow> ''r '' @ decimal (nat (op_index op)) @ '' '' @ decimal (nat (op_size op))
      | FREE \<Rightarrow> ''f '' @ decimal (nat (op_index op))) @ [salto]"

definition texto_traza :: "trace_t \<Rightarrow> string" where
  "texto_traza t =
     decimal (nat (sugg_heapsize t)) @ salto # decimal (nat (num_ids t)) @ salto #
     decimal (nat (num_ops t)) @ salto # decimal (nat (weight t)) @ salto # concat (map texto_op (ops t))"

text \<open>The largest index of a request that allocates, as the loop keeps it.\<close>

definition mayor_indice :: "int \<Rightarrow> traceop_t list \<Rightarrow> int" where
  "mayor_indice = foldl (\<lambda>m op. if op_type op = FREE then m else if op_index op > m then op_index op else m)"

text \<open>The requests a file can hold: index and size are nonnegative \<^verbatim>\<open>int\<close>s, a free has no size.\<close>

definition escribible :: "traceop_t \<Rightarrow> bool" where
  "escribible op \<longleftrightarrow> 0 \<le> op_index op \<and> op_index op < 2 ^ 31 \<and> 0 \<le> op_size op \<and> op_size op < 2 ^ 31 \<and>
     (op_type op = FREE \<longrightarrow> op_size op = 0)"

subsection \<open>Reading back a number\<close>

lemma no_digito [simp]: "\<not> is_digit salto" "\<not> is_digit CHR '' ''" "is_space salto" "is_space CHR '' ''"
  by (simp_all add: is_digit_def is_space_def digit_value_def salto_def)

lemma scan_num_decimal:
  assumes "list_all is_space w" "\<not> is_digit c"
  shows "scan_num (w @ decimal n @ c # r) = (Some (int n), c # r)"
proof -
  obtain x xs where d: "decimal n = x # xs" by (cases "decimal n") (simp_all add: decimal_no_vacio)
  then have x: "is_digit x" "list_all is_digit xs" using decimal_digitos [of n] by simp_all
  have ta: "takeWhile is_digit (decimal n @ c # r) = decimal n" "dropWhile is_digit (decimal n @ c # r) = c # r"
    using decimal_digitos [of n] assms(2) by (simp_all add: takeWhile_append2 dropWhile_append2 list_all_iff)
  have "dropWhile is_space (w @ decimal n @ c # r) = decimal n @ c # r"
    using assms(1) digito_no_espacio [OF x(1)] d by (simp add: dropWhile_append2 list_all_iff)
  moreover have "parse_sign (decimal n @ c # r) = (1, decimal n @ c # r)"
    using digito_no_espacio [OF x(1)] d by simp
  ultimately show ?thesis
    using ta by (simp add: scan_num_def parse_digits_def decimal_valor decimal_no_vacio)
qed

lemma scan_u_decimal [simp]:
  assumes "list_all is_space w" "\<not> is_digit c" "n < 2 ^ 32"
  shows "scan_u (w @ decimal n @ c # r) = Inr (Some (int n), c # r)"
  using assms by (simp add: scan_u_def scan_num_decimal)

lemma leer_cabecera_decimal:
  assumes "list_all is_space w" "\<not> is_digit c" "0 \<le> x" "x < 2 ^ 31"
  shows "leer_cabecera (w @ decimal (nat x) @ c # r) = Inr (x, c # r)"
  using assms by (simp add: leer_cabecera_def scan_d_def scan_num_decimal in_int_def int_min_def int_max_def)

subsection \<open>Reading back the requests\<close>

text \<open>What the loop has done after one request.\<close>

definition leida :: "traceop_t \<Rightarrow> string \<Rightarrow> lectura_t \<Rightarrow> lectura_t" where
  "leida op t l =
     l\<lparr>texto := t, indice := op_index op,
       tam := (if op_type op = FREE then tam l else Some (op_size op)),
       max_index := mayor_indice (max_index l) [op], leidas := leidas l @ [op]\<rparr>"

lemma leer_peticion_texto:
  assumes "escribible op" "int (length (leidas l)) < n"
  shows "\<exists>c t. scan_s (salto # texto_op op @ r) = Inr ([c], t) \<and>
    leer_peticion n c (l\<lparr>texto := t\<rparr>) = Inr (leida op (salto # r) l)"
proof -
  have e: "0 \<le> op_index op" "op_index op < 2 ^ 31" "0 \<le> op_size op" "op_size op < 2 ^ 31"
    "op_type op = FREE \<Longrightarrow> op_size op = 0"
    using assms(1) by (simp_all add: escribible_def)
  have i: "in_int (op_index op)" "in_int (op_size op)"
    using e by (simp_all add: in_int_def int_min_def int_max_def)
  have u: "scan_u (CHR '' '' # decimal (nat (op_index op)) @ c # q) = Inr (Some (op_index op), c # q)"
    if "\<not> is_digit c" for c q
    using scan_u_decimal [of "[CHR '' '']" c "nat (op_index op)" q] that e by simp
  have v: "scan_u (CHR '' '' # decimal (nat (op_size op)) @ salto # q) = Inr (Some (op_size op), salto # q)" for q
    using scan_u_decimal [of "[CHR '' '']" salto "nat (op_size op)" q] e by simp
  have w: "scan_s (salto # c # CHR '' '' # q) = Inr ([c], CHR '' '' # q)" if "\<not> is_space c" for c q
    using that by (simp add: scan_s_def MAXLINE_def)
  show ?thesis
  proof (cases "op_type op")
    case ALLOC
    then show ?thesis using assms(2) i
      by (intro exI [of _ "CHR ''a''"] exI)
        (auto simp: texto_op_def w is_space_def leer_peticion_def leer_indice_tam_def u v anotar_op_def anotar_max_def
          leida_def mayor_indice_def)
  next
    case REALLOC
    then show ?thesis using assms(2) i
      by (intro exI [of _ "CHR ''r''"] exI)
        (auto simp: texto_op_def w is_space_def leer_peticion_def leer_indice_tam_def u v anotar_op_def anotar_max_def
          leida_def mayor_indice_def)
  next
    case FREE
    have "salto \<noteq> CHR ''d''" by (simp add: salto_def)
    then show ?thesis using assms(2) i FREE e(5) [OF FREE]
      by (intro exI [of _ "CHR ''f''"] exI)
        (auto simp: texto_op_def w is_space_def leer_peticion_def u anotar_op_def asignar_def leida_def mayor_indice_def)
  qed
qed

lemma leer_peticiones_texto:
  assumes "list_all escribible os" "int (length (leidas l) + length os) \<le> n" "length os < k"
    "texto l = salto # concat (map texto_op os)"
  shows "\<exists>l'. leer_peticiones k n l = Some (Inr l') \<and> leidas l' = leidas l @ os \<and>
    max_index l' = mayor_indice (max_index l) os"
  using assms
proof (induction os arbitrary: l k)
  case Nil
  then obtain k' where "k = Suc k'" by (cases k) simp_all
  then show ?case using Nil by (simp add: scan_s_def MAXLINE_def mayor_indice_def)
next
  case (Cons op os)
  then obtain k' where k: "k = Suc k'" by (cases k) simp_all
  let ?l = "leida op (salto # concat (map texto_op os)) l"
  obtain c t where c: "scan_s (texto l) = Inr ([c], t)" "leer_peticion n c (l\<lparr>texto := t\<rparr>) = Inr ?l"
    using leer_peticion_texto [of op l n "concat (map texto_op os)"] Cons.prems by auto
  have m: "max_index ?l = mayor_indice (max_index l) [op]" "leidas ?l = leidas l @ [op]"
    "texto ?l = salto # concat (map texto_op os)"
    by (simp_all add: leida_def)
  obtain l' where "leer_peticiones k' n ?l = Some (Inr l')" "leidas l' = leidas ?l @ os"
    "max_index l' = mayor_indice (max_index ?l) os"
    using Cons.IH [of ?l k'] Cons.prems k m by auto
  then show ?case using c k m by (simp add: mayor_indice_def)
qed

lemma texto_op_largo: "length os \<le> length (concat (map texto_op os))"
proof (induction os)
  case (Cons op os)
  have "1 \<le> length (texto_op op)" by (simp add: texto_op_def)
  then show ?case using Cons by simp
qed simp

lemma leer_texto:
  assumes "list_all escribible (ops t)" "num_ops t = int (length (ops t))" "num_ops t < 2 ^ 31"
    "num_ids t = mayor_indice 0 (ops t) + 1" "0 < num_ids t" "num_ids t < 2 ^ 31"
    "0 \<le> sugg_heapsize t" "sugg_heapsize t < 2 ^ 31" "0 \<le> weight t" "weight t < 2 ^ 31" "4 \<le> m"
  shows "read_trace (Some (texto_traza t)) b s m =
    Inr (t\<lparr>blocks := map b [0..<nat (num_ids t)], block_sizes := map s [0..<nat (num_ids t)]\<rparr>)"
proof -
  let ?r = "salto # concat (map texto_op (ops t))"
  let ?l = "\<lparr>texto = ?r, indice = 0, tam = None, max_index = 0, leidas = []\<rparr>"
  have c: "leer_cabecera (decimal (nat x) @ salto # r) = Inr (x, salto # r)"
    "leer_cabecera (salto # decimal (nat x) @ salto # r) = Inr (x, salto # r)" if "0 \<le> x" "x < 2 ^ 31" for x r
    using leer_cabecera_decimal [of "[]" salto x r] leer_cabecera_decimal [of "[salto]" salto x r] that by simp_all
  obtain l where l: "leer_peticiones (Suc (length ?r)) (num_ops t) ?l = Some (Inr l)" "leidas l = ops t"
    "max_index l = mayor_indice 0 (ops t)"
    using leer_peticiones_texto [of "ops t" ?l "num_ops t" "Suc (length ?r)"] assms(1,2) texto_op_largo [of "ops t"]
    by auto
  have n: "0 \<le> num_ops t" "max_index l = (num_ids t - 1) mod 2 ^ 32" "num_ops t = int (length (leidas l))"
    using assms(2,4,5,6) l by simp_all
  have no: "\<not> max_index l \<noteq> (num_ids t - 1) mod 2 ^ 32" "\<not> num_ops t \<noteq> int (length (leidas l))"
    using n by simp_all
  have ids: "0 \<le> num_ids t" using assms(5) by simp
  have hay: "(m < 1) = False" "(m < 2) = False" "(m < 3) = False" "(m < 4) = False"
    "(num_ops t < 0) = False" "(num_ids t < 0) = False"
    using assms(11) n(1) ids by simp_all
  have "read_trace (Some (texto_traza t)) b s m =
    luego (case leer_peticiones (Suc (length ?r)) (num_ops t) ?l of None \<Rightarrow> Inl Indefinido | Some r \<Rightarrow> r) (\<lambda>l.
      if max_index l \<noteq> (num_ids t - 1) mod 2 ^ 32 then Inl Aborta
      else if num_ops t \<noteq> int (length (leidas l)) then Inl Aborta
      else Inr \<lparr>sugg_heapsize = sugg_heapsize t, num_ids = num_ids t, num_ops = num_ops t, weight = weight t,
             ops = leidas l, blocks = map b [0..<nat (num_ids t)], block_sizes = map s [0..<nat (num_ids t)]\<rparr>)"
    by (simp only: read_trace_def texto_traza_def option.case c [OF assms(7,8)] c [OF ids(1) assms(6)]
      c [OF n(1) assms(3)] c [OF assms(9,10)] luego_simps prod.case hay if_False simp_thms)
  also have "\<dots> = Inr (t\<lparr>blocks := map b [0..<nat (num_ids t)], block_sizes := map s [0..<nat (num_ids t)]\<rparr>)"
    by (simp only: l(1) option.case luego_simps if_not_P [OF no(1)] if_not_P [OF no(2)]) (cases t, simp add: l(2))
  finally show ?thesis .
qed

end
