(* ===== verification/Mdriver_Espec.thy ===== *)
theory Mdriver_Espec
  imports Mdriver_Util
begin

text \<open>
  What \<^verbatim>\<open>eval_mm_valid\<close> decides about an allocator of which nothing is known. The specification is a
  step relation on the memory and the list of the live payloads (index, address, size), the newest
  first: each request is answered by the allocator, its answer has to be \<open>admisible\<close>, and a reallocation
  has to keep the data. The driver returns 1 exactly when the allocator answers all requests of the trace like this
  and the driver can see it: its check of the data fails whenever the low byte of the index is 128 or more (\<open>legible\<close>).
\<close>

unbundle bit_operations_syntax

subsection \<open>The specification\<close>

type_synonym vivos = "(int \<times> addr \<times> int) list"

definition rango :: "int \<times> addr \<times> int \<Rightarrow> range_t" where
  "rango x = \<lparr>lo = fst (snd x), hi = fst (snd x) + snd (snd x) - 1\<rparr>"

text \<open>
  A new payload: not \<^verbatim>\<open>NULL\<close>, aligned to 8 bytes, inside the heap and in memory that can be
  written. Each live payload lies beside it or strictly inside it.
\<close>

definition admisible :: "addr \<Rightarrow> int \<Rightarrow> heap_t \<Rightarrow> vivos \<Rightarrow> bool" where
  "admisible p sz h L \<longleftrightarrow> p \<noteq> NULL \<and> 8 dvd p \<and> mem_heap_lo h \<le> p \<and> p + sz - 1 \<le> mem_heap_hi h \<and>
     en_area h p sz \<and> (\<forall>(k, q, n) \<in> set L. p + sz \<le> q \<or> q + n \<le> p \<or> p < q \<and> q + n < p + sz)"

definition llena :: "int \<Rightarrow> addr \<Rightarrow> int \<Rightarrow> heap_t \<Rightarrow> heap_t" where
  "llena i p sz h = h\<lparr>bytes := (\<lambda>x. if p \<le> x \<and> x < p + sz then byte_de i else bytes h x)\<rparr>"

definition quita :: "int \<Rightarrow> vivos \<Rightarrow> vivos" where
  "quita i L = filter (\<lambda>x. fst x \<noteq> i) L"

text \<open>
  A step. A new payload is filled with the low byte of its index. A reallocation keeps the data: as many
  bytes as the smaller one of the two payloads has are still this byte at the new address.
\<close>

inductive fiel :: "asignador_t \<Rightarrow> traceop_t \<Rightarrow> heap_t \<times> vivos \<Rightarrow> heap_t \<times> vivos \<Rightarrow> bool" for A where
  pide: "op_type r = ALLOC \<Longrightarrow> malloc_f A (word_of_int (op_size r)) h = Some (p, h1) \<Longrightarrow>
    admisible p (op_size r) h1 L \<Longrightarrow>
    fiel A r (h, L) (llena (op_index r) p (op_size r) h1, (op_index r, p, op_size r) # L)"
| cambia: "op_type r = REALLOC \<Longrightarrow> map_of L (op_index r) = Some (p, n) \<Longrightarrow>
    realloc_f A p (word_of_int (op_size r)) h = Some (q, h1) \<Longrightarrow>
    admisible q (op_size r) h1 (quita (op_index r) L) \<Longrightarrow>
    \<forall>x. q \<le> x \<and> x < q + min n (op_size r) \<longrightarrow> bytes h1 x = byte_de (op_index r) \<Longrightarrow>
    fiel A r (h, L) (llena (op_index r) q (op_size r) h1, (op_index r, q, op_size r) # quita (op_index r) L)"
| libera: "op_type r = FREE \<Longrightarrow> map_of L (op_index r) = Some (p, n) \<Longrightarrow> free_f A p h = Some h1 \<Longrightarrow>
    fiel A r (h, L) (h1, quita (op_index r) L)"

inductive_cases fiel_casos: "fiel A r s s'"

inductive corrida :: "asignador_t \<Rightarrow> traceop_t list \<Rightarrow> heap_t \<times> vivos \<Rightarrow> heap_t \<times> vivos \<Rightarrow> bool" for A where
  fin: "corrida A [] s s"
| mas: "fiel A r s s1 \<Longrightarrow> corrida A rs s1 s2 \<Longrightarrow> corrida A (r # rs) s s2"

inductive_cases corrida_casos: "corrida A [] s s'" "corrida A (r # rs) s s'"

lemma fiel_unico: "fiel A r s s1 \<Longrightarrow> fiel A r s s2 \<Longrightarrow> s1 = s2"
  by (erule fiel_casos; erule fiel_casos) auto

lemma corrida_paso: "fiel A r s s1 \<Longrightarrow> corrida A (r # rs) s s' \<longleftrightarrow> corrida A rs s1 s'"
  by (metis corrida_casos(2) corrida.mas fiel_unico)

lemma corrida_append: "corrida A (rs @ rs') s s' \<longleftrightarrow> (\<exists>s1. corrida A rs s s1 \<and> corrida A rs' s1 s')"
proof (induction rs arbitrary: s)
  case Nil
  then show ?case using corrida.fin [of A s] corrida_casos(1) by (metis append_Nil)
next
  case (Cons r rs)
  show ?case
  proof
    assume "corrida A ((r # rs) @ rs') s s'"
    then obtain s1 where "fiel A r s s1" "corrida A (rs @ rs') s1 s'" by (auto elim: corrida_casos(2))
    then show "\<exists>s1. corrida A (r # rs) s s1 \<and> corrida A rs' s1 s'" using Cons.IH [of s1] corrida.mas by blast
  next
    assume "\<exists>s1. corrida A (r # rs) s s1 \<and> corrida A rs' s1 s'"
    then obtain s1 s2 where "fiel A r s s2" "corrida A rs s2 s1" "corrida A rs' s1 s'"
      by (auto elim: corrida_casos(2))
    then show "corrida A ((r # rs) @ rs') s s'" using Cons.IH [of s2] corrida.mas by fastforce
  qed
qed

lemma quita_simps [simp]: "fst ` set (quita i L) = fst ` set L - {i}"
  by (auto simp: quita_def)

text \<open>The indices that are live after a request.\<close>

definition vivos_tras :: "traceop_t \<Rightarrow> int set \<Rightarrow> int set" where
  "vivos_tras r S = (case op_type r of FREE \<Rightarrow> S - {op_index r} | _ \<Rightarrow> insert (op_index r) S)"

lemma fiel_indices: "fiel A r s s' \<Longrightarrow> fst ` set (snd s') = vivos_tras r (fst ` set (snd s))"
  by (erule fiel_casos) (simp_all add: vivos_tras_def)

subsection \<open>The invariant of the specification\<close>

text \<open>Any two live payloads lie apart or one strictly inside the other.\<close>

definition aparte :: "addr \<Rightarrow> int \<Rightarrow> addr \<Rightarrow> int \<Rightarrow> bool" where
  "aparte p n q m \<longleftrightarrow> p + n \<le> q \<or> q + m \<le> p \<or> p < q \<and> q + m < p + n \<or> q < p \<and> p + n < q + m"

lemma aparte_sym: "aparte p n q m \<longleftrightarrow> aparte q m p n"
  by (auto simp: aparte_def)

definition vivos_ok :: "vivos \<Rightarrow> bool" where
  "vivos_ok L \<longleftrightarrow> (\<forall>(i, p, n) \<in> set L. p \<noteq> NULL \<and> 8 dvd p \<and> (\<forall>(k, q, m) \<in> set L. k \<noteq> i \<longrightarrow> aparte p n q m))"

lemma vivos_ok_quita: "vivos_ok L \<Longrightarrow> vivos_ok (quita i L)"
  by (auto simp: vivos_ok_def quita_def)

lemma vivos_ok_Cons:
  assumes "vivos_ok L" "admisible p sz h L"
  shows "vivos_ok ((i, p, sz) # L)"
proof -
  have n: "p \<noteq> NULL" "8 dvd p" using assms(2) by (simp_all add: admisible_def)
  have a: "aparte p sz q m" if "(k, q, m) \<in> set L" for k q m
    using assms(2) that by (auto simp: admisible_def aparte_def)
  then have b: "aparte q m p sz" if "(k, q, m) \<in> set L" for k q m using that aparte_sym by blast
  show ?thesis using assms(1) n a b by (auto simp: vivos_ok_def)
qed

lemma fiel_ok: "fiel A r s s' \<Longrightarrow> vivos_ok (snd s) \<Longrightarrow> vivos_ok (snd s')"
  by (erule fiel_casos) (auto intro: vivos_ok_Cons vivos_ok_quita)

lemma corrida_indices: "corrida A rs s s' \<Longrightarrow> fst ` set (snd s') = fold vivos_tras rs (fst ` set (snd s))"
  by (induction rule: corrida.induct) (auto simp: fiel_indices)

lemma corrida_ok: "corrida A rs s s' \<Longrightarrow> vivos_ok (snd s) \<Longrightarrow> vivos_ok (snd s')"
  by (induction rule: corrida.induct) (auto dest: fiel_ok)

subsection \<open>The checks of the driver\<close>

lemma add_range_decide:
  assumes "0 < sz" "0 < memoria d" "ranges d = map rango L" "\<forall>x \<in> set L. 0 < snd (snd x)"
  shows "if 8 dvd p \<and> mem_heap_lo (heap d) \<le> p \<and> p + sz - 1 \<le> mem_heap_hi (heap d) \<and>
      (\<forall>(k, q, n) \<in> set L. p + sz \<le> q \<or> q + n \<le> p \<or> p < q \<and> q + n < p + sz)
    then add_range p sz t i d = Inr (True, d\<lparr>ranges := rango (j, p, sz) # ranges d, memoria := memoria d - 1\<rparr>)
    else \<exists>d'. add_range p sz t i d = Inr (False, d')"
proof -
  let ?f = "find (\<lambda>r. p \<ge> lo r \<and> p \<le> hi r \<or> p + sz - 1 \<ge> lo r \<and> p + sz - 1 \<le> hi r) (ranges d)"
  have f: "?f = None \<longleftrightarrow> (\<forall>(k, q, n) \<in> set L. p + sz \<le> q \<or> q + n \<le> p \<or> p < q \<and> q + n < p + sz)"
  proof -
    have "\<not> (p \<ge> lo (rango x) \<and> p \<le> hi (rango x) \<or> p + sz - 1 \<ge> lo (rango x) \<and> p + sz - 1 \<le> hi (rango x)) \<longleftrightarrow>
        (case x of (k, q, n) \<Rightarrow> p + sz \<le> q \<or> q + n \<le> p \<or> p < q \<and> q + n < p + sz)" if "x \<in> set L" for x
      using assms(1,4) that by (cases x) (fastforce simp: rango_def)
    then show ?thesis unfolding find_None_iff assms(3) by auto
  qed
  show ?thesis
  proof (cases ?f)
    case None
    then show ?thesis using f assms(1,2) by (auto simp: add_range_def is_aligned_dvd Let_def rango_def)
  next
    case (Some r)
    then show ?thesis using f assms(1,2) by (auto simp: add_range_def is_aligned_dvd Let_def)
  qed
qed

lemma comprobar_decide:
  assumes "\<forall>x. p \<le> x \<and> x < p + int k \<longrightarrow> en_area h x 1"
  shows "comprobar_datos k p c h = Inr (\<forall>x. p \<le> x \<and> x < p + int k \<longrightarrow> sint (bytes h x) = c)"
  using assms
proof (induction k arbitrary: p)
  case (Suc k)
  have split: "(\<forall>x. p \<le> x \<and> x < p + int (Suc k) \<longrightarrow> P x) \<longleftrightarrow> P p \<and> (\<forall>x. p + 1 \<le> x \<and> x < p + 1 + int k \<longrightarrow> P x)"
    for P :: "int \<Rightarrow> bool"
  proof -
    have "p \<le> x \<and> x < p + int (Suc k) \<longleftrightarrow> x = p \<or> p + 1 \<le> x \<and> x < p + 1 + int k" for x by auto
    then show ?thesis by simp blast
  qed
  show ?case using Suc.prems Suc.IH [of "p + 1"] unfolding split by simp
qed simp

subsection \<open>The simulation\<close>

definition sigue :: "driver_t \<Rightarrow> heap_t \<times> vivos \<Rightarrow> bool" where
  "sigue e s \<longleftrightarrow> tamanos_ok e \<and> heap e = fst s \<and> ranges e = map rango (snd s) \<and>
     distinct (map fst (snd s)) \<and> distinct (map (fst \<circ> snd) (snd s)) \<and>
     (\<forall>(i, p, n) \<in> set (snd s). 0 \<le> i \<and> i < num_ids (traza e) \<and> 0 < n \<and> n < 2 ^ 31 \<and> slots e i = (p, word_of_int n))"

text \<open>The driver takes a step as the specification does, or neither goes on.\<close>

definition coincide :: "driver_t \<Rightarrow> (heap_t \<times> vivos \<Rightarrow> bool) \<Rightarrow> fallo + (bool \<times> driver_t) \<Rightarrow> bool" where
  "coincide e P r \<longleftrightarrow>
     (\<exists>s e'. P s \<and> r = Inr (True, e') \<and> sigue e' s \<and> igual_traza e e' \<and> memoria e \<le> memoria e' + 1) \<or>
     (\<forall>s. \<not> P s) \<and> (\<forall>e'. r \<noteq> Inr (True, e'))"

lemma quitar_rango:
  assumes "distinct (map fst L)" "distinct (map (fst \<circ> snd) L)" "map_of L i = Some (p, n)"
  shows "quitar p (map rango L) = map rango (quita i L)"
proof -
  have m: "(i, p, n) \<in> set L" using assms(3) by (rule map_of_SomeD)
  have "distinct (map lo (map rango L))" using assms(2) by (simp add: rango_def comp_def)
  then have "quitar p (map rango L) = map rango (filter (\<lambda>x. fst (snd x) \<noteq> p) L)"
    by (simp add: quitar_filter filter_map comp_def rango_def)
  also have "filter (\<lambda>x. fst (snd x) \<noteq> p) L = quita i L"
    unfolding quita_def
  proof (rule filter_cong [OF refl])
    fix x assume x: "x \<in> set L"
    have "fst x = i \<longleftrightarrow> x = (i, p, n)" using assms(1) m x by (auto simp: distinct_map inj_on_def)
    moreover have "fst (snd x) = p \<longleftrightarrow> x = (i, p, n)" using assms(2) m x by (auto simp: distinct_map inj_on_def)
    ultimately show "fst (snd x) \<noteq> p \<longleftrightarrow> fst x \<noteq> i" by blast
  qed
  finally show ?thesis .
qed

text \<open>The end of \<^verbatim>\<open>ALLOC\<close> and \<^verbatim>\<open>REALLOC\<close>: the payload is filled and noted.\<close>

lemma cerrar:
  assumes t: "tamanos_ok e" "0 \<le> i" "i < num_ids (traza e)" and sz: "0 < sz" "sz < 2 ^ 31"
    and e: "heap e = h" "ranges e = map rango ((i, p, sz) # L)"
    and d: "distinct (map fst L)" "i \<notin> fst ` set L" "distinct (map (fst \<circ> snd) L)"
    and L: "\<forall>(k, q, n) \<in> set L. 0 \<le> k \<and> k < num_ids (traza e) \<and> 0 < n \<and> n < 2 ^ 31 \<and> slots e k = (q, word_of_int n)"
    and a: "admisible p sz h L"
  obtains e' where "luego (desde (memset p (word_of_int (i AND 255)) (unat (word_of_int sz :: u64)) (heap e))) (\<lambda>h.
      luego (anotar_bloque i p (e\<lparr>heap := h\<rparr>)) (\<lambda>d. luego (anotar_tamano i sz d) (\<lambda>d. Inr (True, d)))) = Inr (True, e')"
    "sigue e' (llena i p sz h, (i, p, sz) # L)" "igual_traza e e'" "memoria e' = memoria e"
proof -
  have ms: "memset p (word_of_int (i AND 255)) (unat (word_of_int sz :: u64)) (heap e) = Some (llena i p sz h)"
    using a sz unfolding unat_size [OF sz] e(1) llena_def byte_de_def by (simp add: memset_def admisible_def)
  let ?e = "e\<lparr>heap := llena i p sz h\<rparr>"
  have t': "tamanos_ok ?e" "i < num_ids (traza ?e)" using t by (simp_all add: tamanos_ok_def)
  obtain e' where e': "luego (anotar_bloque i p ?e) (\<lambda>d. luego (anotar_tamano i sz d) (\<lambda>d. Inr (True, d))) = Inr (True, e')"
    "heap e' = heap ?e" "ranges e' = ranges ?e" "memoria e' = memoria ?e"
    "tamanos_ok e'" "igual_traza ?e e'" "slots e' i = (p, word_of_int sz)"
    "\<And>j. 0 \<le> j \<Longrightarrow> j \<noteq> i \<Longrightarrow> slots e' j = slots ?e j"
    by (rule anotar [OF t'(1) t(2) t'(2), of p sz "\<lambda>d. Inr (True, d)"]) auto
  have ig: "igual_traza e e'" using e'(6) by (simp add: igual_traza_def)
  have "p \<noteq> q" if "(k, q, n) \<in> set L" for k q n
    using a sz L that by (fastforce simp: admisible_def)
  then have "p \<notin> (fst \<circ> snd) ` set L" by fastforce
  moreover have "slots e' k = slots e k" if k: "(k, q, n) \<in> set L" for k q n
  proof -
    have "k \<in> fst ` set L" using k by (rule rev_image_eqI) simp
    then show ?thesis using e'(8) [of k] L d(2) k by auto
  qed
  ultimately have "sigue e' (llena i p sz h, (i, p, sz) # L)"
    using e' e d L t sz ig unfolding sigue_def igual_traza_def by (auto simp: image_iff split: prod.splits)
  then show ?thesis using that ms e'(1,4) ig by simp
qed

lemma coincideI:
  "P s \<Longrightarrow> r = Inr (True, e') \<Longrightarrow> sigue e' s \<Longrightarrow> igual_traza e e' \<Longrightarrow> memoria e \<le> memoria e' + 1 \<Longrightarrow> coincide e P r"
  "(\<And>s. \<not> P s) \<Longrightarrow> (\<And>e'. r \<noteq> Inr (True, e')) \<Longrightarrow> coincide e P r"
  unfolding coincide_def by blast+

lemma sigueD:
  assumes "sigue e (h, L)"
  shows "tamanos_ok e" "heap e = h" "ranges e = map rango L" "distinct (map fst L)" "distinct (map (fst \<circ> snd) L)"
    "\<forall>(k, q, n) \<in> set L. 0 \<le> k \<and> k < num_ids (traza e) \<and> 0 < n \<and> n < 2 ^ 31 \<and> slots e k = (q, word_of_int n)"
    "\<forall>x \<in> set L. 0 < snd (snd x)"
  using assms by (auto simp: sigue_def)

lemma valid_alloc_decide:
  assumes R: "sigue e (h, L)" and mem: "0 < memoria e" and r: "op_type r = ALLOC" "op_index r = i" "op_size r = sz"
    and i: "0 \<le> i" "i < num_ids (traza e)" "i \<notin> fst ` set L" and sz: "0 < sz" "sz < 2 ^ 31"
  shows "coincide e (fiel A r (h, L)) (valid_alloc A t k i sz e)"
proof -
  note R' = sigueD [OF R]
  show ?thesis
  proof (cases "malloc_f A (word_of_int sz) h")
    case None
    then show ?thesis using r by (intro coincideI(2)) (auto simp: valid_alloc_def R'(2) elim: fiel_casos)
  next
    case (Some x)
    then obtain p h1 where m: "malloc_f A (word_of_int sz) h = Some (p, h1)" by (cases x) auto
    let ?e = "e\<lparr>heap := h1\<rparr>"
    let ?c = "8 dvd p \<and> mem_heap_lo h1 \<le> p \<and> p + sz - 1 \<le> mem_heap_hi h1 \<and>
        (\<forall>(k, q, n) \<in> set L. p + sz \<le> q \<or> q + n \<le> p \<or> p < q \<and> q + n < p + sz)"
    have ar: "if ?c then add_range p sz t (int k) ?e = Inr (True, ?e\<lparr>ranges := rango (i, p, sz) # ranges e, memoria := memoria e - 1\<rparr>)
      else \<exists>d'. add_range p sz t (int k) ?e = Inr (False, d')"
      using add_range_decide [of sz ?e L p t "int k" i] sz(1) mem R'(3,7) by simp
    show ?thesis
    proof (cases "admisible p sz h1 L")
      case True
      let ?f = "?e\<lparr>ranges := rango (i, p, sz) # ranges e, memoria := memoria e - 1\<rparr>"
      have ok: "p \<noteq> NULL" "add_range p sz t (int k) ?e = Inr (True, ?f)" using True ar by (auto simp: admisible_def)
      obtain e' where e': "luego (desde (memset p (word_of_int (i AND 255)) (unat (word_of_int sz :: u64)) (heap ?f))) (\<lambda>h.
          luego (anotar_bloque i p (?f\<lparr>heap := h\<rparr>)) (\<lambda>d. luego (anotar_tamano i sz d) (\<lambda>d. Inr (True, d)))) = Inr (True, e')"
        "sigue e' (llena i p sz h1, (i, p, sz) # L)" "igual_traza ?f e'" "memoria e' = memoria ?f"
        by (rule cerrar [of ?f i sz h1 p L]) (use R' i sz True in \<open>auto simp: tamanos_ok_def\<close>)
      have run: "valid_alloc A t k i sz e = Inr (True, e')"
        using e'(1) ok m by (simp add: valid_alloc_def R'(2))
      have "fiel A r (h, L) (llena i p sz h1, (i, p, sz) # L)"
        using fiel.pide [of r A h p h1 L] r m True by simp
      then show ?thesis
        by (rule coincideI(1) [OF _ run e'(2)]) (use e'(3,4) mem in \<open>auto simp: igual_traza_def\<close>)
    next
      case False
      have "\<not> fiel A r (h, L) s" for s using False r m by (auto elim: fiel_casos)
      moreover have "valid_alloc A t k i sz e \<noteq> Inr (True, e')" for e'
      proof (cases "p = NULL \<or> (\<exists>d'. add_range p sz t (int k) ?e = Inr (False, d'))")
        case True
        then show ?thesis using m by (auto simp: valid_alloc_def R'(2) Let_def)
      next
        case F: False
        then have "add_range p sz t (int k) ?e = Inr (True, ?e\<lparr>ranges := rango (i, p, sz) # ranges e, memoria := memoria e - 1\<rparr>)"
          using ar by presburger
        moreover have ?c using F ar by presburger
        then have "\<not> en_area h1 p sz" using F False by (simp add: admisible_def)
        ultimately show ?thesis using m F sz by (simp add: valid_alloc_def R'(2) memset_def unat_size)
      qed
      ultimately show ?thesis by (rule coincideI(2))
    qed
  qed
qed

text \<open>
  The comparison of the driver: a signed byte with a number from 0 to 255. It says whether the data was kept only
  for indices with a low byte below 128; for the others it fails whatever the bytes are.
\<close>

lemma comparar_datos:
  assumes "0 < m"
  shows "(\<forall>x. q \<le> x \<and> x < q + m \<longrightarrow> sint (bytes h x) = i mod 256) \<longleftrightarrow>
    i mod 256 < 128 \<and> (\<forall>x. q \<le> x \<and> x < q + m \<longrightarrow> bytes h x = byte_de i)"
proof -
  have u: "sint b = i mod 256 \<longleftrightarrow> i mod 256 < 128 \<and> b = byte_de i" for b :: u8
  proof -
    have "sint b < 128" using sint_lt [of b] by simp
    moreover have "b = byte_de i \<longleftrightarrow> sint b = sint (byte_de i)" by (rule word_eq_iff_signed)
    ultimately show ?thesis unfolding sint_byte_de by auto
  qed
  show ?thesis
  proof (cases "i mod 256 < 128")
    case False
    then have "sint (bytes h q) \<noteq> i mod 256" unfolding u by simp
    then show ?thesis using assms False by (intro iffI) auto
  qed (simp add: u)
qed

lemma sigue_quita:
  assumes "sigue e (h, L)" "map_of L i = Some (p, n)"
  shows "ranges (remove_range p e) = map rango (quita i L)" "distinct (map fst (quita i L))"
    "distinct (map (fst \<circ> snd) (quita i L))" "set (quita i L) \<subseteq> set L" "i \<notin> fst ` set (quita i L)"
proof -
  note R = sigueD [OF assms(1)]
  show "ranges (remove_range p e) = map rango (quita i L)" using quitar_rango [OF R(4,5) assms(2)] R(3) by simp
  show "distinct (map fst (quita i L))" "distinct (map (fst \<circ> snd) (quita i L))"
    using R(4,5) unfolding quita_def by (auto simp: distinct_map intro: inj_on_subset)
qed (auto simp: quita_def)

lemma sigue_leer:
  assumes "sigue e (h, L)" "map_of L i = Some (p, n)"
  shows "leer_bloque_id i e = Inr p" "slots e i = (p, word_of_int n)" "0 \<le> i" "i < num_ids (traza e)"
    "0 < n" "n < 2 ^ 31" "to_int32 (uint (word_of_int n :: u64)) = n"
proof -
  have m: "(i, p, n) \<in> set L" using assms(2) by (rule map_of_SomeD)
  then show s: "slots e i = (p, word_of_int n)" "0 \<le> i" "i < num_ids (traza e)" "0 < n" "n < 2 ^ 31"
    using sigueD(6) [OF assms(1)] by auto
  show "leer_bloque_id i e = Inr p" using leer_id(1) [OF sigueD(1) [OF assms(1)] s(2,3)] s(1) by simp
  have "uint (word_of_int n :: u64) = n" using s(4,5) by (simp add: uint_of_small_int)
  then show "to_int32 (uint (word_of_int n :: u64)) = n"
    using s(4,5) by (intro trans [OF to_int32_id]) (simp_all add: in_int_def int_min_def int_max_def)
qed

lemma valid_realloc_decide:
  assumes R: "sigue e (h, L)" and mem: "0 < memoria e" and r: "op_type r = REALLOC" "op_index r = i" "op_size r = sz"
    and p: "map_of L i = Some (p, n)" and sz: "0 < sz" "sz < 2 ^ 31"
  shows "coincide e (\<lambda>s. legible r \<and> fiel A r (h, L) s) (valid_realloc A t k i sz e)"
proof -
  note R' = sigueD [OF R]
  note Q = sigue_quita [OF R p]
  note i = sigue_leer [OF R p]
  show ?thesis
  proof (cases "realloc_f A p (word_of_int sz) h")
    case None
    then show ?thesis using r p i(1) by (intro coincideI(2)) (auto simp: valid_realloc_def R'(2) elim: fiel_casos)
  next
    case (Some x)
    then obtain q h1 where m: "realloc_f A p (word_of_int sz) h = Some (q, h1)" by (cases x) auto
    let ?e = "remove_range p (e\<lparr>heap := h1\<rparr>)"
    define f where "f = ?e\<lparr>ranges := rango (i, q, sz) # ranges ?e, memoria := memoria e - 1\<rparr>"
    have f: "heap f = h1" "traza f = traza e" "memoria f = memoria e - 1" "ranges f = rango (i, q, sz) # ranges ?e"
      "slots f k = slots e k" for k by (simp_all add: f_def slots_def)
    have er: "ranges ?e = map rango (quita i L)" using Q(1) by simp
    let ?c = "8 dvd q \<and> mem_heap_lo h1 \<le> q \<and> q + sz - 1 \<le> mem_heap_hi h1 \<and>
        (\<forall>(k, q', n) \<in> set (quita i L). q + sz \<le> q' \<or> q' + n \<le> q \<or> q < q' \<and> q' + n < q + sz)"
    have ar: "if ?c then add_range q sz t (int k) ?e = Inr (True, f)
      else \<exists>d'. add_range q sz t (int k) ?e = Inr (False, d')"
    proof -
      have pos: "\<forall>x \<in> set (quita i L). 0 < snd (snd x)" using Q(4) R'(7) by blast
      show ?thesis using add_range_decide [OF sz(1) _ er pos, of q t "int k" i] mem by (simp add: f_def)
    qed
    have te: "tamanos_ok f" "i < num_ids (traza f)" using R'(1) i(4) by (simp_all add: tamanos_ok_def f)
    have lt: "leer_tamano_id i f = Inr (word_of_int n)"
      using leer_id(2) [OF te(1) i(3) te(2)] i(2) by (simp add: f)
    let ?resto = "luego (desde (memset q (word_of_int (i AND 255)) (unat (word_of_int sz :: u64)) h1)) (\<lambda>h.
        luego (anotar_bloque i q (f\<lparr>heap := h\<rparr>)) (\<lambda>d. luego (anotar_tamano i sz d) (\<lambda>d. Inr (True, d))))"
    have run: "valid_realloc A t k i sz e = luego (comprobar_datos (nat (if sz < n then sz else n)) q (i AND 255) h1)
        (\<lambda>igual. if \<not> igual then Inr (False, malloc_error t (int k) Datos_perdidos f) else ?resto)"
      if "q \<noteq> NULL" "add_range q sz t (int k) ?e = Inr (True, f)"
      using i(1,7) m that lt by (simp add: valid_realloc_def R'(2) Let_def f cong: if_cong)
    have mm: "(if sz < n then sz else n) = min n sz" by simp
    have dat: "(\<forall>x. q \<le> x \<and> x < q + min n sz \<longrightarrow> sint (bytes h1 x) = i mod 256) \<longleftrightarrow>
        legible r \<and> (\<forall>x. q \<le> x \<and> x < q + min n sz \<longrightarrow> bytes h1 x = byte_de i)"
      using comparar_datos [of "min n sz" q h1 i] i(5) sz(1) r by (simp add: legible_def)
    show ?thesis
    proof (cases "admisible q sz h1 (quita i L) \<and> (\<forall>x. q \<le> x \<and> x < q + min n sz \<longrightarrow> sint (bytes h1 x) = i mod 256)")
      case True
      have ok: "q \<noteq> NULL" "add_range q sz t (int k) ?e = Inr (True, f)" using True ar by (auto simp: admisible_def)
      have "comprobar_datos (nat (min n sz)) q (i AND 255) h1 = Inr True"
        by (subst comprobar_decide) (use True i(5) sz in \<open>auto simp: admisible_def en_area_def byte_de_mod(2)\<close>)
      then have runs: "valid_realloc A t k i sz e = ?resto" using run [OF ok] unfolding mm by simp
      obtain e' where e': "luego (desde (memset q (word_of_int (i AND 255)) (unat (word_of_int sz :: u64)) (heap f))) (\<lambda>h.
          luego (anotar_bloque i q (f\<lparr>heap := h\<rparr>)) (\<lambda>d. luego (anotar_tamano i sz d) (\<lambda>d. Inr (True, d)))) = Inr (True, e')"
        "sigue e' (llena i q sz h1, (i, q, sz) # quita i L)" "igual_traza f e'" "memoria e' = memoria f"
      proof (rule cerrar [of f i sz h1 q "quita i L"])
        show "\<forall>(k, q, n) \<in> set (quita i L). 0 \<le> k \<and> k < num_ids (traza f) \<and> 0 < n \<and> n < 2 ^ 31 \<and>
            slots f k = (q, word_of_int n)" using R'(6) Q(4) by (auto simp: f)
      qed (use te i Q er sz True f in auto)
      have "fiel A r (h, L) (llena i q sz h1, (i, q, sz) # quita i L)"
        using fiel.cambia [of r L p n A h q h1] r m p True dat by simp
      moreover have "legible r" using True dat by simp
      ultimately have "legible r \<and> fiel A r (h, L) (llena i q sz h1, (i, q, sz) # quita i L)" by simp
      then show ?thesis
        by (rule coincideI(1) [OF _ _ e'(2)]) (use runs e' mem f in \<open>auto simp: igual_traza_def\<close>)
    next
      case False
      have "\<not> (legible r \<and> fiel A r (h, L) s)" for s using False r m p unfolding dat by (auto elim!: fiel_casos)
      moreover have "valid_realloc A t k i sz e \<noteq> Inr (True, e')" for e'
      proof (cases "q = NULL \<or> (\<exists>d'. add_range q sz t (int k) ?e = Inr (False, d'))")
        case True
        then show ?thesis using m i(1) by (auto simp: valid_realloc_def R'(2) Let_def)
      next
        case F: False
        then have ok: "q \<noteq> NULL" "add_range q sz t (int k) ?e = Inr (True, f)" using ar by presburger+
        show ?thesis
        proof (cases "en_area h1 q sz")
          case True
          have ?c using F ar by presburger
          then have "admisible q sz h1 (quita i L)" using True F by (simp add: admisible_def)
          then have "\<not> (\<forall>x. q \<le> x \<and> x < q + min n sz \<longrightarrow> sint (bytes h1 x) = i mod 256)"
            using False by blast
          then have "comprobar_datos (nat (min n sz)) q (i AND 255) h1 = Inr False"
            by (subst comprobar_decide) (use True i(5) sz in \<open>auto simp: en_area_def byte_de_mod(2)\<close>)
          then show ?thesis using run [OF ok] unfolding mm by simp
        next
          case na: False
          then have "?resto = Inl Indefinido" using sz by (simp add: memset_def unat_size)
          then show ?thesis using run [OF ok] by (cases "comprobar_datos (nat (if sz < n then sz else n)) q (i AND 255) h1") auto
        qed
      qed
      ultimately show ?thesis by (rule coincideI(2))
    qed
  qed
qed

lemma valid_free_decide:
  assumes R: "sigue e (h, L)" and r: "op_type r = FREE" "op_index r = i" and p: "map_of L i = Some (p, n)"
  shows "coincide e (fiel A r (h, L)) (valid_free A i e)"
proof (cases "free_f A p h")
  case None
  then show ?thesis using r p sigue_leer(1) [OF R p] sigueD(2) [OF R]
    by (intro coincideI(2)) (auto simp: valid_free_def Let_def elim: fiel_casos)
next
  case (Some h1)
  let ?e = "(remove_range p e)\<lparr>heap := h1\<rparr>"
  have run: "valid_free A i e = Inr (True, ?e)"
    using Some sigue_leer(1) [OF R p] sigueD(2) [OF R] by (simp add: valid_free_def Let_def)
  have "sigue ?e (h1, quita i L)"
    using sigue_quita [OF R p] sigueD [OF R] by (auto simp: sigue_def tamanos_ok_def)
  moreover have "fiel A r (h, L) (h1, quita i L)" using fiel.libera [of r L p n A h h1] r p Some by simp
  ultimately show ?thesis by (intro coincideI(1) [OF _ run]) (auto simp: igual_traza_def)
qed

subsection \<open>The whole trace\<close>

lemma valid_op_decide:
  assumes R: "sigue e (h, L)" and mem: "0 < memoria e" and r: "leer_op k e = Inr r"
    and t: "traza_ok (num_ids (traza e)) (fst ` set L) (r # rs)" "fresca (fst ` set L) (r # rs)"
  shows "coincide e (\<lambda>s. legible r \<and> fiel A r (h, L) s) (valid_op A t k e)"
proof (cases "op_type r")
  case ALLOC
  then show ?thesis using t r valid_alloc_decide [OF R mem ALLOC refl refl] by (simp add: valid_op_def legible_def)
next
  case REALLOC
  then have "op_index r \<in> fst ` set L" using t by simp
  then obtain p n where "map_of L (op_index r) = Some (p, n)"
    by (metis map_of_eq_None_iff not_None_eq surj_pair)
  then show ?thesis using t r REALLOC valid_realloc_decide [OF R mem REALLOC refl refl] by (simp add: valid_op_def)
next
  case FREE
  then have "op_index r \<in> fst ` set L" using t by simp
  then obtain p n where "map_of L (op_index r) = Some (p, n)"
    by (metis map_of_eq_None_iff not_None_eq surj_pair)
  then show ?thesis using r FREE valid_free_decide [OF R FREE refl] by (simp add: valid_op_def legible_def)
qed

lemma traza_vivos_tras:
  "traza_ok n S (r # rs) \<Longrightarrow> traza_ok n (vivos_tras r S) rs" "fresca S (r # rs) \<Longrightarrow> fresca (vivos_tras r S) rs" if "op_type r = REALLOC \<longrightarrow> op_index r \<in> S"
  using that by (auto simp: vivos_tras_def insert_absorb split: tipo_op.splits)

lemma valid_loop_decide:
  assumes "sigue e s" "traza_ok (num_ids (traza e)) (fst ` set (snd s)) (drop i (ops (traza e)))"
    "fresca (fst ` set (snd s)) (drop i (ops (traza e)))" "i + k = length (ops (traza e))" "k \<le> memoria e"
  shows "(\<exists>s' e'. (\<forall>r\<in>set (drop i (ops (traza e))). legible r) \<and> corrida A (drop i (ops (traza e))) s s' \<and>
      valid_loop A t k i e = Inr (1, e') \<and> sigue e' s') \<or>
    (\<forall>s'. \<not> ((\<forall>r\<in>set (drop i (ops (traza e))). legible r) \<and> corrida A (drop i (ops (traza e))) s s')) \<and>
      (\<forall>e'. valid_loop A t k i e \<noteq> Inr (1, e'))"
  using assms
proof (induction k arbitrary: i e s)
  case 0
  then show ?case using corrida.fin [of A s] by (cases s) auto
next
  case (Suc k)
  obtain h L where s: "s = (h, L)" by (cases s)
  let ?os = "ops (traza e)"
  have i: "i < length ?os" using Suc.prems(4) by simp
  define r where "r = ?os ! i"
  have dr: "drop i ?os = r # drop (Suc i) ?os" using i by (simp add: r_def Cons_nth_drop_Suc)
  have op: "leer_op i e = Inr r" using i by (simp add: leer_op_def r_def)
  have mem: "0 < memoria e" using Suc.prems(5) by simp
  have "coincide e (\<lambda>s'. legible r \<and> fiel A r s s') (valid_op A t i e)"
    unfolding s by (rule valid_op_decide [OF _ mem op, where rs = "drop (Suc i) ?os"]) (use Suc.prems s in \<open>simp_all only: dr snd_conv\<close>)
  then consider (va) s1 e1 where "fiel A r s s1" "valid_op A t i e = Inr (True, e1)" "sigue e1 s1" "igual_traza e e1"
      "memoria e \<le> memoria e1 + 1" "legible r"
    | (no) "\<forall>s. \<not> (legible r \<and> fiel A r (h, L) s)" "\<forall>e'. valid_op A t i e \<noteq> Inr (True, e')"
    unfolding coincide_def s by blast
  then show ?case
  proof cases
    case no
    have "\<not> ((\<forall>r\<in>set (drop i ?os). legible r) \<and> corrida A (drop i ?os) s s')" for s'
      using no(1) unfolding dr s by (auto elim: corrida_casos(2))
    moreover have "valid_loop A t (Suc k) i e \<noteq> Inr (1, e')" for e'
      using no(2) by (cases "valid_op A t i e") auto
    ultimately show ?thesis by blast
  next
    case va
    have ig: "ops (traza e1) = ?os" "num_ids (traza e1) = num_ids (traza e)" using va(4) by (simp_all add: igual_traza_def)
    have rl: "op_type r = REALLOC \<longrightarrow> op_index r \<in> fst ` set (snd s)" using Suc.prems(2) unfolding dr by auto
    have "(\<exists>s' e'. (\<forall>r\<in>set (drop (Suc i) (ops (traza e1))). legible r) \<and> corrida A (drop (Suc i) (ops (traza e1))) s1 s' \<and>
        valid_loop A t k (Suc i) e1 = Inr (1, e') \<and> sigue e' s') \<or>
      (\<forall>s'. \<not> ((\<forall>r\<in>set (drop (Suc i) (ops (traza e1))). legible r) \<and> corrida A (drop (Suc i) (ops (traza e1))) s1 s')) \<and>
        (\<forall>e'. valid_loop A t k (Suc i) e1 \<noteq> Inr (1, e'))"
      by (rule Suc.IH [OF va(3)])
        (use Suc.prems(2-5) va(5) traza_vivos_tras [OF rl] in \<open>simp_all add: ig dr fiel_indices [OF va(1)] del: traza_ok.simps fresca.simps\<close>)
    moreover have "corrida A (drop i ?os) s s' \<longleftrightarrow> corrida A (drop (Suc i) ?os) s1 s'" for s'
      unfolding dr by (rule corrida_paso [OF va(1)])
    moreover have "(\<forall>r\<in>set (drop i ?os). legible r) \<longleftrightarrow> (\<forall>r\<in>set (drop (Suc i) ?os). legible r)"
      using va(6) unfolding dr by simp
    ultimately show ?thesis using va(2) by (simp add: ig)
  qed
qed

text \<open>The verdict of the driver, for any allocator.\<close>

lemma eval_mm_valid_espec:
  assumes "tamanos_ok d" "num_ops (traza d) = int (length (ops (traza d)))"
    "traza_ok (num_ids (traza d)) {} (ops (traza d))" "fresca {} (ops (traza d))" "length (ops (traza d)) \<le> memoria d"
  shows "(\<exists>d'. eval_mm_valid A t d = Inr (1, d')) \<longleftrightarrow> (\<forall>r\<in>set (ops (traza d)). legible r) \<and>
    (\<exists>r h s. init_f A (mem_reset_brk (heap d)) = Some (r, h) \<and> 0 \<le> r \<and> corrida A (ops (traza d)) (h, []) s)"
proof (cases "init_f A (mem_reset_brk (heap d))")
  case None
  then show ?thesis by (simp add: eval_mm_valid_def clear_ranges_def Let_def)
next
  case (Some x)
  then obtain r h where i: "init_f A (mem_reset_brk (heap d)) = Some (r, h)" by (cases x) auto
  let ?e = "(clear_ranges d)\<lparr>heap := h\<rparr>"
  have t: "traza ?e = traza d" "memoria ?e = memoria d" by (simp_all add: clear_ranges_def)
  have run: "eval_mm_valid A t d = (if r < 0 then Inr (0, malloc_error t 0 Init_fallo ?e)
      else valid_loop A t (length (ops (traza d))) 0 ?e)"
    using i assms(2) by (simp add: eval_mm_valid_def clear_ranges_def Let_def)
  have "sigue ?e (h, [])" using assms(1) by (simp add: sigue_def clear_ranges_def tamanos_ok_def)
  then have "(\<exists>s' e'. (\<forall>r\<in>set (drop 0 (ops (traza ?e))). legible r) \<and> corrida A (drop 0 (ops (traza ?e))) (h, []) s' \<and>
      valid_loop A t (length (ops (traza d))) 0 ?e = Inr (1, e') \<and> sigue e' s') \<or>
    (\<forall>s'. \<not> ((\<forall>r\<in>set (drop 0 (ops (traza ?e))). legible r) \<and> corrida A (drop 0 (ops (traza ?e))) (h, []) s')) \<and>
      (\<forall>e'. valid_loop A t (length (ops (traza d))) 0 ?e \<noteq> Inr (1, e'))"
    by (rule valid_loop_decide) (use assms t in simp_all)
  then show ?thesis unfolding run i t by auto
qed

end
