(* ===== verification/Mdriver_Props.thy ===== *)
theory Mdriver_Props
  imports Mm_Refina Mm_Naive Mdriver_Trace Mdriver_Espec
begin

text \<open>
  What the driver reports about the two allocators of the repository, and two checks of it that do
  not do what they are for.
\<close>

definition mm_o_naive :: "(asignador_t \<times> (int \<Rightarrow> int) \<times> int) set" where
  "mm_o_naive = {(mm_asignador, mm_crece, 4128), (naive_asignador, naive_crece, 0)}"

text \<open>The size of the heap after the requests of a trace, as the model of each allocator has it.\<close>

definition mide_mm_o_naive :: "(asignador_t \<times> (traceop_t list \<Rightarrow> int)) set" where
  "mide_mm_o_naive = {(mm_asignador, medida mm_modelo), (naive_asignador, medida naive_modelo)}"

lemma veredicto_mm_o_naive:
  assumes "(A, crece, ini) \<in> mm_o_naive" "area (heap d)" "tamanos_ok d"
    "num_ops (traza d) = int (length (ops (traza d)))" "traza_ok (num_ids (traza d)) {} (ops (traza d))"
    "length (ops (traza d)) \<le> memoria d" "ini + costo_total crece (ops (traza d)) \<le> MAX_HEAP"
  shows "(\<forall>r \<in> set (ops (traza d)). legible r) \<and>
      (\<exists>d'. eval_mm_valid A t d = Inr (1, d') \<and> errores d' = errores d \<and> bien d d') \<or>
    (\<exists>r \<in> set (ops (traza d)). \<not> legible r) \<and>
      (\<exists>d' j. eval_mm_valid A t d = Inr (0, d') \<and> errores d' = errores d @ [(t, linenum j, Datos_perdidos)])"
  using assms(1)
proof (unfold mm_o_naive_def, elim insertE emptyE)
  assume "(A, crece, ini) = (mm_asignador, mm_crece, 4128)"
  then show ?thesis
    using mm.eval_mm_valid_veredicto [OF assms(2-6), of t] assms(7) by (auto simp: mm.veredicto_def)
next
  assume "(A, crece, ini) = (naive_asignador, naive_crece, 0)"
  then show ?thesis
    using naive.eval_mm_valid_veredicto [OF assms(2-6), of t] assms(7) by (auto simp: naive.veredicto_def)
qed

lemma util_mm_o_naive:
  assumes "(A, crece, ini) \<in> mm_o_naive" "area (heap d)" "tamanos_ok d"
    "num_ops (traza d) = int (length (ops (traza d)))" "traza_ok (num_ids (traza d)) {} (ops (traza d))"
    "fresca {} (ops (traza d))" "ini + costo_total crece (ops (traza d)) \<le> MAX_HEAP"
  shows "\<exists>sz d'. eval_mm_util A d = Inr (pico (replicate (nat (num_ids (traza d))) 0) (ops (traza d)), sz, d') \<and>
    pico (replicate (nat (num_ids (traza d))) 0) (ops (traza d)) \<le> sz \<and> sz \<le> MAX_HEAP \<and> bien d d'"
  using assms(1)
proof (unfold mm_o_naive_def, elim insertE emptyE)
  assume "(A, crece, ini) = (mm_asignador, mm_crece, 4128)"
  then show ?thesis using mm.eval_mm_util_pico [OF assms(2-6)] assms(7) by simp
next
  assume "(A, crece, ini) = (naive_asignador, naive_crece, 0)"
  then show ?thesis using naive.eval_mm_util_pico [OF assms(2-6)] assms(7) by simp
qed

lemma util_mm_o_naive_mide:
  assumes "(A, crece, ini) \<in> mm_o_naive" "(A, mide) \<in> mide_mm_o_naive" "area (heap d)" "tamanos_ok d"
    "num_ops (traza d) = int (length (ops (traza d)))" "traza_ok (num_ids (traza d)) {} (ops (traza d))"
    "fresca {} (ops (traza d))" "ini + costo_total crece (ops (traza d)) \<le> MAX_HEAP"
  shows "\<exists>d'. eval_mm_util A d = Inr (pico (replicate (nat (num_ids (traza d))) 0) (ops (traza d)), mide (ops (traza d)), d') \<and>
    pico (replicate (nat (num_ids (traza d))) 0) (ops (traza d)) \<le> mide (ops (traza d)) \<and>
    mide (ops (traza d)) \<le> MAX_HEAP \<and> bien d d'"
proof -
  obtain sz d' where u: "eval_mm_util A d = Inr (pico (replicate (nat (num_ids (traza d))) 0) (ops (traza d)), sz, d')"
    "pico (replicate (nat (num_ids (traza d))) 0) (ops (traza d)) \<le> sz" "sz \<le> MAX_HEAP" "bien d d'"
    using util_mm_o_naive [OF assms(1,3-8)] by blast
  have "sz = mide (ops (traza d))"
    using assms(2) u(1) mmm.eval_mm_util_mide [OF assms(3-7)] naivem.eval_mm_util_mide [OF assms(3-7)]
    by (auto simp: mide_mm_o_naive_def)
  then show ?thesis using u by blast
qed

lemma speed_mm_o_naive:
  assumes "(A, crece, ini) \<in> mm_o_naive" "area (heap d)" "tamanos_ok d"
    "num_ops (traza d) = int (length (ops (traza d)))" "traza_ok (num_ids (traza d)) {} (ops (traza d))"
    "ini + costo_total crece (ops (traza d)) \<le> MAX_HEAP"
  shows "\<exists>d'. eval_mm_speed A d = Inr d' \<and> bien d d'"
  using assms(1) mm.eval_mm_speed_bien [OF assms(2-5)] naive.eval_mm_speed_bien [OF assms(2-5)] assms(6)
  by (auto simp: mm_o_naive_def)

text \<open>The requests of \<^verbatim>\<open>short1-bal.rep\<close>.\<close>

definition short1 :: "traceop_t list" where
  "short1 = map (\<lambda>(t, i, s). \<lparr>op_type = t, op_index = i, op_size = s\<rparr>)
     [(ALLOC, 0, 2040), (ALLOC, 1, 2040), (FREE, 1, 0), (ALLOC, 2, 48), (ALLOC, 3, 4072), (FREE, 3, 0),
      (ALLOC, 4, 4072), (FREE, 0, 0), (FREE, 2, 0), (ALLOC, 5, 4072), (FREE, 4, 0), (FREE, 5, 0)]"

text \<open>Those of \<^verbatim>\<open>short2-bal.rep\<close>.\<close>

definition short2 :: "traceop_t list" where
  "short2 = map (\<lambda>(t, i, s). \<lparr>op_type = t, op_index = i, op_size = s\<rparr>)
     [(ALLOC, 0, 2040), (ALLOC, 1, 4010), (ALLOC, 2, 48), (ALLOC, 3, 4072), (ALLOC, 4, 4072), (ALLOC, 5, 4072),
      (FREE, 0, 0), (FREE, 1, 0), (FREE, 2, 0), (FREE, 3, 0), (FREE, 4, 0), (FREE, 5, 0)]"

definition driver_ejemplo :: "traceop_t list \<Rightarrow> int \<Rightarrow> driver_t" where
  "driver_ejemplo rs n = \<lparr>heap = heap_ejemplo, ranges = [],
     traza = \<lparr>sugg_heapsize = 20000, num_ids = n, num_ops = int (length rs), weight = 1, ops = rs,
       blocks = replicate (nat n) 0, block_sizes = replicate (nat n) 0\<rparr>, errores = [], memoria = length rs\<rparr>"

lemma driver_ejemplo_simps [simp]:
  "heap (driver_ejemplo rs n) = heap_ejemplo" "ops (traza (driver_ejemplo rs n)) = rs"
  "num_ops (traza (driver_ejemplo rs n)) = int (length rs)" "num_ids (traza (driver_ejemplo rs n)) = n"
  "memoria (driver_ejemplo rs n) = length rs" "errores (driver_ejemplo rs n) = []"
  "0 \<le> n \<Longrightarrow> tamanos_ok (driver_ejemplo rs n)"
  by (simp_all add: driver_ejemplo_def tamanos_ok_def)

text \<open>
  C5. Both allocators pass. On a trace that allocates before it reallocates or frees, with positive
  sizes, indices within \<^verbatim>\<open>num_ids\<close> and, in the requests to reallocate, low bytes of the index below
  128, when the sum of what the requests may add to the heap fits in the area and the host has memory
  for the range records, \<^verbatim>\<open>eval_mm_valid\<close> returns 1 and reports no error: no payload was misaligned,
  outside the heap or on top of another, and every reallocation kept the data.
\<close>

theorem eval_mm_valid_acepta:
  assumes "(A, crece, ini) \<in> mm_o_naive" "area (heap d)" "tamanos_ok d"
    "num_ops (traza d) = int (length (ops (traza d)))" "traza_ok (num_ids (traza d)) {} (ops (traza d))"
    "length (ops (traza d)) \<le> memoria d" "ini + costo_total crece (ops (traza d)) \<le> MAX_HEAP"
    "\<forall>r \<in> set (ops (traza d)). legible r"
  shows "\<exists>d'. eval_mm_valid A t d = Inr (1, d') \<and> errores d' = errores d"
  using veredicto_mm_o_naive [OF assms(1-7)] assms(8) by blast

theorem eval_mm_valid_acepta_witness:
  "\<exists>d'. eval_mm_valid mm_asignador 0 (driver_ejemplo short1 6) = Inr (1, d') \<and> errores d' = []"
proof -
  let ?d = "driver_ejemplo short1 6"
  have "(mm_asignador, mm_crece, 4128) \<in> mm_o_naive" by (simp add: mm_o_naive_def)
  moreover have "area (heap ?d)" "tamanos_ok ?d" "num_ops (traza ?d) = int (length (ops (traza ?d)))"
    "length (ops (traza ?d)) \<le> memoria ?d"
    using area_ejemplo(1) by simp_all
  moreover have "traza_ok (num_ids (traza ?d)) {} (ops (traza ?d))" by (simp add: short1_def)
  moreover have "4128 + costo_total mm_crece (ops (traza ?d)) \<le> MAX_HEAP"
    by (simp add: short1_def costo_total_def costo_def mm_crece_def ajuste_def MAX_HEAP_def)
  moreover have "\<forall>r \<in> set (ops (traza ?d)). legible r" by (simp add: short1_def legible_def)
  ultimately show ?thesis using eval_mm_valid_acepta [of mm_asignador mm_crece 4128 ?d 0] by simp
qed

text \<open>
  C6. What the verdict says of any allocator, whatever its four functions do. On a
  well-formed trace that allocates no index twice without freeing it (\<open>fresca\<close>), when the host has memory for the range
  records, \<^verbatim>\<open>eval_mm_valid\<close> returns 1 exactly when two things hold. No request to reallocate has an index with a low byte
  of 128 or more (\<open>legible\<close>): on these the driver returns 1 to no allocator. And \<^verbatim>\<open>mm_init\<close> does not fail and
  the allocator serves all requests as the specification \<open>corrida\<close>
  says: each new payload is not \<^verbatim>\<open>NULL\<close>, is aligned, lies inside the heap and has neither end in a live
  payload, and after each reallocation as many bytes as the smaller payload has are still what the driver filled it with.
\<close>

theorem eval_mm_valid_decide:
  assumes "tamanos_ok d" "num_ops (traza d) = int (length (ops (traza d)))"
    "traza_ok (num_ids (traza d)) {} (ops (traza d))" "fresca {} (ops (traza d))" "length (ops (traza d)) \<le> memoria d"
  shows "(\<exists>d'. eval_mm_valid A t d = Inr (1, d')) \<longleftrightarrow> (\<forall>r\<in>set (ops (traza d)). legible r) \<and>
    (\<exists>r h s. init_f A (mem_reset_brk (heap d)) = Some (r, h) \<and> 0 \<le> r \<and> corrida A (ops (traza d)) (h, []) s)"
  by (rule eval_mm_valid_espec [OF assms])

text \<open>So \<^verbatim>\<open>mm.c\<close> serves \<^verbatim>\<open>short1-bal.rep\<close> as the specification says.\<close>

lemma short1_acepta:
  "\<exists>d'. eval_mm_valid mm_asignador 0 (driver_ejemplo short1 6) = Inr (1, d')" "traza_ok 6 {} short1" "fresca {} short1"
proof -
  let ?d = "driver_ejemplo short1 6"
  show t: "traza_ok 6 {} short1" "fresca {} short1" by (simp_all add: short1_def)
  have "4128 + costo_total mm_crece (ops (traza ?d)) \<le> MAX_HEAP"
    by (simp add: short1_def costo_total_def costo_def mm_crece_def ajuste_def MAX_HEAP_def)
  moreover have "\<forall>r \<in> set (ops (traza ?d)). legible r" by (simp add: short1_def legible_def)
  ultimately show "\<exists>d'. eval_mm_valid mm_asignador 0 ?d = Inr (1, d')"
    using veredicto_mm_o_naive [of mm_asignador mm_crece 4128 ?d 0] area_ejemplo(1) t by (auto simp: mm_o_naive_def)
qed

theorem eval_mm_valid_decide_witness:
  "\<exists>r h s. init_f mm_asignador (mem_reset_brk heap_ejemplo) = Some (r, h) \<and> 0 \<le> r \<and> corrida mm_asignador short1 (h, []) s"
  using eval_mm_valid_decide [of "driver_ejemplo short1 6" mm_asignador 0] short1_acepta by simp



text \<open>
  C38. The check of the data compares a \<^verbatim>\<open>char\<close>, which is signed, with a number from 0 to 255. In a
  well-formed trace that fits in the area, but with a reallocation whose index has a low byte of 128 or more, the driver reports
  that \<^verbatim>\<open>mm_realloc\<close> did not preserve the data and returns 0, although both allocators preserve it.
\<close>

theorem eval_mm_valid_rechaza:
  assumes "(A, crece, ini) \<in> mm_o_naive" "area (heap d)" "tamanos_ok d"
    "num_ops (traza d) = int (length (ops (traza d)))" "traza_ok (num_ids (traza d)) {} (ops (traza d))"
    "length (ops (traza d)) \<le> memoria d" "ini + costo_total crece (ops (traza d)) \<le> MAX_HEAP"
    "\<exists>r \<in> set (ops (traza d)). op_type r = REALLOC \<and> 128 \<le> op_index r mod 256"
  shows "\<exists>d' j. eval_mm_valid A t d = Inr (0, d') \<and> errores d' = errores d @ [(t, linenum j, Datos_perdidos)]"
proof -
  have "\<exists>r \<in> set (ops (traza d)). \<not> legible r" using assms(8) by (auto simp: legible_def)
  then show ?thesis using veredicto_mm_o_naive [OF assms(1-7)] by blast
qed

theorem eval_mm_valid_rechaza_witness:
  "\<exists>d' j. eval_mm_valid mm_asignador 0 (driver_ejemplo
       [\<lparr>op_type = ALLOC, op_index = 128, op_size = 8\<rparr>, \<lparr>op_type = REALLOC, op_index = 128, op_size = 16\<rparr>] 129) =
     Inr (0, d') \<and> errores d' = [(0, linenum j, Datos_perdidos)]"
proof -
  let ?rs = "[\<lparr>op_type = ALLOC, op_index = 128, op_size = 8\<rparr>, \<lparr>op_type = REALLOC, op_index = 128, op_size = 16\<rparr>]"
  let ?d = "driver_ejemplo ?rs 129"
  have "(mm_asignador, mm_crece, 4128) \<in> mm_o_naive" by (simp add: mm_o_naive_def)
  moreover have "area (heap ?d)" "tamanos_ok ?d" "num_ops (traza ?d) = int (length (ops (traza ?d)))"
    "length (ops (traza ?d)) \<le> memoria ?d"
    using area_ejemplo(1) by simp_all
  moreover have "traza_ok (num_ids (traza ?d)) {} (ops (traza ?d))" by simp
  moreover have "4128 + costo_total mm_crece (ops (traza ?d)) \<le> MAX_HEAP"
    by (simp add: costo_total_def costo_def mm_crece_def ajuste_def MAX_HEAP_def)
  moreover have "\<exists>r \<in> set (ops (traza ?d)). op_type r = REALLOC \<and> 128 \<le> op_index r mod 256" by simp
  ultimately show ?thesis using eval_mm_valid_rechaza [of mm_asignador mm_crece 4128 ?d 0] by simp
qed

text \<open>
  \<^verbatim>\<open>add_range\<close> looks only for a range that one of the two ends of the new payload lies in. It
  accepts, aligned and inside the heap, any payload that keeps its ends out of the ranges, also one
  that contains a whole earlier payload.
\<close>

theorem add_range_contenido:
  assumes "0 < sz" "is_aligned l" "mem_heap_lo (heap d) \<le> l" "l + sz - 1 \<le> mem_heap_hi (heap d)" "0 < memoria d"
    "\<forall>r \<in> set (ranges d). l < lo r \<and> lo r \<le> hi r \<and> hi r < l + sz - 1"
  shows "add_range l sz t i d =
    Inr (True, d\<lparr>ranges := \<lparr>lo = l, hi = l + sz - 1\<rparr> # ranges d, memoria := memoria d - 1\<rparr>)"
proof -
  have "find (\<lambda>p. l \<ge> lo p \<and> l \<le> hi p \<or> l + sz - 1 \<ge> lo p \<and> l + sz - 1 \<le> hi p) (ranges d) = None"
    unfolding find_None_iff using assms(6) by fastforce
  then show ?thesis using assms(1-5) by (simp add: add_range_def Let_def)
qed

theorem add_range_contenido_witness:
  "\<exists>d'. add_range 4096 64 0 0 ((driver_ejemplo [] 0)\<lparr>heap := heap_ejemplo\<lparr>mem_brk := 8192\<rparr>, memoria := 1,
       ranges := [\<lparr>lo = 4112, hi = 4127\<rparr>]\<rparr>) = Inr (True, d') \<and>
     ranges d' = [\<lparr>lo = 4096, hi = 4159\<rparr>, \<lparr>lo = 4112, hi = 4127\<rparr>]"
  using add_range_contenido [of 64 4096 "(driver_ejemplo [] 0)\<lparr>heap := heap_ejemplo\<lparr>mem_brk := 8192\<rparr>, memoria := 1,
       ranges := [\<lparr>lo = 4112, hi = 4127\<rparr>]\<rparr>" 0 0]
  by (simp add: is_aligned_def ALIGNMENT_def mem_heap_lo_def mem_heap_hi_def heap_ejemplo_def driver_ejemplo_def)

text \<open>The model of \<^verbatim>\<open>mm.c\<close> on the default traces: it ends with one free block again.\<close>

lemmas evalua_lista = medida_def atiende_op_def mm_modelo_def con_exito_def malloc_lista_def ajuste_def poner_def
  libera_lista_def ampliar_def fusionar_def MAX_HEAP_def NULL_def Mm_Inv.tam_def

lemma medida_short: "medida mm_modelo short1 = 12320" "medida mm_modelo short2 = 20512"
  by (simp_all add: short1_def short2_def evalua_lista)

lemma pico_short: "pico (replicate (nat 6) 0) short1 = 8144" "pico (replicate (nat 6) 0) short2 = 18314"
  by (simp_all add: short1_def short2_def tras_def numeral_eq_Suc)

text \<open>
  C17. Space utilization. For both allocators and a well-formed trace that fits in the area and allocates no index twice
  without freeing it, \<^verbatim>\<open>eval_mm_util\<close> ends normally, without overflow of its \<^verbatim>\<open>int\<close> counters, and the
  two integers it divides are the largest sum of the sizes of the allocated payloads at any moment and
  the size of the heap at the end. That size is exactly the one the model of the allocator has after the requests
  (for \<^verbatim>\<open>mm.c\<close>, first fit on the list of blocks), and it is at least the first integer: the
  utilization is at most 1.
\<close>

theorem eval_mm_util_correct:
  assumes "(A, crece, ini) \<in> mm_o_naive" "(A, mide) \<in> mide_mm_o_naive" "area (heap d)" "tamanos_ok d"
    "num_ops (traza d) = int (length (ops (traza d)))" "traza_ok (num_ids (traza d)) {} (ops (traza d))"
    "fresca {} (ops (traza d))" "ini + costo_total crece (ops (traza d)) \<le> MAX_HEAP"
  shows "\<exists>d'. eval_mm_util A d = Inr (pico (replicate (nat (num_ids (traza d))) 0) (ops (traza d)), mide (ops (traza d)), d') \<and>
    pico (replicate (nat (num_ids (traza d))) 0) (ops (traza d)) \<le> mide (ops (traza d)) \<and> mide (ops (traza d)) \<le> MAX_HEAP"
  using util_mm_o_naive_mide [OF assms] by blast

text \<open>On \<^verbatim>\<open>short1-bal.rep\<close>, \<^verbatim>\<open>mm.c\<close> uses 8144 of 12320 bytes.\<close>

theorem eval_mm_util_correct_witness:
  "\<exists>d'. eval_mm_util mm_asignador (driver_ejemplo short1 6) = Inr (8144, 12320, d')"
proof -
  let ?d = "driver_ejemplo short1 6"
  have "(mm_asignador, mm_crece, 4128) \<in> mm_o_naive" "(mm_asignador, medida mm_modelo) \<in> mide_mm_o_naive"
    by (simp_all add: mm_o_naive_def mide_mm_o_naive_def)
  moreover have "area (heap ?d)" "tamanos_ok ?d" "num_ops (traza ?d) = int (length (ops (traza ?d)))"
    using area_ejemplo(1) by simp_all
  moreover have "traza_ok (num_ids (traza ?d)) {} (ops (traza ?d))" "fresca {} (ops (traza ?d))"
    by (simp_all add: short1_def)
  moreover have "4128 + costo_total mm_crece (ops (traza ?d)) \<le> MAX_HEAP"
    by (simp add: short1_def costo_total_def costo_def mm_crece_def ajuste_def MAX_HEAP_def)
  ultimately show ?thesis
    using eval_mm_util_correct [of mm_asignador mm_crece 4128 "medida mm_modelo" ?d] pico_short medida_short by auto
qed

text \<open>
  C19. Round trip of trace files. \<^verbatim>\<open>read_trace\<close> on the text of a trace (the header with the counts, then
  one request per line) gives that trace back: every request in order with its type, index and size, and
  arrays with one element for each index, whatever they hold, when the header counts the requests and the
  indices of the file and the host has memory for the four allocations.
\<close>

theorem read_trace_texto:
  assumes "list_all escribible (ops t)" "num_ops t = int (length (ops t))" "num_ops t < 2 ^ 31"
    "num_ids t = mayor_indice 0 (ops t) + 1" "0 < num_ids t" "num_ids t < 2 ^ 31"
    "0 \<le> sugg_heapsize t" "sugg_heapsize t < 2 ^ 31" "0 \<le> weight t" "weight t < 2 ^ 31" "4 \<le> m"
  shows "read_trace (Some (texto_traza t)) b s m =
    Inr (t\<lparr>blocks := map b [0..<nat (num_ids t)], block_sizes := map s [0..<nat (num_ids t)]\<rparr>)"
  by (rule leer_texto [OF assms])

theorem read_trace_texto_witness:
  "read_trace (Some (texto_traza (traza (driver_ejemplo short1 6)))) (\<lambda>_. 0) (\<lambda>_. 0) 4 =
     Inr (traza (driver_ejemplo short1 6))"
proof -
  let ?t = "traza (driver_ejemplo short1 6)"
  have "list_all escribible (ops ?t)" by (simp add: short1_def escribible_def)
  moreover have "num_ids ?t = mayor_indice 0 (ops ?t) + 1" by (simp add: short1_def mayor_indice_def)
  moreover have "num_ops ?t < 2 ^ 31" by (simp add: short1_def)
  moreover have "?t\<lparr>blocks := map (\<lambda>_. 0) [0..<nat (num_ids ?t)], block_sizes := map (\<lambda>_. 0) [0..<nat (num_ids ?t)]\<rparr> = ?t"
    by (simp add: driver_ejemplo_def map_replicate_const)
  moreover have "0 \<le> sugg_heapsize ?t" "sugg_heapsize ?t < 2 ^ 31" "0 \<le> weight ?t" "weight ?t < 2 ^ 31"
    by (simp_all add: driver_ejemplo_def)
  ultimately show ?thesis using read_trace_texto [of ?t 4 "\<lambda>_. 0" "\<lambda>_. 0"] by simp
qed

end
