(* ===== verification/Cliente_Props.thy ===== *)
theory Cliente_Props
  imports Mdriver_Props
begin

text \<open>
  What any program that calls one of the two allocators of the repository sees: the abstract allocator of
  theory Cliente.
\<close>

lemma corre_mm_o_naive:
  assumes "(A, crece, ini) \<in> mm_o_naive" "area h0" "mem_brk h0 = mem_start_brk h0"
  shows "\<exists>r h. init_f A h0 = Some (r, h) \<and> 0 \<le> r \<and>
    (\<forall>es s. corre (paso A) (h, Map.empty) es s \<longrightarrow>
      corre abstracto Map.empty es (vista s) \<and>
      (\<forall>q. legal (snd s) q \<longrightarrow> (\<exists>a s'. paso A s (q, a) s')) \<and>
      (list_ex falla es \<longrightarrow> MAX_HEAP < ini + (\<Sum>e\<leftarrow>es. gasto crece e)))"
  using assms mm.corre_desde_init [OF assms(2,3)] naive.corre_desde_init [OF assms(2,3)]
  by (auto simp: mm_o_naive_def)

text \<open>
  C1. Both allocators implement the abstract one, for every client. From the empty area on, \<^verbatim>\<open>mm_init\<close>
  succeeds, and then, whatever sequence of allocations, deallocations, reallocations, writes into
  payloads and reads a program makes that frees and accesses only what it holds: what it sees is a run
  of the abstract allocator, in which payloads are aligned, never overlap, keep what was written
  into them, and keep it when they move, up to the smaller size; no legal request of it meets undefined
  behaviour or a search that does not end; and no allocation fails while the sum of what the requests
  may add to the heap fits in the area.
\<close>

theorem asignadores_refinan:
  assumes "(A, crece, ini) \<in> mm_o_naive" "area h0" "mem_brk h0 = mem_start_brk h0"
  shows "\<exists>r h. init_f A h0 = Some (r, h) \<and> 0 \<le> r \<and>
    (\<forall>es s. corre (paso A) (h, Map.empty) es s \<longrightarrow>
      corre abstracto Map.empty es (vista s) \<and> separados (vista s) \<and>
      (\<forall>q. legal (snd s) q \<longrightarrow> (\<exists>a s'. paso A s (q, a) s')) \<and>
      (list_ex falla es \<longrightarrow> MAX_HEAP < ini + (\<Sum>e\<leftarrow>es. gasto crece e)))"
proof -
  have "separados Map.empty" by (simp add: separados_def)
  then show ?thesis using corre_mm_o_naive [OF assms] corre_separados by meson
qed

text \<open>
  A client of \<^verbatim>\<open>mm.c\<close> that writes a byte into a payload, has it moved to a larger one and reads the
  byte there: every call succeeds, and it reads what it wrote.
\<close>

theorem asignadores_refinan_witness:
  "\<exists>r h p q s. init_f mm_asignador heap_ejemplo = Some (r, h) \<and> p \<noteq> NULL \<and> q \<noteq> NULL \<and>
     corre (paso mm_asignador) (h, Map.empty)
       [(Pide 100, Dir p), (Escribe p 3 7, Nada), (Cambia p 5000, Dir q), (Lee q 3, Byte 7)] s"
proof -
  let ?corre = "\<lambda>h. corre (paso mm_asignador) (h, Map.empty)"
  obtain r h where i: "init_f mm_asignador heap_ejemplo = Some (r, h)" and
    R: "\<And>es s. ?corre h es s \<Longrightarrow> corre abstracto Map.empty es (vista s) \<and>
      (\<forall>q. legal (snd s) q \<longrightarrow> (\<exists>a s'. paso mm_asignador s (q, a) s')) \<and>
      (list_ex falla es \<longrightarrow> MAX_HEAP < 4128 + (\<Sum>e\<leftarrow>es. gasto mm_crece e))"
    using asignadores_refinan [of mm_asignador mm_crece 4128 heap_ejemplo] area_ejemplo
    by (auto simp: mm_o_naive_def)
  have avanza: "\<exists>a s'. paso mm_asignador s (q, a) s' \<and> ?corre h (es @ [(q, a)]) s'"
    if c: "?corre h es s" and l: "legal (snd s) q" for es s q
    using R [OF c] l corre_snoc [OF c] by blast
  obtain a s1 where s1: "paso mm_asignador (h, Map.empty) (Pide 100, a) s1" "?corre h [(Pide 100, a)] s1"
    using avanza [OF corre.fin, of "Pide 100"] by (auto simp: legal_def)
  obtain p h1 where p: "a = Dir p" "p \<noteq> NULL" "s1 = (h1, [p \<mapsto> 100])"
    using s1(1) R [OF s1(2)]
    by (elim paso_elims) (auto simp: falla_def gasto_def mm_crece_def ajuste_def MAX_HEAP_def split: if_splits)
  obtain b s2 where s2: "paso mm_asignador s1 (Escribe p 3 7, b) s2" "?corre h [(Pide 100, a), (Escribe p 3 7, b)] s2"
    using avanza [OF s1(2), of "Escribe p 3 7"] p by (auto simp: legal_def)
  have b: "b = Nada" "snd s2 = [p \<mapsto> 100]" using s2(1) p(3) by (auto elim: paso_elims)
  obtain c s3 where s3: "paso mm_asignador s2 (Cambia p 5000, c) s3"
    "?corre h [(Pide 100, a), (Escribe p 3 7, b), (Cambia p 5000, c)] s3"
    using avanza [OF s2(2), of "Cambia p 5000"] b by (auto simp: legal_def)
  obtain q where q: "c = Dir q" "q \<noteq> NULL" "snd s3 = [q \<mapsto> 5000]"
    using s3(1) b(2) R [OF s3(2)]
    by (elim paso_elims) (auto simp: falla_def gasto_def mm_crece_def ajuste_def MAX_HEAP_def split: if_splits)
  obtain d s4 where s4:
    "?corre h [(Pide 100, a), (Escribe p 3 7, b), (Cambia p 5000, c), (Lee q 3, d)] s4"
    using avanza [OF s3(2), of "Lee q 3"] q by (auto simp: legal_def)
  have "d = Byte 7"
  proof -
    have "corre abstracto Map.empty [(Pide 100, Dir p), (Escribe p 3 7, Nada), (Cambia p 5000, Dir q), (Lee q 3, d)] (vista s4)"
      using R [OF s4] p(1) b(1) q(1) by simp
    then obtain cs ds where ds: "length cs = 100" "take 100 ds = take 5000 (cs[3 := 7])" "length ds = 5000" "d = Byte (ds ! 3)"
      using p(2) q(2) by (auto simp: corre_Cons abstracto_simps split: if_splits)
    have "take 100 ds ! 3 = (7 :: u8)" unfolding ds(2) using ds(1) by simp
    then show ?thesis using ds(4) by simp
  qed
  then show ?thesis using i s4 p(1,2) b(1) q(1,2) by blast
qed

end
