(* ===== verification/Mdriver_Main.thy ===== *)
theory Mdriver_Main
  imports Complex_Main Mdriver_Trace
begin

text \<open>
  The program \<^verbatim>\<open>mdriver\<close>: its options, the evaluation of an allocator on the trace files, the table of
  \<^verbatim>\<open>printresults\<close> and the performance index, with the timer of \<^verbatim>\<open>fsecs.c\<close> and \<^verbatim>\<open>ftimer.c\<close> that
  \<^verbatim>\<open>config.h\<close> selects. A \<^verbatim>\<open>double\<close> is the real number it approximates; a quotient by zero, which is
  infinite or not a number, is \<open>None\<close>.
\<close>

subsection \<open>The system\<close>

text \<open>
  What the program gets from outside while it evaluates one of the two allocators: the contents of the files, what the fresh arrays of trace \<open>i\<close>
  hold, how many calls of the host's \<^verbatim>\<open>malloc\<close> succeed while it is evaluated, whether the array of
  statistics gets memory, the block for the simulated heap, and the readings of \<^verbatim>\<open>gettimeofday\<close>, seconds and
  microseconds, before and after the timed runs on trace \<open>i\<close>.
\<close>

record entorno_t =
  archivos :: "string \<Rightarrow> string option"
  nuevos_bloques :: "nat \<Rightarrow> nat \<Rightarrow> addr"
  nuevos_tamanos :: "nat \<Rightarrow> nat \<Rightarrow> u64"
  mallocs :: "nat \<Rightarrow> nat"
  hay_stats :: bool
  bloque_heap :: addr
  reloj :: "nat \<Rightarrow> (int \<times> int) \<times> (int \<times> int)"

record equipo_t =
  teamname :: string
  name1 :: string
  id1 :: string
  name2 :: string
  id2 :: string

text \<open>The team of \<^verbatim>\<open>mm.c\<close>, and the one of \<^verbatim>\<open>mm-naive.c\<close>. The program is linked with one of the two files.\<close>

definition team :: equipo_t where
  "team = \<lparr>teamname = ''g2'', name1 = ''Tomas Ayala'', id1 = ''tayala@fi.uba.ar'',
     name2 = ''Gabriel Re'', id2 = ''gre@fi.uba.ar''\<rparr>"

definition team_naive :: equipo_t where
  "team_naive = \<lparr>teamname = ''ateam'', name1 = ''Harry Bovik'', id1 = ''bovik@cs.cmu.edu'', name2 = [], id2 = []\<rparr>"

record stats_t =
  s_ops :: real
  s_valid :: int
  s_secs :: "real option"
  s_util :: "real option"

definition stats_vacia :: stats_t where
  "stats_vacia = \<lparr>s_ops = 0, s_valid = 0, s_secs = Some 0, s_util = Some 0\<rparr>"

definition cociente :: "real option \<Rightarrow> real option \<Rightarrow> real option" where
  "cociente a b = do { x \<leftarrow> a; y \<leftarrow> b; if y = 0 then None else Some (x / y) }"

definition suma :: "real option \<Rightarrow> real option \<Rightarrow> real option" where
  "suma a b = do { x \<leftarrow> a; y \<leftarrow> b; Some (x + y) }"

definition escalar :: "real \<Rightarrow> real option \<Rightarrow> real option" where
  "escalar c a = map_option ((*) c) a"

subsection \<open>Options\<close>

text \<open>A name in \<^verbatim>\<open>tracefiles\<close> is \<open>None\<close> when it is \<^verbatim>\<open>NULL\<close>, because \<^verbatim>\<open>strdup\<close> had no memory.\<close>

record opciones_m =
  tracefiles :: "string option list option"
  num_tracefiles :: int
  tracedir :: string
  team_check :: bool
  run_libc :: bool
  autograder :: bool
  verbose :: int

definition opciones_ini :: opciones_m where
  "opciones_ini = \<lparr>tracefiles = None, num_tracefiles = 0, tracedir = ''./'', team_check = True,
     run_libc = False, autograder = False, verbose = 0\<rparr>"

datatype linea_m =
    Fila_valida nat "real option" real "real option" "real option"
  | Fila_no nat
  | Total_m "real option" real "real option" "real option"
  | Total_no

datatype salida_m =
    Ayuda
  | Falta_equipo
  | Faltan_datos_1
  | Faltan_datos_2
  | Equipo string
  | Miembro nat string string
  | Usando string
  | Probando_libc
  | Probando_mm
  | Leyendo string
  | Comprobando_libc
  | Comprobando_mm
  | Eficiencia
  | Rendimiento
  | Midiendo_gettod
  | Resultados_libc "linea_m list"
  | Resultados_mm "linea_m list"
  | Indice "real option" "real option" "real option"
  | Terminado int
  | Correctas int
  | Perfidx "real option"

text \<open>\<open>Sale_m\<close>: the process ends with this code after this output; \<open>Falla_m\<close>: in one of the ways of \<open>fallo\<close>.\<close>

datatype fin_m = Sale_m int "salida_m list" | Falla_m fallo

text \<open>
  One turn of the loop over the options. \<open>h\<close> says whether the host's \<^verbatim>\<open>realloc\<close> and \<^verbatim>\<open>strdup\<close> get memory in this turn.
  The argument of -t is copied into \<^verbatim>\<open>tracedir[MAXLINE]\<close> without a check of its length: \<^verbatim>\<open>strcpy\<close>, or \<^verbatim>\<open>strcat\<close> of the slash,
  writes behind the array when the string does not fit, and for an empty argument \<^verbatim>\<open>tracedir[-1]\<close> is read.
\<close>

definition opcion_m :: "bool \<times> bool \<Rightarrow> char \<times> string \<Rightarrow> opciones_m \<Rightarrow> fin_m + opciones_m" where
  "opcion_m h c o' =
     (case c of (c, optarg) \<Rightarrow>
        if c = CHR ''g'' then Inr (o'\<lparr>autograder := True\<rparr>)
        else if c = CHR ''f'' then
          (if \<not> fst h then Inl (Falla_m (Unix_error ''ERROR: realloc failed in main''))
           else Inr (o'\<lparr>num_tracefiles := 1, tracedir := ''./'', tracefiles := Some [if snd h then Some optarg else None]\<rparr>))
        else if c = CHR ''t'' then
          (if num_tracefiles o' = 1 then Inr o'
           else if optarg = [] then Inl (Falla_m Indefinido)
           else let dir = (if last optarg \<noteq> CHR ''/'' then optarg @ ''/'' else optarg)
                in if length dir \<ge> MAXLINE then Inl (Falla_m Indefinido) else Inr (o'\<lparr>tracedir := dir\<rparr>))
        else if c = CHR ''a'' then Inr (o'\<lparr>team_check := False\<rparr>)
        else if c = CHR ''l'' then Inr (o'\<lparr>run_libc := True\<rparr>)
        else if c = CHR ''v'' then Inr (o'\<lparr>verbose := 1\<rparr>)
        else if c = CHR ''V'' then Inr (o'\<lparr>verbose := 2\<rparr>)
        else if c = CHR ''h'' then Inl (Sale_m 0 [Ayuda])
        else Inl (Sale_m 1 [Ayuda]))"

text \<open>The loop; \<open>i\<close> numbers the turns and \<open>host i\<close> is what the host does in turn \<open>i\<close>.\<close>

primrec opciones_main :: "(nat \<Rightarrow> bool \<times> bool) \<Rightarrow> nat \<Rightarrow> (char \<times> string) list \<Rightarrow> opciones_m \<Rightarrow> fin_m + opciones_m" where
  "opciones_main host i [] o' = Inr o'"
| "opciones_main host i (c # cs) o' =
     (case opcion_m (host i) c o' of Inl e \<Rightarrow> Inl e | Inr o1 \<Rightarrow> opciones_main host (Suc i) cs o1)"

definition comprobar_equipo :: "equipo_t \<Rightarrow> fin_m + salida_m list" where
  "comprobar_equipo t =
     (if teamname t = [] then Inl (Sale_m 1 [Falta_equipo])
      else if name1 t = [] \<or> id1 t = [] then Inl (Sale_m 1 [Equipo (teamname t), Faltan_datos_1])
      else if (name2 t \<noteq> [] \<and> id2 t = []) \<or> (name2 t = [] \<and> id2 t \<noteq> []) then
        Inl (Sale_m 1 [Equipo (teamname t), Miembro 1 (name1 t) (id1 t), Faltan_datos_2])
      else Inr ([Equipo (teamname t), Miembro 1 (name1 t) (id1 t)] @
             (if name2 t \<noteq> [] then [Miembro 2 (name2 t) (id2 t)] else [])))"

subsection \<open>The timer\<close>

primrec repetir :: "nat \<Rightarrow> ('s \<Rightarrow> fallo + 's) \<Rightarrow> 's \<Rightarrow> fallo + 's" where
  "repetir 0 f s = Inr s"
| "repetir (Suc n) f s = luego (f s) (repetir n f)"

definition ftimer_gettod :: "('s \<Rightarrow> fallo + 's) \<Rightarrow> nat \<Rightarrow> (int \<times> int) \<times> (int \<times> int) \<Rightarrow> 's \<Rightarrow> fallo + (real \<times> 's)" where
  "ftimer_gettod f n tiempos s =
     (case tiempos of ((sec1, usec1), (sec2, usec2)) \<Rightarrow>
        luego (repetir n f s) (\<lambda>s.
        let diff = 1000 * of_int (sec2 - sec1) + of_int (usec2 - usec1) / 1000; diff = diff / of_nat n
        in Inr (diff / 1000, s)))"

text \<open>
  The timer that \<^verbatim>\<open>config.h\<close> does not select: the interval timer of the system counts down from \<^verbatim>\<open>MAX_ETIME\<close>
  seconds. A value is a pair of seconds and microseconds; \<open>lecturas\<close> are those of the timer of real time
  before and after the runs.
\<close>

definition MAX_ETIME :: int where "MAX_ETIME = 86400"

definition init_etime :: "int \<times> int" where "init_etime = (MAX_ETIME, 0)"

definition get_etime :: "int \<times> int \<Rightarrow> int \<times> int \<Rightarrow> real" where
  "get_etime first_p r_curr = of_int (fst first_p - fst r_curr) + of_int (snd first_p - snd r_curr) / 10 ^ 6"

definition ftimer_itimer :: "('s \<Rightarrow> fallo + 's) \<Rightarrow> nat \<Rightarrow> (int \<times> int) \<times> (int \<times> int) \<Rightarrow> 's \<Rightarrow> fallo + (real \<times> 's)" where
  "ftimer_itimer f n lecturas s =
     (let first_p = init_etime; start = get_etime first_p (fst lecturas)
      in luego (repetir n f s) (\<lambda>s.
         let tmeas = get_etime first_p (snd lecturas) - start in Inr (tmeas / of_nat n, s)))"

text \<open>Where the timer counts down what the clock advances, the two timers give the same time.\<close>

lemma ftimer_itimer_gettod:
  assumes "10 ^ 6 * fst r1 + snd r1 - (10 ^ 6 * fst r2 + snd r2) = 10 ^ 6 * fst t2 + snd t2 - (10 ^ 6 * fst t1 + snd t1)"
  shows "ftimer_itimer f n (r1, r2) s = ftimer_gettod f n (t1, t2) s"
proof -
  have "real_of_int (10 ^ 6 * fst r1 + snd r1 - (10 ^ 6 * fst r2 + snd r2)) =
    real_of_int (10 ^ 6 * fst t2 + snd t2 - (10 ^ 6 * fst t1 + snd t1))"
    by (simp only: assms)
  then have g: "get_etime p r2 - get_etime p r1 =
    (1000 * of_int (fst t2 - fst t1) + of_int (snd t2 - snd t1) / 1000) / 1000" for p
    by (simp add: get_etime_def field_simps)
  show ?thesis
    by (simp only: ftimer_itimer_def ftimer_gettod_def Let_def prod.case_eq_if fst_conv snd_conv g
      divide_divide_eq_left mult.commute)
qed

definition fsecs :: "('s \<Rightarrow> fallo + 's) \<Rightarrow> (int \<times> int) \<times> (int \<times> int) \<Rightarrow> 's \<Rightarrow> fallo + (real \<times> 's)" where
  "fsecs f tiempos s = ftimer_gettod f 10 tiempos s"

subsection \<open>Evaluation\<close>

text \<open>
  \<^verbatim>\<open>read_trace\<close> puts the path of the file together in an array of \<^verbatim>\<open>MAXLINE\<close> characters, after its first \<^verbatim>\<open>malloc\<close>; a
  longer path is undefined, and so is a name that is \<^verbatim>\<open>NULL\<close>, which \<^verbatim>\<open>printf\<close> gets before that \<^verbatim>\<open>malloc\<close> with option -V
  and \<^verbatim>\<open>strcat\<close> after it.
\<close>

definition armar_ruta :: "string \<Rightarrow> string \<Rightarrow> string option" where
  "armar_ruta dir f = (let path = dir @ f in if length path < MAXLINE then Some path else None)"

definition leer_traza :: "entorno_t \<Rightarrow> opciones_m \<Rightarrow> nat \<Rightarrow> string option \<Rightarrow> driver_t \<Rightarrow> fallo + driver_t" where
  "leer_traza e o' i f d =
     (let ruta = Option.bind f (armar_ruta (tracedir o'))
      in if f = None \<and> verbose o' > 1 then Inl Indefinido
         else if 0 < mallocs e i \<and> ruta = None then Inl Indefinido
         else luego (read_trace (Option.bind ruta (archivos e)) (nuevos_bloques e i) (nuevos_tamanos e i) (mallocs e i)) (\<lambda>t.
              Inr (d\<lparr>traza := t, memoria := mallocs e i - 4\<rparr>)))"

definition evaluar_mm :: "asignador_t \<Rightarrow> entorno_t \<Rightarrow> opciones_m \<Rightarrow> nat \<Rightarrow> string option \<Rightarrow> driver_t \<Rightarrow> fallo + (stats_t \<times> driver_t)" where
  "evaluar_mm A e o' i f d =
     luego (leer_traza e o' i f d) (\<lambda>d.
     let st = stats_vacia\<lparr>s_ops := of_int (num_ops (traza d))\<rparr>
     in luego (eval_mm_valid A (int i) d) (\<lambda>(valid, d).
     let st = st\<lparr>s_valid := valid\<rparr>
     in if valid \<noteq> 0 then
          luego (eval_mm_util A d) (\<lambda>(maxt, sz, d).
          luego (fsecs (eval_mm_speed A) (reloj e i) d) (\<lambda>(secs, d).
          Inr (st\<lparr>s_util := cociente (Some (of_int maxt)) (Some (of_int sz)), s_secs := Some secs\<rparr>, free_trace d)))
        else Inr (st, free_trace d)))"

primrec evaluar_todas ::
    "(nat \<Rightarrow> string option \<Rightarrow> 's \<Rightarrow> fallo + (stats_t \<times> 's)) \<Rightarrow> nat \<Rightarrow> string option list \<Rightarrow> 's \<Rightarrow> fallo + (stats_t list \<times> 's)" where
  "evaluar_todas ev i [] s = Inr ([], s)"
| "evaluar_todas ev i (f # fs) s =
     luego (ev i f s) (\<lambda>(st, s). luego (evaluar_todas ev (Suc i) fs s) (\<lambda>(sts, s). Inr (st # sts, s)))"

text \<open>The same for the allocator of the C library, on a memory \<open>'m\<close>.\<close>

record 'm libc_t =
  l_malloc :: "u64 \<Rightarrow> 'm \<Rightarrow> addr \<times> 'm"
  l_realloc :: "addr \<Rightarrow> u64 \<Rightarrow> 'm \<Rightarrow> addr \<times> 'm"
  l_free :: "addr \<Rightarrow> 'm \<Rightarrow> 'm"

definition evaluar_libc ::
    "'m libc_t \<Rightarrow> entorno_t \<Rightarrow> opciones_m \<Rightarrow> nat \<Rightarrow> string option \<Rightarrow> 'm \<times> driver_t \<Rightarrow> fallo + (stats_t \<times> 'm \<times> driver_t)" where
  "evaluar_libc L e o' i f s =
     (case s of (m, d) \<Rightarrow>
        luego (leer_traza e o' i f d) (\<lambda>d.
        luego (eval_libc_valid (l_malloc L) (l_realloc L) (l_free L) m d) (\<lambda>(valid, m, d).
        let st = stats_vacia\<lparr>s_ops := of_int (num_ops (traza d)), s_valid := valid\<rparr>
        in if valid \<noteq> 0 then
             luego (fsecs (\<lambda>(m, d). eval_libc_speed (l_malloc L) (l_realloc L) (l_free L) m d) (reloj e i) (m, d)) (\<lambda>(secs, m, d).
             Inr (st\<lparr>s_secs := Some secs\<rparr>, m, free_trace d))
           else Inr (st, m, free_trace d))))"

text \<open>
  What option -V adds to the output: how far the evaluation of each trace got, which its statistics tell. (A name that
  is \<^verbatim>\<open>NULL\<close> does not get as far as a line of output.)
\<close>

definition leyendo :: "string option \<Rightarrow> salida_m list" where
  "leyendo f = (case f of None \<Rightarrow> [] | Some f \<Rightarrow> [Leyendo f])"

definition avance_libc :: "opciones_m \<Rightarrow> string option list \<Rightarrow> stats_t list \<Rightarrow> salida_m list" where
  "avance_libc o' fs sts =
     (if verbose o' > 1 then
        Probando_libc # concat (map (\<lambda>(f, st).
          leyendo f @ [Comprobando_libc] @ (if s_valid st \<noteq> 0 then [Rendimiento] else [])) (zip fs sts))
      else [])"

definition avance_mm :: "opciones_m \<Rightarrow> string option list \<Rightarrow> stats_t list \<Rightarrow> salida_m list" where
  "avance_mm o' fs sts =
     (if verbose o' > 1 then
        Probando_mm # concat (map (\<lambda>(f, st).
          leyendo f @ [Comprobando_mm] @ (if s_valid st \<noteq> 0 then [Eficiencia, Rendimiento] else [])) (zip fs sts))
      else [])"

subsection \<open>The report\<close>

text \<open>The sums of \<^verbatim>\<open>printresults\<close>: seconds, requests and utilization of the valid traces.\<close>

definition sumas_validas :: "stats_t list \<Rightarrow> real option \<times> real \<times> real option" where
  "sumas_validas sts =
     foldl (\<lambda>(secs, nops, util) st. if s_valid st \<noteq> 0 then (suma secs (s_secs st), nops + s_ops st, suma util (s_util st)) else (secs, nops, util))
       (Some 0, 0, Some 0) sts"

definition printresults :: "int \<Rightarrow> stats_t list \<Rightarrow> linea_m list" where
  "printresults errs sts =
     map (\<lambda>(i, st).
         if s_valid st \<noteq> 0 then
           Fila_valida i (escalar 100 (s_util st)) (s_ops st) (s_secs st) (cociente (Some (s_ops st / 1000)) (s_secs st))
         else Fila_no i) (enumerate 0 sts) @
     (case sumas_validas sts of (secs, nops, util) \<Rightarrow>
        [if errs = 0 then
           Total_m (escalar 100 (cociente util (Some (of_nat (length sts))))) nops secs (cociente (Some (nops / 1000)) secs)
         else Total_no])"

definition UTIL_WEIGHT :: real where "UTIL_WEIGHT = 0.6"
definition AVG_LIBC_THRUPUT :: real where "AVG_LIBC_THRUPUT = 600000"

text \<open>
  The part of the index for the throughput. With no time measured the quotient is infinite, which is
  more than that of the C library, or not a number when there were no requests either.
\<close>

definition indice_thru :: "real \<Rightarrow> real option \<Rightarrow> real option" where
  "indice_thru nops secs = do {
     t \<leftarrow> secs;
     if t = 0 then (if nops > 0 then Some (1 - UTIL_WEIGHT) else None)
     else let avg_mm_throughput = nops / t
          in if avg_mm_throughput > AVG_LIBC_THRUPUT then Some (1 - UTIL_WEIGHT)
             else Some ((1 - UTIL_WEIGHT) * (avg_mm_throughput / AVG_LIBC_THRUPUT))}"

definition acumular :: "stats_t list \<Rightarrow> real option \<times> real \<times> real option \<times> int" where
  "acumular sts =
     foldl (\<lambda>(secs, nops, util, n) st.
         (suma secs (s_secs st), nops + s_ops st, suma util (s_util st), if s_valid st \<noteq> 0 then n + 1 else n))
       (Some 0, 0, Some 0, 0) sts"

definition informe_final :: "int \<Rightarrow> opciones_m \<Rightarrow> stats_t list \<Rightarrow> salida_m list" where
  "informe_final errs o' sts =
     (case acumular sts of (secs, nops, util, numcorrect) \<Rightarrow>
        let avg_mm_util = cociente util (Some (of_nat (length sts)));
            p1 = escalar UTIL_WEIGHT avg_mm_util;
            p2 = indice_thru nops secs;
            perfindex = (if errs = 0 then escalar 100 (suma p1 p2) else Some 0)
        in [if errs = 0 then Indice (escalar 100 p1) (escalar 100 p2) perfindex else Terminado errs] @
           (if autograder o' then [Correctas numcorrect, Perfidx perfindex] else []))"

subsection \<open>\<^verbatim>\<open>main\<close>\<close>

text \<open>\<^verbatim>\<open>init_fsecs\<close> for the timer of \<^verbatim>\<open>config.h\<close>.\<close>

definition init_fsecs :: "opciones_m \<Rightarrow> salida_m list" where
  "init_fsecs o' = (if verbose o' \<noteq> 0 then [Midiendo_gettod] else [])"

definition default_tracefiles :: "string list" where
  "default_tracefiles = [''short1-bal.rep'', ''short2-bal.rep'']"

definition driver_ini :: driver_t where
  "driver_ini =
     \<lparr>heap = \<lparr>bytes = (\<lambda>_. 0), mem_start_brk = 0, mem_brk = 0, mem_max_addr = 0, heap_listp = NULL, impreso = []\<rparr>,
      ranges = [], traza = \<lparr>sugg_heapsize = 0, num_ids = 0, num_ops = 0, weight = 0, ops = [], blocks = [], block_sizes = []\<rparr>,
      errores = [], memoria = 0\<rparr>"

text \<open>The part on the C library; it does not change the simulated heap, which does not exist yet.\<close>

definition parte_libc :: "'m libc_t \<Rightarrow> 'm \<Rightarrow> entorno_t \<Rightarrow> opciones_m \<Rightarrow> string option list \<Rightarrow> driver_t \<Rightarrow> fallo + (salida_m list \<times> driver_t)" where
  "parte_libc L m e o' fs d =
     (if \<not> run_libc o' then Inr ([], d)
      else if \<not> hay_stats e then Inl (Unix_error ''libc_stats calloc in main failed'')
      else luego (evaluar_todas (evaluar_libc L e o') 0 fs (m, d)) (\<lambda>(sts, m, d).
        Inr (avance_libc o' fs sts @
             (if verbose o' \<noteq> 0 then [Resultados_libc (printresults (int (length (errores d))) sts)] else []), d)))"

definition parte_mm :: "asignador_t \<Rightarrow> entorno_t \<Rightarrow> opciones_m \<Rightarrow> string option list \<Rightarrow> driver_t \<Rightarrow> fallo + (salida_m list \<times> driver_t)" where
  "parte_mm A e o' fs d =
     (if \<not> hay_stats e then Inl (Unix_error ''mm_stats calloc in main failed'')
      else case mem_init (bloque_heap e) (heap d) of
        None \<Rightarrow> Inl (App_error ''mem_init_vm: malloc error'')
      | Some h \<Rightarrow>
          luego (evaluar_todas (evaluar_mm A e o') 0 fs (d\<lparr>heap := h\<rparr>)) (\<lambda>(sts, d).
          let errs = int (length (errores d))
          in Inr (avance_mm o' fs sts @ (if verbose o' \<noteq> 0 then [Resultados_mm (printresults errs sts)] else []) @ informe_final errs o' sts, d)))"

text \<open>The names of the trace files after the options.\<close>

definition archivos_de :: "opciones_m \<Rightarrow> string option list" where
  "archivos_de o' = (case tracefiles o' of None \<Rightarrow> map Some default_tracefiles | Some fs \<Rightarrow> fs)"

text \<open>
  \<open>host\<close> is what the host does in the loop over the options, \<open>el\<close> what the system delivers while the C library is evaluated,
  \<open>e\<close> while the student's allocator is, which comes with the team \<open>eq\<close>.
\<close>

definition mdriver_main ::
    "asignador_t \<Rightarrow> equipo_t \<Rightarrow> 'm libc_t \<Rightarrow> 'm \<Rightarrow> (nat \<Rightarrow> bool \<times> bool) \<Rightarrow> entorno_t \<Rightarrow> entorno_t \<Rightarrow> (char \<times> string) list \<Rightarrow> fin_m" where
  "mdriver_main A eq L m host el e os =
     (case opciones_main host 0 os opciones_ini of
        Inl f \<Rightarrow> f
      | Inr o' \<Rightarrow>
          (case (if team_check o' then comprobar_equipo eq else Inr []) of
             Inl f \<Rightarrow> f
           | Inr ms1 \<Rightarrow>
               let fs = archivos_de o';
                   ms2 = (case tracefiles o' of None \<Rightarrow> [Usando (tracedir o')] | Some fs \<Rightarrow> [])
               in (case luego (parte_libc L m el o' fs driver_ini) (\<lambda>(ms3, d).
                         luego (parte_mm A e o' fs d) (\<lambda>(ms4, d). Inr (ms3 @ ms4))) of
                     Inl f \<Rightarrow> Falla_m f
                   | Inr ms \<Rightarrow> Sale_m 0 (ms1 @ ms2 @ init_fsecs o' @ ms))))"

end
