(* ===== verification/Mdriver_Score.thy ===== *)
theory Mdriver_Score
  imports Mdriver_Main Mdriver_Props
begin

text \<open>
  The score: \<^verbatim>\<open>mdriver\<close> from the trace files to the performance index, for the two allocators of the
  repository.
\<close>

text \<open>
  The file holds the text of \<open>t\<close>, which is well formed and fits in the area, and \<open>m\<close> calls of the host's \<^verbatim>\<open>malloc\<close>
  are enough to read it and to note its ranges.
\<close>

definition fichero_bien :: "(int \<Rightarrow> int) \<Rightarrow> int \<Rightarrow> nat \<Rightarrow> string option \<Rightarrow> trace_t \<Rightarrow> bool" where
  "fichero_bien crece ini m archivo t \<longleftrightarrow>
     archivo = Some (texto_traza t) \<and> list_all escribible (ops t) \<and> ops t \<noteq> [] \<and>
     num_ops t = int (length (ops t)) \<and> num_ops t < 2 ^ 31 \<and>
     num_ids t = mayor_indice 0 (ops t) + 1 \<and> 0 < num_ids t \<and> num_ids t < 2 ^ 31 \<and>
     0 \<le> sugg_heapsize t \<and> sugg_heapsize t < 2 ^ 31 \<and> 0 \<le> weight t \<and> weight t < 2 ^ 31 \<and>
     4 + length (ops t) \<le> m \<and>
     traza_ok (num_ids t) {} (ops t) \<and> ini + costo_total crece (ops t) \<le> MAX_HEAP"

text \<open>What else the driver needs to accept it: no index is allocated again before it is freed, and \<open>legible\<close>.\<close>

definition aceptable :: "trace_t \<Rightarrow> bool" where
  "aceptable t \<longleftrightarrow> fresca {} (ops t) \<and> (\<forall>r\<in>set (ops t). op_type r = REALLOC \<longrightarrow> op_index r mod 256 < 128)"

text \<open>Each of the two allocators comes with the team of its file.\<close>

definition equipo_mm_o_naive :: "(asignador_t \<times> equipo_t) set" where
  "equipo_mm_o_naive = {(mm_asignador, team), (naive_asignador, team_naive)}"

definition pico_de :: "trace_t \<Rightarrow> int" where
  "pico_de t = pico (replicate (nat (num_ids t)) 0) (ops t)"

text \<open>The seconds of one of the ten runs.\<close>

definition tiempo :: "(int \<times> int) \<times> (int \<times> int) \<Rightarrow> real" where
  "tiempo r = (case r of ((s1, u1), (s2, u2)) \<Rightarrow> (1000 * of_int (s2 - s1) + of_int (u2 - u1) / 1000) / 10 / 1000)"

definition stats_de :: "entorno_t \<Rightarrow> nat \<Rightarrow> trace_t \<Rightarrow> int \<Rightarrow> stats_t" where
  "stats_de e i t sz = \<lparr>s_ops = of_int (num_ops t), s_valid = 1, s_secs = Some (tiempo (reloj e i)),
     s_util = Some (of_int (pico_de t) / of_int sz)\<rparr>"

lemma pico_pos:
  assumes "ops t \<noteq> []" "traza_ok (num_ids t) {} (ops t)" "0 < num_ids t"
  shows "0 < pico_de t"
proof -
  obtain r rs where r: "ops t = r # rs" using assms(1) by (cases "ops t") simp_all
  then have a: "op_type r = ALLOC" "0 < op_size r" "0 \<le> op_index r" "op_index r < num_ids t"
    using assms(2) by (auto split: tipo_op.splits)
  let ?xs = "replicate (nat (num_ids t)) (0 :: int)"
  have l: "nat (op_index r) < length ?xs" using a by (simp add: nat_less_iff)
  have "?xs ! nat (op_index r) = 0" using l by (simp only: length_replicate nth_replicate)
  then have "sum_list (?xs[nat (op_index r) := op_size r]) = op_size r"
    using mm.sum_list_update [OF l, of "op_size r"] by (simp add: sum_list_replicate del: nth_replicate)
  then have "sum_list (tras r ?xs) = op_size r" using a(1) by (simp add: tras_def)
  moreover have "sum_list ys \<le> pico ys rs" for ys by (cases rs) simp_all
  ultimately have "op_size r \<le> pico (tras r ?xs) rs" by metis
  then show ?thesis using a(2) by (simp add: pico_de_def r less_max_iff_disj)
qed

lemma repetir_bien:
  assumes "\<And>d. P d \<Longrightarrow> \<exists>d'. f d = Inr d' \<and> P d'" "P d"
  shows "\<exists>d'. repetir n f d = Inr d' \<and> P d'"
  using assms(2)
proof (induction n arbitrary: d)
  case (Suc n)
  then obtain d1 where "f d = Inr d1" "P d1" using assms(1) by blast
  then show ?case using Suc.IH [of d1] by simp
qed simp

lemma errores_util:
  assumes "util_op A r d tot maxt = Inr (d', tot', maxt')"
  shows "errores d' = errores d"
  using assms
  by (auto simp: util_op_def Let_def luego_def desde_def anotar_bloque_def anotar_tamano_def sumar_total_def leer_tamano_id_def
      leer_bloque_id_def split: tipo_op.splits sum.splits option.splits if_splits)

lemma errores_util_loop: "util_loop A k i d tot maxt = Inr (d', tot', maxt') \<Longrightarrow> errores d' = errores d"
proof (induction k arbitrary: i d tot maxt)
  case (Suc k)
  then show ?case using errores_util by (fastforce simp: luego_def split: sum.splits)
qed simp

lemma errores_eval_util: "eval_mm_util A d = Inr (m, s, d') \<Longrightarrow> errores d' = errores d"
  using errores_util_loop by (fastforce simp: eval_mm_util_def luego_def split: sum.splits if_splits)

lemma errores_speed: "speed_op A r d = Inr d' \<Longrightarrow> errores d' = errores d"
  by (auto simp: speed_op_def Let_def luego_def desde_def anotar_bloque_def leer_bloque_id_def
      split: tipo_op.splits sum.splits option.splits if_splits)

lemma errores_speed_loop: "speed_loop A k i d = Inr d' \<Longrightarrow> errores d' = errores d"
proof (induction k arbitrary: i d)
  case (Suc k)
  then show ?case using errores_speed by (fastforce simp: luego_def split: sum.splits)
qed simp

lemma errores_eval_speed: "eval_mm_speed A d = Inr d' \<Longrightarrow> errores d' = errores d"
  using errores_speed_loop by (fastforce simp: eval_mm_speed_def luego_def split: sum.splits if_splits)

subsection \<open>One trace file\<close>

lemma leer_traza_bien:
  assumes f: "fichero_bien crece ini (mallocs e i) (archivos e (tracedir o' @ f)) t" and p: "length (tracedir o' @ f) < MAXLINE"
  shows "leer_traza e o' i (Some f) d = Inr (d\<lparr>traza := t\<lparr>blocks := map (nuevos_bloques e i) [0..<nat (num_ids t)],
    block_sizes := map (nuevos_tamanos e i) [0..<nat (num_ids t)]\<rparr>, memoria := mallocs e i - 4\<rparr>)"
proof -
  note F = f [unfolded fichero_bien_def]
  show ?thesis
    using F p leer_texto [of t "mallocs e i" "nuevos_bloques e i" "nuevos_tamanos e i"] by (simp add: leer_traza_def armar_ruta_def Let_def)
qed

lemma evaluar_mm_bien:
  assumes A: "(A, crece, ini) \<in> mm_o_naive" and M: "(A, mide) \<in> mide_mm_o_naive" and a: "area (heap d)"
    and f: "fichero_bien crece ini (mallocs e i) (archivos e (tracedir o' @ f)) t" and p: "length (tracedir o' @ f) < MAXLINE"
    and ac: "aceptable t"
  shows "\<exists>d'. evaluar_mm A e o' i (Some f) d = Inr (stats_de e i t (mide (ops t)), d') \<and> area (heap d') \<and> errores d' = errores d \<and>
    pico_de t \<le> mide (ops t) \<and> mide (ops t) \<le> MAX_HEAP \<and> 0 < pico_de t"
proof -
  let ?t = "t\<lparr>blocks := map (nuevos_bloques e i) [0..<nat (num_ids t)], block_sizes := map (nuevos_tamanos e i) [0..<nat (num_ids t)]\<rparr>"
  let ?d = "d\<lparr>traza := ?t, memoria := mallocs e i - 4\<rparr>"
  note F = f [unfolded fichero_bien_def]
  have L: "leer_traza e o' i (Some f) d = Inr ?d" by (rule leer_traza_bien [OF f p])
  have traza: "0 < num_ids t" "num_ops t = int (length (ops t))" "traza_ok (num_ids t) {} (ops t)" "fresca {} (ops t)"
    "length (ops t) \<le> mallocs e i - 4" "ini + costo_total crece (ops t) \<le> MAX_HEAP" "\<forall>r \<in> set (ops t). legible r"
    using F ac unfolding aceptable_def legible_def by (blast | linarith)+
  have c: "area (heap ?d)" "tamanos_ok ?d" "num_ops (traza ?d) = int (length (ops (traza ?d)))"
    "traza_ok (num_ids (traza ?d)) {} (ops (traza ?d))" "fresca {} (ops (traza ?d))"
    "length (ops (traza ?d)) \<le> memoria ?d" "ini + costo_total crece (ops (traza ?d)) \<le> MAX_HEAP"
    "\<forall>r \<in> set (ops (traza ?d)). legible r"
    using traza a by (simp_all add: tamanos_ok_def)
  obtain d1 where d1: "eval_mm_valid A (int i) ?d = Inr (1, d1)" "errores d1 = errores d" "bien ?d d1"
    using veredicto_mm_o_naive [OF A c(1-4,6,7), of "int i"] c(8) by auto
  have c1: "area (heap d1)" "tamanos_ok d1" "ops (traza d1) = ops t" "num_ops (traza d1) = num_ops t" "num_ids (traza d1) = num_ids t"
    using d1(3) by (simp_all add: bien_def igual_traza_def)
  define sz where "sz = mide (ops t)"
  obtain d2 where d2: "eval_mm_util A d1 = Inr (pico_de t, sz, d2)" "pico_de t \<le> sz" "sz \<le> MAX_HEAP" "bien d1 d2"
    using util_mm_o_naive_mide [OF A M c1(1,2)] c1(3-5) F traza(4) unfolding pico_de_def sz_def by auto
  have "\<exists>d'. eval_mm_speed A x = Inr d' \<and> bien d1 d' \<and> errores d' = errores d" if x: "bien d1 x \<and> errores x = errores d" for x
  proof -
    have "area (heap x)" "tamanos_ok x" "ops (traza x) = ops t" "num_ops (traza x) = num_ops t" "num_ids (traza x) = num_ids t"
      using x c1 by (simp_all add: bien_def igual_traza_def)
    then obtain d' where "eval_mm_speed A x = Inr d'" "bien x d'"
      using speed_mm_o_naive [OF A, of x] F by auto
    then show ?thesis using errores_eval_speed [of A x d'] bien_trans [of d1 x d'] x by (simp add: bien_def)
  qed
  then obtain d3 where d3: "repetir 10 (eval_mm_speed A) d2 = Inr d3" "bien d1 d3" "errores d3 = errores d"
    using repetir_bien [of "\<lambda>x. bien d1 x \<and> errores x = errores d" "eval_mm_speed A" d2 10] d2(4)
      errores_eval_util [OF d2(1)] d1(2) by auto
  obtain s1 u1 s2 u2 where r: "reloj e i = ((s1, u1), (s2, u2))" by (metis prod.collapse)
  have "fsecs (eval_mm_speed A) (reloj e i) d2 = Inr (tiempo (reloj e i), d3)"
    using d3(1) by (simp add: fsecs_def ftimer_gettod_def r Let_def tiempo_def)
  moreover have pos: "0 < pico_de t" using F by (intro pico_pos) auto
  moreover have "cociente (Some (of_int (pico_de t))) (Some (of_int sz)) = Some (of_int (pico_de t) / of_int sz)"
    using d2(2) pos by (simp add: cociente_def)
  ultimately have "evaluar_mm A e o' i (Some f) d = Inr (stats_de e i t sz, free_trace d3)"
    using L d1(1) d2(1) by (simp add: evaluar_mm_def Let_def stats_de_def stats_vacia_def)
  then show ?thesis using d3 d2(2,3) pos by (auto simp: bien_def sz_def)
qed

subsection \<open>All of them\<close>

lemma evaluar_todas_bien:
  assumes A: "(A, crece, ini) \<in> mm_o_naive" and M: "(A, mide) \<in> mide_mm_o_naive" and a: "area (heap d)" and l: "length fs = length ts"
    and f: "\<And>k. k < length fs \<Longrightarrow> fichero_bien crece ini (mallocs e (i + k)) (archivos e (tracedir o' @ fs ! k)) (ts ! k)"
    and p: "\<And>g. g \<in> set fs \<Longrightarrow> length (tracedir o' @ g) < MAXLINE" and ac: "\<forall>t\<in>set ts. aceptable t"
  shows "\<exists>d'. evaluar_todas (evaluar_mm A e o') i (map Some fs) d =
      Inr (map (\<lambda>k. stats_de e (i + k) (ts ! k) (mide (ops (ts ! k)))) [0..<length ts], d') \<and> errores d' = errores d \<and>
    (\<forall>k<length ts. pico_de (ts ! k) \<le> mide (ops (ts ! k)) \<and> mide (ops (ts ! k)) \<le> MAX_HEAP)"
  using a l f p ac
proof (induction fs arbitrary: i d ts)
  case Nil
  then show ?case by simp
next
  case (Cons g fs)
  obtain t ts' where ts: "ts = t # ts'" using Cons.prems(2) by (cases ts) simp_all
  have q: "length (tracedir o' @ g) < MAXLINE" by (rule Cons.prems(4)) simp
  have "fichero_bien crece ini (mallocs e i) (archivos e (tracedir o' @ g)) t"
    using Cons.prems(3) [of 0] by (simp add: ts)
  moreover have "aceptable t" using Cons.prems(5) ts by simp
  ultimately obtain d1 where d1: "evaluar_mm A e o' i (Some g) d = Inr (stats_de e i t (mide (ops t)), d1)" "area (heap d1)" "errores d1 = errores d"
    "pico_de t \<le> mide (ops t)" "mide (ops t) \<le> MAX_HEAP"
    using evaluar_mm_bien [OF A M Cons.prems(1) _ q] by blast
  have "fichero_bien crece ini (mallocs e (Suc i + k)) (archivos e (tracedir o' @ fs ! k)) (ts' ! k)" if "k < length fs" for k
    using Cons.prems(3) [of "Suc k"] that by (simp add: ts)
  then obtain d2 where d2: "evaluar_todas (evaluar_mm A e o') (Suc i) (map Some fs) d1 =
      Inr (map (\<lambda>k. stats_de e (Suc i + k) (ts' ! k) (mide (ops (ts' ! k)))) [0..<length ts'], d2)" "errores d2 = errores d1"
    "\<forall>k<length ts'. pico_de (ts' ! k) \<le> mide (ops (ts' ! k)) \<and> mide (ops (ts' ! k)) \<le> MAX_HEAP"
    using Cons.IH [OF d1(2), of ts' "Suc i"] Cons.prems(2,4,5) ts by auto
  have "map (\<lambda>k. stats_de e (i + k) (ts ! k) (mide (ops (ts ! k)))) [0..<length ts] =
      stats_de e i t (mide (ops t)) # map (\<lambda>k. stats_de e (Suc i + k) (ts' ! k) (mide (ops (ts' ! k)))) [0..<length ts']"
    by (simp add: ts map_upt_Suc del: upt_Suc)
  moreover have "\<forall>k<length ts. pico_de (ts ! k) \<le> mide (ops (ts ! k)) \<and> mide (ops (ts ! k)) \<le> MAX_HEAP"
    using d1(4,5) d2(3) by (auto simp: ts nth_Cons split: nat.split)
  ultimately show ?case using d1(1,3) d2 by simp
qed

lemma acumular_bien:
  "acumular (map (\<lambda>k. stats_de e k (ts ! k) (sz k)) [0..<n]) =
    (Some (\<Sum>k<n. tiempo (reloj e k)), \<Sum>k<n. of_int (num_ops (ts ! k)),
     Some (\<Sum>k<n. of_int (pico_de (ts ! k)) / of_int (sz k)), int n)"
  by (induction n) (simp_all add: acumular_def stats_de_def suma_def)

subsection \<open>The C library\<close>

text \<open>The library, in the state \<open>m\<close>, can serve any \<open>k\<close> further requests of a positive \<^verbatim>\<open>int\<close> number of bytes.\<close>

primrec sirve :: "'m libc_t \<Rightarrow> nat \<Rightarrow> 'm \<Rightarrow> bool" where
  "sirve L 0 m \<longleftrightarrow> True"
| "sirve L (Suc k) m \<longleftrightarrow>
     (\<forall>sz. 0 < sz \<and> sz < 2 ^ 31 \<longrightarrow>
        fst (l_malloc L (word_of_int sz) m) \<noteq> NULL \<and> sirve L k (snd (l_malloc L (word_of_int sz) m)) \<and>
        (\<forall>p. fst (l_realloc L p (word_of_int sz) m) \<noteq> NULL \<and> sirve L k (snd (l_realloc L p (word_of_int sz) m)))) \<and>
     (\<forall>p. sirve L k (l_free L p m))"

definition igual_libc :: "driver_t \<Rightarrow> driver_t \<Rightarrow> bool" where
  "igual_libc d d' \<longleftrightarrow> heap d' = heap d \<and> errores d' = errores d \<and> igual_traza d d' \<and>
     length (blocks (traza d')) = length (blocks (traza d))"

lemma igual_libc_trans: "igual_libc d d1 \<Longrightarrow> igual_libc d1 d2 \<Longrightarrow> igual_libc d d2"
  by (simp add: igual_libc_def igual_traza_def)

lemma libc_op_bien:
  assumes "0 \<le> op_index r" "op_index r < int (length (blocks (traza d)))"
    "op_type r \<noteq> FREE \<Longrightarrow> 0 < op_size r \<and> op_size r < 2 ^ 31" "sirve L (Suc q) m"
  shows "\<exists>m' d'. libc_op (l_malloc L) (l_realloc L) (l_free L) e1 e2 r m d = Inr (m', d') \<and> sirve L q m' \<and> igual_libc d d'"
proof -
  have a: "\<exists>d'. anotar_bloque (op_index r) p d = Inr d' \<and> igual_libc d d'" for p
    using assms(1,2) by (auto simp: anotar_bloque_def igual_libc_def igual_traza_def nat_less_iff)
  have l: "\<exists>p. leer_bloque_id (op_index r) d = Inr p"
    using assms(1,2) by (auto simp: leer_bloque_id_def elem_def nat_less_iff)
  show ?thesis
  proof (cases "op_type r")
    case ALLOC
    then have sz: "0 < op_size r \<and> op_size r < 2 ^ 31" using assms(3) by simp
    obtain p m' where m: "l_malloc L (word_of_int (op_size r)) m = (p, m')" by force
    have "p \<noteq> NULL" "sirve L q m'" using assms(4) [unfolded sirve.simps, THEN conjunct1, rule_format, OF sz] m by simp_all
    then show ?thesis using ALLOC m a [of p] by (auto simp: libc_op_def)
  next
    case REALLOC
    then have sz: "0 < op_size r \<and> op_size r < 2 ^ 31" using assms(3) by simp
    obtain p where p: "leer_bloque_id (op_index r) d = Inr p" using l by blast
    obtain p' m' where m: "l_realloc L p (word_of_int (op_size r)) m = (p', m')" by force
    have "p' \<noteq> NULL" "sirve L q m'"
      using assms(4) [unfolded sirve.simps, THEN conjunct1, rule_format, OF sz, THEN conjunct2, THEN conjunct2, rule_format, of p] m
      by simp_all
    then show ?thesis using REALLOC p m a [of p'] by (auto simp: libc_op_def)
  next
    case FREE
    then show ?thesis using l assms(4) by (auto simp: libc_op_def igual_libc_def igual_traza_def)
  qed
qed

lemma libc_loop_bien:
  assumes "traza_ok n S (drop i (ops (traza d)))" "int (length (blocks (traza d))) = n"
    "k = length (ops (traza d)) - i" "sirve L (k + q) m"
  shows "\<exists>m' d'. libc_loop (l_malloc L) (l_realloc L) (l_free L) e1 e2 k i m d = Inr (m', d') \<and> sirve L q m' \<and> igual_libc d d'"
  using assms
proof (induction k arbitrary: i S m d)
  case 0
  then show ?case by (simp add: igual_libc_def igual_traza_def)
next
  case (Suc k)
  let ?r = "ops (traza d) ! i"
  have i: "i < length (ops (traza d))" using Suc.prems(3) by simp
  then have D: "drop i (ops (traza d)) = ?r # drop (Suc i) (ops (traza d))" by (rule Cons_nth_drop_Suc [symmetric])
  have r: "0 \<le> op_index ?r" "op_index ?r < n" "op_type ?r \<noteq> FREE \<Longrightarrow> 0 < op_size ?r \<and> op_size ?r < 2 ^ 31"
    and "\<exists>S'. traza_ok n S' (drop (Suc i) (ops (traza d)))"
    using Suc.prems(1) unfolding D by (auto split: tipo_op.splits)
  then obtain S' where S': "traza_ok n S' (drop (Suc i) (ops (traza d)))" by blast
  obtain m1 d1 where d1: "libc_op (l_malloc L) (l_realloc L) (l_free L) e1 e2 ?r m d = Inr (m1, d1)" "sirve L (k + q) m1" "igual_libc d d1"
    using libc_op_bien [of ?r d L "k + q" m e1 e2] r Suc.prems(2,4) by auto
  have t: "ops (traza d1) = ops (traza d)" "length (blocks (traza d1)) = length (blocks (traza d))"
    using d1(3) by (simp_all add: igual_libc_def igual_traza_def)
  have g: "traza_ok n S' (drop (Suc i) (ops (traza d1)))" "int (length (blocks (traza d1))) = n"
    "k = length (ops (traza d1)) - Suc i"
    using S' Suc.prems(2,3) t by simp_all
  obtain m2 d2 where d2: "libc_loop (l_malloc L) (l_realloc L) (l_free L) e1 e2 k (Suc i) m1 d1 = Inr (m2, d2)" "sirve L q m2" "igual_libc d1 d2"
    using Suc.IH [OF g d1(2)] by blast
  have "leer_op i d = Inr ?r" using i by (simp add: leer_op_def)
  then show ?case using d1(1) d2(1,2) igual_libc_trans [OF d1(3) d2(3)] by simp
qed

text \<open>The library serves each request eleven times: once for the check and ten times for the measurement.\<close>

lemma evaluar_libc_bien:
  assumes f: "fichero_bien crece ini (mallocs e i) (archivos e (tracedir o' @ f)) t" and p: "length (tracedir o' @ f) < MAXLINE"
    and s: "sirve L (11 * length (ops t) + q) m"
  shows "\<exists>st m' d'. evaluar_libc L e o' i (Some f) (m, d) = Inr (st, m', d') \<and> s_valid st = 1 \<and> sirve L q m' \<and>
    heap d' = heap d \<and> errores d' = errores d"
proof -
  let ?d = "d\<lparr>traza := t\<lparr>blocks := map (nuevos_bloques e i) [0..<nat (num_ids t)],
    block_sizes := map (nuevos_tamanos e i) [0..<nat (num_ids t)]\<rparr>, memoria := mallocs e i - 4\<rparr>"
  let ?n = "length (ops t)"
  have F: "num_ops t = int ?n" "0 < num_ids t" "traza_ok (num_ids t) {} (ops t)"
    using f unfolding fichero_bien_def by blast+
  have run: "\<exists>m' d'. libc_loop (l_malloc L) (l_realloc L) (l_free L) e1 e2 (nat (num_ops (traza x))) 0 m x = Inr (m', d') \<and>
      sirve L q m' \<and> igual_libc ?d d'" if x: "igual_libc ?d x" "sirve L (?n + q) m" for e1 e2 x m q
    using libc_loop_bien [of "num_ids t" "{}" 0 x ?n L q m e1 e2] x F igual_libc_trans [OF x(1)]
    by (fastforce simp: igual_libc_def igual_traza_def)
  have d: "igual_libc ?d ?d" by (simp add: igual_libc_def igual_traza_def)
  have "sirve L (?n + (10 * ?n + q)) m" using s by (simp add: add.assoc [symmetric])
  then obtain m1 d1 where l1: "libc_loop (l_malloc L) (l_realloc L) (l_free L) ''System message'' ''System message''
      (nat (num_ops (traza ?d))) 0 m ?d = Inr (m1, d1)" and d1: "sirve L (10 * ?n + q) m1" "igual_libc ?d d1"
    using run [OF d] by blast
  have v1: "eval_libc_valid (l_malloc L) (l_realloc L) (l_free L) m ?d = Inr (1, m1, d1)"
    unfolding eval_libc_valid_def l1 by simp
  let ?f = "\<lambda>(m, d). eval_libc_speed (l_malloc L) (l_realloc L) (l_free L) m d"
  have "\<exists>m' d'. repetir k ?f (m, x) = Inr (m', d') \<and> sirve L q m' \<and> igual_libc ?d d'"
    if "igual_libc ?d x" "sirve L (k * ?n + q) m" for k x m
    using that
  proof (induction k arbitrary: x m)
    case (Suc k)
    then have "sirve L (?n + (k * ?n + q)) m" by (simp add: add.assoc)
    then obtain m1 x1 where x1: "eval_libc_speed (l_malloc L) (l_realloc L) (l_free L) m x = Inr (m1, x1)"
      "sirve L (k * ?n + q) m1" "igual_libc ?d x1"
      unfolding eval_libc_speed_def using run [OF Suc.prems(1)] by blast
    show ?case using x1(1) Suc.IH [OF x1(3,2)] by simp
  qed simp
  then obtain m2 d2 where d2: "repetir 10 ?f (m1, d1) = Inr (m2, d2)" "sirve L q m2" "igual_libc ?d d2"
    using d1 by blast
  obtain s1 u1 s2 u2 where r: "reloj e i = ((s1, u1), (s2, u2))" by (metis prod.collapse)
  show ?thesis
    using leer_traza_bien [OF f p, of d] v1 d2
    by (simp add: evaluar_libc_def fsecs_def ftimer_gettod_def r Let_def igual_libc_def stats_vacia_def)
qed

lemma evaluar_todas_libc_bien:
  assumes "length fs = length ts"
    and "\<And>k. k < length fs \<Longrightarrow> fichero_bien crece ini (mallocs e (i + k)) (archivos e (tracedir o' @ fs ! k)) (ts ! k)"
    and "\<And>g. g \<in> set fs \<Longrightarrow> length (tracedir o' @ g) < MAXLINE"
    and "sirve L (11 * (\<Sum>t\<leftarrow>ts. length (ops t))) m"
  shows "\<exists>sts m' d'. evaluar_todas (evaluar_libc L e o') i (map Some fs) (m, d) = Inr (sts, m', d') \<and> heap d' = heap d \<and> errores d' = errores d \<and>
    list_all (\<lambda>st. s_valid st = 1) sts"
  using assms
proof (induction fs arbitrary: i m d ts)
  case (Cons g fs)
  obtain t ts' where ts: "ts = t # ts'" using Cons.prems(1) by (cases ts) simp_all
  have q: "length (tracedir o' @ g) < MAXLINE" by (rule Cons.prems(3)) simp
  have f: "fichero_bien crece ini (mallocs e i) (archivos e (tracedir o' @ g)) t"
    using Cons.prems(2) [of 0] by (simp add: ts)
  have z: "sirve L (11 * length (ops t) + 11 * (\<Sum>t\<leftarrow>ts'. length (ops t))) m" using Cons.prems(4) by (simp add: ts)
  obtain st m1 d1 where d1: "evaluar_libc L e o' i (Some g) (m, d) = Inr (st, m1, d1)" "s_valid st = 1"
    "sirve L (11 * (\<Sum>t\<leftarrow>ts'. length (ops t))) m1" "heap d1 = heap d" "errores d1 = errores d"
    using evaluar_libc_bien [OF f q z, of d] by blast
  have "fichero_bien crece ini (mallocs e (Suc i + k)) (archivos e (tracedir o' @ fs ! k)) (ts' ! k)" if "k < length fs" for k
    using Cons.prems(2) [of "Suc k"] that by (simp add: ts)
  then obtain sts m2 d2 where "evaluar_todas (evaluar_libc L e o') (Suc i) (map Some fs) (m1, d1) = Inr (sts, m2, d2)" "heap d2 = heap d1"
    "errores d2 = errores d1" "list_all (\<lambda>st. s_valid st = 1) sts"
    using Cons.IH [of ts' "Suc i" m1 d1] Cons.prems(1,3) d1(3) ts by auto
  then show ?case using d1 by simp
qed simp

lemma parte_libc_bien:
  assumes "run_libc o' \<Longrightarrow> hay_stats e \<and> sirve L (11 * (\<Sum>t\<leftarrow>ts. length (ops t))) m \<and>
      (\<forall>k<length ts. fichero_bien crece ini (mallocs e k) (archivos e (tracedir o' @ fs ! k)) (ts ! k))"
    and "length fs = length ts" and "\<And>g. g \<in> set fs \<Longrightarrow> length (tracedir o' @ g) < MAXLINE"
  shows "\<exists>ms d'. parte_libc L m e o' (map Some fs) d = Inr (ms, d') \<and> heap d' = heap d \<and> errores d' = errores d"
proof (cases "run_libc o'")
  case True
  note a = assms(1) [OF True]
  have f: "\<And>k. k < length fs \<Longrightarrow> fichero_bien crece ini (mallocs e (0 + k)) (archivos e (tracedir o' @ fs ! k)) (ts ! k)"
    using a assms(2) by simp
  show ?thesis
    using evaluar_todas_libc_bien [OF assms(2) f assms(3) a [THEN conjunct2, THEN conjunct1], of d] a True
    by (auto simp: parte_libc_def)
qed (simp add: parte_libc_def)

text \<open>
  C8. The score. For both allocators, each with its team, whatever the options, trace files whose paths fit in the buffer and that hold
  well-formed traces that fit in the area, enough memory of the host and a clock that advances, and, with
  option -l, a C library that serves each request eleven times, \<^verbatim>\<open>mdriver\<close> ends with exit code 0, finds every trace correct and no error, and the performance index is made of
  60 times the mean over the traces of the quotient, at most 1, of the peak payload and the size of the heap, which is the
  one that the model of the allocator computes from the requests, and of 40 times the throughput, up to that of the C library.
  The traces are \<open>aceptable\<close>: none allocates an index a second time before it frees it, and no request to reallocate has an index whose
  low byte is 128 or more (on such a request the driver reports an error although the data was kept).
\<close>

theorem mdriver_main_puntua:
  fixes L :: "'m libc_t" and ts :: "trace_t list"
  assumes "(A, crece, ini) \<in> mm_o_naive" "(A, mide) \<in> mide_mm_o_naive" "opciones_main host 0 os opciones_ini = Inr o'"
    "run_libc o' \<Longrightarrow> hay_stats el \<and> sirve L (11 * (\<Sum>t\<leftarrow>ts. length (ops t))) m \<and>
      (\<forall>k<length ts. fichero_bien crece ini (mallocs el k) (archivos el (tracedir o' @ fs ! k)) (ts ! k))"
    "archivos_de o' = map Some fs" "fs \<noteq> []" "length fs = length ts"
    "\<forall>k<length ts. fichero_bien crece ini (mallocs e k) (archivos e (tracedir o' @ fs ! k)) (ts ! k)"
    "hay_stats e" "0 < bloque_heap e" "16 dvd bloque_heap e" "bloque_heap e < 2 ^ 62"
    "\<forall>k<length ts. 0 < tiempo (reloj e k)" "\<forall>g \<in> set fs. length (tracedir o' @ g) < MAXLINE"
    "(A, eq) \<in> equipo_mm_o_naive" "\<forall>t\<in>set ts. aceptable t"
  defines "nops \<equiv> (\<Sum>k<length ts. real_of_int (num_ops (ts ! k)))" and "secs \<equiv> (\<Sum>k<length ts. tiempo (reloj e k))"
  shows "\<exists>ms p1 p2. mdriver_main A eq L m host el e os = Sale_m 0 (ms @ [Indice (Some p1) (Some p2) (Some (p1 + p2))] @
        (if autograder o' then [Correctas (int (length ts)), Perfidx (Some (p1 + p2))] else [])) \<and>
    (\<forall>k<length ts. pico_de (ts ! k) \<le> mide (ops (ts ! k)) \<and> mide (ops (ts ! k)) \<le> MAX_HEAP) \<and>
    p1 = 60 * ((\<Sum>k<length ts. of_int (pico_de (ts ! k)) / of_int (mide (ops (ts ! k)))) / of_nat (length ts)) \<and>
    p2 = 40 * min 1 (nops / secs / 600000)"
proof -
  let ?n = "length ts"
  let ?h = "(heap driver_ini)\<lparr>mem_start_brk := bloque_heap e, mem_max_addr := bloque_heap e + MAX_HEAP, mem_brk := bloque_heap e\<rparr>"
  have h: "mem_init (bloque_heap e) (heap driver_ini) = Some ?h" "area ?h"
    using assms(10-12) by (simp_all add: mem_init_def area_def NULL_def)
  have g: "\<And>g. g \<in> set fs \<Longrightarrow> length (tracedir o' @ g) < MAXLINE" using assms(14) by blast
  obtain ms3 d0 where libc: "parte_libc L m el o' (map Some fs) driver_ini = Inr (ms3, d0)" "heap d0 = heap driver_ini" "errores d0 = []"
    using parte_libc_bien [OF assms(4,7) g, of driver_ini] by (auto simp: driver_ini_def)
  obtain d' where E: "evaluar_todas (evaluar_mm A e o') 0 (map Some fs) (d0\<lparr>heap := ?h\<rparr>) =
      Inr (map (\<lambda>k. stats_de e k (ts ! k) (mide (ops (ts ! k)))) [0..<?n], d')" "errores d' = []"
    "\<forall>k<?n. pico_de (ts ! k) \<le> mide (ops (ts ! k)) \<and> mide (ops (ts ! k)) \<le> MAX_HEAP"
    using evaluar_todas_bien [OF assms(1,2) _ assms(7), of "d0\<lparr>heap := ?h\<rparr>" e 0 o'] assms(7,8,16) h(2) g libc(3)
    by auto
  have n: "0 < ?n" using assms(6,7) by auto
  have s: "0 < secs" unfolding secs_def using n assms(13) by (intro sum_pos) auto
  let ?u = "\<Sum>k<?n. of_int (pico_de (ts ! k)) / of_int (mide (ops (ts ! k))) :: real"
  let ?p1 = "60 * (?u / of_nat ?n)" and ?p2 = "40 * min 1 (nops / secs / 600000)"
  have p1: "escalar 100 (escalar UTIL_WEIGHT (cociente (Some ?u) (Some (of_nat ?n)))) = Some ?p1"
    using n by (simp add: escalar_def cociente_def UTIL_WEIGHT_def)
  have p2: "escalar 100 (indice_thru nops (Some secs)) = Some ?p2"
  proof -
    define q where "q = nops / secs"
    have "indice_thru nops (Some secs) = Some (if q > AVG_LIBC_THRUPUT then 1 - UTIL_WEIGHT
        else (1 - UTIL_WEIGHT) * (q / AVG_LIBC_THRUPUT))"
      using s by (simp add: indice_thru_def Let_def q_def)
    then show ?thesis unfolding q_def [symmetric]
      by (cases "q > 600000") (simp_all add: escalar_def UTIL_WEIGHT_def AVG_LIBC_THRUPUT_def min_def)
  qed
  have I: "informe_final 0 o' (map (\<lambda>k. stats_de e k (ts ! k) (mide (ops (ts ! k)))) [0..<?n]) =
      [Indice (Some ?p1) (Some ?p2) (Some (?p1 + ?p2))] @
      (if autograder o' then [Correctas (int ?n), Perfidx (Some (?p1 + ?p2))] else [])"
    using p1 p2 by (auto simp: informe_final_def acumular_bien Let_def suma_def escalar_def algebra_simps
        simp flip: nops_def secs_def split: Option.bind_splits)
  obtain ms1 where ms1: "(if team_check o' then comprobar_equipo eq else Inr []) = (Inr ms1 :: fin_m + salida_m list)"
    using assms(15) by (cases "team_check o'") (auto simp: equipo_mm_o_naive_def comprobar_equipo_def team_def team_naive_def)
  obtain ms4 where "parte_mm A e o' (map Some fs) d0 = Inr (ms4 @ [Indice (Some ?p1) (Some ?p2) (Some (?p1 + ?p2))] @
      (if autograder o' then [Correctas (int ?n), Perfidx (Some (?p1 + ?p2))] else []), d')"
    using E(1,2) h(1) I assms(9) libc(2) by (auto simp: parte_mm_def Let_def)
  then show ?thesis
    using assms(3,5) ms1 E(3) libc(1)
    by (intro exI [of _ "ms1 @ (case tracefiles o' of None \<Rightarrow> [Usando (tracedir o')] | Some fs \<Rightarrow> []) @ init_fsecs o' @ ms3 @ ms4"] exI)
      (auto simp: mdriver_main_def Let_def)
qed

text \<open>The two default trace files in the current directory, and runs that take 501 microseconds.\<close>

definition traza_short1 :: trace_t where
  "traza_short1 = traza (driver_ejemplo short1 6)"

definition traza_short2 :: trace_t where
  "traza_short2 = traza (driver_ejemplo short2 6)"

definition entorno_ejemplo :: entorno_t where
  "entorno_ejemplo = \<lparr>archivos = (\<lambda>f. Some (texto_traza (if f = ''./short1-bal.rep'' then traza_short1 else traza_short2))),
     nuevos_bloques = (\<lambda>_ _. 0), nuevos_tamanos = (\<lambda>_ _. 0), mallocs = (\<lambda>_. 100), hay_stats = True, bloque_heap = 4096,
     reloj = (\<lambda>_. ((5, 999999), (6, 500)))\<rparr>"

lemma fichero_ejemplo:
  assumes "t = traza_short1 \<or> t = traza_short2"
  shows "fichero_bien mm_crece 4128 100 (Some (texto_traza t)) t"
proof -
  have "sugg_heapsize t = 20000" "weight t = 1" "num_ids t = 6" "num_ops t = 12" "ops t = short1 \<or> ops t = short2"
    using assms by (auto simp: driver_ejemplo_def traza_short1_def traza_short2_def short1_def short2_def)
  then show ?thesis
    by (auto simp: fichero_bien_def short1_def short2_def escribible_def mayor_indice_def legible_def costo_total_def costo_def
        mm_crece_def ajuste_def MAX_HEAP_def)
qed

text \<open>A host with memory, and a library that hands out one block after the other.\<close>

definition host_ejemplo :: "nat \<Rightarrow> bool \<times> bool" where
  "host_ejemplo = (\<lambda>_. (True, True))"

definition libc_ejemplo :: "int libc_t" where
  "libc_ejemplo = \<lparr>l_malloc = (\<lambda>sz m. (m, m + uint sz)), l_realloc = (\<lambda>_ sz m. (m, m + uint sz)), l_free = (\<lambda>_ m. m)\<rparr>"

lemma sirve_ejemplo: "0 < m \<Longrightarrow> sirve libc_ejemplo k m"
proof (induction k arbitrary: m)
  case (Suc k)
  have "0 < m + uint (word_of_int sz :: u64)" for sz using Suc.prems uint_ge_0 [of "word_of_int sz :: u64"] by linarith
  then show ?case using Suc by (simp add: libc_ejemplo_def NULL_def)
qed simp

text \<open>
  The score of \<^verbatim>\<open>mm.c\<close> on the two default traces, with the clock of the example: the heaps of 12320 and 20512 bytes
  are used up to 8144 and 18314 bytes.
\<close>

theorem mdriver_main_puntua_witness:
  "\<exists>ms p1 p2. mdriver_main mm_asignador team libc_ejemplo 4096 host_ejemplo entorno_ejemplo entorno_ejemplo [(CHR ''g'', []), (CHR ''l'', [])] =
      Sale_m 0 (ms @ [Indice (Some p1) (Some p2) (Some (p1 + p2)), Correctas 2, Perfidx (Some (p1 + p2))]) \<and>
    p1 = 30 * (8144 / 12320 + 18314 / 20512) \<and> p2 = 8000 / 501"
proof -
  let ?ts = "[traza_short1, traza_short2]"
  let ?o = "opciones_ini\<lparr>autograder := True, run_libc := True\<rparr>"
  have A: "(mm_asignador, mm_crece, 4128) \<in> mm_o_naive" "(mm_asignador, medida mm_modelo) \<in> mide_mm_o_naive"
    by (simp_all add: mm_o_naive_def mide_mm_o_naive_def)
  have O: "opciones_main host_ejemplo 0 [(CHR ''g'', []), (CHR ''l'', [])] opciones_ini = Inr ?o" by (simp add: opcion_m_def)
  have F: "archivos_de ?o = map Some default_tracefiles"
    "default_tracefiles \<noteq> []" "length default_tracefiles = length ?ts"
    "\<forall>g \<in> set default_tracefiles. length (tracedir ?o @ g) < MAXLINE"
    by (simp_all add: opciones_ini_def default_tracefiles_def archivos_de_def MAXLINE_def)
  have Q: "(mm_asignador, team) \<in> equipo_mm_o_naive" "\<forall>t\<in>set ?ts. aceptable t"
    by (simp_all add: equipo_mm_o_naive_def) (simp add: aceptable_def traza_short1_def traza_short2_def short1_def short2_def)
  have f: "\<forall>k<length ?ts. fichero_bien mm_crece 4128 (mallocs entorno_ejemplo k)
      (archivos entorno_ejemplo (tracedir ?o @ default_tracefiles ! k)) (?ts ! k)"
    using fichero_ejemplo by (auto simp: entorno_ejemplo_def opciones_ini_def default_tracefiles_def less_Suc_eq)
  have t: "tiempo (reloj entorno_ejemplo k) = 501 / 10000000" for k by (simp add: entorno_ejemplo_def tiempo_def)
  have E: "hay_stats entorno_ejemplo" "0 < bloque_heap entorno_ejemplo" "16 dvd bloque_heap entorno_ejemplo"
    "bloque_heap entorno_ejemplo < 2 ^ 62" "\<forall>k<length ?ts. 0 < tiempo (reloj entorno_ejemplo k)"
    by (simp_all add: t) (simp_all add: entorno_ejemplo_def)
  have L: "sirve libc_ejemplo (11 * (\<Sum>t\<leftarrow>?ts. length (ops t))) 4096" by (rule sirve_ejemplo) simp
  obtain ms p1 p2 where m: "mdriver_main mm_asignador team libc_ejemplo 4096 host_ejemplo entorno_ejemplo entorno_ejemplo
        [(CHR ''g'', []), (CHR ''l'', [])] = Sale_m 0 (ms @ [Indice (Some p1) (Some p2) (Some (p1 + p2))] @
          (if autograder ?o then [Correctas (int (length ?ts)), Perfidx (Some (p1 + p2))] else []))"
    "p1 = 60 * ((\<Sum>k<length ?ts. of_int (pico_de (?ts ! k)) / of_int (medida mm_modelo (ops (?ts ! k)))) / of_nat (length ?ts))"
    "p2 = 40 * min 1 ((\<Sum>k<length ?ts. real_of_int (num_ops (?ts ! k))) / (\<Sum>k<length ?ts. tiempo (reloj entorno_ejemplo k)) / 600000)"
    using mdriver_main_puntua [OF A O conjI [OF E(1) conjI [OF L f]] F(1-3) f E F(4) Q] by blast
  have "pico_de traza_short1 = 8144" "pico_de traza_short2 = 18314" "num_ops traza_short1 = 12" "num_ops traza_short2 = 12"
    "medida mm_modelo (ops traza_short1) = 12320" "medida mm_modelo (ops traza_short2) = 20512"
    unfolding traza_short1_def traza_short2_def pico_de_def driver_ejemplo_simps pico_short medida_short
    by (simp_all add: short1_def short2_def)
  moreover have S: "(\<Sum>k<length ?ts. g k) = g 0 + g 1" for g :: "nat \<Rightarrow> real" by (simp add: numeral_2_eq_2)
  ultimately have "p1 = 30 * (8144 / 12320 + 18314 / 20512)" "p2 = 8000 / 501"
    using m(2,3) unfolding S by (simp_all add: t)
  then show ?thesis using m(1) by simp
qed

end
