(* ===== verification/Mdriver_Opciones.thy ===== *)
theory Mdriver_Opciones
  imports Mdriver_Score
begin

text \<open>
  The options of \<^verbatim>\<open>mdriver\<close>: how the loop over them ends, and the directory that passes it although the paths made from it
  do not fit.
\<close>

subsection \<open>The variables after the options\<close>

text \<open>The turns of the loop, numbered, up to the first one that ends the program with a message.\<close>

definition sigue_opcion :: "(nat \<Rightarrow> bool \<times> bool) \<Rightarrow> nat \<times> char \<times> string \<Rightarrow> bool" where
  "sigue_opcion host x \<longleftrightarrow> fst (snd x) \<in> set ''ftgalvV'' \<and> (fst (snd x) = CHR ''f'' \<longrightarrow> fst (host (fst x)))"

definition turnos :: "(nat \<Rightarrow> bool \<times> bool) \<Rightarrow> (char \<times> string) list \<Rightarrow> (nat \<times> char \<times> string) list" where
  "turnos host os = takeWhile (sigue_opcion host) (enumerate 0 os)"

definition con_letra :: "char \<Rightarrow> (nat \<times> char \<times> string) list \<Rightarrow> (nat \<times> char \<times> string) list" where
  "con_letra c = filter (\<lambda>x. fst (snd x) = c)"

definition con_barra :: "string \<Rightarrow> string" where
  "con_barra dir = (if last dir = CHR ''/'' then dir else dir @ ''/'')"

text \<open>A directory, given before any file, that is empty or does not fit in \<^verbatim>\<open>tracedir\<close> with its slash and the final null character.\<close>

definition desborda_dir :: "(nat \<times> char \<times> string) list \<Rightarrow> bool" where
  "desborda_dir xs \<longleftrightarrow> (\<exists>x\<in>set (con_letra CHR ''t'' (takeWhile (\<lambda>x. fst (snd x) \<noteq> CHR ''f'') xs)).
     snd (snd x) = [] \<or> MAXLINE \<le> length (con_barra (snd (snd x))))"

definition ultima :: "'a \<Rightarrow> ('b \<Rightarrow> 'a) \<Rightarrow> 'b list \<Rightarrow> 'a" where
  "ultima a f xs = (if xs = [] then a else f (last xs))"

text \<open>The variables: each one from the last option that is about it.\<close>

definition variables :: "(nat \<Rightarrow> bool \<times> bool) \<Rightarrow> (nat \<times> char \<times> string) list \<Rightarrow> opciones_m" where
  "variables host xs = \<lparr>
     tracefiles = ultima None (\<lambda>(i, _, f). Some [if snd (host i) then Some f else None]) (con_letra CHR ''f'' xs),
     num_tracefiles = ultima 0 (\<lambda>_. 1) (con_letra CHR ''f'' xs),
     tracedir = (if con_letra CHR ''f'' xs \<noteq> [] then ''./''
       else ultima ''./'' (\<lambda>x. con_barra (snd (snd x))) (con_letra CHR ''t'' xs)),
     team_check = (con_letra CHR ''a'' xs = []), run_libc = (con_letra CHR ''l'' xs \<noteq> []),
     autograder = (con_letra CHR ''g'' xs \<noteq> []),
     verbose = ultima 0 (\<lambda>x. if fst (snd x) = CHR ''v'' then 1 else 2) (filter (\<lambda>x. fst (snd x) \<in> {CHR ''v'', CHR ''V''}) xs)\<rparr>"

lemma ultima_simps [simp]: "ultima a f [] = a" "ultima a f (xs @ [x]) = f x"
  by (simp_all add: ultima_def)

lemma ultima_const: "ultima a (\<lambda>_. b) xs = (if xs = [] then a else b)"
  by (simp add: ultima_def)

lemma con_letra_simps [simp]:
  "con_letra c [] = []" "con_letra c (xs @ ys) = con_letra c xs @ con_letra c ys"
  "con_letra c [x] = (if fst (snd x) = c then [x] else [])"
  by (simp_all add: con_letra_def)

lemma desborda_snoc:
  "desborda_dir (xs @ [x]) \<longleftrightarrow> desborda_dir xs \<or> con_letra CHR ''f'' xs = [] \<and> fst (snd x) = CHR ''t'' \<and>
     (snd (snd x) = [] \<or> MAXLINE \<le> length (con_barra (snd (snd x))))"
proof (cases "con_letra CHR ''f'' xs = []")
  case True
  then have "takeWhile (\<lambda>x. fst (snd x) \<noteq> CHR ''f'') (xs @ ys) = xs @ takeWhile (\<lambda>x. fst (snd x) \<noteq> CHR ''f'') ys" for ys
    by (intro takeWhile_append2) (auto simp: con_letra_def filter_empty_conv)
  note tw = this [of "[]", simplified append_Nil2] this [of "[x]"]
  show ?thesis
    unfolding desborda_dir_def tw using True by (cases "fst (snd x) = CHR ''t''") (simp_all add: disj_commute)
next
  case False
  then obtain y where "y \<in> set xs" "fst (snd y) = CHR ''f''" by (auto simp: con_letra_def filter_empty_conv)
  then have "takeWhile (\<lambda>x. fst (snd x) \<noteq> CHR ''f'') (xs @ [x]) = takeWhile (\<lambda>x. fst (snd x) \<noteq> CHR ''f'') xs"
    by (intro takeWhile_append1) auto
  then show ?thesis using False by (simp add: desborda_dir_def)
qed

lemma opciones_main_snoc:
  "opciones_main host i (cs @ [c]) o' =
     (case opciones_main host i cs o' of Inl e \<Rightarrow> Inl e | Inr o1 \<Rightarrow> opcion_m (host (i + length cs)) c o1)"
  by (induction cs arbitrary: i o') (auto split: sum.splits)

lemma turnos_snoc:
  "turnos host (os @ [c]) = (if turnos host os = enumerate 0 os \<and> sigue_opcion host (length os, c)
     then turnos host os @ [(length os, c)] else turnos host os)"
proof -
  have e: "enumerate 0 (os @ [c]) = enumerate 0 os @ [(length os, c)]" by (simp add: enumerate_append_eq)
  show ?thesis
  proof (cases "\<forall>x\<in>set (enumerate 0 os). sigue_opcion host x")
    case True
    then have tw: "takeWhile (sigue_opcion host) (enumerate 0 os) = enumerate 0 os" unfolding takeWhile_eq_all_conv .
    have "takeWhile (sigue_opcion host) (enumerate 0 os @ ys) = enumerate 0 os @ takeWhile (sigue_opcion host) ys" for ys
      using True by (intro takeWhile_append2) blast
    then show ?thesis unfolding turnos_def e tw by simp
  next
    case False
    then have "takeWhile (sigue_opcion host) (enumerate 0 os) \<noteq> enumerate 0 os" by (simp add: takeWhile_eq_all_conv)
    moreover obtain x where "x \<in> set (enumerate 0 os)" "\<not> sigue_opcion host x" using False by blast
    ultimately show ?thesis unfolding turnos_def e by (simp add: takeWhile_append1)
  qed
qed

text \<open>One turn on the variables.\<close>

lemma opcion_variables:
  assumes "sigue_opcion host (k, c)"
  shows "opcion_m (host k) c (variables host xs) =
    (if con_letra CHR ''f'' xs = [] \<and> fst c = CHR ''t'' \<and> (snd c = [] \<or> MAXLINE \<le> length (con_barra (snd c)))
     then Inl (Falla_m Indefinido) else Inr (variables host (xs @ [(k, c)])))"
proof -
  obtain l a where c: "c = (l, a)" by (cases c)
  have l: "l \<in> {CHR ''f'', CHR ''t'', CHR ''g'', CHR ''a'', CHR ''l'', CHR ''v'', CHR ''V''}"
    using assms by (auto simp: sigue_opcion_def c)
  show ?thesis
    using assms l by (elim insertE emptyE)
      (simp_all add: c opcion_m_def variables_def sigue_opcion_def Let_def con_barra_def ultima_const)
qed

text \<open>
  C15. What the options do, for any list of options and whatever memory the host has. Let the turns of the loop be those up to the first option that is
  -h or not known, or that is -f when \<^verbatim>\<open>realloc\<close> fails. If some of them, before the first -f, is a -t whose argument is empty or does not fit in
  \<^verbatim>\<open>tracedir\<close>, the behaviour is undefined: the length is not checked before \<^verbatim>\<open>strcpy\<close> and \<^verbatim>\<open>strcat\<close>. Otherwise, when no option ended
  the loop, the variables are those of \<open>variables\<close>: the file is that of the last -f (\<^verbatim>\<open>NULL\<close> if \<^verbatim>\<open>strdup\<close> failed), the directory that of the last -t with a slash behind
  it, unless there is a -f, with which it is the current one; \<^verbatim>\<open>verbose\<close> is set by the last of -v and -V, and the flags by -a, -l and -g. Otherwise the
  program ends with the message of the option that ended the loop.
\<close>

theorem opciones_main_decide:
  "opciones_main host 0 os opciones_ini =
     (if desborda_dir (turnos host os) then Inl (Falla_m Indefinido)
      else if turnos host os = enumerate 0 os then Inr (variables host (enumerate 0 os))
      else let c = fst (os ! length (turnos host os))
           in Inl (if c = CHR ''f'' then Falla_m (Unix_error ''ERROR: realloc failed in main'')
                   else Sale_m (if c = CHR ''h'' then 0 else 1) [Ayuda]))"
proof (induction os rule: rev_induct)
  case Nil
  then show ?case by (simp add: turnos_def desborda_dir_def variables_def opciones_ini_def ultima_def)
next
  case (snoc c os)
  have e: "enumerate 0 (os @ [c]) = enumerate 0 os @ [(length os, c)]" by (simp add: enumerate_append_eq)
  show ?case
  proof (cases "turnos host os = enumerate 0 os")
    case False
    have len: "length (turnos host os) < length os"
      using False unfolding turnos_def by (metis length_enumerate length_takeWhile_le nat_less_le takeWhile_eq_take take_all_iff order_refl)
    then have "turnos host os \<noteq> enumerate 0 (os @ [c])" by (metis length_append length_enumerate not_add_less1)
    then show ?thesis using snoc False len by (simp add: opciones_main_snoc turnos_snoc nth_append Let_def)
  next
    case True
    note IH = snoc [unfolded True, simplified]
    show ?thesis
    proof (cases "sigue_opcion host (length os, c)")
      case s: True
      then show ?thesis
        using IH opcion_variables [OF s, of "enumerate 0 os"]
        by (simp add: opciones_main_snoc turnos_snoc True e desborda_snoc)
    next
      case s: False
      then have "opcion_m (host (length os)) c o' = Inl (if fst c = CHR ''f'' then Falla_m (Unix_error ''ERROR: realloc failed in main'')
          else Sale_m (if fst c = CHR ''h'' then 0 else 1) [Ayuda])" for o'
        by (cases c) (auto simp: sigue_opcion_def opcion_m_def)
      then show ?thesis using IH s by (simp add: opciones_main_snoc turnos_snoc True e Let_def)
    qed
  qed
qed

subsection \<open>A directory that is too long\<close>

text \<open>
  C39. The length of the argument of -t is not checked against the names of the traces. \<^verbatim>\<open>read_trace\<close> copies directory and name
  into an array of \<^verbatim>\<open>MAXLINE\<close> characters; when both together are longer, the program writes behind that array, for any allocator and any team that the check of the team accepts.
\<close>

theorem mdriver_main_ruta_larga:
  assumes "opciones_main host 0 os opciones_ini = Inr o'" "\<not> run_libc o'" "archivos_de o' = Some g # gs"
    "MAXLINE \<le> length (tracedir o' @ g)" "hay_stats e" "bloque_heap e \<noteq> NULL" "0 < mallocs e 0"
    "team_check o' \<Longrightarrow> comprobar_equipo eq = Inr ms"
  shows "mdriver_main A eq L m host el e os = Falla_m Indefinido"
proof -
  have "evaluar_mm A e o' 0 (Some g) d = Inl Indefinido" for d
    using assms(4,7) by (simp add: evaluar_mm_def leer_traza_def armar_ruta_def Let_def)
  moreover obtain ms' where "(if team_check o' then comprobar_equipo eq else Inr []) = (Inr ms' :: fin_m + salida_m list)"
    using assms(8) by (cases "team_check o'") simp_all
  ultimately show ?thesis
    using assms(1,2,3,5,6)
    by (simp add: mdriver_main_def parte_libc_def parte_mm_def mem_init_def Let_def)
qed

text \<open>A directory of 1015 characters passes the options, and the default traces are read from it.\<close>

theorem mdriver_main_ruta_larga_witness:
  "mdriver_main mm_asignador team libc_ejemplo 4096 host_ejemplo entorno_ejemplo entorno_ejemplo [(CHR ''t'', replicate 1015 CHR ''x'')] =
   Falla_m Indefinido"
proof (rule mdriver_main_ruta_larga [where g = "''short1-bal.rep''" and gs = "[Some ''short2-bal.rep'']"
    and ms = "[Equipo ''g2'', Miembro 1 ''Tomas Ayala'' ''tayala@fi.uba.ar'', Miembro 2 ''Gabriel Re'' ''gre@fi.uba.ar'']"])
  show "opciones_main host_ejemplo 0 [(CHR ''t'', replicate 1015 CHR ''x'')] opciones_ini =
      Inr (opciones_ini\<lparr>tracedir := replicate 1015 CHR ''x'' @ ''/''\<rparr>)"
    by (simp add: opcion_m_def opciones_ini_def MAXLINE_def)
qed (simp_all add: opciones_ini_def archivos_de_def default_tracefiles_def MAXLINE_def NULL_def entorno_ejemplo_def comprobar_equipo_def team_def numeral_eq_Suc del: replicate.simps)

end
