(* ===== verification/Fcyc.thy ===== *)
theory Fcyc
  imports Complex_Main Prelude "HOL-Library.Multiset"
begin

text \<open>
  \<^verbatim>\<open>Labs grupales/malloc/fcyc.c\<close>: the K-best estimate of the time of a function. A \<^verbatim>\<open>double\<close> is a real
  number: the program only stores, compares and returns the measured times. The one product it forms,
  of a time with \<^verbatim>\<open>1 + epsilon\<close>, is a parameter \<open>escala\<close>: the value that the arithmetic of \<^verbatim>\<open>double\<close> rounds
  it to, from \<^verbatim>\<open>epsilon\<close> and the time. The
  times the counters of \<^verbatim>\<open>clock.c\<close> deliver are a sequence \<open>medir\<close>.
\<close>

subsection \<open>The parameters and the samples\<close>

text \<open>\<open>values\<close> is \<open>None\<close> for the null pointer; \<open>cache_buf\<close> tells whether the buffer is allocated.\<close>

record fcyc_t =
  kbest :: int
  maxsamples :: int
  epsilon :: real
  compensate :: bool
  clear_cache :: bool
  cache_bytes :: int
  cache_block :: int
  cache_buf :: bool
  vals :: "real list option"
  samplecount :: int

definition fcyc_inicial :: fcyc_t where
  "fcyc_inicial =
     \<lparr>kbest = 3, maxsamples = 20, epsilon = 0.01, compensate = False, clear_cache = False,
      cache_bytes = 2 ^ 19, cache_block = 32, cache_buf = False, vals = None, samplecount = 0\<rparr>"

definition set_fcyc_clear_cache :: "bool \<Rightarrow> fcyc_t \<Rightarrow> fcyc_t" where
  "set_fcyc_clear_cache b s = s\<lparr>clear_cache := b\<rparr>"

definition set_fcyc_cache_size :: "int \<Rightarrow> fcyc_t \<Rightarrow> fcyc_t" where
  "set_fcyc_cache_size bytes s =
     (if bytes \<noteq> cache_bytes s then s\<lparr>cache_bytes := bytes, cache_buf := False\<rparr> else s)"

definition set_fcyc_cache_block :: "int \<Rightarrow> fcyc_t \<Rightarrow> fcyc_t" where
  "set_fcyc_cache_block bytes s = s\<lparr>cache_block := bytes\<rparr>"

definition set_fcyc_compensate :: "bool \<Rightarrow> fcyc_t \<Rightarrow> fcyc_t" where
  "set_fcyc_compensate b s = s\<lparr>compensate := b\<rparr>"

definition set_fcyc_k :: "int \<Rightarrow> fcyc_t \<Rightarrow> fcyc_t" where
  "set_fcyc_k k s = s\<lparr>kbest := k\<rparr>"

definition set_fcyc_maxsamples :: "int \<Rightarrow> fcyc_t \<Rightarrow> fcyc_t" where
  "set_fcyc_maxsamples m s = s\<lparr>maxsamples := m\<rparr>"

definition set_fcyc_epsilon :: "real \<Rightarrow> fcyc_t \<Rightarrow> fcyc_t" where
  "set_fcyc_epsilon e s = s\<lparr>epsilon := e\<rparr>"

text \<open>
  A new array of zeros and no samples. A negative number of elements asks for more memory than there is.
  The argument \<open>hay\<close> tells whether \<^verbatim>\<open>calloc\<close> succeeds.
\<close>

definition init_sampler :: "bool \<Rightarrow> fcyc_t \<Rightarrow> fcyc_t" where
  "init_sampler hay s =
     s\<lparr>vals := (if hay \<and> 0 \<le> kbest s then Some (replicate (nat (kbest s)) 0) else None), samplecount := 0\<rparr>"

text \<open>The insertion: the new element moves down while the one below it is larger.\<close>

primrec bajar :: "nat \<Rightarrow> real list \<Rightarrow> real list" where
  "bajar 0 v = v"
| "bajar (Suc p) v =
     (if v ! p > v ! Suc p then bajar p (v[p := v ! Suc p, Suc p := v ! p]) else v)"

text \<open>\<open>None\<close>: an access through the null pointer or outside the array, or the counter overflows.\<close>

definition add_sample :: "real \<Rightarrow> fcyc_t \<Rightarrow> fcyc_t option" where
  "add_sample val s = do {
     v \<leftarrow> vals s;
     if samplecount s + 1 > int_max then None
     else if samplecount s < kbest s then
       (let pos = nat (samplecount s); v = v[pos := val]
        in Some (s\<lparr>samplecount := samplecount s + 1, vals := Some (bajar pos v)\<rparr>))
     else do {
       u \<leftarrow> elem v (kbest s - 1);
       if val < u then
         (let pos = nat (kbest s - 1); v = v[pos := val]
          in Some (s\<lparr>samplecount := samplecount s + 1, vals := Some (bajar pos v)\<rparr>))
       else Some (s\<lparr>samplecount := samplecount s + 1\<rparr>)}}"

definition has_converged :: "(real \<Rightarrow> real \<Rightarrow> real) \<Rightarrow> fcyc_t \<Rightarrow> bool option" where
  "has_converged escala s =
     (if samplecount s \<ge> kbest s then do {
        v \<leftarrow> vals s;
        primero \<leftarrow> elem v 0;
        ultimo \<leftarrow> elem v (kbest s - 1);
        Some (escala (epsilon s) primero \<ge> ultimo)}
      else Some False)"

subsection \<open>Clearing the cache\<close>

text \<open>
  The number of elements the loop reads; what it reads is what the buffer happens to hold. A block of
  fewer bytes than an element makes the step 0 and the loop does not end. The division by \<^verbatim>\<open>sizeof(int)\<close> is one of
  \<^verbatim>\<open>size_t\<close>: a negative number of bytes counts as \<open>2^64\<close> more, and the step is then the quotient brought back to an \<^verbatim>\<open>int\<close>.
\<close>

definition entre_sizeof :: "int \<Rightarrow> int" where
  "entre_sizeof b = (if b < 0 then 2 ^ 64 + b else b) div 4"

partial_function (option) clear_loop :: "int \<Rightarrow> int \<Rightarrow> int \<Rightarrow> int \<Rightarrow> int option" where
  "clear_loop cptr cend incr n = (if cptr < cend then clear_loop (cptr + incr) cend incr (n + 1) else Some n)"

definition clear :: "bool \<Rightarrow> fcyc_t \<Rightarrow> fcyc_t option" where
  "clear hay s =
     (let incr = (if cache_block s < 0 then to_int32 (entre_sizeof (cache_block s)) else entre_sizeof (cache_block s))
      in if \<not> cache_buf s \<and> \<not> hay then None
         else do {
           _ \<leftarrow> clear_loop 0 (entre_sizeof (cache_bytes s)) incr 0;
           Some (s\<lparr>cache_buf := True\<rparr>)})"

subsection \<open>\<^verbatim>\<open>fcyc\<close>\<close>

lemma add_sample_cuenta:
  "add_sample val s = Some s' \<Longrightarrow> samplecount s' = samplecount s + 1 \<and> maxsamples s' = maxsamples s"
  by (auto simp: add_sample_def Let_def split: Option.bind_splits if_splits)

lemma clear_cuenta: "clear hay s = Some s' \<Longrightarrow> samplecount s' = samplecount s \<and> maxsamples s' = maxsamples s"
  by (auto simp: clear_def Let_def split: Option.bind_splits if_splits)

text \<open>
  The two loops differ in the counter only. \<open>medir b i\<close> is the time of call \<open>i\<close>, \<open>b\<close> for the
  counter that compensates for timer interrupts.
\<close>

function fcyc_loop :: "(real \<Rightarrow> real \<Rightarrow> real) \<Rightarrow> bool \<Rightarrow> (nat \<Rightarrow> real) \<Rightarrow> nat \<Rightarrow> fcyc_t \<Rightarrow> fcyc_t option" where
  "fcyc_loop escala hay medir i s =
     (case (if clear_cache s then clear hay s else Some s) of
        None \<Rightarrow> None
      | Some s1 \<Rightarrow>
          (case add_sample (medir i) s1 of
             None \<Rightarrow> None
           | Some s2 \<Rightarrow>
               (case has_converged escala s2 of
                  None \<Rightarrow> None
                | Some conv \<Rightarrow>
                    if \<not> conv \<and> samplecount s2 < maxsamples s2 then fcyc_loop escala hay medir (i + 1) s2
                    else Some s2)))"
  by pat_completeness auto

termination
proof (relation "measure (\<lambda>(escala, hay, medir, i, s). nat (maxsamples s - samplecount s))")
  fix escala :: "real \<Rightarrow> real \<Rightarrow> real" and hay and medir :: "nat \<Rightarrow> real" and i s s1 s2 conv
  assume "(if clear_cache s then clear hay s else Some s) = Some s1" "add_sample (medir i) s1 = Some s2"
    "\<not> conv \<and> samplecount s2 < maxsamples s2"
  then show "((escala, hay, medir, i + 1, s2), escala, hay, medir, i, s) \<in>
      measure (\<lambda>(escala, hay, medir, i, s). nat (maxsamples s - samplecount s))"
    using add_sample_cuenta [of "medir i" s1 s2] clear_cuenta [of hay s s1] by (auto split: if_splits)
qed simp

declare fcyc_loop.simps [simp del]

definition fcyc :: "(real \<Rightarrow> real \<Rightarrow> real) \<Rightarrow> bool \<Rightarrow> (bool \<Rightarrow> nat \<Rightarrow> real) \<Rightarrow> fcyc_t \<Rightarrow> (real \<times> fcyc_t) option" where
  "fcyc escala hay medir s = do {
     s \<leftarrow> fcyc_loop escala hay (medir (compensate s)) 0 (init_sampler hay s);
     v \<leftarrow> vals s;
     result \<leftarrow> elem v 0;
     Some (result, s\<lparr>vals := None\<rparr>)}"

subsection \<open>The array holds the best samples\<close>

lemma length_bajar [simp]: "length (bajar p v) = length v"
  by (induction p arbitrary: v) simp_all

lemma insort_snoc: "sorted (ws @ [l]) \<Longrightarrow> x \<le> l \<Longrightarrow> insort x (ws @ [l]) = insort x ws @ [l]"
  by (induction ws) (auto simp: sorted_append)

text \<open>Moving the element at \<open>p\<close> down inserts it in the sorted prefix before it.\<close>

lemma bajar_insort:
  assumes "sorted (take p v)" "p < length v"
  shows "bajar p v = insort (v ! p) (take p v) @ drop (Suc p) v"
  using assms
proof (induction p arbitrary: v)
  case 0
  then show ?case by (cases v) simp_all
next
  case (Suc p)
  let ?x = "v ! Suc p" and ?l = "v ! p"
  have t: "take (Suc p) v = take p v @ [?l]" using Suc.prems(2) by (simp add: take_Suc_conv_app_nth)
  show ?case
  proof (cases "?l > ?x")
    case True
    let ?v = "v[p := ?x, Suc p := ?l]"
    have "sorted (take p ?v)" "p < length ?v"
      using Suc.prems by (simp_all add: t sorted_append)
    then have "bajar p ?v = insort ?x (take p v) @ drop (Suc p) ?v"
      using Suc.IH [of ?v] Suc.prems(2) by simp
    moreover have "drop (Suc p) ?v = ?l # drop (Suc (Suc p)) v"
      using Suc.prems(2) by (simp add: drop_update_swap Cons_nth_drop_Suc [symmetric])
    moreover have "insort ?x (take (Suc p) v) = insort ?x (take p v) @ [?l]"
      using Suc.prems(1) True unfolding t by (intro insort_snoc) simp_all
    ultimately show ?thesis using True by simp
  next
    case False
    have "insort ?x (take (Suc p) v) = take (Suc p) v @ [?x]"
      using Suc.prems(1) False unfolding t by (intro sorted_insort_is_snoc) (auto simp: sorted_append)
    then have "insort ?x (take (Suc p) v) @ drop (Suc (Suc p)) v = v"
      using Suc.prems(2) by (metis append.assoc append_take_drop_id take_Suc_conv_app_nth)
    then show ?thesis using False by simp
  qed
qed

lemma take_insort: "take k (insort x ys) = take k (insort x (take k ys))"
proof (induction ys arbitrary: k)
  case (Cons y ys)
  show ?case
  proof (cases k)
    case (Suc n)
    then show ?thesis using Cons [of n] by (cases n) (simp_all add: min_def)
  qed simp
qed simp

lemma sort_snoc: "sort (xs @ [x]) = insort x (sort xs)" for xs :: "real list"
  by (rule properties_for_sort) (simp_all add: sorted_insort)

text \<open>What the array holds after the samples \<open>xs\<close>: the smallest \<open>kbest\<close> of them, sorted.\<close>

definition mejores :: "real list \<Rightarrow> fcyc_t \<Rightarrow> bool" where
  "mejores xs s \<longleftrightarrow> 0 < kbest s \<and> samplecount s = int (length xs) \<and>
     (\<exists>v. vals s = Some v \<and> length v = nat (kbest s) \<and>
        take (length xs) v = take (nat (kbest s)) (sort xs))"

lemma mejores_iff:
  "kbest s = int k \<Longrightarrow> mejores xs s \<longleftrightarrow> 0 < k \<and> samplecount s = int (length xs) \<and>
     (\<exists>v. vals s = Some v \<and> length v = k \<and> take (length xs) v = take k (sort xs))"
  by (simp add: mejores_def)

lemma mejoresE:
  assumes "mejores xs s"
  obtains k v where "0 < k" "kbest s = int k" "samplecount s = int (length xs)"
    "vals s = Some v" "length v = k" "take (length xs) v = take k (sort xs)"
proof -
  have "kbest s = int (nat (kbest s))" using assms by (simp add: mejores_def)
  then show thesis using that assms mejores_iff [of s "nat (kbest s)" xs] by blast
qed

lemma mejores_add:
  assumes "mejores xs s" "int (length xs) < int_max"
  shows "\<exists>s'. add_sample x s = Some s' \<and> mejores (xs @ [x]) s' \<and> maxsamples s' = maxsamples s \<and>
    kbest s' = kbest s \<and> clear_cache s' = clear_cache s \<and> cache_block s' = cache_block s \<and> epsilon s' = epsilon s"
proof -
  obtain k v where k: "0 < k" "kbest s = int k" "samplecount s = int (length xs)"
    and v: "vals s = Some v" "length v = k" "take (length xs) v = take k (sort xs)"
    by (rule mejoresE [OF assms(1)])
  show ?thesis
  proof (cases "length xs < k")
    case True
    have p: "take (length xs) (v[length xs := x]) = sort xs" using v(3) True by simp
    have "bajar (length xs) (v[length xs := x]) = insort x (sort xs) @ drop (Suc (length xs)) v"
      using bajar_insort [of "length xs" "v[length xs := x]"] p True v(2) by simp
    moreover have "take k (insort x (sort xs)) = insort x (sort xs)" using True by simp
    ultimately show ?thesis
      using v k True assms(2) by (auto simp: add_sample_def Let_def mejores_iff sort_snoc)
  next
    case False
    have vk: "v = take k (sort xs)" using v(2,3) False by simp
    have t: "take k (sort (xs @ [x])) = take k (insort x v)"
      unfolding sort_snoc vk by (rule take_insort)
    have sv: "sorted v" unfolding vk by (rule sorted_wrt_take) simp
    obtain w u where w: "v = w @ [u]" using v(2) k(1) by (cases v rule: rev_cases) auto
    have wk: "length w = k - 1" "v ! (k - 1) = u" using v(2) unfolding w by (auto simp: nth_append)
    have e: "elem v (kbest s - 1) = Some u"
      using k v(2) wk by (simp add: elem_def nat_diff_distrib)
    have nk: "nat (kbest s - 1) = k - 1" using k by simp
    show ?thesis
    proof (cases "x < u")
      case True
      have "take (k - 1) (v[k - 1 := x]) = w" "k - 1 < length v" using wk k(1) v(2) by (simp_all add: w)
      then have "bajar (k - 1) (v[k - 1 := x]) = insort x w @ drop k v"
        using bajar_insort [of "k - 1" "v[k - 1 := x]"] sv k(1) v(2) by (simp add: w sorted_append)
      also have "\<dots> = insort x w" using v(2) by simp
      finally have b: "bajar (k - 1) (v[k - 1 := x]) = insort x w" .
      have "insort x v = insort x w @ [u]" unfolding w using sv True w by (intro insort_snoc) simp_all
      then have "take k (insort x v) = insort x w" using wk k(1) by simp
      then show ?thesis
        using v k False True e b t assms(2) nk wk by (auto simp: add_sample_def Let_def mejores_iff)
    next
      case F: False
      have "insort x v = v @ [x]" using sv F w by (intro sorted_insort_is_snoc) (auto simp: sorted_append)
      then have "take k (insort x v) = v" using v(2) by simp
      then show ?thesis
        using v k False F e t assms(2) by (auto simp: add_sample_def Let_def mejores_iff)
    qed
  qed
qed

text \<open>The test for convergence in terms of the samples.\<close>

definition converge :: "(real \<Rightarrow> real) \<Rightarrow> int \<Rightarrow> real list \<Rightarrow> bool" where
  "converge escala k xs \<longleftrightarrow> k \<le> int (length xs) \<and> escala (sort xs ! 0) \<ge> sort xs ! nat (k - 1)"

lemma mejores_converge:
  assumes "mejores xs s"
  shows "has_converged escala s = Some (converge (escala (epsilon s)) (kbest s) xs)"
proof (cases "kbest s \<le> int (length xs)")
  case True
  obtain k v where k: "0 < k" "kbest s = int k" "samplecount s = int (length xs)"
    and v: "vals s = Some v" "length v = k" "take (length xs) v = take k (sort xs)"
    by (rule mejoresE [OF assms])
  have "v = take k (sort xs)" using v k True by simp
  then have "v ! 0 = sort xs ! 0" "v ! (k - 1) = sort xs ! (k - 1)" using k by simp_all
  moreover have "nat (kbest s - 1) = k - 1" using k by simp
  ultimately show ?thesis using v k True by (simp add: has_converged_def converge_def elem_def)
qed (use assms in \<open>simp add: has_converged_def converge_def mejores_def\<close>)

lemma clear_loop_termina: "0 < incr \<Longrightarrow> \<exists>m. clear_loop c e incr n = Some m"
proof (induction "nat (e - c)" arbitrary: c n rule: less_induct)
  case less
  then show ?case by (cases "c < e") (simp_all add: clear_loop.simps [of c])
qed

lemma clear_bien:
  assumes "4 \<le> cache_block s"
  shows "clear True s = Some (s\<lparr>cache_buf := True\<rparr>)"
proof -
  have "0 < cache_block s div 4" using assms by simp
  then obtain m where "clear_loop 0 (entre_sizeof (cache_bytes s)) (cache_block s div 4) 0 = Some m"
    using clear_loop_termina by blast
  then show ?thesis using assms by (simp add: clear_def Let_def entre_sizeof_def)
qed

lemma mejores_buf: "mejores xs (s\<lparr>cache_buf := b\<rparr>) = mejores xs s"
  by (simp add: mejores_def)

text \<open>The loop stops after the first number of samples that is enough.\<close>

definition basta :: "(real \<Rightarrow> real) \<Rightarrow> int \<Rightarrow> int \<Rightarrow> (nat \<Rightarrow> real) \<Rightarrow> nat \<Rightarrow> bool" where
  "basta escala k m medir n \<longleftrightarrow> 0 < n \<and> (m \<le> int n \<or> converge escala k (map medir [0..<n]))"

lemma fcyc_loop_basta:
  assumes "basta escala k m medir n" "i < n" "\<And>j. i < j \<Longrightarrow> j < n \<Longrightarrow> \<not> basta escala k m medir j"
    "mejores (map medir [0..<i]) s" "kbest s = k" "maxsamples s = m" "int n \<le> int_max"
    "clear_cache s \<longrightarrow> 4 \<le> cache_block s" "escala = esc (epsilon s)"
  shows "\<exists>s'. fcyc_loop esc True medir i s = Some s' \<and> mejores (map medir [0..<n]) s'"
  using assms
proof (induction "n - i" arbitrary: i s rule: less_induct)
  case less
  define s1 where "s1 = (if clear_cache s then s\<lparr>cache_buf := True\<rparr> else s)"
  have s1: "(if clear_cache s then clear True s else Some s) = Some s1"
    using less.prems(8) clear_bien [of s] by (simp add: s1_def)
  have m1: "mejores (map medir [0..<i]) s1" "kbest s1 = k" "maxsamples s1 = m" "clear_cache s1 = clear_cache s"
    "cache_block s1 = cache_block s" "epsilon s1 = epsilon s"
    using less.prems(4-6) by (simp_all add: s1_def mejores_buf)
  obtain s2 where s2: "add_sample (medir i) s1 = Some s2" "mejores (map medir [0..<Suc i]) s2"
    "maxsamples s2 = m" "kbest s2 = k" "clear_cache s2 = clear_cache s" "cache_block s2 = cache_block s" "epsilon s2 = epsilon s"
    using mejores_add [OF m1(1), of "medir i"] m1 less.prems(2,7) by auto
  have c: "has_converged esc s2 = Some (converge escala k (map medir [0..<Suc i]))"
    using mejores_converge [OF s2(2)] s2(4,7) less.prems(9) by simp
  have n2: "samplecount s2 = int (Suc i)" using s2(2) by (simp add: mejores_def)
  have b: "\<not> converge escala k (map medir [0..<Suc i]) \<and> samplecount s2 < m \<longleftrightarrow> \<not> basta escala k m medir (Suc i)"
    by (auto simp: basta_def n2)
  show ?case
  proof (cases "basta escala k m medir (Suc i)")
    case True
    then have "n = Suc i" using less.prems(2) less.prems(3) [of "Suc i"] by linarith
    then show ?thesis using True b c s1 s2 by (auto simp: fcyc_loop.simps [of esc True medir i s])
  next
    case False
    then have i: "Suc i < n" using less.prems(1,2) by (metis Suc_lessI)
    have "\<exists>s'. fcyc_loop esc True medir (Suc i) s2 = Some s' \<and> mejores (map medir [0..<n]) s'"
      using i less.prems s2 by (intro less.hyps) auto
    then show ?thesis using False b c s1 s2 by (simp add: fcyc_loop.simps [of esc True medir i s])
  qed
qed

lemma fcyc_bien:
  assumes "0 < kbest s" "maxsamples s \<le> int_max" "clear_cache s \<longrightarrow> 4 \<le> cache_block s"
  shows "\<exists>s'. fcyc escala True medir s =
      Some (Min (medir (compensate s) ` {0..<LEAST n. basta (escala (epsilon s)) (kbest s) (maxsamples s) (medir (compensate s)) n}), s') \<and>
    samplecount s' = int (LEAST n. basta (escala (epsilon s)) (kbest s) (maxsamples s) (medir (compensate s)) n) \<and>
    samplecount s' \<le> max 1 (maxsamples s)"
proof -
  let ?f = "medir (compensate s)"
  let ?B = "basta (escala (epsilon s)) (kbest s) (maxsamples s) ?f"
  define n where "n = (LEAST n. ?B n)"
  have "?B (nat (max 1 (maxsamples s)))" by (auto simp: basta_def)
  then have n: "?B n" "n \<le> nat (max 1 (maxsamples s))" "\<And>j. j < n \<Longrightarrow> \<not> ?B j"
    unfolding n_def by (rule LeastI, rule Least_le) (rule not_less_Least)
  then have n0: "0 < n" by (simp add: basta_def)
  have le: "int n \<le> int_max" using n(2) assms(2) by (auto simp: int_max_def)
  let ?s = "init_sampler True s"
  have "mejores (map ?f [0..<0]) ?s" using assms(1) by (simp add: mejores_def init_sampler_def)
  then obtain s' where s': "fcyc_loop escala True ?f 0 ?s = Some s'" "mejores (map ?f [0..<n]) s'"
    using fcyc_loop_basta [OF n(1) n0, of ?s] n(3) le assms by (auto simp: init_sampler_def)
  then obtain v where v: "vals s' = Some v" "0 < length v" "take n v = take (length v) (sort (map ?f [0..<n]))"
    "samplecount s' = int n"
    using mejoresE [OF s'(2)] by (metis length_map length_upt minus_nat.diff_0)
  have "v ! 0 = take n v ! 0" using n0 by simp
  also have "\<dots> = sort (map ?f [0..<n]) ! 0" unfolding v(3) using v(2) by simp
  also have "\<dots> = Min (set (sort (map ?f [0..<n])))"
    using n0 by (cases "sort (map ?f [0..<n])") (auto intro!: Min_eqI [symmetric] dest: arg_cong [of _ _ sorted] arg_cong [of _ _ length])
  finally have "elem v 0 = Some (Min (?f ` {0..<n}))" using v(2) by (simp add: elem_def)
  then show ?thesis using s' v n(2) by (simp add: fcyc_def flip: n_def)
qed

text \<open>
  C20. The K-best scheme. With a positive \<^verbatim>\<open>kbest\<close> and memory for its array, and cache blocks of at
  least one element if the cache is cleared, \<^verbatim>\<open>fcyc\<close> returns: it calls the function exactly as often as
  it takes until the smallest \<^verbatim>\<open>kbest\<close> times agree within the tolerance, or \<^verbatim>\<open>maxsamples\<close> times, and its
  result is the smallest of all the times measured.
\<close>

theorem fcyc_correct:
  assumes "0 < kbest s" "maxsamples s \<le> int_max" "clear_cache s \<longrightarrow> 4 \<le> cache_block s"
  shows "\<exists>s'. fcyc escala True medir s =
      Some (Min (medir (compensate s) ` {0..<LEAST n. basta (escala (epsilon s)) (kbest s) (maxsamples s) (medir (compensate s)) n}), s') \<and>
    samplecount s' = int (LEAST n. basta (escala (epsilon s)) (kbest s) (maxsamples s) (medir (compensate s)) n) \<and>
    samplecount s' \<le> max 1 (maxsamples s)"
  by (rule fcyc_bien [OF assms])

theorem fcyc_correct_witness:
  "\<exists>s'. fcyc (\<lambda>e x. (1 + e) * x) True (\<lambda>_ i. if i = 0 then 9 else if i = 1 then 4 else 5) fcyc_inicial = Some (4, s') \<and>
     samplecount s' = 20"
proof -
  let ?f = "\<lambda>i :: nat. (if i = 0 then 9 else if i = 1 then 4 else 5) :: real"
  let ?B = "basta (\<lambda>x. 1.01 * x) 3 20 ?f"
  have "?B 20" by (simp add: basta_def)
  moreover have "\<not> converge (\<lambda>x. 1.01 * x) 3 (map ?f [0..<n])" for n
  proof (cases "3 \<le> n")
    case True
    then have "[0..<n] = 0 # 1 # [2..<n]" by (simp add: upt_conv_Cons numeral_2_eq_2)
    moreover have "map ?f [2..<n] = replicate (n - 2) 5" by (rule nth_equalityI) auto
    moreover have "n - 2 = Suc (n - 3)" using True by simp
    ultimately have "map ?f [0..<n] = 9 # 4 # 5 # replicate (n - 3) 5" by simp
    moreover have "sort (9 # 4 # 5 # replicate k 5) = 4 # 5 # replicate k 5 @ [9 :: real]" for k
      by (rule properties_for_sort) (auto simp: sorted_append)
    ultimately have "sort (map ?f [0..<n]) = 4 # 5 # replicate (n - 3) 5 @ [9]" by metis
    then show ?thesis by (cases "n - 3") (simp_all add: converge_def)
  qed (simp add: converge_def)
  then have "20 \<le> n" if "?B n" for n using that by (auto simp: basta_def)
  ultimately have L: "(LEAST n. ?B n) = 20" by (intro Least_equality)
  have "Min (?f ` {0..<20::nat}) = 4"
    by (rule Min_eqI) (auto simp: image_iff intro: bexI [of _ 1])
  then show ?thesis
    using fcyc_correct [of fcyc_inicial "\<lambda>e x. (1 + e) * x" "\<lambda>_. ?f"] L by (auto simp: fcyc_inicial_def int_max_def)
qed

end
