(* ===== verification/Clock.thy ===== *)
theory Clock
  imports Complex_Main Prelude
begin

text \<open>
  \<^verbatim>\<open>Labs grupales/malloc/clock.c\<close>: cycle counters. The values the counter of the processor has when it is read, in
  order, and those of the ticks of user time that \<^verbatim>\<open>times\<close> delivers are a parameter, part of the state. The \<^verbatim>\<open>double\<close> in which the
  two words of the counter are put together is rounded as IEEE 754 does; in the quotients and products made from it, a \<^verbatim>\<open>double\<close> is the
  real number it approximates.
\<close>

subsection \<open>The state\<close>

text \<open>The preprocessor selects one of three versions of the counter.\<close>

datatype plataforma = I386 | Alpha | Otra

datatype mensaje = Midiendo_ciclos | Negativo real | Mhz "real option" | Fija real | No_implementado string

record reloj_t =
  cyc_hi :: u32
  cyc_lo :: u32
  cyc_per_tick :: real
  start_tick :: int
  contador :: "u64 list"
  ticks :: "int list"
  impreso :: "mensaje list"

text \<open>The ways not to go on: the readings given are used up, or the process exits.\<close>

datatype parada = Agotado | Sale int "mensaje list"

definition seguir :: "(reloj_t \<Rightarrow> parada + 'a \<times> reloj_t) \<Rightarrow> ('a \<Rightarrow> reloj_t \<Rightarrow> parada + 'b \<times> reloj_t) \<Rightarrow> reloj_t \<Rightarrow> parada + 'b \<times> reloj_t" where
  "seguir m f w = (case m w of Inl e \<Rightarrow> Inl e | Inr (a, w') \<Rightarrow> f a w')"

definition imprime :: "mensaje \<Rightarrow> reloj_t \<Rightarrow> parada + unit \<times> reloj_t" where
  "imprime x w = Inr ((), w\<lparr>impreso := impreso w @ [x]\<rparr>)"

definition times :: "reloj_t \<Rightarrow> parada + int \<times> reloj_t" where
  "times w = (case ticks w of [] \<Rightarrow> Inl Agotado | t # ts \<Rightarrow> Inr (t, w\<lparr>ticks := ts\<rparr>))"

subsection \<open>The counters\<close>

text \<open>\<^verbatim>\<open>rdtsc\<close> on the Pentium: the two halves of 64 bits. The Alpha delivers 32 bits, the low half.\<close>

definition access_counter :: "reloj_t \<Rightarrow> parada + (u32 \<times> u32) \<times> reloj_t" where
  "access_counter w =
     (case contador w of
        [] \<Rightarrow> Inl Agotado
      | x # xs \<Rightarrow> Inr ((ucast (drop_bit 32 x), ucast x), w\<lparr>contador := xs\<rparr>))"

definition counter :: "reloj_t \<Rightarrow> parada + u32 \<times> reloj_t" where
  "counter w = (case contador w of [] \<Rightarrow> Inl Agotado | x # xs \<Rightarrow> Inr (ucast x, w\<lparr>contador := xs\<rparr>))"

definition no_implementado :: "string \<Rightarrow> reloj_t \<Rightarrow> parada + 'a \<times> reloj_t" where
  "no_implementado rutina w = Inl (Sale 1 (impreso w @ [No_implementado rutina]))"

definition start_counter_alpha :: "reloj_t \<Rightarrow> parada + unit \<times> reloj_t" where
  "start_counter_alpha = seguir counter (\<lambda>lo w. Inr ((), w\<lparr>cyc_hi := 0, cyc_lo := lo\<rparr>))"

definition start_counter :: "plataforma \<Rightarrow> reloj_t \<Rightarrow> parada + unit \<times> reloj_t" where
  "start_counter p =
     (case p of
        I386 \<Rightarrow> seguir access_counter (\<lambda>(hi, lo) w. Inr ((), w\<lparr>cyc_hi := hi, cyc_lo := lo\<rparr>))
      | Alpha \<Rightarrow> start_counter_alpha
      | Otra \<Rightarrow> no_implementado ''start_counter'')"

text \<open>
  The \<^verbatim>\<open>double\<close> nearest to a natural number: of 53 bits, and of the two at the same distance the even one. \<open>exponente\<close> is the number of bits
  that are lost.
\<close>

fun exponente :: "nat \<Rightarrow> nat" where
  "exponente n = (if n < 2 ^ 53 then 0 else Suc (exponente (n div 2)))"

declare exponente.simps [simp del]

definition doble :: "nat \<Rightarrow> real" where
  "doble n =
     (let e = exponente n; q = n div 2 ^ e; r = n mod 2 ^ e
      in real ((if 2 * r > 2 ^ e \<or> 2 * r = 2 ^ e \<and> odd q then q + 1 else q) * 2 ^ e))"

text \<open>
  The subtraction in two words of 32 bits, which the two versions share. The products by \<open>2^30\<close> and 4 are exact; the sum is rounded.
\<close>

definition restar :: "u32 \<Rightarrow> u32 \<Rightarrow> u32 \<Rightarrow> u32 \<Rightarrow> real" where
  "restar ncyc_hi ncyc_lo chi clo =
     (let lo = ncyc_lo - clo;
          borrow = (if lo > ncyc_lo then 1 else 0);
          hi = ncyc_hi - chi - borrow
      in doble (unat hi * 2 ^ 30 * 4 + unat lo))"

definition avisar :: "real \<Rightarrow> reloj_t \<Rightarrow> parada + real \<times> reloj_t" where
  "avisar result w = (if result < 0 then Inr (result, w\<lparr>impreso := impreso w @ [Negativo result]\<rparr>) else Inr (result, w))"

definition get_counter_alpha :: "reloj_t \<Rightarrow> parada + real \<times> reloj_t" where
  "get_counter_alpha = seguir counter (\<lambda>ncyc_lo w. avisar (restar 0 ncyc_lo (cyc_hi w) (cyc_lo w)) w)"

definition get_counter :: "plataforma \<Rightarrow> reloj_t \<Rightarrow> parada + real \<times> reloj_t" where
  "get_counter p =
     (case p of
        I386 \<Rightarrow> seguir access_counter (\<lambda>(ncyc_hi, ncyc_lo) w. avisar (restar ncyc_hi ncyc_lo (cyc_hi w) (cyc_lo w)) w)
      | Alpha \<Rightarrow> get_counter_alpha
      | Otra \<Rightarrow> no_implementado ''get_counter'')"

subsection \<open>Overhead and clock rate\<close>

definition ovhd :: "plataforma \<Rightarrow> reloj_t \<Rightarrow> parada + real \<times> reloj_t" where
  "ovhd p =
     seguir (start_counter p) (\<lambda>_. seguir (get_counter p) (\<lambda>_.
     seguir (start_counter p) (\<lambda>_. get_counter p)))"

text \<open>The call of \<^verbatim>\<open>sleep\<close> shows in the readings only. For 0 seconds the rate is infinite or not a number.\<close>

definition mhz_full :: "plataforma \<Rightarrow> bool \<Rightarrow> int \<Rightarrow> reloj_t \<Rightarrow> parada + real option \<times> reloj_t" where
  "mhz_full p verbose sleeptime =
     seguir (start_counter p) (\<lambda>_. seguir (get_counter p) (\<lambda>c.
     let rate = (if sleeptime = 0 then None else Some (c / (10 ^ 6 * of_int sleeptime)))
     in if verbose then seguir (imprime (Mhz rate)) (\<lambda>_ w. Inr (rate, w)) else (\<lambda>w. Inr (rate, w))))"

definition mhz :: "plataforma \<Rightarrow> bool \<Rightarrow> reloj_t \<Rightarrow> parada + real option \<times> reloj_t" where
  "mhz p verbose = mhz_full p verbose 2"

subsection \<open>Compensation for timer interrupts\<close>

definition NEVENT :: nat where "NEVENT = 100"
definition THRESHOLD :: real where "THRESHOLD = 1000"
definition RECORDTHRESH :: real where "RECORDTHRESH = 3000"

text \<open>An event that lasts \<open>cpt\<close> cycles per tick.\<close>

definition anotar_cpt :: "real \<Rightarrow> real \<Rightarrow> real" where
  "anotar_cpt cpt c = (if (c = 0 \<or> c > cpt) \<and> cpt > RECORDTHRESH then cpt else c)"

lemma access_counter_menos: "access_counter w = Inr (x, w') \<Longrightarrow> length (contador w') < length (contador w)"
  by (auto simp: access_counter_def split: list.splits)

lemma counter_menos: "counter w = Inr (x, w') \<Longrightarrow> length (contador w') < length (contador w)"
  by (auto simp: counter_def split: list.splits)

lemma get_counter_menos: "get_counter p w = Inr (x, w') \<Longrightarrow> length (contador w') < length (contador w)"
  by (auto simp: get_counter_def get_counter_alpha_def seguir_def avisar_def no_implementado_def
      dest!: access_counter_menos counter_menos split: plataforma.splits sum.splits if_splits)

lemma times_contador: "times w = Inr (t, w') \<Longrightarrow> contador w' = contador w"
  by (auto simp: times_def split: list.splits)

text \<open>The loop reads the counter in each iteration, so the readings bound it.\<close>

function callibrate_loop :: "plataforma \<Rightarrow> nat \<Rightarrow> real \<Rightarrow> int \<Rightarrow> reloj_t \<Rightarrow> parada + unit \<times> reloj_t" where
  "callibrate_loop p e oldt oldc w =
     (if e < NEVENT then
        (case get_counter p w of
           Inl x \<Rightarrow> Inl x
         | Inr (newt, w1) \<Rightarrow>
             if newt - oldt \<ge> THRESHOLD then
               (case times w1 of
                  Inl x \<Rightarrow> Inl x
                | Inr (newc, w2) \<Rightarrow>
                    if newc > oldc then
                      (let cpt = (newt - oldt) / of_int (newc - oldc)
                       in callibrate_loop p (e + 1) newt newc
                            (w2\<lparr>cyc_per_tick := anotar_cpt cpt (cyc_per_tick w2)\<rparr>))
                    else callibrate_loop p e newt oldc w2)
             else callibrate_loop p e oldt oldc w1)
      else Inr ((), w))"
  by pat_completeness auto
termination
  by (relation "measure (\<lambda>(p, e, oldt, oldc, w). length (contador w))")
    (auto dest!: get_counter_menos times_contador)

declare callibrate_loop.simps [simp del]

definition callibrate :: "plataforma \<Rightarrow> bool \<Rightarrow> reloj_t \<Rightarrow> parada + unit \<times> reloj_t" where
  "callibrate p verbose =
     seguir times (\<lambda>oldc. seguir (start_counter p) (\<lambda>_. seguir (get_counter p) (\<lambda>oldt.
     seguir (callibrate_loop p 0 oldt oldc) (\<lambda>_ w.
     if verbose then imprime (Fija (cyc_per_tick w)) w else Inr ((), w)))))"

definition start_comp_counter :: "plataforma \<Rightarrow> reloj_t \<Rightarrow> parada + unit \<times> reloj_t" where
  "start_comp_counter p =
     seguir (\<lambda>w. if cyc_per_tick w = 0 then callibrate p False w else Inr ((), w)) (\<lambda>_.
     seguir times (\<lambda>t. seguir (\<lambda>w. Inr ((), w\<lparr>start_tick := t\<rparr>)) (\<lambda>_. start_counter p)))"

definition get_comp_counter :: "plataforma \<Rightarrow> reloj_t \<Rightarrow> parada + real \<times> reloj_t" where
  "get_comp_counter p =
     seguir (get_counter p) (\<lambda>time. seguir times (\<lambda>t w.
     let tks = t - start_tick w in Inr (time - of_int tks * cyc_per_tick w, w)))"

end
