(* ===== verification/Clock_Props.thy ===== *)
theory Clock_Props
  imports Clock
begin

text \<open>
  What the counters of \<^verbatim>\<open>clock.c\<close> measure: the subtraction in two words, the calibration for timer
  interrupts and the compensated counter.
\<close>

subsection \<open>Rounding\<close>

lemma exponente_cota: "2 ^ 53 \<le> n \<Longrightarrow> 2 ^ 52 \<le> n div 2 ^ exponente n"
proof (induction n rule: exponente.induct)
  case (1 n)
  then have e: "exponente n = Suc (exponente (n div 2))" by (simp add: exponente.simps [of n])
  show ?case
  proof (cases "n div 2 < 2 ^ 53")
    case True
    then have "exponente (n div 2) = 0" by (simp add: exponente.simps [of "n div 2"])
    then show ?thesis using 1(2) by (simp add: e)
  next
    case False
    then show ?thesis using 1 by (simp add: e div_mult2_eq)
  qed
qed

lemma doble_exacto: "n < 2 ^ 53 \<Longrightarrow> doble n = real n"
  by (simp add: doble_def exponente.simps [of n])

text \<open>The error of the rounding is at most \<open>2^-53\<close> of the number.\<close>

lemma doble_error: "\<bar>doble n - real n\<bar> \<le> real n / 2 ^ 53"
proof (cases "n < 2 ^ 53")
  case False
  define e q r where "e = exponente n" and "q = n div 2 ^ e" and "r = n mod 2 ^ e"
  have q: "2 ^ 52 \<le> q" using exponente_cota [of n] False by (simp add: q_def e_def)
  have r: "r < 2 ^ e" by (simp add: r_def)
  have n: "n = q * 2 ^ e + r" unfolding q_def r_def by (rule div_mult_mod_eq [symmetric])
  then have "2 ^ 52 * 2 ^ e \<le> n" using q by (metis mult_le_mono1 trans_le_add1)
  then have "real (2 ^ 52 * 2 ^ e) \<le> real n" by (simp only: of_nat_le_iff)
  then have b: "2 ^ e / 2 \<le> real n / 2 ^ 53" by simp
  have "\<bar>doble n - real n\<bar> \<le> 2 ^ e / 2"
  proof (cases "2 * r > 2 ^ e \<or> 2 * r = 2 ^ e \<and> odd q")
    case True
    then have "doble n = real ((q + 1) * 2 ^ e)" by (simp add: doble_def Let_def distrib_right flip: e_def q_def r_def)
    moreover have "real ((q + 1) * 2 ^ e) = real (q * 2 ^ e) + 2 ^ e" by (simp add: distrib_right)
    moreover have "real n = real (q * 2 ^ e) + real r" by (subst n) (simp only: of_nat_add)
    moreover have "real (2 ^ e) \<le> real (2 * r)" "real r < real (2 ^ e)" using True r unfolding of_nat_le_iff of_nat_less_iff by auto
    ultimately show ?thesis by simp
  next
    case False
    then have "doble n = real (q * 2 ^ e)" by (simp add: doble_def Let_def flip: e_def q_def r_def)
    moreover have "real (q * 2 ^ e) - real n = - real r" by (simp add: n)
    moreover have "real (2 * r) \<le> real (2 ^ e)" using False unfolding of_nat_le_iff by auto
    ultimately show ?thesis by simp
  qed
  then show ?thesis using b by linarith
qed (simp add: doble_exacto)

lemma doble_pos: "0 \<le> doble n" "0 < n \<Longrightarrow> 0 < doble n"
proof -
  show "0 \<le> doble n" by (simp add: doble_def Let_def)
  show "0 < doble n" if "0 < n"
  proof -
    have "0 < real n" using that by simp
    moreover have "real n - real n / 2 ^ 53 \<le> doble n" using doble_error [of n] by linarith
    ultimately show ?thesis by (simp add: field_simps)
  qed
qed

subsection \<open>The subtraction\<close>

lemma mitades: "uint x = 2 ^ 32 * uint (ucast (drop_bit 32 x) :: u32) + uint (ucast x :: u32)" for x :: u64
proof -
  have "uint x < 2 ^ 64" "0 \<le> uint x" using uint_bounded [of x] by simp_all
  then have "uint x div 2 ^ 32 mod 2 ^ 32 = uint x div 2 ^ 32" by (intro mod_pos_pos_trivial) (simp_all add: pos_imp_zdiv_nonneg_iff)
  moreover have "uint (ucast (drop_bit 32 x) :: u32) = uint x div 2 ^ 32 mod 2 ^ 32"
    by (simp add: unsigned_ucast_eq take_bit_eq_mod drop_bit_eq_div uint_div)
  moreover have "uint (ucast x :: u32) = uint x mod 2 ^ 32"
    by (simp add: unsigned_ucast_eq take_bit_eq_mod)
  ultimately show ?thesis by simp
qed

lemma real_unat: "real (unat x) = real_of_int (uint x)"
  by simp

lemma restar_valor:
  "restar yh yl xh xl = doble (nat ((2 ^ 32 * (uint yh - uint xh) + (uint yl - uint xl)) mod 2 ^ 64))"
proof -
  define lo where "lo = yl - xl"
  define b :: u32 where "b = (if lo > yl then 1 else 0)"
  define hi where "hi = yh - xh - b"
  have r: "0 \<le> uint yl" "uint yl < 2 ^ 32" "0 \<le> uint xl" "uint xl < 2 ^ 32"
    using uint_bounded [of yl] uint_bounded [of xl] by simp_all
  have lo: "uint lo = uint yl - uint xl + (if uint xl \<le> uint yl then 0 else 2 ^ 32)"
    by (simp add: lo_def uint_sub_if')
  then have b: "uint b = (if uint xl \<le> uint yl then 0 else 1)"
    using r by (auto simp: b_def word_less_def)
  let ?A = "uint yh - uint xh - uint b" and ?B = "2 ^ 32 * (uint yh - uint xh) + (uint yl - uint xl)"
  have "uint hi = ?A mod 2 ^ 32"
    by (simp add: hi_def uint_word_ariths(2) mod_diff_left_eq)
  then have "uint hi = ?A - 2 ^ 32 * (?A div 2 ^ 32)" by (simp only: minus_mult_div_eq_mod)
  then have k: "2 ^ 32 * uint hi + uint lo = ?B + - (?A div 2 ^ 32) * 2 ^ 64"
    using lo b by (cases "uint xl \<le> uint yl") (simp_all add: algebra_simps)
  have "0 \<le> 2 ^ 32 * uint hi + uint lo" "2 ^ 32 * uint hi + uint lo < 2 ^ 64"
    using uint_bounded [of hi] uint_bounded [of lo] by simp_all
  then have "2 ^ 32 * uint hi + uint lo = (2 ^ 32 * uint hi + uint lo) mod 2 ^ 64"
    by (simp only: mod_pos_pos_trivial)
  then have "2 ^ 32 * uint hi + uint lo = ?B mod 2 ^ 64" by (simp only: k mod_mult_self1)
  moreover have "restar yh yl xh xl = doble (nat (2 ^ 32 * uint hi + uint lo))"
  proof -
    have "int (unat hi * 2 ^ 30 * 4 + unat lo) = 2 ^ 32 * uint hi + uint lo" by simp
    then have "unat hi * 2 ^ 30 * 4 + unat lo = nat (2 ^ 32 * uint hi + uint lo)" by (metis nat_int)
    then show ?thesis by (simp only: restar_def Let_def flip: lo_def b_def hi_def)
  qed
  ultimately show ?thesis by (simp only:)
qed

lemma restar_64:
  "restar (ucast (drop_bit 32 y)) (ucast y) (ucast (drop_bit 32 x)) (ucast x) = doble (unat (y - x))" for x y :: u64
proof -
  have "2 ^ 32 * (uint (ucast (drop_bit 32 y) :: u32) - uint (ucast (drop_bit 32 x) :: u32)) +
      (uint (ucast y :: u32) - uint (ucast x :: u32)) = uint y - uint x"
    using mitades [of x] mitades [of y] by simp
  then show ?thesis by (simp only: restar_valor unat_eq_nat_uint uint_word_ariths(2)) simp
qed

subsection \<open>The counters\<close>

text \<open>Start and end of a measurement.\<close>

definition medicion :: "plataforma \<Rightarrow> reloj_t \<Rightarrow> parada + real \<times> reloj_t" where
  "medicion p = seguir (start_counter p) (\<lambda>_. get_counter p)"

text \<open>The counter started at the reading \<open>x\<close>.\<close>

definition desde :: "u64 \<Rightarrow> reloj_t \<Rightarrow> bool" where
  "desde x w \<longleftrightarrow> cyc_hi w = ucast (drop_bit 32 x) \<and> cyc_lo w = ucast x"

lemma start_counter_i386:
  assumes "contador w = x # xs"
  shows "\<exists>w'. start_counter I386 w = Inr ((), w') \<and> desde x w' \<and> contador w' = xs \<and> ticks w' = ticks w \<and>
    cyc_per_tick w' = cyc_per_tick w \<and> start_tick w' = start_tick w \<and> impreso w' = impreso w"
  using assms by (simp add: start_counter_def start_counter_alpha_def seguir_def access_counter_def desde_def)

lemma avisar_doble: "avisar (doble n) w = Inr (doble n, w)"
  using doble_pos(1) [of n] by (simp add: avisar_def)

lemma get_counter_i386:
  assumes "contador w = y # ys" "desde x w"
  shows "get_counter I386 w = Inr (doble (unat (y - x)), w\<lparr>contador := ys\<rparr>)"
  using assms by (simp add: get_counter_def get_counter_alpha_def seguir_def access_counter_def desde_def restar_64 avisar_doble)

lemma start_counter_alpha:
  "contador w = x # xs \<Longrightarrow> start_counter Alpha w = Inr ((), w\<lparr>contador := xs, cyc_hi := 0, cyc_lo := ucast x\<rparr>)"
  by (simp add: start_counter_def start_counter_alpha_def seguir_def counter_def)

lemma restar_alpha:
  "restar 0 yl 0 xl = (if xl \<le> yl then real (unat (yl - xl)) else doble (2 ^ 64 - unat (xl - yl)))"
proof (cases "xl \<le> yl")
  case True
  then have l: "uint xl \<le> uint yl" by (simp add: word_le_def)
  have "uint yl < 2 ^ 32" "0 \<le> uint xl" "(2::int) ^ 32 < 2 ^ 64" using uint_bounded [of yl] by simp_all
  then have "uint yl - uint xl < 2 ^ 64" by linarith
  moreover have "uint (yl - xl) = uint yl - uint xl" "0 \<le> uint yl - uint xl"
    using l by (simp_all add: uint_sub_if')
  ultimately have "((uint yl - uint xl) mod 2 ^ 64 :: int) = uint (yl - xl)" by (simp only: mod_pos_pos_trivial)
  then have "restar 0 yl 0 xl = doble (unat (yl - xl))" by (simp add: restar_valor)
  moreover have "unat (yl - xl) < 2 ^ 53"
  proof -
    have "int (unat (yl - xl)) < 2 ^ 32" using uint_bounded [of "yl - xl"] by simp
    then have "int (unat (yl - xl)) < int (2 ^ 53)" by simp
    then show ?thesis by (simp only: of_nat_less_iff)
  qed
  ultimately show ?thesis using True by (simp only: doble_exacto if_True)
next
  case False
  then have "uint xl > uint yl" by (simp add: word_le_def)
  have "uint xl < 2 ^ 32" "0 \<le> uint yl" "(2::int) ^ 32 < 2 ^ 64" using uint_bounded [of xl] by simp_all
  then have u: "uint xl - uint yl < 2 ^ 64" by linarith
  have v: "uint (xl - yl) = uint xl - uint yl" using \<open>uint xl > uint yl\<close> by (simp add: uint_sub_if')
  have "(uint yl - uint xl) mod 2 ^ 64 = (uint yl - uint xl + 1 * 2 ^ 64) mod 2 ^ 64" by (simp only: mod_mult_self1)
  also have "uint yl - uint xl + 1 * 2 ^ 64 = 2 ^ 64 - (uint xl - uint yl)" by simp
  also have "(2 ^ 64 - (uint xl - uint yl)) mod 2 ^ 64 = 2 ^ 64 - (uint xl - uint yl)"
    using u \<open>uint xl > uint yl\<close> by (intro mod_pos_pos_trivial) simp_all
  finally have "((uint yl - uint xl) mod 2 ^ 64 :: int) = 2 ^ 64 - uint (xl - yl)" by (simp only: v)
  then have "restar 0 yl 0 xl = doble (nat (2 ^ 64 - uint (xl - yl)))" by (simp add: restar_valor)
  moreover have "nat (2 ^ 64 - uint (xl - yl)) = 2 ^ 64 - unat (xl - yl)" by (simp add: nat_diff_distrib' flip: unat_eq_nat_uint)
  ultimately show ?thesis using False by (simp only: if_False)
qed

lemma medicion_i386: "contador w = x # y # ys \<Longrightarrow> \<exists>w'. medicion I386 w = Inr (doble (unat (y - x)), w')"
proof -
  assume "contador w = x # y # ys"
  then obtain w1 where "start_counter I386 w = Inr ((), w1)" "desde x w1" "contador w1 = y # ys"
    using start_counter_i386 by blast
  then show ?thesis by (simp add: medicion_def seguir_def get_counter_i386)
qed

lemma avisar_restar: "avisar (restar a b c d) w = Inr (restar a b c d, w)"
  by (simp only: restar_def Let_def avisar_doble)

lemma medicion_alpha:
  "contador w = x # y # ys \<Longrightarrow>
   \<exists>w'. medicion Alpha w = Inr (restar 0 (ucast y) 0 (ucast x), w')"
  by (simp add: medicion_def seguir_def start_counter_alpha get_counter_def get_counter_alpha_def counter_def avisar_restar)

text \<open>
  C33. The cycle counters. On the Pentium the subtraction in two words with the borrow is the subtraction of
  the readings in 64 bits, rounded once to a \<^verbatim>\<open>double\<close>: a measurement is the number of cycles between the two readings, exactly when it is below \<open>2^53\<close>
  and else with an error of at most \<open>2^-53\<close> of it, even
  when the counter passes zero in between. The Alpha version has only the low 32 bits of each reading and
  borrows from a high word that is zero: when they pass zero in between, it reports \<open>2^64\<close> minus the
  distance of the readings, rounded, in place of \<open>2^32\<close> minus it. The other platforms stop with exit code 1.
\<close>

theorem medicion_correct:
  assumes "contador w = x # y # ys"
  shows "(\<exists>w' c. medicion I386 w = Inr (c, w') \<and> c = doble (unat (y - x)) \<and>
      (unat (y - x) < 2 ^ 53 \<longrightarrow> c = real (unat (y - x))) \<and> \<bar>c - real (unat (y - x))\<bar> \<le> real (unat (y - x)) / 2 ^ 53) \<and>
    (\<exists>w'. medicion Alpha w = Inr
       (if (ucast x :: u32) \<le> ucast y then real (unat (ucast y - ucast x :: u32))
        else doble (2 ^ 64 - unat (ucast x - ucast y :: u32)), w')) \<and>
    medicion Otra w = Inl (Sale 1 (impreso w @ [No_implementado ''start_counter'']))"
proof (intro conjI)
  obtain w' where "medicion I386 w = Inr (doble (unat (y - x)), w')" using medicion_i386 [OF assms] by blast
  then show "\<exists>w' c. medicion I386 w = Inr (c, w') \<and> c = doble (unat (y - x)) \<and>
      (unat (y - x) < 2 ^ 53 \<longrightarrow> c = real (unat (y - x))) \<and> \<bar>c - real (unat (y - x))\<bar> \<le> real (unat (y - x)) / 2 ^ 53"
    using doble_exacto [of "unat (y - x)"] doble_error [of "unat (y - x)"] by blast
  show "\<exists>w'. medicion Alpha w = Inr
       (if (ucast x :: u32) \<le> ucast y then real (unat (ucast y - ucast x :: u32))
        else doble (2 ^ 64 - unat (ucast x - ucast y :: u32)), w')"
    using medicion_alpha [OF assms] unfolding restar_alpha .
  show "medicion Otra w = Inl (Sale 1 (impreso w @ [No_implementado ''start_counter'']))"
    by (simp add: medicion_def seguir_def start_counter_def no_implementado_def)
qed

definition reloj_cero :: reloj_t where
  "reloj_cero = \<lparr>cyc_hi = 0, cyc_lo = 0, cyc_per_tick = 0, start_tick = 0, contador = [], ticks = [], impreso = []\<rparr>"

theorem medicion_correct_witness:
  "(\<exists>w'. medicion I386 (reloj_cero\<lparr>contador := [0x1FFFFFFFF, 0x200000004]\<rparr>) = Inr (5, w')) \<and>
   (\<exists>w'. medicion Alpha (reloj_cero\<lparr>contador := [0x1FFFFFFFF, 0x200000004]\<rparr>) = Inr (2 ^ 64 - 2 ^ 32, w'))"
proof -
  have "doble (2 ^ 64 - 0xFFFFFFFB) = 2 ^ 64 - 2 ^ 32" by (simp add: doble_def exponente.simps Let_def)
  then show ?thesis
    using medicion_correct [of "reloj_cero\<lparr>contador := [0x1FFFFFFFF, 0x200000004]\<rparr>" "0x1FFFFFFFF" "0x200000004" "[]"]
    by auto
qed

subsection \<open>The calibration\<close>

text \<open>
  The events the loop sees: a reading of the counter and of the ticks each, \<^verbatim>\<open>THRESHOLD\<close> cycles and one tick at least
  after the one before, and below \<open>2^53\<close>, where a \<^verbatim>\<open>double\<close> is exact. \<open>cocientes\<close> are their cycles per tick.
\<close>

fun eventos :: "nat \<Rightarrow> int \<Rightarrow> (nat \<times> int) list \<Rightarrow> bool" where
  "eventos r c [] \<longleftrightarrow> True"
| "eventos r c ((r', c') # es) \<longleftrightarrow> r + 1000 \<le> r' \<and> r' < 2 ^ 53 \<and> c < c' \<and> eventos r' c' es"

fun cocientes :: "nat \<Rightarrow> int \<Rightarrow> (nat \<times> int) list \<Rightarrow> real list" where
  "cocientes r c [] = []"
| "cocientes r c ((r', c') # es) = (real r' - real r) / of_int (c' - c) # cocientes r' c' es"

definition minimo :: "real list \<Rightarrow> real" where
  "minimo xs = (if xs = [] then 0 else Min (set xs))"

lemma minimo_dos: "minimo (a # b # xs) = minimo (min a b # xs)"
  by (cases "xs = []") (simp_all add: minimo_def min.assoc)

text \<open>The value kept is the least of those above \<^verbatim>\<open>RECORDTHRESH\<close>, or 0.\<close>

lemma anotar_todos:
  assumes "c = 0 \<or> c > 3000"
  shows "foldl (\<lambda>c cpt. anotar_cpt cpt c) c xs =
    minimo ((if c = 0 then [] else [c]) @ filter (\<lambda>x. x > 3000) xs)"
  using assms
proof (induction xs arbitrary: c)
  case Nil
  then show ?case by (simp add: minimo_def)
next
  case (Cons x xs)
  let ?ys = "filter (\<lambda>x. x > 3000) xs"
  have c': "anotar_cpt x c = 0 \<or> anotar_cpt x c > 3000" using Cons.prems by (simp add: anotar_cpt_def RECORDTHRESH_def)
  have "minimo ((if anotar_cpt x c = 0 then [] else [anotar_cpt x c]) @ ?ys) =
      minimo ((if c = 0 then [] else [c]) @ filter (\<lambda>x. x > 3000) (x # xs))"
  proof (cases "x > 3000")
    case True
    then have "anotar_cpt x c = (if c = 0 then x else min c x)"
      by (auto simp: anotar_cpt_def RECORDTHRESH_def)
    then show ?thesis using True Cons.prems by (auto simp: minimo_dos [of c x])
  qed (simp add: anotar_cpt_def RECORDTHRESH_def)
  then show ?case using Cons.IH [OF c'] by simp
qed

lemma unat_distancia:
  assumes "x \<le> y" "y < 2 ^ 53"
  shows "doble (unat (of_nat y - of_nat x :: u64)) = real y - real x"
proof -
  have "of_nat y - of_nat x = (of_nat (y - x) :: u64)" using assms by (simp add: of_nat_diff)
  moreover have "unat (of_nat (y - x) :: u64) = y - x"
    using assms by (simp add: unsigned_of_nat take_bit_nat_eq_self del: of_nat_diff)
  moreover have "doble (y - x) = real (y - x)" using assms by (intro doble_exacto) simp
  ultimately show ?thesis using assms(1) by (simp only: of_nat_diff)
qed

lemma callibrate_loop_eventos:
  assumes "eventos r c es" "e + length es = 100" "x \<le> r" "desde (of_nat x) w"
    "contador w = map (of_nat \<circ> fst) es @ rs" "ticks w = map snd es @ cs"
  shows "callibrate_loop I386 e (real r - real x) c w =
    Inr ((), w\<lparr>contador := rs, ticks := cs,
      cyc_per_tick := foldl (\<lambda>c cpt. anotar_cpt cpt c) (cyc_per_tick w) (cocientes r c es)\<rparr>)"
  using assms
proof (induction es arbitrary: r c e w)
  case Nil
  then show ?case by (simp add: callibrate_loop.simps [of I386 100] NEVENT_def)
next
  case (Cons ev es)
  obtain r' c' where ev: "ev = (r', c')" by (cases ev)
  let ?cpt = "(real r' - real r) / of_int (c' - c)"
  let ?w = "w\<lparr>contador := map (of_nat \<circ> fst) es @ rs, ticks := map snd es @ cs,
    cyc_per_tick := anotar_cpt ?cpt (cyc_per_tick w)\<rparr>"
  have p: "e < NEVENT" "r + 1000 \<le> r'" "r' < 2 ^ 53" "c < c'" "eventos r' c' es"
    using Cons.prems(1,2) by (simp_all add: ev NEVENT_def)
  have g: "get_counter I386 w = Inr (real r' - real x, w\<lparr>contador := map (of_nat \<circ> fst) es @ rs\<rparr>)"
    using get_counter_i386 [OF _ Cons.prems(4), of "of_nat r'"] Cons.prems(3,5) p(2,3)
      unat_distancia [of x r'] by (simp add: ev)
  have t: "times (w\<lparr>contador := map (of_nat \<circ> fst) es @ rs\<rparr>) =
      Inr (c', w\<lparr>contador := map (of_nat \<circ> fst) es @ rs, ticks := map snd es @ cs\<rparr>)"
    using Cons.prems(6) by (simp add: times_def ev)
  have d: "real r' - real x - (real r - real x) = real r' - real r" "real r' - real r \<ge> 1000"
    using p(2) by simp_all
  have "callibrate_loop I386 e (real r - real x) c w = callibrate_loop I386 (e + 1) (real r' - real x) c' ?w"
    using p(1,4) d by (simp add: callibrate_loop.simps [of I386 e] g t THRESHOLD_def Let_def)
  also have "\<dots> = Inr ((), ?w\<lparr>contador := rs, ticks := cs,
      cyc_per_tick := foldl (\<lambda>c cpt. anotar_cpt cpt c) (cyc_per_tick ?w) (cocientes r' c' es)\<rparr>)"
    by (rule Cons.IH) (use Cons.prems p in \<open>simp_all add: desde_def\<close>)
  finally show ?case by (simp add: ev)
qed

text \<open>
  The calibration. With 100 events in sequence after the first two readings, \<^verbatim>\<open>callibrate\<close> ends and sets the cycles per tick to the least
  value above \<^verbatim>\<open>RECORDTHRESH\<close> that an event shows; it stays 0 if there is none.
\<close>

theorem callibrate_correct:
  assumes "contador w = of_nat x # of_nat r # map (of_nat \<circ> fst) es @ rs" "ticks w = c # map snd es @ cs"
    "cyc_per_tick w = 0" "x \<le> r" "r < 2 ^ 53" "eventos r c es" "length es = 100"
  shows "\<exists>w'. callibrate I386 False w = Inr ((), w') \<and> contador w' = rs \<and> ticks w' = cs \<and>
    cyc_per_tick w' = minimo (filter (\<lambda>x. x > 3000) (cocientes r c es))"
proof -
  let ?w = "w\<lparr>ticks := map snd es @ cs\<rparr>"
  obtain w1 where w1: "start_counter I386 ?w = Inr ((), w1)" "desde (of_nat x) w1"
    "contador w1 = of_nat r # map (of_nat \<circ> fst) es @ rs" "ticks w1 = map snd es @ cs" "cyc_per_tick w1 = 0"
    using start_counter_i386 [of ?w "of_nat x"] assms(1,3) by auto
  let ?w1 = "w1\<lparr>contador := map (of_nat \<circ> fst) es @ rs\<rparr>"
  have g: "get_counter I386 w1 = Inr (real r - real x, ?w1)"
    using get_counter_i386 [OF w1(3,2)] unat_distancia [OF assms(4,5)] by simp
  have "callibrate_loop I386 0 (real r - real x) c ?w1 =
    Inr ((), ?w1\<lparr>contador := rs, ticks := cs,
      cyc_per_tick := foldl (\<lambda>c cpt. anotar_cpt cpt c) (cyc_per_tick ?w1) (cocientes r c es)\<rparr>)"
    by (rule callibrate_loop_eventos) (use assms w1 in \<open>simp_all add: desde_def\<close>)
  moreover have "foldl (\<lambda>c cpt. anotar_cpt cpt c) 0 (cocientes r c es) =
      minimo (filter (\<lambda>x. x > 3000) (cocientes r c es))"
    using anotar_todos [of 0 "cocientes r c es"] by simp
  ultimately show ?thesis
    using w1(1,5) g assms(2) by (simp add: callibrate_def seguir_def times_def)
qed

lemma eventos_regulares:
  assumes "4000 * (k + n) < (2::nat) ^ 53"
  shows "eventos (4000 * k) (int k) (map (\<lambda>i. (4000 * (i + 1), int (i + 1))) [k..<k + n]) \<and>
    cocientes (4000 * k) (int k) (map (\<lambda>i. (4000 * (i + 1), int (i + 1))) [k..<k + n]) = replicate n 4000"
  using assms
proof (induction n arbitrary: k)
  case (Suc n)
  have "[k..<k + Suc n] = k # [Suc k..<Suc k + n]" by (simp add: upt_conv_Cons)
  then show ?case using Suc.IH [of "Suc k"] Suc.prems by (simp add: algebra_simps)
qed simp

theorem callibrate_correct_witness:
  "\<exists>w'. callibrate I386 False
     (reloj_cero\<lparr>contador := 0 # 0 # map (\<lambda>i. of_nat (4000 * (i + 1))) [0..<100],
       ticks := 0 # map (\<lambda>i. int (i + 1)) [0..<100]\<rparr>) = Inr ((), w') \<and> cyc_per_tick w' = 4000"
proof -
  let ?es = "map (\<lambda>i. (4000 * (i + 1), int (i + 1))) [0..<100]"
  let ?w = "reloj_cero\<lparr>contador := 0 # 0 # map (\<lambda>i. of_nat (4000 * (i + 1))) [0..<100],
       ticks := 0 # map (\<lambda>i. int (i + 1)) [0..<100]\<rparr>"
  have e: "eventos 0 0 ?es" "cocientes 0 0 ?es = replicate 100 4000"
    using eventos_regulares [of 0 100] by simp_all
  have "\<exists>w'. callibrate I386 False ?w = Inr ((), w') \<and> contador w' = [] \<and> ticks w' = [] \<and>
    cyc_per_tick w' = minimo (filter (\<lambda>x. x > 3000) (cocientes 0 0 ?es))"
    by (rule callibrate_correct [where x = 0]) (use e(1) in \<open>simp_all add: reloj_cero_def comp_def\<close>)
  moreover have "minimo (filter (\<lambda>x. x > 3000) (replicate 100 4000)) = 4000"
    by (simp add: minimo_def)
  ultimately show ?thesis unfolding e(2) by auto
qed

text \<open>A compensated measurement takes the ticks between its ends from the difference of the readings.\<close>

theorem comp_counter_correct:
  assumes "contador w = x # y # ys" "ticks w = t # u # ts" "cyc_per_tick w \<noteq> 0"
  shows "\<exists>w'. seguir (start_comp_counter I386) (\<lambda>_. get_comp_counter I386) w =
    Inr (doble (unat (y - x)) - of_int (u - t) * cyc_per_tick w, w')"
proof -
  let ?w = "w\<lparr>ticks := u # ts, start_tick := t\<rparr>"
  obtain w1 where w1: "start_counter I386 ?w = Inr ((), w1)" "desde x w1" "contador w1 = y # ys" "ticks w1 = u # ts"
    "cyc_per_tick w1 = cyc_per_tick w" "start_tick w1 = t"
    using start_counter_i386 [of ?w x "y # ys"] assms(1) by auto
  then show ?thesis using assms(2,3) get_counter_i386 [OF w1(3,2)]
    by (simp add: start_comp_counter_def get_comp_counter_def seguir_def times_def Let_def)
qed

end
