(* ===== verification/Fsecs.thy ===== *)
theory Fsecs
  imports Fcyc Clock_Props Mdriver_Main
begin

text \<open>
  \<^verbatim>\<open>Labs grupales/malloc/fsecs.c\<close> in the configurations that \<^verbatim>\<open>config.h\<close> does not select: the time of a function in seconds
  from the cycle counter, with \<^verbatim>\<open>fcyc\<close> and the clock rate that \<^verbatim>\<open>mhz\<close> estimates, and from the interval timer.
\<close>

subsection \<open>With the cycle counter\<close>

text \<open>The static \<^verbatim>\<open>Mhz\<close> and the parameters of \<^verbatim>\<open>fcyc\<close> after \<^verbatim>\<open>init_fsecs\<close>.\<close>

definition init_fsecs_fcyc :: "plataforma \<Rightarrow> int \<Rightarrow> fcyc_t \<Rightarrow> reloj_t \<Rightarrow> parada + (real option \<times> fcyc_t) \<times> reloj_t" where
  "init_fsecs_fcyc p verb s =
     seguir (\<lambda>w. if verb \<noteq> 0 then imprime Midiendo_ciclos w else Inr ((), w)) (\<lambda>_.
     let s = set_fcyc_maxsamples 20 s;
         s = set_fcyc_clear_cache True s;
         s = set_fcyc_compensate True s;
         s = set_fcyc_epsilon 0.01 s;
         s = set_fcyc_k 3 s
     in seguir (mhz p (verb > 0)) (\<lambda>rate w. Inr ((rate, s), w)))"

text \<open>A rate of 0, when the counter stands still, makes the quotient infinite or not a number.\<close>

definition fsecs_fcyc ::
    "(real \<Rightarrow> real \<Rightarrow> real) \<Rightarrow> bool \<Rightarrow> (bool \<Rightarrow> nat \<Rightarrow> real) \<Rightarrow> real option \<times> fcyc_t \<Rightarrow> (real option \<times> fcyc_t) option" where
  "fsecs_fcyc escala hay medir st = do {
     (cycles, s) \<leftarrow> fcyc escala hay medir (snd st);
     Some (cociente (Some cycles) (escalar (10 ^ 6) (fst st)), s)}"

lemma mhz_i386:
  assumes "contador w = x # y # ys"
  shows "\<exists>w'. mhz I386 v w = Inr (Some (doble (unat (y - x)) / (2 * 10 ^ 6)), w')"
proof -
  obtain w1 where m: "medicion I386 w = Inr (doble (unat (y - x)), w1)" using medicion_i386 [OF assms] by blast
  then obtain w0 where "start_counter I386 w = Inr ((), w0)" "get_counter I386 w0 = Inr (doble (unat (y - x)), w1)"
    by (auto simp: medicion_def seguir_def split: sum.splits)
  then show ?thesis by (auto simp: mhz_def mhz_full_def seguir_def imprime_def Let_def)
qed

text \<open>
  The time in seconds. After \<^verbatim>\<open>init_fsecs\<close> has read the counter before and after it slept 2 seconds, \<^verbatim>\<open>fsecs\<close> of a
  function takes at most 20 samples with compensation and returns the least number of cycles among them, divided by the cycles
  per second that were counted, half of the distance of the two readings as a \<^verbatim>\<open>double\<close>.
\<close>

theorem fsecs_fcyc_correct:
  assumes "contador w = x # y # ys" "x \<noteq> y" "4 \<le> cache_block s"
  shows "\<exists>rate s1 w1 n s'. init_fsecs_fcyc I386 v s w = Inr ((rate, s1), w1) \<and>
    fsecs_fcyc escala True medir (rate, s1) = Some (Some (Min (medir True ` {0..<n}) / (doble (unat (y - x)) / 2)), s') \<and>
    n = (LEAST n. basta (escala 0.01) 3 20 (medir True) n) \<and> samplecount s' = int n \<and> n \<le> 20"
proof -
  let ?s = "s\<lparr>maxsamples := 20, clear_cache := True, compensate := True, epsilon := 0.01, kbest := 3\<rparr>"
  obtain w0 where w0: "(if v \<noteq> 0 then imprime Midiendo_ciclos w else Inr ((), w)) = Inr ((), w0)" "contador w0 = contador w"
    by (cases "v = 0") (simp_all add: imprime_def)
  let ?n = "LEAST n. basta (escala 0.01) 3 20 (medir True) n"
  obtain w1 where w1: "mhz I386 (v > 0) w0 = Inr (Some (doble (unat (y - x)) / (2 * 10 ^ 6)), w1)" using mhz_i386 assms(1) w0(2) by metis
  then have i: "init_fsecs_fcyc I386 v s w = Inr ((Some (doble (unat (y - x)) / (2 * 10 ^ 6)), ?s), w1)"
    using w0(1) by (simp add: init_fsecs_fcyc_def seguir_def Let_def set_fcyc_maxsamples_def set_fcyc_clear_cache_def
        set_fcyc_compensate_def set_fcyc_epsilon_def set_fcyc_k_def)
  obtain s' where f: "fcyc escala True medir ?s = Some (Min (medir True ` {0..<?n}), s')" "samplecount s' = int ?n" "samplecount s' \<le> 20"
    using fcyc_bien [of ?s escala medir] assms(3) by (auto simp: int_max_def)
  have "y - x \<noteq> 0" using assms(2) by simp
  then have "unat (y - x) \<noteq> 0" by (simp only: unat_eq_zero) simp
  then have "doble (unat (y - x)) \<noteq> 0" using doble_pos(2) [of "unat (y - x)"] by linarith
  then show ?thesis using i f by (auto simp: fsecs_fcyc_def cociente_def escalar_def)
qed

text \<open>
  A counter that advances 2 * 10^9 cycles during the sleep, and a function that takes 9000 cycles first and 4000 then: 4
  microseconds.
\<close>

theorem fsecs_fcyc_correct_witness:
  "\<exists>rate s1 w1 s'. init_fsecs_fcyc I386 1 fcyc_inicial (reloj_cero\<lparr>contador := [5, 2000000005]\<rparr>) = Inr ((rate, s1), w1) \<and>
     fsecs_fcyc (\<lambda>e x. (1 + e) * x) True (\<lambda>_ i. if i = 0 then 9000 else 4000) (rate, s1) = Some (Some (4 / 10 ^ 6), s') \<and>
     samplecount s' = 4"
proof -
  let ?f = "\<lambda>_ i :: nat. (if i = 0 then 9000 else 4000) :: real" and ?e = "\<lambda>e x. (1 + e) * x :: real"
  let ?B = "basta (?e 0.01) 3 20 (?f True)"
  have "?B 4" by (simp add: basta_def converge_def numeral_eq_Suc)
  moreover have "\<not> ?B n" if "n < 4" for n
    using that by (auto simp: basta_def converge_def numeral_eq_Suc less_Suc_eq)
  ultimately have L: "(LEAST n. ?B n) = 4" by (intro Least_equality) (auto simp: not_less [symmetric])
  have m: "Min (?f True ` {0..<4}) = 4000"
    by (intro Min_eqI) (auto intro!: image_eqI [where x = 1])
  show ?thesis
    using fsecs_fcyc_correct [of "reloj_cero\<lparr>contador := [5, 2000000005]\<rparr>" 5 2000000005 "[]" fcyc_inicial 1 ?e ?f] L m
    by (auto simp: fcyc_inicial_def doble_exacto)
qed

subsection \<open>With the interval timer\<close>

definition fsecs_itimer :: "('s \<Rightarrow> fallo + 's) \<Rightarrow> (int \<times> int) \<times> (int \<times> int) \<Rightarrow> 's \<Rightarrow> fallo + (real \<times> 's)" where
  "fsecs_itimer f lecturas s = ftimer_itimer f 10 lecturas s"

end
