(* ===== verification/Spec2Isabelle.thy ===== *)
theory Spec2Isabelle
  imports Prelude Decimal Bits FloatBits FloatPower Numval Btest Btest_Props
    Recode_Alu Recode_Main Cp57 Ls57
    Cachesim_Traza Cachesim Cachesim_Params Cachesim_Set Cachesim_Sim Cachesim_LRU Cachesim_Main Cachesim_Inclusion
    Memlib Allocator Cliente Mm Mm_Inv Mm_Ops Mm_Lista Mm_Correct Mm_Props Mm_Refina Mm_Naive Cliente_Props
    Mdriver Mdriver_Valid Mdriver_Util Mdriver_Espec Mdriver_Medida Mdriver_Speed Mdriver_Props Mdriver_Trace Mdriver_Main Mdriver_Score Mdriver_Opciones
    Fcyc Clock Clock_Props Fsecs
begin

text \<open>
  The programs of the repository, the assignments of a computer organisation course, in C. They are
  separate programs; the parts of one program call each other, and the theories follow that.

  The malloc lab (\<^verbatim>\<open>src/Labs grupales/malloc\<close>). \<^verbatim>\<open>mdriver.c\<close> reads trace files, runs an allocator on them over the
  simulated heap of \<^verbatim>\<open>memlib.c\<close>, checks every payload and its bytes, measures utilization and time, and
  prints an index. The allocators are \<^verbatim>\<open>mm.c\<close> (implicit list of blocks with boundary tags, first fit,
  immediate coalescing) and \<^verbatim>\<open>mm-naive.c\<close> (never reuses memory).
  \<^item> \<open>Memlib\<close>: the heap as a function from addresses to bytes with the three pointers of \<^verbatim>\<open>memlib.c\<close>; reading
    and writing words; an access outside the area has no result.
  \<^item> \<open>Mm\<close>: every function of \<^verbatim>\<open>mm.c\<close>. \<open>Mm_Inv\<close>: the invariant \<open>heap_ok\<close>, a list of blocks that tile the heap with
    equal tags at both ends and no two free neighbours. \<open>Mm_Lista\<close>: the allocator on lists of blocks, first fit with
    splitting and coalescing and no memory, which the code implements exactly. \<open>Mm_Ops\<close>, \<open>Mm_Correct\<close>: what each
    function does to that list. \<open>Mm_Refina\<close>: whole runs, in which every answer of \<^verbatim>\<open>mm.c\<close> is the one of the
    allocator on lists. \<open>Mm_Props\<close>: the properties of \<^verbatim>\<open>mm_init\<close>, \<^verbatim>\<open>mm_malloc\<close>, \<^verbatim>\<open>mm_free\<close> and \<^verbatim>\<open>mm_realloc\<close>, and the
    three ways in which sizes overflow.
  \<^item> \<open>Allocator\<close>: an allocator as a record of its four functions, and the contract of one in terms of the
    payloads in use, a locale. \<open>Mdriver\<close>: the range list and the evaluation functions of \<^verbatim>\<open>mdriver.c\<close>, which take an allocator (or
    that of the C library) as an argument. \<open>Mdriver_Valid\<close>, \<open>Mdriver_Util\<close>, \<open>Mdriver_Speed\<close> hold the
    lemmas on the driver, proved once in that locale; \<open>Mm_Props\<close> and \<open>Mm_Naive\<close> interpret it
    with the two allocators. \<open>Mdriver_Medida\<close> extends the locale by a model without memory of the allocator, which gives the size of the
    heap that the driver measures as a function of the trace; \<open>Mm_Refina\<close> interprets it with lists of blocks and
    \<open>Mm_Naive\<close> with a counter. \<open>Mdriver_Espec\<close>: the driver as a checker. A step relation says how an allocator has to serve
    the requests of a trace, and \<^verbatim>\<open>eval_mm_valid\<close> accepts exactly the allocators that do, whatever their functions are, on the traces on
    which its check of the data works (\<open>legible\<close>), and none on the others.
    \<open>Mdriver_Props\<close>: the verdict of the driver on both allocators, and what a verdict is worth for any other.
  \<^item> \<open>Cliente\<close>: any program that uses an allocator, a transition system of calls and accesses to payloads (\<open>paso\<close>), the
    abstract allocator, whose state is only the bytes of each payload (\<open>abstracto\<close>), and in the same locale the simulation
    of the first by the second. \<open>Cliente_Props\<close>: both allocators of the repository implement the abstract one.
  \<^item> \<open>Mdriver_Trace\<close>: \<^verbatim>\<open>read_trace\<close> on the characters of a file. \<open>Mdriver_Main\<close>: options, the timers of
    \<^verbatim>\<open>ftimer.c\<close> and \<^verbatim>\<open>fsecs.c\<close>, the statistics and the index of \<^verbatim>\<open>main\<close>. \<open>Mdriver_Score\<close>: from the files to the index, with
    the C library when option -l asks for it. \<open>Mdriver_Opciones\<close>: how the loop over the options ends, the variables
    it sets, and the directories that are too long.
  \<^item> \<open>Fcyc\<close>: the K-best measurement of \<^verbatim>\<open>fcyc.c\<close>. \<open>Clock\<close> and \<open>Clock_Props\<close>: the cycle counters of \<^verbatim>\<open>clock.c\<close>, the
    subtraction in two words and the calibration. \<open>Fsecs\<close>: both together in \<^verbatim>\<open>fsecs.c\<close>, the time of a function in seconds. The configuration of
    the repository selects none of them, and \<open>Mdriver_Main\<close> has the timer it selects.

  The cache simulator (\<^verbatim>\<open>src/Labs grupales/cachesim/alpha4.0.c\<close>).
  \<^item> \<open>Cachesim_Traza\<close>: the text of the trace and what the format of \<^verbatim>\<open>fscanf\<close> makes of it, with the round trip and the
    line that is never passed. \<open>Cachesim\<close>: the data and every function, up to \<^verbatim>\<open>main\<close>.
  \<^item> \<open>Cachesim_Params\<close>: the checks of the parameters and the splitting of addresses. \<open>Cachesim_Set\<close>: a set of lines
    refines a list of blocks, the most recently used one first (\<open>lru_acceso\<close>). \<open>Cachesim_Sim\<close>: the refinement of the
    simulation and the metrics as counts over the trace. \<open>Cachesim_LRU\<close>: locality. \<open>Cachesim_Inclusion\<close>: a cache with more
    ways holds what one with fewer holds, so it is never slower.
    \<open>Cachesim_Main\<close>: allocation, both modes of simulation and \<^verbatim>\<open>main\<close>.

  The individual labs (\<^verbatim>\<open>src/Labs individuales\<close>).
  \<^item> lab1: \<open>Cp57\<close> (\<^verbatim>\<open>cp57.c\<close>, copying a file) and \<open>Ls57\<close> (\<^verbatim>\<open>ls57.c\<close>, listing a directory).
  \<^item> lab2: \<open>Bits\<close> and \<open>FloatBits\<close>, \<open>FloatPower\<close> (the puzzles of \<^verbatim>\<open>bits.c\<close> and their references of \<^verbatim>\<open>tests.c\<close>),
    \<open>Numval\<close> (\<^verbatim>\<open>ishow.c\<close> and \<^verbatim>\<open>fshow.c\<close>, which read back what \<^verbatim>\<open>ishow\<close> prints), \<open>Btest\<close> (\<^verbatim>\<open>btest.c\<close> and the table of \<^verbatim>\<open>decl.c\<close>) and \<open>Btest_Props\<close>, which
    shows where each puzzle agrees with its reference and what the harness reports.
  \<^item> lab3: \<open>Recode_Alu\<close> (\<^verbatim>\<open>recode57_alu.c\<close>, one code point) and \<open>Recode_Main\<close> (\<^verbatim>\<open>recode57.c\<close>, the conversion of standard
    input, which arrives in pieces; for UTF-16 and UTF-32 only the last of them may be short, as the rest of a short piece is moved by a \<^verbatim>\<open>memcpy\<close> between
    areas that overlap, for UTF-8 they must end between characters).

  \<open>Prelude\<close> and \<open>Decimal\<close> hold what the programs share: integers of C, lists with bounds, decimal and hexadecimal texts,
  \<^verbatim>\<open>atoi\<close> and \<^verbatim>\<open>strtoll\<close>.

  Conventions. Names follow the source. A value of a machine type is a word, or an \<open>int\<close> where lemmas bound it
  or the wrap is written out (\<open>to_int32\<close>, \<open>in_int\<close>). Undefined behaviour and traps have no result (\<open>None\<close>, or a
  constructor of a type of ends such as \<open>fallo\<close>). What the code gets from the system is an argument:
  the pieces of the input, the outcomes of system calls, which allocations succeed, the readings of clocks and
  counters, the numbers of \<^verbatim>\<open>rand\<close>, the options that \<^verbatim>\<open>getopt\<close> delivers, the bytes of memory that nobody has
  written. Output is a list of messages or of characters. A \<^verbatim>\<open>double\<close> is a real number; where it only
  holds a quotient of integers, these are kept. In \<open>Clock\<close> the sum of the two words of the counter is rounded (\<open>doble\<close>), and in \<open>Fcyc\<close> the rounding of the product is a parameter.
  In \<open>Btest\<close> the alarm clock, the jump buffer and the call on the stack are state, and the time that each part of a test takes is an argument: the signal arrives
  when the time set has passed.

  Bounds. The loops over lists of outcomes (\<open>Cp57\<close>, \<open>Clock\<close>) end with the list, and the theorems about them say that the
  outcomes suffice. \<open>leer_peticiones\<close> has as many rounds as the text has characters, and each round takes
  one. The search of \<^verbatim>\<open>mm.c\<close> and the loops that may not end (\<open>leer_trazas\<close>, \<open>clear_loop\<close>) are partial functions;
  that they return is part of the statements. Allocators are correct for requests up to \<open>2^32 - 32\<close>
  bytes and the area of \<^verbatim>\<open>config.h\<close>, which is 20 MB.

  Not modelled. The usage texts; a run of the driver with the timers of \<^verbatim>\<open>fsecs.c\<close> that \<^verbatim>\<open>config.h\<close> does not select (the timers are, in
  \<open>Fsecs\<close>); the instruction of a test of \<^verbatim>\<open>btest.c\<close> at which the signal of the alarm clock interrupts it; the rounding in \<^verbatim>\<open>random_val\<close> of \<^verbatim>\<open>btest.c\<close>, in
  the rates and times computed from measurements and in the index; the bound of the \<^verbatim>\<open>int\<close> counters of the cache simulator (\<open>contadores_acotados\<close>
  shows that traces of fewer than \<open>2^31\<close> accesses keep them in range); a copy of a file onto itself by \<^verbatim>\<open>cp57.c\<close>; the texts of the messages, which are constructors; what the
  puzzles look like to the checker \<^verbatim>\<open>dlc\<close>, a binary; the Perl and shell scripts, Makefiles and sample files,
  which are not C.
\<close>

end
